(* ===== verification/Rust_Prelude.thy ===== *)
theory Rust_Prelude
  imports Main "HOL-Library.Word" "HOL-Library.AList" "HOL-Library.Multiset"
begin

text \<open>
  Shared vocabulary of the development: the machine types of the Rust sources, the checked and
  saturating arithmetic of \<^verbatim>\<open>usize\<close>, the parts of the standard library the sources use
  (\<^verbatim>\<open>Vec<u8>\<close> with its capacity, \<^verbatim>\<open>Iterator::position\<close> and \<^verbatim>\<open>rposition\<close>,
  \<^verbatim>\<open>HashMap\<close> as an association list whose list order is the iteration order) and the
  generic lemmas the component theories share.

  \<^verbatim>\<open>usize\<close> is \<^typ>\<open>nat\<close> with the 64-bit bound written out wherever the source
  checks or saturates; \<^verbatim>\<open>u8\<close>, \<^verbatim>\<open>u32\<close> and \<^verbatim>\<open>u64\<close> values on which the
  sources do bit arithmetic are words.
\<close>

unbundle bit_operations_syntax

type_synonym byte = "8 word"
type_synonym usize = nat
type_synonym stream_id = nat

named_theorems rust_arith \<open>unfolding rules of checked and saturating arithmetic\<close>

subsection \<open>Arithmetic on usize\<close>

definition usize_max :: nat where
  "usize_max = 2 ^ 64 - 1"

definition checked_add :: "nat \<Rightarrow> nat \<Rightarrow> nat option" where
  [rust_arith]: "checked_add a b = (if a + b \<le> usize_max then Some (a + b) else None)"

definition checked_mul :: "nat \<Rightarrow> nat \<Rightarrow> nat option" where
  [rust_arith]: "checked_mul a b = (if a * b \<le> usize_max then Some (a * b) else None)"

definition saturating_add :: "nat \<Rightarrow> nat \<Rightarrow> nat" where
  [rust_arith]: "saturating_add a b = min (a + b) usize_max"

definition saturating_mul :: "nat \<Rightarrow> nat \<Rightarrow> nat" where
  [rust_arith]: "saturating_mul a b = min (a * b) usize_max"

definition saturating_sub :: "nat \<Rightarrow> nat \<Rightarrow> nat" where
  [rust_arith]: "saturating_sub a b = a - b"

lemma checked_add_eq_Some [simp]:
  "checked_add a b = Some c \<longleftrightarrow> c = a + b \<and> a + b \<le> usize_max"
  by (auto simp: checked_add_def)

lemma checked_mul_eq_Some [simp]:
  "checked_mul a b = Some c \<longleftrightarrow> c = a * b \<and> a * b \<le> usize_max"
  by (auto simp: checked_mul_def)

lemma saturating_add_exact: "a + b \<le> usize_max \<Longrightarrow> saturating_add a b = a + b"
  by (simp add: saturating_add_def)

lemma saturating_add_le: "saturating_add a b \<le> a + b"
  by (simp add: saturating_add_def)

subsection \<open>First and last matching index\<close>

fun position :: "('a \<Rightarrow> bool) \<Rightarrow> 'a list \<Rightarrow> nat option" where
  "position P [] = None"
| "position P (x # xs) = (if P x then Some 0 else map_option Suc (position P xs))"

fun rposition :: "('a \<Rightarrow> bool) \<Rightarrow> 'a list \<Rightarrow> nat option" where
  "rposition P [] = None"
| "rposition P (x # xs) =
     (case rposition P xs of Some i \<Rightarrow> Some (Suc i) | None \<Rightarrow> if P x then Some 0 else None)"

lemma position_None: "position P xs = None \<longleftrightarrow> (\<forall>x \<in> set xs. \<not> P x)"
  by (induction xs) auto

lemma position_SomeD:
  "position P xs = Some i \<Longrightarrow> i < length xs \<and> P (xs ! i) \<and> (\<forall>j < i. \<not> P (xs ! j))"
proof (induction xs arbitrary: i)
  case (Cons x xs)
  then show ?case
    by (cases "P x") (auto simp: less_Suc_eq_0_disj nth_Cons split: nat.splits)
qed simp

lemma rposition_None: "rposition P xs = None \<longleftrightarrow> (\<forall>x \<in> set xs. \<not> P x)"
  by (induction xs) (auto split: option.splits)

lemma rposition_SomeD:
  "rposition P xs = Some i \<Longrightarrow>
     i < length xs \<and> P (xs ! i) \<and> (\<forall>j. i < j \<and> j < length xs \<longrightarrow> \<not> P (xs ! j))"
proof (induction xs arbitrary: i)
  case (Cons x xs)
  show ?case
  proof (cases "rposition P xs")
    case None
    with Cons.prems show ?thesis
      by (auto simp: rposition_None nth_Cons split: if_splits nat.splits)
  next
    case (Some k)
    with Cons show ?thesis by (auto simp: nth_Cons split: nat.splits)
  qed
qed simp

subsection \<open>Byte vectors with a capacity\<close>

record rvec =
  contents :: "byte list"
  capacity :: nat

definition vec_wf :: "rvec \<Rightarrow> bool" where
  "vec_wf v \<longleftrightarrow> length (contents v) \<le> capacity v"

abbreviation vec_len :: "rvec \<Rightarrow> nat" where
  "vec_len v \<equiv> length (contents v)"

definition vec_new :: rvec where
  "vec_new = \<lparr>contents = [], capacity = 0\<rparr>"

definition vec_with_capacity :: "nat \<Rightarrow> rvec" where
  "vec_with_capacity n = \<lparr>contents = [], capacity = n\<rparr>"

text \<open>\<^verbatim>\<open>RawVec\<close> growth for one-byte elements: twice the capacity, the requested
  length, and never under eight.\<close>

definition vec_grow :: "nat \<Rightarrow> nat \<Rightarrow> nat" where
  "vec_grow cap need = (if need \<le> cap then cap else max 8 (max (2 * cap) need))"

definition vec_clear :: "rvec \<Rightarrow> rvec" where
  "vec_clear v = v\<lparr>contents := []\<rparr>"

definition vec_extend :: "rvec \<Rightarrow> byte list \<Rightarrow> rvec" where
  "vec_extend v bs =
     \<lparr>contents = contents v @ bs, capacity = vec_grow (capacity v) (vec_len v + length bs)\<rparr>"

definition vec_resize :: "rvec \<Rightarrow> nat \<Rightarrow> byte \<Rightarrow> rvec" where
  "vec_resize v n b =
     (if n \<le> vec_len v then v\<lparr>contents := take n (contents v)\<rparr>
      else vec_extend v (replicate (n - vec_len v) b))"

lemma vec_grow_ge [simp]: "need \<le> vec_grow cap need" "cap \<le> vec_grow cap need"
  by (auto simp: vec_grow_def)

lemma vec_grow_fits [simp]: "need \<le> cap \<Longrightarrow> vec_grow cap need = cap"
  by (simp add: vec_grow_def)

lemma vec_clear_sel [simp]:
  "contents (vec_clear v) = []" "capacity (vec_clear v) = capacity v"
  by (simp_all add: vec_clear_def)

lemma vec_with_capacity_sel [simp]:
  "contents (vec_with_capacity n) = []" "capacity (vec_with_capacity n) = n"
  by (simp_all add: vec_with_capacity_def)

lemma vec_new_sel [simp]: "contents vec_new = []" "capacity vec_new = 0"
  by (simp_all add: vec_new_def)

lemma vec_extend_sel [simp]:
  "contents (vec_extend v bs) = contents v @ bs"
  "capacity (vec_extend v bs) = vec_grow (capacity v) (vec_len v + length bs)"
  by (simp_all add: vec_extend_def)

lemma vec_resize_empty [simp]:
  "contents v = [] \<Longrightarrow> contents (vec_resize v n b) = replicate n b"
  "contents v = [] \<Longrightarrow> capacity (vec_resize v n b) = vec_grow (capacity v) n"
  by (auto simp: vec_resize_def)

lemma vec_wf_clear [simp]: "vec_wf (vec_clear v)"
  by (simp add: vec_wf_def)

lemma vec_wf_with_capacity [simp]: "vec_wf (vec_with_capacity n)"
  by (simp add: vec_wf_def)

lemma vec_wf_new [simp]: "vec_wf vec_new"
  by (simp add: vec_wf_def)

lemma vec_wf_extend [simp]: "vec_wf (vec_extend v bs)"
  by (simp add: vec_wf_def)

lemma vec_wf_resize [simp]: "vec_wf v \<Longrightarrow> vec_wf (vec_resize v n b)"
  by (auto simp: vec_wf_def vec_resize_def)

subsection \<open>Stacks and bounded channels\<close>

text \<open>\<^verbatim>\<open>Vec::pop\<close> takes the last element; \<^verbatim>\<open>Vec::swap_remove\<close> fills the hole with the last
  element; \<^verbatim>\<open>try_send\<close> on a bounded channel hands the value back when the queue is full or
  the receiver is gone.\<close>

definition vec_pop :: "'a list \<Rightarrow> ('a \<times> 'a list) option" where
  "vec_pop xs = (if xs = [] then None else Some (last xs, butlast xs))"

definition swap_remove :: "'a list \<Rightarrow> nat \<Rightarrow> 'a \<times> 'a list" where
  "swap_remove xs i = (xs ! i, butlast (xs[i := last xs]))"

record 'a channel =
  chan_queue :: "'a list"
  chan_cap :: nat
  chan_open :: bool

definition chan_bounded :: "nat \<Rightarrow> 'a channel" where
  "chan_bounded n = \<lparr>chan_queue = [], chan_cap = n, chan_open = True\<rparr>"

definition try_send :: "'a channel \<Rightarrow> 'a \<Rightarrow> bool \<times> 'a channel" where
  "try_send ch x =
     (if chan_open ch \<and> length (chan_queue ch) < chan_cap ch
      then (True, ch\<lparr>chan_queue := chan_queue ch @ [x]\<rparr>) else (False, ch))"

lemma vec_pop_None [simp]: "vec_pop xs = None \<longleftrightarrow> xs = []"
  by (simp add: vec_pop_def)

lemma vec_pop_Nil [simp]: "vec_pop [] = None"
  by (simp add: vec_pop_def)

lemma vec_pop_Some: "vec_pop xs = Some (x, ys) \<longleftrightarrow> xs = ys @ [x]"
  by (auto simp: vec_pop_def)

lemma swap_remove_mset:
  assumes "i < length xs" "swap_remove xs i = (x, ys)"
  shows "x = xs ! i" "mset xs = add_mset x (mset ys)" "length ys = length xs - 1"
proof -
  obtain zs z where xs: "xs = zs @ [z]" using assms(1) by (cases xs rule: rev_cases) auto
  from assms(2) xs show x: "x = xs ! i" and "length ys = length xs - 1"
    by (auto simp: swap_remove_def)
  show "mset xs = add_mset x (mset ys)"
  proof (cases "i < length zs")
    case True
    with assms(2) xs have "ys = zs[i := z]" by (auto simp: swap_remove_def list_update_append)
    with True x xs show ?thesis by (simp add: mset_update nth_append)
  next
    case False
    with assms xs have "i = length zs" by simp
    with assms(2) x xs show ?thesis by (auto simp: swap_remove_def)
  qed
qed

text \<open>Taking the last element of one stack of a family removes exactly that element.\<close>

lemma sum_mset_bins_pop:
  "j < length bs \<Longrightarrow> bs ! j = rest @ [x] \<Longrightarrow>
     sum_list (map mset bs) = add_mset x (sum_list (map mset (bs[j := rest])))"
  by (induction bs arbitrary: j) (auto simp: nth_Cons split: nat.splits)

lemma sum_mset_bins_push:
  "j < length bs \<Longrightarrow>
     sum_list (map mset (bs[j := bs ! j @ [x]])) = add_mset x (sum_list (map mset bs))"
  by (induction bs arbitrary: j) (auto simp: nth_Cons split: nat.splits)

subsection \<open>Hash maps in iteration order\<close>

text \<open>
  A \<^verbatim>\<open>HashMap\<close> is an association list with distinct keys. The list order stands for the
  (unspecified) iteration order of the table, so a theorem about every list is a theorem about
  every iteration order.
\<close>

type_synonym ('k, 'v) hashmap = "('k \<times> 'v) list"

definition hm_wf :: "('k, 'v) hashmap \<Rightarrow> bool" where
  "hm_wf m \<longleftrightarrow> distinct (map fst m)"

abbreviation hm_get :: "('k, 'v) hashmap \<Rightarrow> 'k \<Rightarrow> 'v option" where
  "hm_get m k \<equiv> map_of m k"

abbreviation hm_insert :: "'k \<Rightarrow> 'v \<Rightarrow> ('k, 'v) hashmap \<Rightarrow> ('k, 'v) hashmap" where
  "hm_insert k v m \<equiv> AList.update k v m"

abbreviation hm_remove :: "'k \<Rightarrow> ('k, 'v) hashmap \<Rightarrow> ('k, 'v) hashmap" where
  "hm_remove k m \<equiv> AList.delete k m"

abbreviation hm_contains :: "('k, 'v) hashmap \<Rightarrow> 'k \<Rightarrow> bool" where
  "hm_contains m k \<equiv> map_of m k \<noteq> None"

lemma hm_wf_Nil [simp]: "hm_wf []"
  by (simp add: hm_wf_def)

lemma hm_wf_insert [simp]: "hm_wf m \<Longrightarrow> hm_wf (hm_insert k v m)"
  by (simp add: hm_wf_def distinct_update)

lemma hm_wf_remove [simp]: "hm_wf m \<Longrightarrow> hm_wf (hm_remove k m)"
  by (simp add: hm_wf_def distinct_delete)

lemma hm_wf_filter [simp]: "hm_wf m \<Longrightarrow> hm_wf (filter P m)"
  by (auto simp: hm_wf_def intro: distinct_map_filter)

lemma hm_get_insert: "hm_get (hm_insert k v m) k' = (if k' = k then Some v else hm_get m k')"
  by (simp add: update_conv')

lemma hm_get_remove: "hm_get (hm_remove k m) k' = (if k' = k then None else hm_get m k')"
  by (simp add: delete_conv')

lemmas hm_simps = hm_get_insert hm_get_remove

lemma hm_get_filter_key:
  "hm_get (filter (\<lambda>(k, v). P k) m) k = (if P k then hm_get m k else None)"
  by (induction m) auto

lemma hm_get_filter:
  "hm_wf m \<Longrightarrow> hm_get (filter (\<lambda>(k, v). P k v) m) k =
     (case hm_get m k of Some v \<Rightarrow> if P k v then Some v else None | None \<Rightarrow> None)"
proof (induction m)
  case (Cons a m)
  obtain k' v' where a: "a = (k', v')" by (cases a)
  from Cons.prems a have m: "hm_wf m" and fresh: "k' \<notin> fst ` set m"
    by (auto simp: hm_wf_def)
  have none: "map_of m k' = None" using fresh by (simp add: map_of_eq_None_iff)
  show ?case
    using Cons.IH [OF m] none by (auto simp: a split: option.splits)
qed simp

subsection \<open>Sums over association lists\<close>

definition hm_sum :: "('v \<Rightarrow> nat) \<Rightarrow> ('k, 'v) hashmap \<Rightarrow> nat" where
  "hm_sum f m = sum_list (map (f \<circ> snd) m)"

lemma hm_sum_simps [simp]:
  "hm_sum f [] = 0" "hm_sum f ((k, v) # m) = f v + hm_sum f m"
  by (simp_all add: hm_sum_def)

lemma hm_sum_append [simp]: "hm_sum f (m @ m') = hm_sum f m + hm_sum f m'"
  by (simp add: hm_sum_def)

lemma hm_sum_insert_fresh: "hm_get m k = None \<Longrightarrow> hm_sum f (hm_insert k v m) = f v + hm_sum f m"
  by (induction m) (auto split: if_splits)

lemma hm_sum_insert:
  "hm_wf m \<Longrightarrow> hm_sum f (hm_insert k v m) + (case hm_get m k of Some w \<Rightarrow> f w | None \<Rightarrow> 0)
     = f v + hm_sum f m"
proof (induction m)
  case (Cons a m)
  then show ?case by (cases a) (auto simp: hm_wf_def split: option.splits)
qed simp

lemma hm_sum_remove:
  "hm_wf m \<Longrightarrow> hm_sum f (hm_remove k m) + (case hm_get m k of Some w \<Rightarrow> f w | None \<Rightarrow> 0)
     = hm_sum f m"
proof (induction m)
  case (Cons a m)
  obtain k' v where a: "a = (k', v)" by (cases a)
  show ?case
  proof (cases "k' = k")
    case True
    with Cons.prems a have "k \<notin> fst ` set m" by (simp add: hm_wf_def)
    then have "hm_remove k m = m" and "hm_get m k = None"
      by (auto simp: delete_id map_of_eq_None_iff)
    with a True show ?thesis by simp
  next
    case False
    with Cons a show ?thesis by (auto simp: hm_wf_def split: option.splits)
  qed
qed simp

lemma hm_sum_filter_split:
  "hm_sum f (filter (\<lambda>(k, v). P k) m) + hm_sum f (filter (\<lambda>(k, v). \<not> P k) m) = hm_sum f m"
  by (induction m) auto

end
