(* ===== verification/Admission.thy ===== *)
theory Admission
  imports Rust_Prelude
begin

text \<open>
  The outbound admission window: \<^verbatim>\<open>proof_core/admission.rs\<close> (pure accounting),
  \<^verbatim>\<open>outbound_admission.rs\<close> (the shared counter, here run without interference; the
  interleaved version is in theory \<open>Admission_Concurrency\<close>) and \<^verbatim>\<open>write_outcome.rs\<close>
  (what JavaScript is told). One unit is one payload byte; a FIN without payload counts one unit.
\<close>

subsection \<open>Pure accounting\<close>

record admission_watermarks =
  wm_high :: nat
  wm_low :: nat

definition admission_watermarks_new :: "nat \<Rightarrow> nat \<Rightarrow> admission_watermarks" where
  "admission_watermarks_new high low =
     (let high' = max high 1; low' = min low (saturating_sub high' 1)
      in \<lparr>wm_high = high', wm_low = low'\<rparr>)"

datatype admit_outcome = Admitted nat | Backpressured

definition outbound_payload_units :: "nat \<Rightarrow> bool \<Rightarrow> nat" where
  "outbound_payload_units payload_len fin = max payload_len (of_bool fin)"

definition accepted_outbound_payload_units :: "nat \<Rightarrow> bool \<Rightarrow> nat \<Rightarrow> bool \<Rightarrow> nat" where
  "accepted_outbound_payload_units payload_len fin written fin_accepted =
     (if payload_len = 0 then of_bool (fin \<and> fin_accepted)
      else let accepted_payload = min written payload_len in
        if fin \<and> \<not> fin_accepted \<and> accepted_payload = payload_len
        then saturating_sub accepted_payload 1
        else accepted_payload)"

definition admit_next :: "nat \<Rightarrow> nat \<Rightarrow> nat \<Rightarrow> admit_outcome" where
  "admit_next current units high_water =
     (if units = 0 then Admitted current
      else let limit = max high_water units in
        case checked_add current units of
          None \<Rightarrow> Backpressured
        | Some next_queued \<Rightarrow>
            if next_queued \<le> limit then Admitted next_queued else Backpressured)"

definition release_next :: "nat \<Rightarrow> nat \<Rightarrow> nat" where
  "release_next current units = saturating_sub current units"

definition release_emits_write_ready :: "nat \<Rightarrow> nat \<Rightarrow> bool \<Rightarrow> bool" where
  "release_emits_write_ready next_queued low_water was_pressured \<longleftrightarrow>
     next_queued \<le> low_water \<and> was_pressured"

subsection \<open>The shared window, one thread at a time\<close>

definition OUTBOUND_ADMISSION_HIGH_WATER :: nat where
  "OUTBOUND_ADMISSION_HIGH_WATER = 4 * 1024 * 1024"

definition OUTBOUND_ADMISSION_LOW_WATER :: nat where
  "OUTBOUND_ADMISSION_LOW_WATER = 2 * 1024 * 1024"

record outbound_admission =
  queued :: nat
  high_water :: nat
  low_water :: nat
  pressured :: bool

definition outbound_admission_new :: "nat \<Rightarrow> nat \<Rightarrow> outbound_admission" where
  "outbound_admission_new high low =
     (let wm = admission_watermarks_new high low in
      \<lparr>queued = 0, high_water = wm_high wm, low_water = wm_low wm, pressured = False\<rparr>)"

definition outbound_admission_default :: outbound_admission where
  "outbound_admission_default =
     outbound_admission_new OUTBOUND_ADMISSION_HIGH_WATER OUTBOUND_ADMISSION_LOW_WATER"

text \<open>Without interference the compare-exchange succeeds at once and the re-load after
  \<^verbatim>\<open>pressured.store\<close> reads the value already seen, so the retry loop runs once.\<close>

definition try_admit :: "outbound_admission \<Rightarrow> nat \<Rightarrow> bool \<times> outbound_admission" where
  "try_admit a units =
     (if units = 0 then (True, a)
      else case admit_next (queued a) units (high_water a) of
        Admitted next_queued \<Rightarrow> (True, a\<lparr>queued := next_queued\<rparr>)
      | Backpressured \<Rightarrow> (False, a\<lparr>pressured := True\<rparr>))"

definition release :: "outbound_admission \<Rightarrow> nat \<Rightarrow> bool \<times> outbound_admission" where
  "release a units =
     (if units = 0 then (False, a)
      else let next = release_next (queued a) units;
               was_pressured = (if next \<le> low_water a then pressured a else False);
               pressured' = (if next \<le> low_water a then False else pressured a)
           in (release_emits_write_ready next (low_water a) was_pressured,
               a\<lparr>queued := next, pressured := pressured'\<rparr>))"

definition admission_inv :: "outbound_admission \<Rightarrow> bool" where
  "admission_inv a \<longleftrightarrow> low_water a < high_water a \<and> queued a \<le> usize_max"

subsection \<open>What JavaScript is told\<close>

definition STREAM_SEND_STATUS_ACCEPTED :: byte where
  "STREAM_SEND_STATUS_ACCEPTED = 0"

definition STREAM_SEND_STATUS_BACKPRESSURE :: byte where
  "STREAM_SEND_STATUS_BACKPRESSURE = 1"

record js_stream_send_outcome =
  sso_status :: byte
  sso_written :: int

definition units_to_i64 :: "nat \<Rightarrow> int" where
  "units_to_i64 units = (if units \<le> 2 ^ 63 - 1 then int units else 2 ^ 63 - 1)"

definition outcome_accepted :: "nat \<Rightarrow> bool \<Rightarrow> js_stream_send_outcome" where
  "outcome_accepted payload_len fin =
     \<lparr>sso_status = STREAM_SEND_STATUS_ACCEPTED,
      sso_written = units_to_i64 (outbound_payload_units payload_len fin)\<rparr>"

definition outcome_backpressured :: js_stream_send_outcome where
  "outcome_backpressured = \<lparr>sso_status = STREAM_SEND_STATUS_BACKPRESSURE, sso_written = 0\<rparr>"

subsection \<open>Units\<close>

lemma units_zero_iff [simp]: "outbound_payload_units n fin = 0 \<longleftrightarrow> n = 0 \<and> \<not> fin"
  by (simp add: outbound_payload_units_def)

lemma units_simps [simp]:
  "outbound_payload_units n False = n"
  "outbound_payload_units 0 True = 1"
  "0 < n \<Longrightarrow> outbound_payload_units n fin = n"
  by (auto simp: outbound_payload_units_def)

lemma accepted_le_units:
  "accepted_outbound_payload_units n fin w fa \<le> outbound_payload_units n fin"
  by (auto simp: accepted_outbound_payload_units_def outbound_payload_units_def Let_def
      saturating_sub_def)

text \<open>A send splits its units into what quiche accepted and what stays queued: nothing is
  counted twice and nothing is lost, for any prefix the transport reports.\<close>

lemma accepted_plus_rest:
  assumes "written \<le> payload_len" and "fin_accepted \<Longrightarrow> fin \<and> written = payload_len"
  shows "accepted_outbound_payload_units payload_len fin written fin_accepted
       + outbound_payload_units (payload_len - written) (fin \<and> \<not> fin_accepted)
       = outbound_payload_units payload_len fin"
  using assms
  by (cases fin; cases fin_accepted)
     (auto simp: accepted_outbound_payload_units_def outbound_payload_units_def Let_def
       saturating_sub_def)

subsection \<open>Admission\<close>

lemma watermarks_ordered:
  "wm_low (admission_watermarks_new h l) < wm_high (admission_watermarks_new h l)"
  by (auto simp: admission_watermarks_new_def Let_def saturating_sub_def)

lemma admission_inv_new [simp]: "admission_inv (outbound_admission_new h l)"
  using watermarks_ordered by (simp add: admission_inv_def outbound_admission_new_def Let_def)

lemma admit_next_AdmittedD:
  assumes "admit_next c u h = Admitted n" and "0 < u"
  shows "n = c + u" "n \<le> usize_max" "n \<le> max h u"
  using assms by (auto simp: admit_next_def Let_def split: option.splits if_splits)

lemma admit_next_BackpressuredD:
  assumes "admit_next c u h = Backpressured"
  shows "0 < u" "max h u < c + u \<or> usize_max < c + u"
  using assms by (auto simp: admit_next_def Let_def checked_add_def split: option.splits if_splits)

lemma admit_next_empty_window:
  "u \<le> usize_max \<Longrightarrow> admit_next 0 u h = Admitted u"
  by (auto simp: admit_next_def Let_def checked_add_def)

lemma backpressured_nonempty:
  "admit_next c u h = Backpressured \<Longrightarrow> u \<le> usize_max \<Longrightarrow> 0 < c"
  using admit_next_empty_window [of u h] by (cases "c = 0") auto

lemma try_admit_config [simp]:
  "high_water (snd (try_admit a u)) = high_water a"
  "low_water (snd (try_admit a u)) = low_water a"
  by (auto simp: try_admit_def split: admit_outcome.splits)

lemma release_config [simp]:
  "high_water (snd (release a u)) = high_water a"
  "low_water (snd (release a u)) = low_water a"
  by (auto simp: release_def Let_def)

lemma release_queued [simp]: "queued (snd (release a u)) = queued a - u"
  by (auto simp: release_def Let_def release_next_def saturating_sub_def)

lemma release_write_ready:
  "fst (release a u) \<longleftrightarrow> 0 < u \<and> queued a - u \<le> low_water a \<and> pressured a"
  by (auto simp: release_def Let_def release_next_def saturating_sub_def
      release_emits_write_ready_def)

lemma release_pressured:
  "0 < u \<Longrightarrow> pressured (snd (release a u)) \<longleftrightarrow> pressured a \<and> low_water a < queued a - u"
  by (auto simp: release_def Let_def release_next_def saturating_sub_def)

lemma try_admit_cases:
  assumes "0 < u"
  obtains "fst (try_admit a u)" "snd (try_admit a u) = a\<lparr>queued := queued a + u\<rparr>"
      "queued a + u \<le> usize_max" "queued a + u \<le> max (high_water a) u"
  | "\<not> fst (try_admit a u)" "snd (try_admit a u) = a\<lparr>pressured := True\<rparr>"
      "max (high_water a) u < queued a + u \<or> usize_max < queued a + u"
  using assms admit_next_AdmittedD admit_next_BackpressuredD
  by (cases "admit_next (queued a) u (high_water a)") (fastforce simp: try_admit_def)+

lemma admission_inv_try_admit: "admission_inv a \<Longrightarrow> admission_inv (snd (try_admit a u))"
  using try_admit_cases [of u a "admission_inv (snd (try_admit a u))"]
  by (cases "u = 0") (auto simp: admission_inv_def try_admit_def)

lemma admission_inv_release: "admission_inv a \<Longrightarrow> admission_inv (snd (release a u))"
  by (auto simp: admission_inv_def)

end
