(* ===== verification/Admission_Concurrency.thy ===== *)
theory Admission_Concurrency
  imports Admission
begin

text \<open>
  The admission window under interleaving. \<^verbatim>\<open>OutboundAdmission::try_admit\<close> runs on the
  JavaScript thread and \<^verbatim>\<open>OutboundAdmission::release\<close> on the worker side; every atomic
  access of the two functions is one step. A writer that is refused parks until a
  \<^verbatim>\<open>write_ready\<close> event is delivered, and the JavaScript thread delivers an event only between
  two calls. Two history variables: \<open>credit\<close>, the units admitted and not yet handed to a
  \<^verbatim>\<open>release\<close>, and \<open>peak\<close>, the largest write attempted.

  The flag \<open>tso\<close> selects the memory model: with \<^term>\<open>False\<close> every access takes
  effect at once (sequential consistency); with \<^term>\<open>True\<close> the store
  \<^verbatim>\<open>pressured.store(true, Release)\<close> goes through the store buffer of the JavaScript thread,
  as an x86 store does, and the following \<^verbatim>\<open>queued.load(Acquire)\<close> may overtake it.
\<close>

datatype writer_pc =
    WIdle
  | WLoad nat
  | WCas nat nat nat
  | WStore nat
  | WReload nat

datatype releaser_pc =
    RIdle
  | RLoad nat
  | RCas nat nat nat
  | RSwap nat
  | REmit bool

record system =
  adm :: outbound_admission
  writer :: writer_pc
  releasers :: "releaser_pc list"
  inflight :: nat
  parked :: bool
  sbuf :: bool
  credit :: nat
  peak :: nat

definition system_init :: "outbound_admission \<Rightarrow> nat \<Rightarrow> system" where
  "system_init a n = \<lparr>adm = a, writer = WIdle, releasers = replicate n RIdle,
     inflight = 0, parked = False, sbuf = False, credit = 0, peak = 0\<rparr>"

abbreviation set_releaser :: "nat \<Rightarrow> releaser_pc \<Rightarrow> system \<Rightarrow> system" where
  "set_releaser i pc s \<equiv> s\<lparr>releasers := (releasers s)[i := pc]\<rparr>"

abbreviation set_queued :: "nat \<Rightarrow> system \<Rightarrow> system" where
  "set_queued n s \<equiv> s\<lparr>adm := (adm s)\<lparr>queued := n\<rparr>\<rparr>"

abbreviation set_pressured :: "bool \<Rightarrow> system \<Rightarrow> system" where
  "set_pressured b s \<equiv> s\<lparr>adm := (adm s)\<lparr>pressured := b\<rparr>\<rparr>"

inductive admission_step :: "bool \<Rightarrow> system \<Rightarrow> system \<Rightarrow> bool" for tso :: bool where
  write_call:
    "\<lbrakk>writer s = WIdle; 0 < u; u \<le> usize_max\<rbrakk>
       \<Longrightarrow> admission_step tso s (s\<lparr>writer := WLoad u, peak := max (peak s) u\<rparr>)"
| write_load_admit:
    "\<lbrakk>writer s = WLoad u; admit_next (queued (adm s)) u (high_water (adm s)) = Admitted n\<rbrakk>
       \<Longrightarrow> admission_step tso s (s\<lparr>writer := WCas u (queued (adm s)) n\<rparr>)"
| write_load_refuse:
    "\<lbrakk>writer s = WLoad u; admit_next (queued (adm s)) u (high_water (adm s)) = Backpressured\<rbrakk>
       \<Longrightarrow> admission_step tso s (s\<lparr>writer := WStore u\<rparr>)"
| write_cas_ok:
    "\<lbrakk>writer s = WCas u c n; queued (adm s) = c; \<not> sbuf s\<rbrakk>
       \<Longrightarrow> admission_step tso s ((set_queued n s)\<lparr>writer := WIdle, credit := credit s + u\<rparr>)"
| write_cas_retry:
    "\<lbrakk>writer s = WCas u c n; queued (adm s) \<noteq> c; \<not> sbuf s\<rbrakk>
       \<Longrightarrow> admission_step tso s (s\<lparr>writer := WLoad u\<rparr>)"
| write_store_sc:
    "\<lbrakk>writer s = WStore u; \<not> tso\<rbrakk>
       \<Longrightarrow> admission_step tso s ((set_pressured True s)\<lparr>writer := WReload u\<rparr>)"
| write_store_tso:
    "\<lbrakk>writer s = WStore u; tso\<rbrakk>
       \<Longrightarrow> admission_step tso s (s\<lparr>sbuf := True, writer := WReload u\<rparr>)"
| write_drain:
    "sbuf s \<Longrightarrow> admission_step tso s ((set_pressured True s)\<lparr>sbuf := False\<rparr>)"
| write_reload_admit:
    "\<lbrakk>writer s = WReload u; admit_next (queued (adm s)) u (high_water (adm s)) = Admitted n\<rbrakk>
       \<Longrightarrow> admission_step tso s (s\<lparr>writer := WLoad u\<rparr>)"
| write_reload_refuse:
    "\<lbrakk>writer s = WReload u; admit_next (queued (adm s)) u (high_water (adm s)) = Backpressured\<rbrakk>
       \<Longrightarrow> admission_step tso s (s\<lparr>writer := WIdle, parked := True\<rparr>)"
| deliver_write_ready:
    "\<lbrakk>writer s = WIdle; 0 < inflight s\<rbrakk>
       \<Longrightarrow> admission_step tso s (s\<lparr>inflight := inflight s - 1, parked := False\<rparr>)"
| release_call:
    "\<lbrakk>i < length (releasers s); releasers s ! i = RIdle; 0 < u; u \<le> credit s\<rbrakk>
       \<Longrightarrow> admission_step tso s ((set_releaser i (RLoad u) s)\<lparr>credit := credit s - u\<rparr>)"
| release_load:
    "\<lbrakk>i < length (releasers s); releasers s ! i = RLoad u\<rbrakk>
       \<Longrightarrow> admission_step tso s
            (set_releaser i (RCas u (queued (adm s)) (release_next (queued (adm s)) u)) s)"
| release_cas_ok:
    "\<lbrakk>i < length (releasers s); releasers s ! i = RCas u c n; queued (adm s) = c\<rbrakk>
       \<Longrightarrow> admission_step tso s (set_releaser i (RSwap n) (set_queued n s))"
| release_cas_retry:
    "\<lbrakk>i < length (releasers s); releasers s ! i = RCas u c n; queued (adm s) \<noteq> c\<rbrakk>
       \<Longrightarrow> admission_step tso s (set_releaser i (RLoad u) s)"
| release_swap_low:
    "\<lbrakk>i < length (releasers s); releasers s ! i = RSwap n; n \<le> low_water (adm s)\<rbrakk>
       \<Longrightarrow> admission_step tso s (set_releaser i
             (REmit (release_emits_write_ready n (low_water (adm s)) (pressured (adm s))))
             (set_pressured False s))"
| release_swap_high:
    "\<lbrakk>i < length (releasers s); releasers s ! i = RSwap n; low_water (adm s) < n\<rbrakk>
       \<Longrightarrow> admission_step tso s (set_releaser i
             (REmit (release_emits_write_ready n (low_water (adm s)) False)) s)"
| release_emit:
    "\<lbrakk>i < length (releasers s); releasers s ! i = REmit b\<rbrakk>
       \<Longrightarrow> admission_step tso s
            ((set_releaser i RIdle s)\<lparr>inflight := inflight s + of_bool b\<rparr>)"

inductive admission_reachable :: "bool \<Rightarrow> system \<Rightarrow> system \<Rightarrow> bool" for tso :: bool where
  reach_refl: "admission_reachable tso s s"
| reach_step: "admission_reachable tso s t \<Longrightarrow> admission_step tso t v \<Longrightarrow> admission_reachable tso s v"

definition quiescent :: "system \<Rightarrow> bool" where
  "quiescent s \<longleftrightarrow>
     writer s = WIdle \<and> list_all (\<lambda>r. r = RIdle) (releasers s) \<and> inflight s = 0 \<and> \<not> sbuf s"

lemma admission_reachable_invariant:
  assumes "admission_reachable tso s t" and "P s"
    and "\<And>s t. P s \<Longrightarrow> admission_step tso s t \<Longrightarrow> P t"
  shows "P t"
  using assms by (induction rule: admission_reachable.induct) auto

subsection \<open>Accounting is exact under every interleaving\<close>

fun returning :: "releaser_pc \<Rightarrow> nat" where
  "returning (RLoad u) = u"
| "returning (RCas u c n) = u"
| "returning _ = 0"

text \<open>Units that left \<open>credit\<close> but have not been subtracted yet are held by a releaser.\<close>

definition accounting_inv :: "system \<Rightarrow> bool" where
  "accounting_inv s \<longleftrightarrow>
     queued (adm s) = credit s + sum_list (map returning (releasers s)) \<and>
     (\<forall>i < length (releasers s). \<forall>u c n. releasers s ! i = RCas u c n \<longrightarrow> n = c - u) \<and>
     (\<forall>u c n. writer s = WCas u c n \<longrightarrow> n = c + u)"

lemma sum_list_map_update:
  "i < length xs \<Longrightarrow> sum_list (map f (xs[i := x])) + f (xs ! i) = sum_list (map f xs) + (f x :: nat)"
  by (induction xs arbitrary: i) (auto simp: nth_Cons split: nat.splits)

lemma sum_list_map_member_le:
  "i < length xs \<Longrightarrow> f (xs ! i) \<le> (sum_list (map f xs) :: nat)"
  by (simp add: member_le_sum_list)

lemma accounting_step:
  assumes "admission_step tso s t" and "accounting_inv s"
    and writer_pos: "\<And>u. writer s = WLoad u \<Longrightarrow> 0 < u"
  shows "accounting_inv t"
  using assms(1,2)
proof cases
  case (write_load_admit u n)
  with assms(2) admit_next_AdmittedD(1) [OF write_load_admit(3)] writer_pos show ?thesis
    by (auto simp: accounting_inv_def)
next
  case (release_call i u)
  with assms(2) sum_list_map_update [of i "releasers s" returning "RLoad u"] show ?thesis
    by (auto simp: accounting_inv_def nth_list_update)
next
  case (release_load i u)
  with assms(2) sum_list_map_update [of i "releasers s" returning
      "RCas u (queued (adm s)) (release_next (queued (adm s)) u)"] show ?thesis
    by (auto simp: accounting_inv_def nth_list_update release_next_def saturating_sub_def)
next
  case (release_cas_ok i u c n)
  with assms(2) sum_list_map_update [of i "releasers s" returning "RSwap n"]
    sum_list_map_member_le [of i "releasers s" returning] show ?thesis
    by (auto simp: accounting_inv_def nth_list_update)
next
  case (release_cas_retry i u c n)
  with assms(2) sum_list_map_update [of i "releasers s" returning "RLoad u"] show ?thesis
    by (auto simp: accounting_inv_def nth_list_update)
next
  case (release_swap_low i n)
  with assms(2) sum_list_map_update [of i "releasers s" returning
      "REmit (release_emits_write_ready n (low_water (adm s)) (pressured (adm s)))"] show ?thesis
    by (auto simp: accounting_inv_def nth_list_update)
next
  case (release_swap_high i n)
  with assms(2) sum_list_map_update [of i "releasers s" returning
      "REmit (release_emits_write_ready n (low_water (adm s)) False)"] show ?thesis
    by (auto simp: accounting_inv_def nth_list_update)
next
  case (release_emit i b)
  with assms(2) sum_list_map_update [of i "releasers s" returning RIdle] show ?thesis
    by (auto simp: accounting_inv_def nth_list_update)
qed (auto simp: accounting_inv_def)

subsection \<open>The window is bounded under every interleaving\<close>

fun writer_ok :: "nat \<Rightarrow> nat \<Rightarrow> writer_pc \<Rightarrow> bool" where
  "writer_ok high p WIdle = True"
| "writer_ok high p (WLoad u) = (0 < u \<and> u \<le> usize_max \<and> u \<le> p)"
| "writer_ok high p (WCas u c n) = (0 < u \<and> u \<le> usize_max \<and> u \<le> p \<and> c < n \<and> n \<le> max high u \<and> n \<le> usize_max)"
| "writer_ok high p (WStore u) = (0 < u \<and> u \<le> usize_max \<and> u \<le> p)"
| "writer_ok high p (WReload u) = (0 < u \<and> u \<le> usize_max \<and> u \<le> p)"

definition bound_inv :: "system \<Rightarrow> bool" where
  "bound_inv s \<longleftrightarrow>
     queued (adm s) \<le> max (high_water (adm s)) (peak s) \<and> queued (adm s) \<le> usize_max \<and>
     writer_ok (high_water (adm s)) (peak s) (writer s) \<and>
     (\<forall>i < length (releasers s). \<forall>u c n. releasers s ! i = RCas u c n \<longrightarrow> n \<le> c)"

lemma bound_step: "admission_step tso s t \<Longrightarrow> bound_inv s \<Longrightarrow> bound_inv t"
proof (induction rule: admission_step.induct)
  case (write_load_admit s u n)
  then have "0 < u" by (simp add: bound_inv_def)
  with admit_next_AdmittedD [OF write_load_admit.hyps(2)] write_load_admit show ?case
    by (auto simp: bound_inv_def)
next
  case (release_cas_ok i s u c n)
  then have "n \<le> queued (adm s)" by (auto simp: bound_inv_def)
  with release_cas_ok show ?case by (auto simp: bound_inv_def nth_list_update)
qed (auto simp: bound_inv_def nth_list_update release_next_def saturating_sub_def)

lemma admission_step_config:
  "admission_step tso s t \<Longrightarrow>
     high_water (adm t) = high_water (adm s) \<and> low_water (adm t) = low_water (adm s)"
  by (induction rule: admission_step.induct) auto

subsection \<open>No lost wakeup under sequential consistency\<close>

abbreviation some_releaser :: "(releaser_pc \<Rightarrow> bool) \<Rightarrow> system \<Rightarrow> bool" where
  "some_releaser P s \<equiv> \<exists>i < length (releasers s). P (releasers s ! i)"

definition low_swap :: "system \<Rightarrow> releaser_pc \<Rightarrow> bool" where
  "low_swap s r \<longleftrightarrow> (\<exists>n. r = RSwap n \<and> n \<le> low_water (adm s))"

text \<open>A parked writer is always owed a wakeup: an event is in flight, a releaser is about to
  emit one, or the pressure flag is up and either units are still queued (their release will
  emit it) or a releaser is about to read the flag.\<close>

definition wake_inv :: "system \<Rightarrow> bool" where
  "wake_inv s \<longleftrightarrow> \<not> sbuf s \<and>
     (parked s \<and> inflight s = 0 \<longrightarrow>
        some_releaser (\<lambda>r. r = REmit True) s \<or>
        (pressured (adm s) \<and> (0 < queued (adm s) \<or> some_releaser (low_swap s) s))) \<and>
     (\<forall>u. writer s = WReload u \<and> inflight s = 0 \<longrightarrow>
        some_releaser (\<lambda>r. r = REmit True) s \<or> pressured (adm s))"

lemma some_kept:
  "\<exists>j < length xs. P (xs ! j) \<Longrightarrow> i < length xs \<Longrightarrow> \<not> P (xs ! i) \<Longrightarrow>
     \<exists>j < length xs. P (xs[i := r] ! j)"
  by (metis nth_list_update_neq)

lemma some_new: "i < length xs \<Longrightarrow> P r \<Longrightarrow> \<exists>j < length xs. P (xs[i := r] ! j)"
  by (metis nth_list_update_eq)

text \<open>A releaser that moves between program points that owe no wakeup keeps the invariant.\<close>

lemma wake_inv_set_releaser:
  assumes "wake_inv s" "i < length (releasers s)"
    "releasers s ! i \<noteq> REmit True" "\<not> low_swap s (releasers s ! i)"
  shows "wake_inv (set_releaser i r s)"
  using assms some_kept [of "releasers s" "\<lambda>r. r = REmit True" i r]
    some_kept [of "releasers s" "low_swap s" i r]
  by (auto simp: wake_inv_def low_swap_def)

lemma wake_step:
  assumes "admission_step False s t" and "bound_inv s" and "wake_inv s"
  shows "wake_inv t"
  using assms
proof (induction rule: admission_step.induct)
  case (write_cas_ok s u c n)
  then have "0 < n" by (simp add: bound_inv_def)
  with write_cas_ok show ?case by (auto simp: wake_inv_def low_swap_def)
next
  case (write_reload_refuse s u)
  then have "u \<le> usize_max" by (simp add: bound_inv_def)
  with write_reload_refuse backpressured_nonempty have "0 < queued (adm s)" by blast
  with write_reload_refuse show ?case by (auto simp: wake_inv_def)
next
  case (release_call i s u)
  then have "wake_inv (set_releaser i (RLoad u) s)"
    by (intro wake_inv_set_releaser) (auto simp: low_swap_def)
  then show ?case by (simp add: wake_inv_def low_swap_def)
next
  case (release_load i s u)
  then show ?case by (intro wake_inv_set_releaser) (auto simp: low_swap_def)
next
  case (release_cas_ok i s u c n)
  then have "wake_inv (set_releaser i (RSwap n) s)"
    by (intro wake_inv_set_releaser) (auto simp: low_swap_def)
  moreover have "some_releaser (low_swap s) (set_releaser i (RSwap n) s)" if "n = 0"
    using release_cas_ok.hyps that some_new [of i "releasers s" "low_swap s" "RSwap n"]
    by (auto simp: low_swap_def)
  ultimately show ?case by (auto simp: wake_inv_def low_swap_def)
next
  case (release_cas_retry i s u c n)
  then show ?case by (intro wake_inv_set_releaser) (auto simp: low_swap_def)
next
  case (release_swap_low i s n)
  then show ?case
    using some_kept [of "releasers s" "\<lambda>r. r = REmit True" i]
      some_new [of i "releasers s" "\<lambda>r. r = REmit True"]
    by (cases "pressured (adm s)") (auto simp: wake_inv_def release_emits_write_ready_def)
next
  case (release_swap_high i s n)
  then show ?case by (intro wake_inv_set_releaser) (auto simp: low_swap_def)
next
  case (release_emit i s b)
  show ?case
  proof (cases b)
    case False
    with release_emit have "wake_inv (set_releaser i RIdle s)"
      by (intro wake_inv_set_releaser) (auto simp: low_swap_def)
    with False show ?thesis by (simp add: wake_inv_def low_swap_def)
  qed (use release_emit in \<open>auto simp: wake_inv_def\<close>)
qed (auto simp: wake_inv_def low_swap_def)

subsection \<open>Reachable states\<close>

abbreviation admission_start :: "nat \<Rightarrow> nat \<Rightarrow> nat \<Rightarrow> system" where
  "admission_start high low threads \<equiv> system_init (outbound_admission_new high low) threads"

lemma start_invs:
  "accounting_inv (admission_start h l n)" "bound_inv (admission_start h l n)"
  "wake_inv (admission_start h l n)"
  by (auto simp: accounting_inv_def bound_inv_def wake_inv_def system_init_def
      outbound_admission_new_def Let_def sum_list_replicate)

lemma reachable_invs:
  assumes "admission_reachable tso (admission_start h l n) s"
  shows "accounting_inv s \<and> bound_inv s"
  using assms
proof (rule admission_reachable_invariant)
  show "accounting_inv (admission_start h l n) \<and> bound_inv (admission_start h l n)"
    by (simp add: start_invs)
  fix s t assume "accounting_inv s \<and> bound_inv s" "admission_step tso s t"
  moreover from this have "0 < u" if "writer s = WLoad u" for u
    using that by (simp add: bound_inv_def)
  ultimately show "accounting_inv t \<and> bound_inv t"
    using accounting_step [of tso s t] bound_step [of tso s t] by blast
qed

lemma reachable_wake_inv:
  assumes "admission_reachable False (admission_start h l n) s"
  shows "wake_inv s \<and> bound_inv s"
  using assms
proof (rule admission_reachable_invariant)
  show "wake_inv (admission_start h l n) \<and> bound_inv (admission_start h l n)"
    by (simp add: start_invs)
qed (use wake_step bound_step in blast)

lemma reachable_config:
  assumes "admission_reachable tso s t"
  shows "high_water (adm t) = high_water (adm s) \<and> low_water (adm t) = low_water (adm s)"
  using assms
  by (rule admission_reachable_invariant) (simp_all add: admission_step_config)

lemma quiescent_returning: "quiescent s \<Longrightarrow> sum_list (map returning (releasers s)) = 0"
  by (auto simp: quiescent_def list_all_iff)

text \<open>
  C19. Accounting under interleaving. In every state that any interleaving of the JavaScript
  thread and the releasing threads can reach, in either memory model, the shared counter is
  exactly the units admitted and not yet released, so the saturating subtraction never hides an
  underflow, and it never exceeds the larger of the high watermark and the largest single write.
\<close>

theorem admission_accounting_exact:
  assumes "admission_reachable tso (admission_start high low threads) s"
  shows "queued (adm s) = credit s + sum_list (map returning (releasers s))
       \<and> queued (adm s) \<le> max (high_water (adm s)) (peak s)
       \<and> high_water (adm s) = max high 1"
  using reachable_invs [OF assms] reachable_config [OF assms]
  by (simp add: accounting_inv_def bound_inv_def system_init_def outbound_admission_new_def
      admission_watermarks_new_def Let_def)

text \<open>
  C20. No lost wakeup. Under sequential consistency, when a writer is parked and every thread is
  at rest with no \<^verbatim>\<open>write_ready\<close> event in flight, units are still queued and releasing them
  is certain to emit the event: a writer refused by \<^verbatim>\<open>try_admit\<close> is never left waiting on an
  empty window.
\<close>

theorem admission_no_lost_wakeup:
  assumes "admission_reachable False (admission_start high low threads) s"
    and "quiescent s" and "parked s"
  shows "0 < credit s \<and> pressured (adm s) \<and> fst (release (adm s) (credit s))"
proof -
  from assms(2) have idle: "\<forall>i < length (releasers s). releasers s ! i = RIdle"
    by (auto simp: quiescent_def list_all_length)
  with reachable_wake_inv [OF assms(1)] assms(2,3)
  have q: "0 < queued (adm s)" and p: "pressured (adm s)"
    by (auto simp: wake_inv_def quiescent_def low_swap_def)
  moreover have "credit s = queued (adm s)"
    using reachable_invs [OF assms(1)] quiescent_returning [OF assms(2)]
    by (simp add: accounting_inv_def)
  ultimately show ?thesis by (simp add: release_write_ready)
qed

text \<open>A concrete run: the window of ten units is filled, a further write is refused and parks.\<close>

definition parked_run :: system where
  "parked_run = \<lparr>adm = \<lparr>queued = 10, high_water = 10, low_water = 5, pressured = True\<rparr>,
     writer = WIdle, releasers = [RIdle], inflight = 0, parked = True, sbuf = False,
     credit = 10, peak = 10\<rparr>"

lemma usize_max_ge: "n \<le> 18446744073709551615 \<Longrightarrow> n \<le> usize_max"
  by (simp add: usize_max_def)

abbreviation filled :: "writer_pc \<Rightarrow> releaser_pc \<Rightarrow> nat \<Rightarrow> bool \<Rightarrow> bool \<Rightarrow> bool \<Rightarrow> nat \<Rightarrow> system" where
  "filled w r q pr pk sb c \<equiv>
     \<lparr>adm = \<lparr>queued = q, high_water = 10, low_water = 5, pressured = pr\<rparr>, writer = w,
      releasers = [r], inflight = 0, parked = pk, sbuf = sb, credit = c, peak = 10\<rparr>"

lemma admit_next_small:
  "admit_next 0 10 10 = Admitted 10" "admit_next 10 10 10 = Backpressured"
  by (simp_all add: admit_next_def checked_add_def usize_max_def)

lemma fill_window:
  "admission_reachable tso (admission_start 10 5 1) (filled (WStore 10) RIdle 10 False False False 10)"
proof -
  let ?R = "admission_reachable tso (admission_start 10 5 1)"
  have start: "admission_start 10 5 1 =
      (filled WIdle RIdle 0 False False False 0)\<lparr>peak := 0\<rparr>"
    by (simp add: system_init_def outbound_admission_new_def admission_watermarks_new_def
        Let_def saturating_sub_def)
  have "?R (filled (WLoad 10) RIdle 0 False False False 0)"
    by (rule reach_step [OF reach_refl], unfold start)
       (use write_call [of "(filled WIdle RIdle 0 False False False 0)\<lparr>peak := 0\<rparr>" 10 tso]
         in \<open>simp add: usize_max_ge\<close>)
  then have "?R (filled (WCas 10 0 10) RIdle 0 False False False 0)"
    by (rule reach_step) (use write_load_admit [of "filled (WLoad 10) RIdle 0 False False False 0" 10 10 tso]
        in \<open>simp add: admit_next_small\<close>)
  then have "?R (filled WIdle RIdle 10 False False False 10)"
    by (rule reach_step) (use write_cas_ok [of "filled (WCas 10 0 10) RIdle 0 False False False 0" 10 0 10 tso]
        in simp)
  then have "?R (filled (WLoad 10) RIdle 10 False False False 10)"
    by (rule reach_step) (use write_call [of "filled WIdle RIdle 10 False False False 10" 10 tso]
        in \<open>simp add: usize_max_ge\<close>)
  then show ?thesis
    by (rule reach_step) (use write_load_refuse [of "filled (WLoad 10) RIdle 10 False False False 10" 10 tso]
        in \<open>simp add: admit_next_small\<close>)
qed

lemma parked_run_reachable: "admission_reachable False (admission_start 10 5 1) parked_run"
proof -
  have "admission_reachable False (admission_start 10 5 1) (filled (WReload 10) RIdle 10 True False False 10)"
    by (rule reach_step [OF fill_window])
       (use write_store_sc [of "filled (WStore 10) RIdle 10 False False False 10" 10 False] in simp)
  then show ?thesis
    by (rule reach_step)
       (use write_reload_refuse [of "filled (WReload 10) RIdle 10 True False False 10" 10 False]
         in \<open>simp add: admit_next_small parked_run_def\<close>)
qed

theorem admission_accounting_exact_witness:
  "queued (adm parked_run) = credit parked_run + 0
   \<and> queued (adm parked_run) \<le> max (high_water (adm parked_run)) (peak parked_run)"
  using admission_accounting_exact [OF parked_run_reachable] by (simp add: parked_run_def)

theorem admission_no_lost_wakeup_witness: "fst (release (adm parked_run) (credit parked_run))"
  using admission_no_lost_wakeup [OF parked_run_reachable]
  by (simp add: parked_run_def quiescent_def)

subsection \<open>A call that runs alone is the sequential function\<close>

lemma reach_trans:
  "admission_reachable tso s t \<Longrightarrow> admission_step tso t v \<Longrightarrow> w = v \<Longrightarrow> admission_reachable tso s w"
  by (simp add: reach_step)

lemma try_admit_alone_steps:
  assumes "writer s = WIdle" "\<not> sbuf s" "0 < u" "u \<le> usize_max"
  shows "admission_reachable False s
    (s\<lparr>adm := snd (try_admit (adm s) u), peak := max (peak s) u,
       parked := (parked s \<or> \<not> fst (try_admit (adm s) u)),
       credit := credit s + (if fst (try_admit (adm s) u) then u else 0)\<rparr>)"
proof -
  let ?s = "s\<lparr>writer := WLoad u, peak := max (peak s) u\<rparr>"
  have call: "admission_reachable False s ?s"
    by (rule reach_step [OF reach_refl write_call]) (use assms in auto)
  show ?thesis
  proof (cases "admit_next (queued (adm s)) u (high_water (adm s))")
    case (Admitted n)
    have load: "admission_reachable False s (?s\<lparr>writer := WCas u (queued (adm s)) n\<rparr>)"
      by (rule reach_trans [OF call write_load_admit [of ?s u n]]) (use Admitted in auto)
    show ?thesis
      by (rule reach_trans [OF load write_cas_ok [of _ u "queued (adm s)" n]])
         (use assms Admitted in \<open>auto simp: try_admit_def\<close>)
  next
    case Backpressured
    have load: "admission_reachable False s (?s\<lparr>writer := WStore u\<rparr>)"
      by (rule reach_trans [OF call write_load_refuse [of ?s u]]) (use Backpressured in auto)
    have store: "admission_reachable False s ((set_pressured True ?s)\<lparr>writer := WReload u\<rparr>)"
      by (rule reach_trans [OF load write_store_sc [of _ u]]) auto
    show ?thesis
      by (rule reach_trans [OF store write_reload_refuse [of _ u]])
         (use assms Backpressured in \<open>auto simp: try_admit_def\<close>)
  qed
qed

lemma release_alone_steps:
  assumes "i < length (releasers s)" "releasers s ! i = RIdle" "0 < u" "u \<le> credit s"
  shows "admission_reachable False s
    (s\<lparr>adm := snd (release (adm s) u), credit := credit s - u,
       inflight := inflight s + of_bool (fst (release (adm s) u))\<rparr>)"
proof -
  let ?n = "release_next (queued (adm s)) u"
  let ?low = "?n \<le> low_water (adm s)"
  let ?s = "s\<lparr>credit := credit s - u\<rparr>"
  let ?e = "release_emits_write_ready ?n (low_water (adm s)) (?low \<and> pressured (adm s))"
  have call: "admission_reachable False s (set_releaser i (RLoad u) ?s)"
    by (rule reach_trans [OF reach_refl release_call [of i s u]]) (use assms in auto)
  have load: "admission_reachable False s (set_releaser i (RCas u (queued (adm s)) ?n) ?s)"
    by (rule reach_trans [OF call release_load [of i _ u]]) (use assms in auto)
  have cas: "admission_reachable False s (set_releaser i (RSwap ?n) (set_queued ?n ?s))"
    by (rule reach_trans [OF load release_cas_ok [of i _ u "queued (adm s)" ?n]]) (use assms in auto)
  have swap: "admission_reachable False s (set_releaser i (REmit ?e)
      (set_pressured (if ?low then False else pressured (adm s)) (set_queued ?n ?s)))"
  proof (cases ?low)
    case True
    show ?thesis
      by (rule reach_trans [OF cas release_swap_low [of i _ ?n]]) (use assms True in auto)
  next
    case False
    show ?thesis
      by (rule reach_trans [OF cas release_swap_high [of i _ ?n]]) (use assms False in auto)
  qed
  have idle: "(releasers s)[i := RIdle] = releasers s"
    using assms by (metis list_update_id)
  show ?thesis
    by (rule reach_trans [OF swap release_emit [of i _ ?e]])
       (use assms idle in \<open>auto simp: release_def Let_def\<close>)
qed

text \<open>
  The sequential functions are what the atomic steps compute. From any state in which the
  writer is idle, the steps of one \<^verbatim>\<open>try_admit\<close> call run alone end in the state the sequential
  \<^const>\<open>try_admit\<close> returns, and likewise the steps of one \<^const>\<open>release\<close> call,
  whose result decides whether a \<^verbatim>\<open>write_ready\<close> event goes out.
\<close>

theorem admission_sequential_refinement:
  assumes "writer s = WIdle" "\<not> sbuf s" "0 < u" "u \<le> usize_max"
    and "i < length (releasers s)" "releasers s ! i = RIdle" "0 < v" "v \<le> credit s"
  shows "admission_reachable False s
      (s\<lparr>adm := snd (try_admit (adm s) u), peak := max (peak s) u,
         parked := (parked s \<or> \<not> fst (try_admit (adm s) u)),
         credit := credit s + (if fst (try_admit (adm s) u) then u else 0)\<rparr>)
    \<and> admission_reachable False s
      (s\<lparr>adm := snd (release (adm s) v), credit := credit s - v,
         inflight := inflight s + of_bool (fst (release (adm s) v))\<rparr>)"
  using assms by (simp add: try_admit_alone_steps release_alone_steps)

theorem admission_sequential_refinement_witness:
  "admission_reachable False parked_run
     (parked_run\<lparr>adm := (adm parked_run)\<lparr>queued := 3, pressured := False\<rparr>, credit := 3, inflight := 1\<rparr>)"
  using admission_sequential_refinement [of parked_run 1 0 7]
  by (simp add: parked_run_def usize_max_def release_def release_next_def saturating_sub_def
      release_emits_write_ready_def)

subsection \<open>A wakeup is lost through the store buffer\<close>

definition lost_wakeup_state :: system where
  "lost_wakeup_state = filled WIdle RIdle 0 True True False 0"

lemma lost_wakeup_reachable:
  "admission_reachable True (admission_start 10 5 1) lost_wakeup_state"
proof -
  let ?R = "admission_reachable True (admission_start 10 5 1)"
  have "?R (filled (WReload 10) RIdle 10 False False True 10)"
    by (rule reach_step [OF fill_window])
       (use write_store_tso [of "filled (WStore 10) RIdle 10 False False False 10" 10 True] in simp)
  then have "?R (filled WIdle RIdle 10 False True True 10)"
    by (rule reach_step)
       (use write_reload_refuse [of "filled (WReload 10) RIdle 10 False False True 10" 10 True]
         in \<open>simp add: admit_next_small\<close>)
  then have "?R (filled WIdle (RLoad 10) 10 False True True 0)"
    by (rule reach_step)
       (use release_call [of 0 "filled WIdle RIdle 10 False True True 10" 10 True] in simp)
  then have "?R (filled WIdle (RCas 10 10 0) 10 False True True 0)"
    by (rule reach_step)
       (use release_load [of 0 "filled WIdle (RLoad 10) 10 False True True 0" 10 True]
         in \<open>simp add: release_next_def saturating_sub_def\<close>)
  then have "?R (filled WIdle (RSwap 0) 0 False True True 0)"
    by (rule reach_step)
       (use release_cas_ok [of 0 "filled WIdle (RCas 10 10 0) 10 False True True 0" 10 10 0 True] in simp)
  then have "?R (filled WIdle (REmit False) 0 False True True 0)"
    by (rule reach_step)
       (use release_swap_low [of 0 "filled WIdle (RSwap 0) 0 False True True 0" 0 True]
         in \<open>simp add: release_emits_write_ready_def\<close>)
  then have "?R (filled WIdle RIdle 0 False True True 0)"
    by (rule reach_step)
       (use release_emit [of 0 "filled WIdle (REmit False) 0 False True True 0" False True] in simp)
  then show ?thesis
    by (rule reach_step)
       (use write_drain [of "filled WIdle RIdle 0 False True True 0" True]
         in \<open>simp add: lost_wakeup_state_def\<close>)
qed

text \<open>
  C29. The wakeup is lost on a machine with a store buffer. When the flag store of
  \<^verbatim>\<open>try_admit\<close> may be overtaken by the following load (a release store followed by an acquire
  load is not ordered on x86), a state is reachable in which a writer is parked on a completely
  empty window, no event is in flight and no thread has anything left to do: the only step the
  system can still take is a further write call by the application.
\<close>

theorem admission_lost_wakeup_with_store_buffer:
  "\<exists>s. admission_reachable True (admission_start 10 5 1) s \<and> quiescent s \<and> parked s
     \<and> queued (adm s) = 0 \<and> (\<forall>t. admission_step True s t = (\<exists>u. 0 < u \<and> u \<le> usize_max
          \<and> t = s\<lparr>writer := WLoad u, peak := max (peak s) u\<rparr>))"
proof -
  have only_write: "admission_step True lost_wakeup_state t = (\<exists>u. 0 < u \<and> u \<le> usize_max
      \<and> t = lost_wakeup_state\<lparr>writer := WLoad u, peak := max (peak lost_wakeup_state) u\<rparr>)" for t
    by (auto simp: lost_wakeup_state_def elim!: admission_step.cases
        intro!: write_call [of "filled WIdle RIdle 0 True True False 0", simplified])
  have "quiescent lost_wakeup_state \<and> parked lost_wakeup_state \<and> queued (adm lost_wakeup_state) = 0"
    by (simp add: lost_wakeup_state_def quiescent_def)
  with lost_wakeup_reachable only_write show ?thesis by blast
qed

end
