(* ===== verification/Size_Classes.thy ===== *)
theory Size_Classes
  imports Rust_Prelude
begin

text \<open>
  Size-class arithmetic shared by the two buffer pools: \<^verbatim>\<open>proof_core/chunk_pool_model.rs\<close> and
  \<^verbatim>\<open>proof_core/buffer_pool_model.rs\<close>. A request is served from the smallest class that holds
  it, and a returned buffer is filed under the largest class it covers. The locale states that
  contract once; both tables are interpreted.
\<close>

definition CHUNK_CLASSES :: "nat list" where
  "CHUNK_CLASSES = [1024, 2048, 4096, 8192, 16384, 32768, 65536]"

definition NUM_BINS :: nat where
  "NUM_BINS = length CHUNK_CLASSES"

definition bin_for :: "nat \<Rightarrow> nat option" where
  "bin_for len = position (\<lambda>class. len \<le> class) CHUNK_CLASSES"

definition bin_for_cap :: "nat \<Rightarrow> nat option" where
  "bin_for_cap cap =
     (if CHUNK_CLASSES = [] then None
      else let max_class = last CHUNK_CLASSES in
        if max_class < cap then None
        else rposition (\<lambda>class. class \<le> cap) CHUNK_CLASSES)"

definition RIGHT_SIZED_CLASSES :: "nat list" where
  "RIGHT_SIZED_CLASSES =
     [16 * 1024, 64 * 1024, 256 * 1024, 1024 * 1024, 4 * 1024 * 1024]"

definition class_for_request :: "nat \<Rightarrow> nat option" where
  "class_for_request len = position (\<lambda>class_capacity. len \<le> class_capacity) RIGHT_SIZED_CLASSES"

definition class_for_capacity :: "nat \<Rightarrow> nat option" where
  "class_for_capacity cap =
     (if RIGHT_SIZED_CLASSES = [] then None
      else let max_class = last RIGHT_SIZED_CLASSES in
        if max_class < cap then None
        else rposition (\<lambda>class_capacity. class_capacity \<le> cap) RIGHT_SIZED_CLASSES)"

subsection \<open>The size-class contract\<close>

locale size_class_table =
  fixes classes :: "nat list"
    and for_request :: "nat \<Rightarrow> nat option"
    and for_capacity :: "nat \<Rightarrow> nat option"
  assumes ordered: "sorted_wrt (<) classes"
    and nonempty: "classes \<noteq> []"
    and request_Some: "for_request len = Some i \<Longrightarrow>
          i < length classes \<and> len \<le> classes ! i \<and> (\<forall>j < i. classes ! j < len)"
    and request_None: "for_request len = None \<longleftrightarrow> (\<forall>c \<in> set classes. c < len)"
    and capacity_Some: "for_capacity cap = Some i \<Longrightarrow>
          i < length classes \<and> classes ! i \<le> cap \<and> cap \<le> last classes
          \<and> (\<forall>j. i < j \<and> j < length classes \<longrightarrow> cap < classes ! j)"
    and capacity_None: "for_capacity cap = None \<longleftrightarrow>
          last classes < cap \<or> (\<forall>c \<in> set classes. cap < c)"
begin

lemma classes_strict: "i < j \<Longrightarrow> j < length classes \<Longrightarrow> classes ! i < classes ! j"
  using ordered by (simp add: sorted_wrt_iff_nth_less)

lemma classes_mono: "i \<le> j \<Longrightarrow> j < length classes \<Longrightarrow> classes ! i \<le> classes ! j"
  using classes_strict [of i j] by (cases "i = j") auto

text \<open>Any buffer filed at or above the class of a request is large enough for the request.\<close>

lemma filed_buffer_fits:
  assumes "for_request len = Some i" "for_capacity cap = Some j" "i \<le> j"
  shows "len \<le> cap"
proof -
  from assms have "len \<le> classes ! i" "classes ! j \<le> cap" "j < length classes"
    using request_Some capacity_Some by blast+
  with classes_mono [OF assms(3)] show ?thesis by linarith
qed

text \<open>The two searches meet: an exact class is filed under itself.\<close>

lemma exact_class_filed:
  assumes "i < length classes"
  shows "for_capacity (classes ! i) = Some i"
proof (cases "for_capacity (classes ! i)")
  case None
  have "classes ! i \<le> last classes"
    using assms classes_mono [of i "length classes - 1"] nonempty by (simp add: last_conv_nth)
  with None assms show ?thesis by (auto simp: capacity_None)
next
  case (Some j)
  from capacity_Some [OF Some] have j: "j < length classes" "classes ! j \<le> classes ! i"
    and above: "\<forall>k. j < k \<and> k < length classes \<longrightarrow> classes ! i < classes ! k" by auto
  have "\<not> i < j" using classes_strict [of i j] j by auto
  moreover have "\<not> j < i" using above assms by auto
  ultimately show ?thesis using Some by simp
qed

lemma exact_class_requested:
  assumes "i < length classes"
  shows "for_request (classes ! i) = Some i"
proof (cases "for_request (classes ! i)")
  case None
  with assms show ?thesis by (auto simp: request_None)
next
  case (Some j)
  from request_Some [OF Some] have "\<not> i < j" by blast
  moreover have "\<not> j < i"
    using request_Some [OF Some] classes_strict [of j i] assms by auto
  ultimately show ?thesis using Some by simp
qed

lemma request_le_capacity_class:
  assumes "for_request len = Some i" "len \<le> cap" "for_capacity cap = Some j"
  shows "i \<le> Suc j"
proof (rule ccontr)
  assume "\<not> i \<le> Suc j"
  then have "Suc j < i" by simp
  with request_Some [OF assms(1)] have "classes ! Suc j < len" "Suc j < length classes" by auto
  with capacity_Some [OF assms(3)] assms(2) show False by fastforce
qed

lemma for_capacity_index: "for_capacity cap = Some i \<Longrightarrow> i < length classes"
  using capacity_Some by blast

lemma for_request_index: "for_request len = Some i \<Longrightarrow> i < length classes"
  using request_Some by blast

end

lemma le_last_sorted: "sorted_wrt (<) (xs :: nat list) \<Longrightarrow> x \<in> set xs \<Longrightarrow> x \<le> last xs"
  by (induction xs) (auto dest: less_imp_le)

lemma position_request_None:
  "position (\<lambda>c. len \<le> c) xs = None \<longleftrightarrow> (\<forall>c \<in> set xs. c < (len :: nat))"
  by (auto simp: position_None not_le)

interpretation chunk_classes: size_class_table CHUNK_CLASSES bin_for bin_for_cap
proof unfold_locales
  show ord: "sorted_wrt (<) CHUNK_CLASSES" and ne: "CHUNK_CLASSES \<noteq> []"
    by (simp_all add: CHUNK_CLASSES_def)
  show "bin_for len = Some i \<Longrightarrow>
      i < length CHUNK_CLASSES \<and> len \<le> CHUNK_CLASSES ! i \<and> (\<forall>j < i. CHUNK_CLASSES ! j < len)" for len i
    unfolding bin_for_def by (auto simp: not_le dest: position_SomeD)
  show "bin_for len = None \<longleftrightarrow> (\<forall>c \<in> set CHUNK_CLASSES. c < len)" for len
    by (simp add: bin_for_def position_request_None)
  show "bin_for_cap cap = Some i \<Longrightarrow>
      i < length CHUNK_CLASSES \<and> CHUNK_CLASSES ! i \<le> cap \<and> cap \<le> last CHUNK_CLASSES
      \<and> (\<forall>j. i < j \<and> j < length CHUNK_CLASSES \<longrightarrow> cap < CHUNK_CLASSES ! j)" for cap i
    using ne unfolding bin_for_cap_def Let_def
    by (auto simp: not_le split: if_splits dest: rposition_SomeD)
  show "bin_for_cap cap = None \<longleftrightarrow>
      last CHUNK_CLASSES < cap \<or> (\<forall>c \<in> set CHUNK_CLASSES. cap < c)" for cap
    using ne by (auto simp: bin_for_cap_def Let_def rposition_None not_le)
qed

interpretation right_sized_classes:
  size_class_table RIGHT_SIZED_CLASSES class_for_request class_for_capacity
proof unfold_locales
  show ord: "sorted_wrt (<) RIGHT_SIZED_CLASSES" and ne: "RIGHT_SIZED_CLASSES \<noteq> []"
    by (simp_all add: RIGHT_SIZED_CLASSES_def)
  show "class_for_request len = Some i \<Longrightarrow>
      i < length RIGHT_SIZED_CLASSES \<and> len \<le> RIGHT_SIZED_CLASSES ! i
      \<and> (\<forall>j < i. RIGHT_SIZED_CLASSES ! j < len)" for len i
    unfolding class_for_request_def by (auto simp: not_le dest: position_SomeD)
  show "class_for_request len = None \<longleftrightarrow> (\<forall>c \<in> set RIGHT_SIZED_CLASSES. c < len)" for len
    by (simp add: class_for_request_def position_request_None)
  show "class_for_capacity cap = Some i \<Longrightarrow>
      i < length RIGHT_SIZED_CLASSES \<and> RIGHT_SIZED_CLASSES ! i \<le> cap \<and> cap \<le> last RIGHT_SIZED_CLASSES
      \<and> (\<forall>j. i < j \<and> j < length RIGHT_SIZED_CLASSES \<longrightarrow> cap < RIGHT_SIZED_CLASSES ! j)" for cap i
    using ne unfolding class_for_capacity_def Let_def
    by (auto simp: not_le split: if_splits dest: rposition_SomeD)
  show "class_for_capacity cap = None \<longleftrightarrow>
      last RIGHT_SIZED_CLASSES < cap \<or> (\<forall>c \<in> set RIGHT_SIZED_CLASSES. cap < c)" for cap
    using ne by (auto simp: class_for_capacity_def Let_def rposition_None not_le)
qed

text \<open>
  Size classes are chosen optimally. A pooled request goes to the first class that holds it
  and a returned buffer to the last class it covers, so a buffer filed at or above the class of a
  request always fits the request, and filing under any higher class would promise bytes the
  buffer does not have. The statement covers both class tables.
\<close>

theorem size_class_service:
  "(bin_for len = Some i \<and> bin_for_cap cap = Some j \<longrightarrow> (i \<le> j \<longrightarrow> len \<le> cap) \<and> (len \<le> cap \<longrightarrow> i \<le> Suc j))
   \<and> (class_for_request len = Some i \<and> class_for_capacity cap = Some j \<longrightarrow>
        (i \<le> j \<longrightarrow> len \<le> cap) \<and> (len \<le> cap \<longrightarrow> i \<le> Suc j))
   \<and> (k < NUM_BINS \<longrightarrow> bin_for_cap (CHUNK_CLASSES ! k) = Some k \<and> bin_for (CHUNK_CLASSES ! k) = Some k)"
proof (intro conjI impI)
  assume k: "k < NUM_BINS"
  then show "bin_for_cap (CHUNK_CLASSES ! k) = Some k"
    by (simp add: NUM_BINS_def chunk_classes.exact_class_filed)
  from k show "bin_for (CHUNK_CLASSES ! k) = Some k"
    by (simp add: NUM_BINS_def chunk_classes.exact_class_requested)
qed (auto intro: chunk_classes.filed_buffer_fits chunk_classes.request_le_capacity_class
    right_sized_classes.filed_buffer_fits right_sized_classes.request_le_capacity_class)

theorem size_class_service_witness:
  "bin_for 1500 = Some 1 \<and> bin_for_cap 5000 = Some 2 \<and> (1500 :: nat) \<le> 5000
   \<and> bin_for_cap (CHUNK_CLASSES ! 3) = Some 3"
proof -
  have "bin_for 1500 = Some 1" "bin_for_cap 5000 = Some 2"
    by (simp_all add: bin_for_def bin_for_cap_def CHUNK_CLASSES_def)
  then show ?thesis
    using size_class_service [of 1500 1 5000 2 3] by (simp add: NUM_BINS_def CHUNK_CLASSES_def)
qed

end
