(* ===== verification/Chunk_Pool.thy ===== *)
theory Chunk_Pool
  imports Size_Classes
begin

text \<open>
  The outbound chunk pool of \<^verbatim>\<open>chunk_pool.rs\<close>: size-classed bins of reusable byte vectors, the
  bounded return channel, and the \<open>chunk\<close> handles whose drop sends the backing vector back.
  A return handle is the identifier of the channel it points to.
\<close>

subsection \<open>The pool\<close>

record chunk_pool =
  bins :: "rvec list list"
  max_per_bin :: nat

definition chunk_pool_new :: "nat \<Rightarrow> chunk_pool" where
  "chunk_pool_new m = \<lparr>bins = replicate NUM_BINS [], max_per_bin = m\<rparr>"

definition with_return_channel :: "nat \<Rightarrow> chunk_pool \<times> rvec channel" where
  "with_return_channel m =
     (let total_capacity = m * NUM_BINS * 2 in (chunk_pool_new m, chan_bounded total_capacity))"

definition max_entries_for_bin :: "chunk_pool \<Rightarrow> nat \<Rightarrow> nat" where
  "max_entries_for_bin p bin_idx =
     (if CHUNK_CLASSES ! bin_idx \<le> 4096 then max_per_bin p else max (max_per_bin p div 8) 1)"

fun pop_bins :: "nat list \<Rightarrow> rvec list list \<Rightarrow> (rvec \<times> rvec list list) option" where
  "pop_bins [] bs = None"
| "pop_bins (idx # idxs) bs =
     (case vec_pop (bs ! idx) of
        Some (buf, rest) \<Rightarrow> Some (buf, bs[idx := rest])
      | None \<Rightarrow> pop_bins idxs bs)"

definition checkout :: "chunk_pool \<Rightarrow> nat \<Rightarrow> rvec \<times> bool \<times> chunk_pool" where
  "checkout p len =
     (if len = 0 then (vec_new, False, p)
      else case bin_for len of
        Some bin_idx \<Rightarrow>
          (case pop_bins [bin_idx ..< NUM_BINS] (bins p) of
             Some (buf, bs) \<Rightarrow> (vec_resize (vec_clear buf) len 0, True, p\<lparr>bins := bs\<rparr>)
           | None \<Rightarrow>
               let cap = CHUNK_CLASSES ! bin_idx
               in (vec_resize (vec_with_capacity cap) len 0, False, p))
      | None \<Rightarrow> (vec_resize (vec_with_capacity len) len 0, False, p))"

definition checkout_for_copy :: "chunk_pool \<Rightarrow> nat \<Rightarrow> rvec \<times> bool \<times> chunk_pool" where
  "checkout_for_copy p len =
     (if len = 0 then (vec_new, False, p)
      else case bin_for len of
        Some bin_idx \<Rightarrow>
          (case pop_bins [bin_idx ..< NUM_BINS] (bins p) of
             Some (buf, bs) \<Rightarrow> (vec_clear buf, True, p\<lparr>bins := bs\<rparr>)
           | None \<Rightarrow> (vec_with_capacity (CHUNK_CLASSES ! bin_idx), False, p))
      | None \<Rightarrow> (vec_with_capacity len, False, p))"

definition checkout_copy :: "chunk_pool \<Rightarrow> byte list \<Rightarrow> rvec \<times> bool \<times> chunk_pool" where
  "checkout_copy p data =
     (case checkout_for_copy p (length data) of (buf, reused, p') \<Rightarrow> (vec_extend buf data, reused, p'))"

definition checkin :: "chunk_pool \<Rightarrow> rvec \<Rightarrow> bool \<times> chunk_pool" where
  "checkin p buf =
     (let cap = capacity buf in
      case bin_for_cap cap of
        Some bin_idx \<Rightarrow>
          if length (bins p ! bin_idx) < max_entries_for_bin p bin_idx
          then (True, p\<lparr>bins := (bins p)[bin_idx := bins p ! bin_idx @ [buf]]\<rparr>)
          else (False, p)
      | None \<Rightarrow> (False, p))"

fun drain_queue :: "chunk_pool \<Rightarrow> rvec list \<Rightarrow> chunk_pool" where
  "drain_queue p [] = p"
| "drain_queue p (buf # rest) = drain_queue (snd (checkin p buf)) rest"

definition drain_returned :: "chunk_pool \<Rightarrow> rvec channel \<Rightarrow> chunk_pool \<times> rvec channel" where
  "drain_returned p rx = (drain_queue p (chan_queue rx), rx\<lparr>chan_queue := []\<rparr>)"

definition pool_return_send :: "rvec channel \<Rightarrow> rvec \<Rightarrow> rvec channel" where
  "pool_return_send ch buf = snd (try_send ch buf)"

subsection \<open>Chunks\<close>

record chunk =
  chunk_data :: rvec
  chunk_offset :: nat
  chunk_return :: "nat option"

definition chunk_empty :: chunk where
  "chunk_empty = \<lparr>chunk_data = vec_new, chunk_offset = 0, chunk_return = None\<rparr>"

definition chunk_from_vec :: "rvec \<Rightarrow> nat option \<Rightarrow> chunk" where
  "chunk_from_vec v ret = \<lparr>chunk_data = v, chunk_offset = 0, chunk_return = ret\<rparr>"

definition chunk_from_slice :: "byte list \<Rightarrow> chunk_pool \<Rightarrow> nat \<Rightarrow> chunk \<times> chunk_pool" where
  "chunk_from_slice data p ret =
     (case checkout_copy p data of (buf, _, p') \<Rightarrow>
        (\<lparr>chunk_data = buf, chunk_offset = 0, chunk_return = Some ret\<rparr>, p'))"

definition chunk_unpooled :: "rvec \<Rightarrow> chunk" where
  "chunk_unpooled v = \<lparr>chunk_data = v, chunk_offset = 0, chunk_return = None\<rparr>"

definition chunk_remaining :: "chunk \<Rightarrow> byte list" where
  "chunk_remaining c = drop (chunk_offset c) (contents (chunk_data c))"

definition chunk_remaining_len :: "chunk \<Rightarrow> nat" where
  "chunk_remaining_len c = vec_len (chunk_data c) - chunk_offset c"

definition chunk_advance :: "chunk \<Rightarrow> nat \<Rightarrow> chunk" where
  "chunk_advance c n = c\<lparr>chunk_offset := chunk_offset c + n\<rparr>"

definition is_fully_written :: "chunk \<Rightarrow> bool" where
  "is_fully_written c \<longleftrightarrow> vec_len (chunk_data c) \<le> chunk_offset c"

definition chunk_into_vec :: "chunk \<Rightarrow> rvec" where
  "chunk_into_vec c = chunk_data c"

definition into_remaining_vec :: "chunk \<Rightarrow> rvec" where
  "into_remaining_vec c =
     (if chunk_offset c = 0 then chunk_data c
      else let tail = drop (chunk_offset c) (contents (chunk_data c))
           in \<lparr>contents = tail, capacity = length tail\<rparr>)"

definition into_raw_parts :: "chunk \<Rightarrow> rvec \<times> nat \<times> nat option" where
  "into_raw_parts c = (chunk_data c, chunk_offset c, chunk_return c)"

definition chunk_append :: "chunk \<Rightarrow> byte list \<Rightarrow> chunk" where
  "chunk_append c data =
     (if data = [] then c
      else let c' = (if 0 < chunk_offset c
             then c\<lparr>chunk_data := (chunk_data c)\<lparr>contents := drop (chunk_offset c) (contents (chunk_data c))\<rparr>,
                    chunk_offset := 0\<rparr>
             else c)
           in c'\<lparr>chunk_data := vec_extend (chunk_data c') data\<rparr>)"

text \<open>Dropping a chunk yields the message it sends: the return channel and the cleared vector.\<close>

definition chunk_drop :: "chunk \<Rightarrow> (nat \<times> rvec) option" where
  "chunk_drop c = (case chunk_return c of Some ret \<Rightarrow> Some (ret, vec_clear (chunk_data c)) | None \<Rightarrow> None)"

text \<open>The ingress pool: drain what was returned, then copy the caller's bytes into a pooled
  vector.\<close>

record chunk_pool_ingress =
  ing_pool :: chunk_pool
  ing_return :: nat
  ing_rx :: "rvec channel"

definition ingress_new :: "nat \<Rightarrow> nat \<Rightarrow> chunk_pool_ingress" where
  "ingress_new m ret = (case with_return_channel m of (p, ch) \<Rightarrow>
     \<lparr>ing_pool = p, ing_return = ret, ing_rx = ch\<rparr>)"

definition copy_napi_buffer :: "chunk_pool_ingress \<Rightarrow> byte list \<Rightarrow> chunk \<times> chunk_pool_ingress" where
  "copy_napi_buffer ing buf =
     (if buf = [] then (chunk_empty, ing)
      else case drain_returned (ing_pool ing) (ing_rx ing) of (p, rx) \<Rightarrow>
        case checkout_copy p buf of (data, _, p') \<Rightarrow>
          (chunk_from_vec data (Some (ing_return ing)), ing\<lparr>ing_pool := p', ing_rx := rx\<rparr>))"

subsection \<open>Invariants\<close>

text \<open>Every bin respects its limit and holds only buffers of its own class.\<close>

definition chunk_pool_inv :: "chunk_pool \<Rightarrow> bool" where
  "chunk_pool_inv p \<longleftrightarrow> length (bins p) = NUM_BINS \<and>
     (\<forall>i < NUM_BINS. length (bins p ! i) \<le> max_entries_for_bin p i \<and>
        (\<forall>b \<in> set (bins p ! i). bin_for_cap (capacity b) = Some i))"

definition chunk_inv :: "chunk \<Rightarrow> bool" where
  "chunk_inv c \<longleftrightarrow> chunk_offset c \<le> vec_len (chunk_data c)"

lemma chunk_pool_inv_new [simp]: "chunk_pool_inv (chunk_pool_new m)"
  by (simp add: chunk_pool_inv_def chunk_pool_new_def)

lemma max_entries_update [simp]: "max_entries_for_bin (p\<lparr>bins := bs\<rparr>) i = max_entries_for_bin p i"
  by (simp add: max_entries_for_bin_def)

lemma bin_for_cap_index: "bin_for_cap cap = Some i \<Longrightarrow> i < NUM_BINS"
  using chunk_classes.for_capacity_index by (simp add: NUM_BINS_def)

lemma bin_for_index: "bin_for len = Some i \<Longrightarrow> i < NUM_BINS"
  using chunk_classes.for_request_index by (simp add: NUM_BINS_def)

lemma chunk_pool_inv_checkin:
  assumes "chunk_pool_inv p"
  shows "chunk_pool_inv (snd (checkin p buf))"
proof (cases "bin_for_cap (capacity buf)")
  case None
  with assms show ?thesis by (simp add: checkin_def)
next
  case (Some i)
  then have "i < NUM_BINS" by (rule bin_for_cap_index)
  with assms Some show ?thesis
    by (auto simp: checkin_def chunk_pool_inv_def nth_list_update)
qed

lemma chunk_pool_inv_drain_queue: "chunk_pool_inv p \<Longrightarrow> chunk_pool_inv (drain_queue p q)"
  by (induction p q rule: drain_queue.induct) (auto simp: chunk_pool_inv_checkin)

lemma chunk_pool_inv_drain: "chunk_pool_inv p \<Longrightarrow> chunk_pool_inv (fst (drain_returned p rx))"
  by (simp add: drain_returned_def chunk_pool_inv_drain_queue)

lemma pop_bins_Some:
  "pop_bins idxs bs = Some (buf, bs') \<Longrightarrow>
     \<exists>i \<in> set idxs. \<exists>rest. bs ! i = rest @ [buf] \<and> bs' = bs[i := rest]"
  by (induction idxs bs rule: pop_bins.induct) (auto simp: vec_pop_Some split: option.splits)

lemma pop_bins_None: "pop_bins idxs bs = None \<longleftrightarrow> (\<forall>i \<in> set idxs. bs ! i = [])"
  by (induction idxs bs rule: pop_bins.induct) (auto split: option.splits)

lemma pop_bins_inv:
  assumes "chunk_pool_inv p" "pop_bins [i ..< NUM_BINS] (bins p) = Some (buf, bs)"
  obtains j rest where "i \<le> j" "j < NUM_BINS" "bin_for_cap (capacity buf) = Some j"
    "bins p ! j = rest @ [buf]" "bs = (bins p)[j := rest]" "chunk_pool_inv (p\<lparr>bins := bs\<rparr>)"
proof -
  from pop_bins_Some [OF assms(2)] obtain j rest
    where j: "i \<le> j" "j < NUM_BINS" "bins p ! j = rest @ [buf]" "bs = (bins p)[j := rest]"
    by auto
  with assms(1) have "bin_for_cap (capacity buf) = Some j"
    and "length rest < max_entries_for_bin p j"
    and "\<forall>b \<in> set rest. bin_for_cap (capacity b) = Some j"
    by (fastforce simp: chunk_pool_inv_def)+
  with assms(1) j have "chunk_pool_inv (p\<lparr>bins := bs\<rparr>)"
    by (auto simp: chunk_pool_inv_def nth_list_update)
  with j \<open>bin_for_cap (capacity buf) = Some j\<close> that show ?thesis by blast
qed

subsection \<open>Checkout\<close>

definition pooled :: "chunk_pool \<Rightarrow> rvec multiset" where
  "pooled p = sum_list (map mset (bins p))"

lemma pooled_pop:
  "j < length (bins p) \<Longrightarrow> bins p ! j = rest @ [buf] \<Longrightarrow>
     pooled p = add_mset buf (pooled (p\<lparr>bins := (bins p)[j := rest]\<rparr>))"
  by (simp add: pooled_def sum_mset_bins_pop)

text \<open>One lemma describes the search both checkouts share: a reused buffer leaves the pool and is
  already large enough.\<close>

lemma pooled_buffer_fits:
  assumes "chunk_pool_inv p" "bin_for len = Some i"
    and "pop_bins [i ..< NUM_BINS] (bins p) = Some (buf, bs)"
  shows "len \<le> capacity buf" "chunk_pool_inv (p\<lparr>bins := bs\<rparr>)"
    "pooled p = add_mset buf (pooled (p\<lparr>bins := bs\<rparr>))"
    "\<exists>j \<ge> i. bin_for_cap (capacity buf) = Some j"
proof -
  from pop_bins_inv [OF assms(1,3)] obtain j rest
    where j: "i \<le> j" "j < NUM_BINS" "bin_for_cap (capacity buf) = Some j"
      "bins p ! j = rest @ [buf]" "bs = (bins p)[j := rest]" "chunk_pool_inv (p\<lparr>bins := bs\<rparr>)"
    by blast
  from chunk_classes.filed_buffer_fits [OF assms(2) j(3,1)] show "len \<le> capacity buf" .
  from j show "chunk_pool_inv (p\<lparr>bins := bs\<rparr>)" "\<exists>j \<ge> i. bin_for_cap (capacity buf) = Some j"
    by auto
  from j assms(1) pooled_pop [of j p rest buf]
  show "pooled p = add_mset buf (pooled (p\<lparr>bins := bs\<rparr>))"
    by (simp add: chunk_pool_inv_def)
qed

lemma pooled_buffer_kept:
  assumes "chunk_pool_inv p" "bin_for len = Some i"
    and "pop_bins [i ..< NUM_BINS] (bins p) = Some (buf, bs)"
  shows "\<exists>old. vec_grow (capacity buf) len = capacity old
           \<and> pooled p = add_mset old (pooled (p\<lparr>bins := bs\<rparr>))"
  using pooled_buffer_fits [OF assms] by auto

lemma bin_for_class_fits: "bin_for len = Some i \<Longrightarrow> len \<le> CHUNK_CLASSES ! i"
  using chunk_classes.request_Some by blast

lemma checkout_spec:
  assumes "chunk_pool_inv p" "checkout p len = (buf, reused, p')"
  shows "contents buf = replicate len 0" "len \<le> capacity buf" "chunk_pool_inv p'"
    "if reused then \<exists>old. capacity buf = capacity old \<and> pooled p = add_mset old (pooled p')
     else p' = p"
  using assms
  by (auto simp: checkout_def Let_def bin_for_class_fits split: option.splits if_splits prod.splits
      dest: pooled_buffer_fits intro: pooled_buffer_kept)

lemma checkout_for_copy_spec:
  assumes "chunk_pool_inv p" "checkout_for_copy p len = (buf, reused, p')"
  shows "contents buf = []" "len \<le> capacity buf" "chunk_pool_inv p'"
    "if reused then \<exists>old. capacity buf = capacity old \<and> pooled p = add_mset old (pooled p')
     else p' = p"
  using assms
  by (auto simp: checkout_for_copy_def Let_def bin_for_class_fits split: option.splits if_splits prod.splits
      dest: pooled_buffer_fits)

lemma checkout_copy_spec:
  assumes "chunk_pool_inv p" "checkout_copy p data = (buf, reused, p')"
  shows "contents buf = data" "chunk_pool_inv p'"
    "if reused then \<exists>old. capacity buf = capacity old \<and> pooled p = add_mset old (pooled p')
     else p' = p"
  using assms checkout_for_copy_spec [OF assms(1), of "length data"]
  by (auto simp: checkout_copy_def split: prod.splits)


definition sample_pool :: chunk_pool where
  "sample_pool = snd (checkin (chunk_pool_new 4) (vec_with_capacity 3000))"

lemma sample_pool_checkout:
  "checkout sample_pool 1500 = (vec_resize (vec_with_capacity 3000) 1500 0, True, chunk_pool_new 4)"
  by (simp add: checkout_def sample_pool_def checkin_def chunk_pool_new_def bin_for_def bin_for_cap_def
      CHUNK_CLASSES_def NUM_BINS_def max_entries_for_bin_def upt_rec vec_pop_def vec_clear_def
      vec_with_capacity_def eval_nat_numeral(3) [of Num.One] nth_Cons' list_update_code
      replicate_Suc numeral_eq_Suc [of "Num.Bit1 (Num.Bit1 Num.One)"])


subsection \<open>Chunks\<close>

lemma chunk_remaining_length: "chunk_remaining_len c = length (chunk_remaining c)"
  by (simp add: chunk_remaining_len_def chunk_remaining_def)

lemma chunk_remaining_append: "chunk_inv c \<Longrightarrow> chunk_remaining (chunk_append c d) = chunk_remaining c @ d"
  by (auto simp: chunk_append_def chunk_remaining_def chunk_inv_def Let_def)

lemma chunk_inv_append: "chunk_inv c \<Longrightarrow> chunk_inv (chunk_append c d)"
  by (auto simp: chunk_append_def chunk_inv_def Let_def)

lemma chunk_inv_new [simp]:
  "chunk_inv chunk_empty" "chunk_inv (chunk_from_vec v r)" "chunk_inv (chunk_unpooled v)"
  by (simp_all add: chunk_inv_def chunk_empty_def chunk_from_vec_def chunk_unpooled_def)

lemma chunk_advance_remaining:
  "n \<le> chunk_remaining_len c \<Longrightarrow> chunk_remaining (chunk_advance c n) = drop n (chunk_remaining c)"
  by (simp add: chunk_advance_def chunk_remaining_def add.commute)

lemma into_remaining_vec_contents: "contents (into_remaining_vec c) = chunk_remaining c"
  by (simp add: into_remaining_vec_def chunk_remaining_def Let_def)

text \<open>Copying a JavaScript buffer through the ingress pool preserves its bytes, and dropping the
  chunk sends back an empty vector of the same capacity.\<close>

lemma copy_napi_buffer_remaining:
  assumes "chunk_pool_inv (ing_pool ing)" "copy_napi_buffer ing buf = (c, ing')"
  shows "chunk_remaining c = buf \<and> chunk_inv c \<and> chunk_pool_inv (ing_pool ing')"
proof (cases "buf = []")
  case True
  with assms show ?thesis
    by (auto simp: copy_napi_buffer_def chunk_remaining_def chunk_empty_def chunk_inv_def)
next
  case False
  obtain p rx where d: "drain_returned (ing_pool ing) (ing_rx ing) = (p, rx)" by fastforce
  obtain data r p' where c: "checkout_copy p buf = (data, r, p')" by (cases "checkout_copy p buf") auto
  from chunk_pool_inv_drain [OF assms(1), of "ing_rx ing"] d have "chunk_pool_inv p" by simp
  from checkout_copy_spec [OF this c] have "contents data = buf" "chunk_pool_inv p'" by auto
  with assms(2) False d c show ?thesis
    by (auto simp: copy_napi_buffer_def chunk_remaining_def chunk_from_vec_def chunk_inv_def)
qed

end
