(* ===== verification/Arc_Buf.thy ===== *)
theory Arc_Buf
  imports Chunk_Pool
begin

text \<open>
  The reference-counted buffer of \<^verbatim>\<open>arc_buf.rs\<close>, at two levels. As a value, an \<open>arc_buf\<close> is a
  window of an allocation. In the store, handles are pointers into reference-counted allocations:
  \<^verbatim>\<open>split_at\<close> and \<^verbatim>\<open>clone\<close> share, \<^verbatim>\<open>try_add_prefix\<close> mutates in place when the count is
  one, and the last drop sends the allocation back to its chunk pool. The store level shows that
  the value level is what every handle observes, whatever the others do.
\<close>

subsection \<open>Values\<close>

record arc_inner =
  ai_data :: rvec
  ai_return :: "nat option"

record arc_buf =
  ab_inner :: arc_inner
  ab_offset :: nat
  ab_len :: nat

definition arc_from_vec :: "rvec \<Rightarrow> arc_buf" where
  "arc_from_vec v =
     \<lparr>ab_inner = \<lparr>ai_data = v, ai_return = None\<rparr>, ab_offset = 0, ab_len = vec_len v\<rparr>"

definition arc_from_chunk :: "chunk \<Rightarrow> arc_buf" where
  "arc_from_chunk c =
     (case into_raw_parts c of (data, offset, ret) \<Rightarrow>
        let len = saturating_sub (vec_len data) offset
        in \<lparr>ab_inner = \<lparr>ai_data = data, ai_return = ret\<rparr>, ab_offset = offset, ab_len = len\<rparr>)"

definition remaining_len :: "arc_buf \<Rightarrow> nat" where
  "remaining_len b = ab_len b"

definition arc_as_ref :: "arc_buf \<Rightarrow> byte list" where
  "arc_as_ref b = take (ab_len b) (drop (ab_offset b) (contents (ai_data (ab_inner b))))"

text \<open>\<^const>\<open>None\<close> is the panic of the assertion. The result is the shortened head and the tail.\<close>

definition arc_split_at :: "arc_buf \<Rightarrow> nat \<Rightarrow> (arc_buf \<times> arc_buf) option" where
  "arc_split_at b at =
     (if at \<le> ab_len b
      then Some (b\<lparr>ab_len := at\<rparr>, b\<lparr>ab_offset := ab_offset b + at, ab_len := ab_len b - at\<rparr>)
      else None)"

definition arc_inv :: "arc_buf \<Rightarrow> bool" where
  "arc_inv b \<longleftrightarrow> ab_offset b + ab_len b \<le> vec_len (ai_data (ab_inner b))"

subsection \<open>The store of shared allocations\<close>

record arc_handle =
  ah_ptr :: nat
  ah_offset :: nat
  ah_len :: nat

record arc_store =
  inners :: "nat \<Rightarrow> arc_inner option"
  strong :: "nat \<Rightarrow> nat"
  next_ptr :: nat
  returned :: "(nat \<times> rvec) list"

definition store_empty :: arc_store where
  "store_empty = \<lparr>inners = Map.empty, strong = (\<lambda>_. 0), next_ptr = 0, returned = []\<rparr>"

definition store_new :: "arc_store \<Rightarrow> arc_buf \<Rightarrow> arc_handle \<times> arc_store" where
  "store_new st b =
     (\<lparr>ah_ptr = next_ptr st, ah_offset = ab_offset b, ah_len = ab_len b\<rparr>,
      st\<lparr>inners := (inners st)(next_ptr st \<mapsto> ab_inner b),
         strong := (strong st)(next_ptr st := 1), next_ptr := next_ptr st + 1\<rparr>)"

definition store_clone :: "arc_store \<Rightarrow> arc_handle \<Rightarrow> arc_handle \<times> arc_store" where
  "store_clone st h =
     (h, st\<lparr>strong := (strong st)(ah_ptr h := strong st (ah_ptr h) + 1)\<rparr>)"

definition store_split_at :: "arc_store \<Rightarrow> arc_handle \<Rightarrow> nat \<Rightarrow> (arc_handle \<times> arc_handle \<times> arc_store) option" where
  "store_split_at st h at =
     (if at \<le> ah_len h
      then Some (h\<lparr>ah_len := at\<rparr>, h\<lparr>ah_offset := ah_offset h + at, ah_len := ah_len h - at\<rparr>,
                 st\<lparr>strong := (strong st)(ah_ptr h := strong st (ah_ptr h) + 1)\<rparr>)
      else None)"

definition write_prefix :: "rvec \<Rightarrow> nat \<Rightarrow> byte list \<Rightarrow> rvec" where
  "write_prefix v at prefix =
     v\<lparr>contents := take at (contents v) @ prefix @ drop (at + length prefix) (contents v)\<rparr>"

definition store_try_add_prefix :: "arc_store \<Rightarrow> arc_handle \<Rightarrow> byte list \<Rightarrow> bool \<times> arc_handle \<times> arc_store" where
  "store_try_add_prefix st h prefix =
     (let prefix_len = length prefix in
      if prefix_len = 0 then (True, h, st)
      else if ah_offset h < prefix_len then (False, h, st)
      else if strong st (ah_ptr h) \<noteq> 1 then (False, h, st)
      else case inners st (ah_ptr h) of
        None \<Rightarrow> (False, h, st)
      | Some inner \<Rightarrow>
          let new_offset = ah_offset h - prefix_len in
          (True, h\<lparr>ah_offset := new_offset, ah_len := ah_len h + prefix_len\<rparr>,
           st\<lparr>inners := (inners st)(ah_ptr h \<mapsto>
                inner\<lparr>ai_data := write_prefix (ai_data inner) new_offset prefix\<rparr>)\<rparr>))"

text \<open>Dropping a handle; the last one runs \<^verbatim>\<open>ArcBufInner::drop\<close>.\<close>

definition store_drop :: "arc_store \<Rightarrow> arc_handle \<Rightarrow> arc_store" where
  "store_drop st h =
     (if strong st (ah_ptr h) = 1
      then let sent = (case inners st (ah_ptr h) of
                 Some inner \<Rightarrow> (case ai_return inner of
                    Some ret \<Rightarrow> [(ret, vec_clear (ai_data inner))] | None \<Rightarrow> [])
               | None \<Rightarrow> [])
           in st\<lparr>inners := (inners st)(ah_ptr h := None), strong := (strong st)(ah_ptr h := 0),
                 returned := returned st @ sent\<rparr>
      else st\<lparr>strong := (strong st)(ah_ptr h := strong st (ah_ptr h) - 1)\<rparr>)"

definition arc_value :: "arc_store \<Rightarrow> arc_handle \<Rightarrow> arc_buf option" where
  "arc_value st h = map_option (\<lambda>inner. \<lparr>ab_inner = inner, ab_offset = ah_offset h, ab_len = ah_len h\<rparr>)
     (inners st (ah_ptr h))"

definition arc_view :: "arc_store \<Rightarrow> arc_handle \<Rightarrow> byte list option" where
  "arc_view st h = map_option arc_as_ref (arc_value st h)"

definition vec_of_slice :: "byte list \<Rightarrow> rvec" where
  "vec_of_slice bs = \<lparr>contents = bs, capacity = length bs\<rparr>"

text \<open>\<^verbatim>\<open>into_vec\<close> takes the allocation when this handle is its unique, full owner and copies the
  window otherwise. An allocation that is taken is not returned to the pool.\<close>

definition store_into_vec :: "arc_store \<Rightarrow> arc_handle \<Rightarrow> (rvec \<times> arc_store) option" where
  "store_into_vec st h =
     (case arc_value st h of
        None \<Rightarrow> None
      | Some b \<Rightarrow>
          if ah_offset h \<noteq> 0 \<or> ah_len h \<noteq> vec_len (ai_data (ab_inner b))
          then Some (vec_of_slice (arc_as_ref b), store_drop st h)
          else if strong st (ah_ptr h) = 1
          then Some (ai_data (ab_inner b),
                     st\<lparr>inners := (inners st)(ah_ptr h := None), strong := (strong st)(ah_ptr h := 0)\<rparr>)
          else Some (vec_of_slice (take (ah_len h) (drop (ah_offset h) (contents (ai_data (ab_inner b))))),
                     store_drop st h))"

subsection \<open>Windows\<close>

lemma arc_inv_new [simp]: "arc_inv (arc_from_vec v)"
  by (simp add: arc_inv_def arc_from_vec_def)

lemma arc_from_vec_as_ref [simp]: "arc_as_ref (arc_from_vec v) = contents v"
  by (simp add: arc_as_ref_def arc_from_vec_def)

lemma arc_from_chunk_as_ref: "arc_as_ref (arc_from_chunk c) = chunk_remaining c"
  by (simp add: arc_as_ref_def arc_from_chunk_def into_raw_parts_def chunk_remaining_def Let_def
      saturating_sub_def)

lemma arc_inv_from_chunk: "chunk_inv c \<Longrightarrow> arc_inv (arc_from_chunk c)"
  by (simp add: arc_inv_def arc_from_chunk_def into_raw_parts_def chunk_inv_def Let_def
      saturating_sub_def)

lemma arc_from_chunk_len: "remaining_len (arc_from_chunk c) = chunk_remaining_len c"
  by (simp add: remaining_len_def arc_from_chunk_def into_raw_parts_def chunk_remaining_len_def Let_def
      saturating_sub_def)

lemma arc_as_ref_length: "arc_inv b \<Longrightarrow> length (arc_as_ref b) = remaining_len b"
  by (simp add: arc_as_ref_def arc_inv_def remaining_len_def)

lemma arc_split_at_spec:
  assumes "arc_split_at b at = Some (hd', tl')"
  shows "arc_as_ref b = arc_as_ref hd' @ arc_as_ref tl'" "remaining_len hd' = at"
    "remaining_len tl' = remaining_len b - at" "at \<le> remaining_len b"
    "arc_inv b \<Longrightarrow> arc_inv hd' \<and> arc_inv tl'"
proof -
  from assms have at: "at \<le> ab_len b" and h: "hd' = b\<lparr>ab_len := at\<rparr>"
    and t: "tl' = b\<lparr>ab_offset := ab_offset b + at, ab_len := ab_len b - at\<rparr>"
    by (auto simp: arc_split_at_def split: if_splits)
  have "take (ab_len b) xs = take at xs @ take (ab_len b - at) (drop at xs)" for xs :: "byte list"
    using at by (metis le_add_diff_inverse take_add)
  then show "arc_as_ref b = arc_as_ref hd' @ arc_as_ref tl'"
    by (simp add: arc_as_ref_def h t add.commute [of at])
  from at h t show "remaining_len hd' = at" "remaining_len tl' = remaining_len b - at"
    "at \<le> remaining_len b" "arc_inv b \<Longrightarrow> arc_inv hd' \<and> arc_inv tl'"
    by (auto simp: remaining_len_def arc_inv_def)
qed

subsection \<open>Sharing\<close>

text \<open>The invariant of a store with its live handles: counts are exact, live allocations are
  those with handles, and every window lies in its allocation.\<close>

definition store_inv :: "arc_store \<Rightarrow> arc_handle multiset \<Rightarrow> bool" where
  "store_inv st hs \<longleftrightarrow>
     (\<forall>p. strong st p = size (filter_mset (\<lambda>h. ah_ptr h = p) hs)) \<and>
     (\<forall>p. inners st p \<noteq> None \<longleftrightarrow> 0 < strong st p) \<and>
     (\<forall>p. 0 < strong st p \<longrightarrow> p < next_ptr st) \<and>
     (\<forall>h \<in># hs. \<forall>b. arc_value st h = Some b \<longrightarrow> arc_inv b)"

lemma store_invI:
  assumes "\<And>p. strong st p = size (filter_mset (\<lambda>h. ah_ptr h = p) hs)"
    and "\<And>p. inners st p \<noteq> None \<longleftrightarrow> 0 < strong st p"
    and "\<And>p. 0 < strong st p \<Longrightarrow> p < next_ptr st"
    and "\<And>h b. h \<in># hs \<Longrightarrow> arc_value st h = Some b \<Longrightarrow> arc_inv b"
  shows "store_inv st hs"
  using assms unfolding store_inv_def by blast

lemma store_invD:
  assumes "store_inv st hs"
  shows "strong st p = size (filter_mset (\<lambda>h. ah_ptr h = p) hs)"
    "inners st p \<noteq> None \<longleftrightarrow> 0 < strong st p"
    "0 < strong st p \<Longrightarrow> p < next_ptr st"
    "h \<in># hs \<Longrightarrow> arc_value st h = Some b \<Longrightarrow> arc_inv b"
  using assms unfolding store_inv_def by blast+

lemma store_inv_empty [simp]: "store_inv store_empty {#}"
  by (simp add: store_inv_def store_empty_def)

lemma live_handle_value:
  "store_inv st (add_mset h hs) \<Longrightarrow> \<exists>b. arc_value st h = Some b \<and> arc_inv b"
  by (fastforce simp: store_inv_def arc_value_def)

lemma store_inv_member: "store_inv st hs \<Longrightarrow> h \<in># hs \<Longrightarrow> \<exists>b. arc_value st h = Some b \<and> arc_inv b"
  by (metis live_handle_value mset_add)

lemma unique_owner:
  assumes "store_inv st (add_mset h hs)" "strong st (ah_ptr h) = 1" "k \<in># hs"
  shows "ah_ptr k \<noteq> ah_ptr h"
  using assms by (auto simp: store_inv_def dest!: spec [of _ "ah_ptr h"] multi_member_split)

lemma arc_value_cong:
  "inners st' (ah_ptr h) = inners st (ah_ptr h) \<Longrightarrow> arc_value st' h = arc_value st h"
  by (simp add: arc_value_def)

lemma store_split_refines:
  assumes "store_inv st (add_mset h hs)" "store_split_at st h at = Some (a, t, st')"
  shows "store_inv st' (add_mset a (add_mset t hs))"
    "\<And>k. arc_value st' k = arc_value st k"
    "\<exists>b a' t'. arc_value st h = Some b \<and> arc_split_at b at = Some (a', t')
       \<and> arc_value st' a = Some a' \<and> arc_value st' t = Some t'"
proof -
  from assms(2) have at: "at \<le> ah_len h" and a: "a = h\<lparr>ah_len := at\<rparr>"
    and t: "t = h\<lparr>ah_offset := ah_offset h + at, ah_len := ah_len h - at\<rparr>"
    and st': "st' = st\<lparr>strong := (strong st)(ah_ptr h := strong st (ah_ptr h) + 1)\<rparr>"
    by (auto simp: store_split_at_def split: if_splits)
  show same: "arc_value st' k = arc_value st k" for k by (simp add: arc_value_def st')
  from live_handle_value [OF assms(1)] obtain b where b: "arc_value st h = Some b" "arc_inv b" by blast
  then have parts: "arc_split_at b at = Some (b\<lparr>ab_len := at\<rparr>,
      b\<lparr>ab_offset := ab_offset b + at, ab_len := ab_len b - at\<rparr>)"
    and va: "arc_value st' a = Some (b\<lparr>ab_len := at\<rparr>)"
    and vt: "arc_value st' t = Some (b\<lparr>ab_offset := ab_offset b + at, ab_len := ab_len b - at\<rparr>)"
    using at by (auto simp: arc_split_at_def arc_value_def a t st')
  then show "\<exists>b a' t'. arc_value st h = Some b \<and> arc_split_at b at = Some (a', t')
       \<and> arc_value st' a = Some a' \<and> arc_value st' t = Some t'" using b by blast
  have "\<forall>k \<in># add_mset a (add_mset t hs). \<forall>v. arc_value st' k = Some v \<longrightarrow> arc_inv v"
    using va vt arc_split_at_spec(5) [OF parts b(2)] assms(1) same by (auto simp: store_inv_def)
  with assms(1) show "store_inv st' (add_mset a (add_mset t hs))"
    by (auto simp: store_inv_def a t st')
qed

lemma store_clone_refines:
  assumes "store_inv st (add_mset h hs)" "store_clone st h = (c, st')"
  shows "store_inv st' (add_mset h (add_mset c hs))" "\<And>k. arc_value st' k = arc_value st k" "c = h"
proof -
  from assms(2) have c: "c = h"
    and st': "st' = st\<lparr>strong := (strong st)(ah_ptr h := strong st (ah_ptr h) + 1)\<rparr>"
    by (auto simp: store_clone_def)
  show "c = h" by (fact c)
  show same: "arc_value st' k = arc_value st k" for k by (simp add: arc_value_def st')
  from assms(1) same show "store_inv st' (add_mset h (add_mset c hs))"
    by (auto simp: store_inv_def c st')
qed

lemma store_new_refines:
  assumes "store_inv st hs" "arc_inv b" "store_new st b = (h, st')"
  shows "store_inv st' (add_mset h hs)" "arc_value st' h = Some b"
    "\<And>k. k \<in># hs \<Longrightarrow> arc_value st' k = arc_value st k"
proof -
  from assms(3) have h: "h = \<lparr>ah_ptr = next_ptr st, ah_offset = ab_offset b, ah_len = ab_len b\<rparr>"
    and st': "st' = st\<lparr>inners := (inners st)(next_ptr st \<mapsto> ab_inner b),
         strong := (strong st)(next_ptr st := 1), next_ptr := next_ptr st + 1\<rparr>"
    by (auto simp: store_new_def)
  show v: "arc_value st' h = Some b" by (simp add: arc_value_def h st')
  have fresh: "strong st (next_ptr st) = 0"
    using store_invD(3) [OF assms(1), of "next_ptr st"] by auto
  have ptr: "ah_ptr k \<noteq> next_ptr st" if "k \<in># hs" for k
  proof
    assume "ah_ptr k = next_ptr st"
    with that have "filter_mset (\<lambda>h. ah_ptr h = next_ptr st) hs \<noteq> {#}"
      by (auto simp: filter_mset_eq_conv)
    with fresh store_invD(1) [OF assms(1), of "next_ptr st"] show False by simp
  qed
  then show same: "arc_value st' k = arc_value st k" if "k \<in># hs" for k
    using that by (simp add: arc_value_def st')
  have "\<forall>k \<in># add_mset h hs. \<forall>v. arc_value st' k = Some v \<longrightarrow> arc_inv v"
    using v same assms(2) store_invD(4) [OF assms(1)] by auto
  then show "store_inv st' (add_mset h hs)"
  proof (intro store_invI)
    show "p < next_ptr st'" if "0 < strong st' p" for p
      using store_invD(3) [OF assms(1), of p] that by (auto simp: st' less_SucI split: if_splits)
    show "inners st' p \<noteq> None \<longleftrightarrow> 0 < strong st' p" for p
      using store_invD(2) [OF assms(1), of p] by (simp add: st')
    show "strong st' p = size (filter_mset (\<lambda>h. ah_ptr h = p) (add_mset h hs))" for p
      using store_invD(1) [OF assms(1), of p] fresh by (auto simp: h st')
  qed auto
qed

lemma write_prefix_len:
  "at + length prefix \<le> vec_len v \<Longrightarrow> vec_len (write_prefix v at prefix) = vec_len v"
  by (simp add: write_prefix_def)

lemma write_prefix_window:
  assumes "length prefix \<le> off" "off + len \<le> vec_len v"
  shows "take (len + length prefix) (drop (off - length prefix) (contents (write_prefix v (off - length prefix) prefix)))
       = prefix @ take len (drop off (contents v))"
  using assms by (simp add: write_prefix_def)

lemma store_prefix_refines:
  assumes "store_inv st (add_mset h hs)" "store_try_add_prefix st h prefix = (ok, h', st')"
  shows "store_inv st' (add_mset h' hs)"
    "\<And>k. k \<in># hs \<Longrightarrow> arc_value st' k = arc_value st k"
    "arc_view st' h' = (if ok then map_option ((@) prefix) (arc_view st h) else arc_view st h)"
proof -
  from live_handle_value [OF assms(1)] obtain b where b: "arc_value st h = Some b" "arc_inv b" by blast
  then obtain inner where inner: "inners st (ah_ptr h) = Some inner"
    and win: "ah_offset h + ah_len h \<le> vec_len (ai_data inner)"
    by (auto simp: arc_value_def arc_inv_def)
  have "store_inv st' (add_mset h' hs) \<and> (\<forall>k \<in># hs. arc_value st' k = arc_value st k)
    \<and> arc_view st' h' = (if ok then map_option ((@) prefix) (arc_view st h) else arc_view st h)"
  proof (cases "prefix = [] \<or> ah_offset h < length prefix \<or> strong st (ah_ptr h) \<noteq> 1")
    case True
    with assms(2) have "st' = st" "h' = h" "ok \<longrightarrow> prefix = []"
      by (auto simp: store_try_add_prefix_def Let_def split: if_splits)
    with assms(1) b show ?thesis by (simp add: arc_view_def)
  next
    case False
    then have fits: "length prefix \<le> ah_offset h" and one: "strong st (ah_ptr h) = 1" and "prefix \<noteq> []"
      by auto
    with assms(2) inner have ok: "ok"
      and h': "h' = h\<lparr>ah_offset := ah_offset h - length prefix, ah_len := ah_len h + length prefix\<rparr>"
      and st': "st' = st\<lparr>inners := (inners st)(ah_ptr h \<mapsto>
          inner\<lparr>ai_data := write_prefix (ai_data inner) (ah_offset h - length prefix) prefix\<rparr>)\<rparr>"
      by (simp_all add: store_try_add_prefix_def Let_def)
    have other: "arc_value st' k = arc_value st k" if "k \<in># hs" for k
      using unique_owner [OF assms(1) one that] by (simp add: arc_value_def st')
    have "vec_len (write_prefix (ai_data inner) (ah_offset h - length prefix) prefix) = vec_len (ai_data inner)"
      using write_prefix_len [of "ah_offset h - length prefix" prefix "ai_data inner"] fits win by simp
    then have own: "arc_inv v" if "arc_value st' h' = Some v" for v
      using win fits that by (auto simp: arc_value_def arc_inv_def h' st')
    have "store_inv st' (add_mset h' hs)"
    proof (rule store_invI)
      show "arc_inv v" if "k \<in># add_mset h' hs" "arc_value st' k = Some v" for k v
        using that own [of v] other [of k] store_invD(4) [OF assms(1), of k v] by auto
      show "inners st' p \<noteq> None \<longleftrightarrow> 0 < strong st' p" for p
        using store_invD(2) [OF assms(1), of p] one by (simp add: st')
    qed (use store_invD(1,3) [OF assms(1)] in \<open>simp_all add: h' st'\<close>)
    moreover have "arc_view st' h' = map_option ((@) prefix) (arc_view st h)"
      using write_prefix_window [OF fits win] inner
      by (simp add: arc_view_def arc_value_def arc_as_ref_def h' st')
    ultimately show ?thesis using other ok by simp
  qed
  then show "store_inv st' (add_mset h' hs)" "\<And>k. k \<in># hs \<Longrightarrow> arc_value st' k = arc_value st k"
    "arc_view st' h' = (if ok then map_option ((@) prefix) (arc_view st h) else arc_view st h)"
    by auto
qed

lemma store_drop_refines:
  assumes "store_inv st (add_mset h hs)"
  shows "store_inv (store_drop st h) hs"
    "\<And>k. k \<in># hs \<Longrightarrow> arc_value (store_drop st h) k = arc_value st k"
    "returned (store_drop st h) = returned st @
       (case inners st (ah_ptr h) of
          Some inner \<Rightarrow> if (\<exists>k \<in># hs. ah_ptr k = ah_ptr h) then []
             else (case ai_return inner of Some ret \<Rightarrow> [(ret, vec_clear (ai_data inner))] | None \<Rightarrow> [])
        | None \<Rightarrow> [])"
proof -
  note D = store_invD [OF assms]
  have cnt: "strong st (ah_ptr h) = Suc (size (filter_mset (\<lambda>k. ah_ptr k = ah_ptr h) hs))"
    using D(1) [of "ah_ptr h"] by simp
  then have pos: "0 < strong st (ah_ptr h)" by simp
  have last_iff: "strong st (ah_ptr h) = 1 \<longleftrightarrow> \<not> (\<exists>k \<in># hs. ah_ptr k = ah_ptr h)"
    by (auto simp: cnt filter_mset_eq_conv)
  show same: "arc_value (store_drop st h) k = arc_value st k" if "k \<in># hs" for k
    using that last_iff by (auto simp: store_drop_def arc_value_def Let_def)
  show "returned (store_drop st h) = returned st @
       (case inners st (ah_ptr h) of
          Some inner \<Rightarrow> if (\<exists>k \<in># hs. ah_ptr k = ah_ptr h) then []
             else (case ai_return inner of Some ret \<Rightarrow> [(ret, vec_clear (ai_data inner))] | None \<Rightarrow> [])
        | None \<Rightarrow> [])"
    unfolding last_iff [THEN arg_cong [where f = Not], simplified, symmetric] store_drop_def
    by (auto simp: Let_def split: option.splits)
  show "store_inv (store_drop st h) hs"
  proof (rule store_invI)
    show "strong (store_drop st h) p = size (filter_mset (\<lambda>h. ah_ptr h = p) hs)" for p
      using D(1) [of p] by (auto simp: store_drop_def Let_def)
    show "inners (store_drop st h) p \<noteq> None \<longleftrightarrow> 0 < strong (store_drop st h) p" for p
      using D(2) [of p] pos by (cases "p = ah_ptr h") (simp_all add: store_drop_def Let_def)
    show "p < next_ptr (store_drop st h)" if "0 < strong (store_drop st h) p" for p
      using D(3) [of p] that by (auto simp: store_drop_def Let_def split: if_splits)
    show "arc_inv b" if "k \<in># hs" "arc_value (store_drop st h) k = Some b" for k b
      using D(4) [of k b] that same by simp
  qed
qed

lemma store_into_vec_contents:
  assumes "store_inv st (add_mset h hs)"
  shows "\<exists>v st'. store_into_vec st h = Some (v, st') \<and> arc_view st h = Some (contents v)"
proof -
  from live_handle_value [OF assms] obtain b where b: "arc_value st h = Some b" "arc_inv b" by blast
  then have "ab_offset b = ah_offset h" "ab_len b = ah_len h" by (auto simp: arc_value_def)
  with b show ?thesis
    by (auto simp: store_into_vec_def arc_view_def vec_of_slice_def arc_as_ref_def)
qed


definition sample_store :: "arc_handle \<times> arc_handle \<times> arc_store" where
  "sample_store =
     (case store_new store_empty (arc_from_vec (vec_of_slice [1, 2, 3, 4])) of (h, st) \<Rightarrow>
        the (store_split_at st h 2))"

lemma sample_store_inv:
  "store_inv (snd (snd sample_store)) {#fst sample_store, fst (snd sample_store)#}"
proof -
  obtain h st where n: "store_new store_empty (arc_from_vec (vec_of_slice [1, 2, 3, 4])) = (h, st)"
    by fastforce
  have inv: "store_inv st {#h#}" using store_new_refines(1) [OF _ _ n] by simp
  obtain a t st' where s: "store_split_at st h 2 = Some (a, t, st')"
    using n by (auto simp: store_split_at_def store_new_def arc_from_vec_def vec_of_slice_def)
  from store_split_refines(1) [OF _ s, of "{#}"] inv n s show ?thesis
    by (simp add: sample_store_def)
qed


end
