(* ===== verification/Pending_Write.thy ===== *)
theory Pending_Write
  imports Arc_Buf Admission
begin

text \<open>
  The pending-write queue of \<^verbatim>\<open>pending_write.rs\<close> and its accounting model
  \<^verbatim>\<open>proof_core/pending_write_model.rs\<close>. The transport is a function argument threaded with its
  own state; locale \<open>stream_sender\<close> states what the queue relies on, and every concrete sender of
  the development (quiche streams, HTTP/3 bodies, the fuzzing sender below) is an interpretation.
\<close>

record pending_write_snapshot =
  snap_queued_bytes :: nat
  snap_fin_requested :: bool

definition snapshot_queued_units :: "pending_write_snapshot \<Rightarrow> nat" where
  "snapshot_queued_units s = outbound_payload_units (snap_queued_bytes s) (snap_fin_requested s)"

definition released_units_for_send :: "nat \<Rightarrow> bool \<Rightarrow> nat \<Rightarrow> bool \<Rightarrow> nat" where
  "released_units_for_send payload_len send_fin written fin_accepted =
     accepted_outbound_payload_units payload_len send_fin written fin_accepted"

definition release_is_bounded :: "nat \<Rightarrow> bool \<Rightarrow> nat \<Rightarrow> bool \<Rightarrow> bool" where
  "release_is_bounded payload_len send_fin written fin_accepted \<longleftrightarrow>
     released_units_for_send payload_len send_fin written fin_accepted
       \<le> outbound_payload_units payload_len send_fin"

record pending_write =
  pw_chunks :: "arc_buf list"
  pw_fin :: bool

definition pending_write_new :: "arc_buf \<Rightarrow> bool \<Rightarrow> pending_write" where
  "pending_write_new remainder fin = \<lparr>pw_chunks = [remainder], pw_fin = fin\<rparr>"

definition push_chunk :: "pending_write \<Rightarrow> chunk \<Rightarrow> nat \<times> pending_write" where
  "push_chunk pw c =
     (let q = chunk_remaining_len c in
      (q, if 0 < q then pw\<lparr>pw_chunks := pw_chunks pw @ [arc_from_chunk c]\<rparr> else pw))"

definition set_fin :: "pending_write \<Rightarrow> pending_write" where
  "set_fin pw = pw\<lparr>pw_fin := True\<rparr>"

definition queued_bytes :: "pending_write \<Rightarrow> nat" where
  "queued_bytes pw = sum_list (map remaining_len (pw_chunks pw))"

definition pw_snapshot :: "pending_write \<Rightarrow> pending_write_snapshot" where
  "pw_snapshot pw = \<lparr>snap_queued_bytes = queued_bytes pw, snap_fin_requested = pw_fin pw\<rparr>"

definition queued_units :: "pending_write \<Rightarrow> nat" where
  "queued_units pw = snapshot_queued_units (pw_snapshot pw)"

record send_outcome =
  so_written :: nat
  so_fin_accepted :: bool
  so_remainder :: "arc_buf option"

record flush_outcome =
  fo_done :: bool
  fo_released_units :: nat

type_synonym ('q, 'e) sender = "'q \<Rightarrow> arc_buf \<Rightarrow> bool \<Rightarrow> ('e + send_outcome) \<times> 'q"

text \<open>The loop of \<^verbatim>\<open>flush_pending_write_with_progress\<close>; each turn pops one chunk, so it recurses
  on the chunk list. The result carries the remaining chunks and the sender's state.\<close>

fun flush_loop ::
  "('q, 'e) sender \<Rightarrow> 'q \<Rightarrow> bool \<Rightarrow> nat \<Rightarrow> arc_buf list \<Rightarrow> ('e + flush_outcome) \<times> arc_buf list \<times> 'q" where
  "flush_loop send q fin released (buf # rest) =
     (let payload_len = remaining_len buf; send_fin = (fin \<and> rest = []) in
      case send q buf send_fin of
        (Inl e, q') \<Rightarrow> (Inl e, rest, q')
      | (Inr out, q') \<Rightarrow>
          let released' = released +
                released_units_for_send payload_len send_fin (so_written out) (so_fin_accepted out) in
          case so_remainder out of
            Some remainder \<Rightarrow>
              (Inr \<lparr>fo_done = False, fo_released_units = released'\<rparr>, remainder # rest, q')
          | None \<Rightarrow>
              if send_fin
              then (Inr \<lparr>fo_done = so_fin_accepted out, fo_released_units = released'\<rparr>, rest, q')
              else flush_loop send q' fin released' rest)"
| "flush_loop send q fin released [] =
     (if fin then
        (case send q (arc_from_vec vec_new) True of
           (Inl e, q') \<Rightarrow> (Inl e, [], q')
         | (Inr out, q') \<Rightarrow>
             let released' = released +
                   released_units_for_send 0 True (so_written out) (so_fin_accepted out) in
             case so_remainder out of
               Some remainder \<Rightarrow>
                 (Inr \<lparr>fo_done = False, fo_released_units = released'\<rparr>, [remainder], q')
             | None \<Rightarrow>
                 (Inr \<lparr>fo_done = so_fin_accepted out, fo_released_units = released'\<rparr>, [], q'))
      else (Inr \<lparr>fo_done = True, fo_released_units = released\<rparr>, [], q))"

definition flush_pending_write_with_progress ::
  "('q, 'e) sender \<Rightarrow> 'q \<Rightarrow> pending_write \<Rightarrow> ('e + flush_outcome) \<times> pending_write \<times> 'q" where
  "flush_pending_write_with_progress send q pw =
     (case flush_loop send q (pw_fin pw) 0 (pw_chunks pw) of
        (r, chunks, q') \<Rightarrow> (r, pw\<lparr>pw_chunks := chunks\<rparr>, q'))"

definition flush_pending_write ::
  "('q, 'e) sender \<Rightarrow> 'q \<Rightarrow> pending_write \<Rightarrow> ('e + bool) \<times> pending_write \<times> 'q" where
  "flush_pending_write send q pw =
     (case flush_pending_write_with_progress send q pw of
        (Inl e, pw', q') \<Rightarrow> (Inl e, pw', q')
      | (Inr out, pw', q') \<Rightarrow> (Inr (fo_done out), pw', q'))"

text \<open>A sender that never fails gives a flush that never fails.\<close>

lemma flush_loop_no_error:
  "flush_loop send q fin released cs = (r, cs', q') \<Longrightarrow>
     (\<And>q buf fin. \<exists>out q'. send q buf fin = (Inr out, q')) \<Longrightarrow> \<not> isl r"
proof (induction send q fin released cs arbitrary: r cs' q' rule: flush_loop.induct)
  case (1 send q fin released buf rest)
  obtain out q1 where "send q buf (fin \<and> rest = []) = (Inr out, q1)" using 1(3) by blast
  with 1 show ?case by (auto simp: Let_def split: option.splits if_splits)
next
  case (2 send q fin released)
  obtain out q1 where "send q (arc_from_vec vec_new) True = (Inr out, q1)" using 2(2) by blast
  with 2 show ?case by (auto simp: Let_def split: option.splits if_splits)
qed

subsection \<open>Invariant and units\<close>

text \<open>Only the front chunk may be empty: it can be an unaccepted FIN or a fully written
  remainder, and \<^const>\<open>push_chunk\<close> never appends an empty one.\<close>

definition chunks_inv :: "arc_buf list \<Rightarrow> bool" where
  "chunks_inv cs \<longleftrightarrow> (\<forall>c \<in> set cs. arc_inv c) \<and> (\<forall>c \<in> set (tl cs). 0 < remaining_len c)"

definition pw_inv :: "pending_write \<Rightarrow> bool" where
  "pw_inv pw \<longleftrightarrow> chunks_inv (pw_chunks pw)"

definition pw_bytes :: "pending_write \<Rightarrow> byte list" where
  "pw_bytes pw = concat (map arc_as_ref (pw_chunks pw))"

lemma queued_units_alt: "queued_units pw = outbound_payload_units (queued_bytes pw) (pw_fin pw)"
  by (simp add: queued_units_def pw_snapshot_def snapshot_queued_units_def)

lemma chunks_inv_simps [simp]:
  "chunks_inv []"
  "chunks_inv [b] \<longleftrightarrow> arc_inv b"
  "chunks_inv (b # cs) \<longleftrightarrow> arc_inv b \<and> (\<forall>c \<in> set cs. arc_inv c \<and> 0 < remaining_len c)"
  by (auto simp: chunks_inv_def)

lemma chunks_inv_tl: "chunks_inv (b # cs) \<Longrightarrow> chunks_inv cs"
  by (cases cs) auto

lemma pw_inv_new: "arc_inv b \<Longrightarrow> pw_inv (pending_write_new b fin)"
  by (simp add: pw_inv_def pending_write_new_def)

lemma pw_inv_push:
  assumes "pw_inv pw" "chunk_inv c"
  shows "pw_inv (snd (push_chunk pw c))"
proof (cases "pw_chunks pw")
  case Nil
  with assms show ?thesis by (simp add: push_chunk_def pw_inv_def Let_def arc_inv_from_chunk)
next
  case (Cons b cs)
  with assms show ?thesis
    by (auto simp: push_chunk_def pw_inv_def Let_def arc_inv_from_chunk arc_from_chunk_len)
qed

lemma pw_inv_set_fin [simp]: "pw_inv (set_fin pw) = pw_inv pw"
  by (simp add: pw_inv_def set_fin_def)

lemma queued_bytes_new [simp]: "queued_bytes (pending_write_new b fin) = remaining_len b"
  by (simp add: queued_bytes_def pending_write_new_def)

lemma queued_bytes_push: "queued_bytes (snd (push_chunk pw c)) = queued_bytes pw + fst (push_chunk pw c)"
  by (simp add: queued_bytes_def push_chunk_def Let_def arc_from_chunk_len)

lemma queued_bytes_length:
  "pw_inv pw \<Longrightarrow> length (pw_bytes pw) = queued_bytes pw"
  by (auto simp: pw_bytes_def queued_bytes_def pw_inv_def chunks_inv_def length_concat arc_as_ref_length
      intro!: arg_cong [where f = sum_list])

lemma pw_bytes_push: "pw_bytes (snd (push_chunk pw c)) = pw_bytes pw @ chunk_remaining c"
  by (auto simp: pw_bytes_def push_chunk_def Let_def arc_from_chunk_as_ref chunk_remaining_length)

text \<open>Everything a successful flush does: units released and units still queued add up to what
  was queued, bytes reach the transport in order, and the flush is done exactly when the queue is
  empty and a requested FIN has been taken.\<close>

definition flush_post ::
  "('q \<Rightarrow> byte list) \<Rightarrow> ('q \<Rightarrow> bool) \<Rightarrow> 'q \<Rightarrow> bool \<Rightarrow> nat \<Rightarrow> arc_buf list \<Rightarrow> flush_outcome \<Rightarrow> arc_buf list \<Rightarrow> 'q \<Rightarrow> bool" where
  "flush_post accepted_bytes accepted_fin q fin released cs out cs' q' \<longleftrightarrow>
     fo_released_units out
       + (if fo_done out then 0 else outbound_payload_units (sum_list (map remaining_len cs')) fin)
       = released + outbound_payload_units (sum_list (map remaining_len cs)) fin
     \<and> accepted_bytes q' @ concat (map arc_as_ref cs') = accepted_bytes q @ concat (map arc_as_ref cs)
     \<and> chunks_inv cs' \<and> (fo_done out \<longrightarrow> cs' = [])
     \<and> (accepted_fin q' \<longleftrightarrow> accepted_fin q \<or> (fin \<and> fo_done out))"

lemma accepted_units_min:
  "accepted_outbound_payload_units n fin (min w n) fa = accepted_outbound_payload_units n fin w fa"
  by (simp add: accepted_outbound_payload_units_def Let_def)

subsection \<open>The sender contract\<close>

text \<open>What a stream must promise the flush loop. A sender may report more than it was given: the raw
  QUIC connection reports one for an accepted empty FIN.\<close>

locale stream_sender =
  fixes send :: "('q, 'e) sender"
    and accepted_bytes :: "'q \<Rightarrow> byte list"
    and accepted_fin :: "'q \<Rightarrow> bool"
  assumes no_remainder: "send q buf fin = (Inr out, q') \<Longrightarrow> so_remainder out = None \<Longrightarrow>
          remaining_len buf \<le> so_written out"
    and remainder: "send q buf fin = (Inr out, q') \<Longrightarrow> so_remainder out = Some r \<Longrightarrow> arc_inv buf \<Longrightarrow>
          arc_inv r \<and> so_written out \<le> remaining_len buf \<and> arc_as_ref r = drop (so_written out) (arc_as_ref buf)
          \<and> remaining_len r = remaining_len buf - so_written out \<and> \<not> so_fin_accepted out"
    and fin_only_if_asked: "send q buf fin = (Inr out, q') \<Longrightarrow> so_fin_accepted out \<Longrightarrow> fin"
    and progress_bytes: "send q buf fin = (Inr out, q') \<Longrightarrow>
          accepted_bytes q' = accepted_bytes q @ take (so_written out) (arc_as_ref buf)"
    and progress_fin: "send q buf fin = (Inr out, q') \<Longrightarrow>
          accepted_fin q' \<longleftrightarrow> accepted_fin q \<or> so_fin_accepted out"
begin

lemma send_units:
  assumes "send q buf fin = (Inr out, q')" "arc_inv buf"
  shows "released_units_for_send (remaining_len buf) fin (so_written out) (so_fin_accepted out)
      + outbound_payload_units (remaining_len buf - so_written out) (fin \<and> \<not> so_fin_accepted out)
      = outbound_payload_units (remaining_len buf) fin"
proof -
  let ?w = "min (so_written out) (remaining_len buf)"
  have "?w = remaining_len buf" if "so_fin_accepted out"
    using that remainder [OF assms(1)] no_remainder [OF assms(1)] assms(2)
    by (cases "so_remainder out") auto
  with fin_only_if_asked [OF assms(1)]
  have "accepted_outbound_payload_units (remaining_len buf) fin ?w (so_fin_accepted out)
      + outbound_payload_units (remaining_len buf - ?w) (fin \<and> \<not> so_fin_accepted out)
      = outbound_payload_units (remaining_len buf) fin"
    by (intro accepted_plus_rest) auto
  moreover have "remaining_len buf - ?w = remaining_len buf - so_written out" by simp
  ultimately show ?thesis
    by (simp add: released_units_for_send_def accepted_units_min)
qed

lemma flush_loop_empty:
  assumes "flush_loop send q fin released [] = (Inr out, cs', q')"
  shows "flush_post accepted_bytes accepted_fin q fin released [] out cs' q'"
proof (cases fin)
  case False
  with assms show ?thesis by (auto simp: flush_post_def)
next
  case True
  obtain r q1 where snd: "send q (arc_from_vec vec_new) True = (r, q1)" by fastforce
  with True assms obtain o1 where r: "r = Inr o1" by (cases r) auto
  have z: "remaining_len (arc_from_vec vec_new) = 0" "arc_as_ref (arc_from_vec vec_new) = []"
    by (simp_all add: remaining_len_def arc_from_vec_def arc_as_ref_def)
  note law = snd [unfolded r]
  show ?thesis
  proof (cases "so_remainder o1")
    case None
    with True assms snd r send_units [OF law arc_inv_new] progress_bytes [OF law] progress_fin [OF law] z
    show ?thesis by (auto simp: flush_post_def Let_def split: if_splits)
  next
    case (Some rem)
    with remainder [OF law Some arc_inv_new] z have "arc_as_ref rem = []" "remaining_len rem = 0"
      "arc_inv rem" "\<not> so_fin_accepted o1" by auto
    with True assms snd r Some send_units [OF law arc_inv_new] progress_bytes [OF law] progress_fin [OF law] z
    show ?thesis by (auto simp: flush_post_def Let_def)
  qed
qed

lemma units_split:
  "0 < n \<or> \<not> fin \<Longrightarrow> outbound_payload_units (m + n) fin = m + outbound_payload_units n fin"
  by (cases fin) (auto simp: outbound_payload_units_def)

lemma flush_loop_spec:
  assumes "flush_loop send q fin released cs = (Inr out, cs', q')" "chunks_inv cs"
  shows "flush_post accepted_bytes accepted_fin q fin released cs out cs' q'"
  using assms
proof (induction cs arbitrary: q released)
  case Nil
  then show ?case by (intro flush_loop_empty)
next
  case (Cons buf rest)
  let ?sf = "fin \<and> rest = []"
  have inv: "arc_inv buf" "\<forall>c \<in> set rest. arc_inv c \<and> 0 < remaining_len c"
    using Cons.prems(2) by auto
  obtain r q1 where snd: "send q buf ?sf = (r, q1)" by fastforce
  with Cons.prems obtain o1 where r: "r = Inr o1" by (cases r) (auto simp: Let_def)
  note law = snd [unfolded r]
  let ?u = "released_units_for_send (remaining_len buf) ?sf (so_written o1) (so_fin_accepted o1)"
  have tail_pos: "0 < sum_list (map remaining_len rest)" if "rest \<noteq> []"
    using that inv(2) by (cases rest) auto
  note units = send_units [OF law inv(1)]
  note split = units_split [of "sum_list (map remaining_len rest)" fin]
  show ?case
  proof (cases "so_remainder o1")
    case (Some rem)
    note R = remainder [OF law Some inv(1)]
    have le: "so_written o1 \<le> remaining_len buf" using R by blast
    have bytes: "take (so_written o1) (arc_as_ref buf) @ arc_as_ref rem = arc_as_ref buf" using R by simp
    have out: "out = \<lparr>fo_done = False, fo_released_units = released + ?u\<rparr>" "cs' = rem # rest" "q' = q1"
      using Cons.prems(1) snd r Some by (auto simp: Let_def)
    have "?u + outbound_payload_units (sum_list (map remaining_len (rem # rest))) fin
        = outbound_payload_units (sum_list (map remaining_len (buf # rest))) fin"
    proof (cases "rest = []")
      case True
      with units R show ?thesis by simp
    next
      case False
      with units R tail_pos split le show ?thesis by simp
    qed
    with R out inv(2) bytes progress_bytes [OF law] progress_fin [OF law] show ?thesis
      by (auto simp: flush_post_def)
  next
    case None
    have w: "remaining_len buf \<le> so_written o1" using no_remainder [OF law None] .
    have bytes: "take (so_written o1) (arc_as_ref buf) = arc_as_ref buf"
      using w arc_as_ref_length [OF inv(1)] by simp
    show ?thesis
    proof (cases ?sf)
      case True
      then have out: "out = \<lparr>fo_done = so_fin_accepted o1, fo_released_units = released + ?u\<rparr>"
        "cs' = []" "q' = q1"
        using Cons.prems(1) snd r None by (auto simp: Let_def)
      with True units w bytes progress_bytes [OF law] progress_fin [OF law] show ?thesis
        by (auto simp: flush_post_def split: if_splits)
    next
      case False
      then have step: "flush_loop send q1 fin (released + ?u) rest = (Inr out, cs', q')"
        using Cons.prems(1) snd r None by (auto simp: Let_def)
      from Cons.IH [OF step] inv(2) have post: "flush_post accepted_bytes accepted_fin q1 fin (released + ?u) rest out cs' q'"
        by (cases rest) auto
      have nofin: "\<not> so_fin_accepted o1" using fin_only_if_asked [OF law] False by auto
      have "?u = remaining_len buf" using units w False nofin by auto
      moreover have "outbound_payload_units (remaining_len buf + sum_list (map remaining_len rest)) fin
          = remaining_len buf + outbound_payload_units (sum_list (map remaining_len rest)) fin"
        using False tail_pos by (intro units_split) auto
      ultimately show ?thesis
        using post bytes nofin progress_bytes [OF law] progress_fin [OF law]
        by (auto simp: flush_post_def)
    qed
  qed
qed

lemma flush_spec:
  assumes "flush_pending_write_with_progress send q pw = (Inr out, pw', q')" "pw_inv pw"
  shows "fo_released_units out + (if fo_done out then 0 else queued_units pw') = queued_units pw"
    "accepted_bytes q' @ pw_bytes pw' = accepted_bytes q @ pw_bytes pw"
    "pw_inv pw'" "pw_fin pw' = pw_fin pw" "fo_done out \<Longrightarrow> pw_chunks pw' = []"
    "accepted_fin q' \<longleftrightarrow> accepted_fin q \<or> (pw_fin pw \<and> fo_done out)"
proof -
  obtain cs' where l: "flush_loop send q (pw_fin pw) 0 (pw_chunks pw) = (Inr out, cs', q')"
    and pw': "pw' = pw\<lparr>pw_chunks := cs'\<rparr>"
    using assms(1) by (auto simp: flush_pending_write_with_progress_def split: prod.splits)
  from flush_loop_spec [OF l] assms(2)
  have post: "flush_post accepted_bytes accepted_fin q (pw_fin pw) 0 (pw_chunks pw) out cs' q'" by (simp add: pw_inv_def)
  then show "fo_released_units out + (if fo_done out then 0 else queued_units pw') = queued_units pw"
    "accepted_bytes q' @ pw_bytes pw' = accepted_bytes q @ pw_bytes pw"
    "pw_inv pw'" "pw_fin pw' = pw_fin pw" "fo_done out \<Longrightarrow> pw_chunks pw' = []"
    "accepted_fin q' \<longleftrightarrow> accepted_fin q \<or> (pw_fin pw \<and> fo_done out)"
    by (auto simp: flush_post_def pw' queued_units_alt queued_bytes_def pw_bytes_def pw_inv_def)
qed

end

end
