(* ===== verification/Pending_Write_Fuzz.thy ===== *)
theory Pending_Write_Fuzz
  imports Pending_Write
begin

text \<open>
  The state-machine harness of \<^verbatim>\<open>pending_write.rs\<close> (\<^verbatim>\<open>fuzz_pending_write_state\<close> and
  \<^verbatim>\<open>fuzz_pending_write_state_ops\<close>). Its bounded sender interprets the sender contract, so the
  harness's assertions become theorems. An assertion that fails is \<^const>\<open>None\<close>.
\<close>

record fake_sender =
  fs_max_accept :: nat
  fs_accepted :: nat
  fs_fin_accepted :: bool
  fs_done :: bool
  fs_bytes :: "byte list"

text \<open>The closure passed to \<^verbatim>\<open>flush_pending_write\<close>. \<open>fs_bytes\<close> is a history variable, the bytes
  accepted so far.\<close>

definition fake_send :: "(fake_sender, unit) sender" where
  "fake_send s buf send_fin =
     (let remaining = remaining_len buf in
      if fs_done s \<or> fs_max_accept s \<le> fs_accepted s
      then (Inr \<lparr>so_written = 0, so_fin_accepted = False, so_remainder = Some buf\<rparr>, s\<lparr>fs_done := True\<rparr>)
      else
        let accepted = min remaining (fs_max_accept s - fs_accepted s);
            rem = (if accepted < remaining then map_option snd (arc_split_at buf accepted) else None);
            accepted_fin = (send_fin \<and> rem = None)
        in (Inr \<lparr>so_written = accepted, so_fin_accepted = accepted_fin, so_remainder = rem\<rparr>,
            s\<lparr>fs_accepted := fs_accepted s + accepted,
              fs_fin_accepted := (fs_fin_accepted s \<or> accepted_fin),
              fs_bytes := fs_bytes s @ take accepted (arc_as_ref buf)\<rparr>))"

record fuzz_state =
  fz_pending :: "pending_write option"
  fz_expected_queued :: nat
  fz_closed :: bool
  fz_fin_requested :: bool
  fz_fin_accepted :: bool

definition fuzz_init :: fuzz_state where
  "fuzz_init = \<lparr>fz_pending = None, fz_expected_queued = 0, fz_closed = False,
     fz_fin_requested = False, fz_fin_accepted = False\<rparr>"

definition assert :: "bool \<Rightarrow> 'a \<Rightarrow> 'a option" where
  "assert b x = (if b then Some x else None)"

definition fuzz_append :: "fuzz_state \<Rightarrow> nat \<Rightarrow> byte \<Rightarrow> fuzz_state" where
  "fuzz_append st len arg =
     (let wants_fin = (arg AND 1 \<noteq> 0);
          st = (if wants_fin then st\<lparr>fz_fin_requested := True\<rparr> else st);
          c = chunk_unpooled \<lparr>contents = replicate len arg, capacity = len\<rparr>
      in case fz_pending st of
        Some pw \<Rightarrow>
          (case push_chunk pw c of (n, pw') \<Rightarrow>
             st\<lparr>fz_expected_queued := fz_expected_queued st + n,
                fz_pending := Some (if wants_fin then set_fin pw' else pw')\<rparr>)
      | None \<Rightarrow>
          let pw = pending_write_new (arc_from_chunk c) wants_fin
          in st\<lparr>fz_expected_queued := queued_bytes pw, fz_pending := Some pw\<rparr>)"

definition fuzz_flush :: "fuzz_state \<Rightarrow> nat \<Rightarrow> fuzz_state option" where
  "fuzz_flush st len =
     (case fz_pending st of
        None \<Rightarrow> Some st
      | Some pw \<Rightarrow>
          (case flush_pending_write fake_send
                  \<lparr>fs_max_accept = len, fs_accepted = 0, fs_fin_accepted = False, fs_done = False,
                   fs_bytes = []\<rparr> pw of
             (Inl _, _, _) \<Rightarrow> None
           | (Inr done, pw', sender) \<Rightarrow>
               let st1 = st\<lparr>fz_pending := Some pw',
                     fz_expected_queued := saturating_sub (fz_expected_queued st) (fs_accepted sender)\<rparr> in
               Option.bind
                 (if fs_fin_accepted sender
                  then assert (fz_fin_requested st1) (st1\<lparr>fz_fin_accepted := True\<rparr>) else Some st1)
                 (\<lambda>st2. if done
                        then assert (queued_bytes pw' = 0) (st2\<lparr>fz_pending := None, fz_expected_queued := 0\<rparr>)
                        else Some st2)))"

definition fuzz_step :: "fuzz_state \<Rightarrow> byte \<times> byte \<times> byte \<Rightarrow> fuzz_state option" where
  "fuzz_step st op =
     (case op of (tag_byte, len_byte, arg) \<Rightarrow>
        let tag = unat tag_byte mod 5; len = unat len_byte mod 65 in
        if tag = 0 then Some (if fz_closed st then st else fuzz_append st len arg)
        else if tag = 1 then
          (if fz_closed st then Some (st\<lparr>fz_pending := None, fz_expected_queued := 0\<rparr>)
           else fuzz_flush st len)
        else if tag = 2 then
          (case fz_pending st of
             Some pw \<Rightarrow> assert (queued_bytes pw = fz_expected_queued st) st | None \<Rightarrow> Some st)
        else if tag = 3 then Some (st\<lparr>fz_closed := True, fz_pending := None, fz_expected_queued := 0\<rparr>)
        else Some (st\<lparr>fz_closed := False, fz_fin_requested := False, fz_fin_accepted := False\<rparr>))"

text \<open>The checks at the bottom of the loop body; a \<^verbatim>\<open>continue\<close> in the source skips them, which
  happens only on a closed stream.\<close>

definition fuzz_check :: "fuzz_state \<Rightarrow> bool" where
  "fuzz_check st \<longleftrightarrow>
     (case fz_pending st of
        Some pw \<Rightarrow> queued_bytes pw = fz_expected_queued st | None \<Rightarrow> fz_expected_queued st = 0)
     \<and> (\<not> fz_fin_accepted st \<or> fz_fin_requested st)"

definition fuzz_skips_check :: "fuzz_state \<Rightarrow> byte \<times> byte \<times> byte \<Rightarrow> bool" where
  "fuzz_skips_check st op \<longleftrightarrow> fz_closed st \<and> unat (fst op) mod 5 \<in> {0, 1}"

fun fuzz_pending_write_state_ops :: "fuzz_state \<Rightarrow> (byte \<times> byte \<times> byte) list \<Rightarrow> fuzz_state option" where
  "fuzz_pending_write_state_ops st [] = Some st"
| "fuzz_pending_write_state_ops st (op # ops) =
     (case fuzz_step st op of
        None \<Rightarrow> None
      | Some st' \<Rightarrow>
          if fuzz_skips_check st op \<or> fuzz_check st'
          then fuzz_pending_write_state_ops st' ops else None)"

fun chunks3 :: "byte list \<Rightarrow> (byte \<times> byte \<times> byte) list" where
  "chunks3 (a # b # c # rest) = (a, b, c) # chunks3 rest"
| "chunks3 [a, b] = [(a, b, 0)]"
| "chunks3 [a] = [(a, 0, 0)]"
| "chunks3 [] = []"

definition fuzz_pending_write_state :: "byte list \<Rightarrow> fuzz_state option" where
  "fuzz_pending_write_state data = fuzz_pending_write_state_ops fuzz_init (chunks3 data)"

subsection \<open>The bounded sender satisfies the contract\<close>

lemma fake_send_Inr: "\<exists>out q'. fake_send q buf fin = (Inr out, q')"
  by (simp add: fake_send_def Let_def)

interpretation fake: stream_sender fake_send fs_bytes fs_fin_accepted
proof unfold_locales
  fix q buf fin out q' assume s: "fake_send q buf fin = (Inr out, q')"
  let ?n = "min (remaining_len buf) (fs_max_accept q - fs_accepted q)"
  show "so_remainder out = None \<Longrightarrow> remaining_len buf \<le> so_written out"
    using s by (auto simp: fake_send_def Let_def arc_split_at_def remaining_len_def split: if_splits)
  show "so_fin_accepted out \<Longrightarrow> fin"
    using s by (auto simp: fake_send_def Let_def split: if_splits)
  show "fs_bytes q' = fs_bytes q @ take (so_written out) (arc_as_ref buf)"
    using s by (auto simp: fake_send_def Let_def split: if_splits)
  show "fs_fin_accepted q' \<longleftrightarrow> fs_fin_accepted q \<or> so_fin_accepted out"
    using s by (auto simp: fake_send_def Let_def split: if_splits)
  fix r assume r: "so_remainder out = Some r" and inv: "arc_inv buf"
  show "arc_inv r \<and> so_written out \<le> remaining_len buf \<and> arc_as_ref r = drop (so_written out) (arc_as_ref buf)
      \<and> remaining_len r = remaining_len buf - so_written out \<and> \<not> so_fin_accepted out"
  proof (cases "fs_done q \<or> fs_max_accept q \<le> fs_accepted q")
    case True
    with s r inv show ?thesis by (auto simp: fake_send_def)
  next
    case False
    then obtain h where split: "arc_split_at buf ?n = Some (h, r)" and w: "so_written out = ?n"
      and nf: "\<not> so_fin_accepted out"
      using s r by (auto simp: fake_send_def Let_def split: if_splits)
    note S = arc_split_at_spec [OF split]
    have "length (arc_as_ref h) = ?n" using S(2,5) inv by (simp add: arc_as_ref_length)
    with S inv w nf show ?thesis by auto
  qed
qed

text \<open>What the bounded sender counts is the number of bytes it took.\<close>

lemma fake_counts:
  "flush_loop fake_send q fin released cs = (r, cs', q') \<Longrightarrow> \<forall>c \<in> set cs. arc_inv c \<Longrightarrow>
     fs_accepted q = length (fs_bytes q) \<Longrightarrow> fs_accepted q' = length (fs_bytes q')"
proof (induction cs arbitrary: q released)
  case Nil
  then show ?case
    by (auto simp: fake_send_def Let_def arc_from_vec_def remaining_len_def arc_as_ref_def
        split: if_splits option.splits)
next
  case (Cons buf rest)
  obtain out q1 where s: "fake_send q buf (fin \<and> rest = []) = (Inr out, q1)" using fake_send_Inr by blast
  have "fs_accepted q1 = length (fs_bytes q1)"
    using s Cons.prems(2,3) by (auto simp: fake_send_def Let_def arc_as_ref_length split: if_splits)
  with Cons s show ?case by (auto simp: Let_def split: option.splits if_splits)
qed

subsection \<open>The assertions of the harness\<close>

definition fuzz_inv :: "fuzz_state \<Rightarrow> bool" where
  "fuzz_inv st \<longleftrightarrow>
     (case fz_pending st of
        Some pw \<Rightarrow> pw_inv pw \<and> queued_bytes pw = fz_expected_queued st
          \<and> (pw_fin pw \<longrightarrow> fz_fin_requested st) \<and> \<not> fz_closed st
      | None \<Rightarrow> fz_expected_queued st = 0)
     \<and> (fz_fin_accepted st \<longrightarrow> fz_fin_requested st)"

lemma fuzz_inv_check: "fuzz_inv st \<Longrightarrow> fuzz_check st"
  by (auto simp: fuzz_inv_def fuzz_check_def split: option.splits)

lemma fuzz_inv_append:
  assumes "fuzz_inv st" "\<not> fz_closed st"
  shows "fuzz_inv (fuzz_append st len arg)"
proof (cases "fz_pending st")
  case None
  with assms show ?thesis
    by (auto simp: fuzz_inv_def fuzz_append_def Let_def pw_inv_def arc_inv_from_chunk pending_write_new_def)
next
  case (Some pw)
  let ?c = "chunk_unpooled \<lparr>contents = replicate len arg, capacity = len\<rparr>"
  obtain n pw' where p: "push_chunk pw ?c = (n, pw')" by fastforce
  with Some assms pw_inv_push [of pw ?c] queued_bytes_push [of pw ?c]
  have "pw_inv pw'" "queued_bytes pw' = fz_expected_queued st + n" "pw_fin pw' = pw_fin pw"
    by (auto simp: fuzz_inv_def push_chunk_def Let_def split: if_splits)
  with Some p assms show ?thesis
    by (auto simp: fuzz_inv_def fuzz_append_def Let_def set_fin_def queued_bytes_def pw_inv_def)
qed

lemma fuzz_inv_flush:
  assumes "fuzz_inv st" "\<not> fz_closed st"
  shows "\<exists>st'. fuzz_flush st len = Some st' \<and> fuzz_inv st'"
proof (cases "fz_pending st")
  case None
  with assms show ?thesis by (simp add: fuzz_flush_def)
next
  case (Some pw)
  let ?q = "\<lparr>fs_max_accept = len, fs_accepted = 0, fs_fin_accepted = False, fs_done = False, fs_bytes = []\<rparr>"
  obtain r pw' q where f: "flush_pending_write_with_progress fake_send ?q pw = (r, pw', q)"
    by (cases "flush_pending_write_with_progress fake_send ?q pw") auto
  have "\<not> isl r"
    using f flush_loop_no_error [of fake_send] fake_send_Inr
    by (auto simp: flush_pending_write_with_progress_def split: prod.splits)
  then obtain out where r: "r = Inr out" by (cases r) auto
  from Some assms have inv: "pw_inv pw" and exp: "fz_expected_queued st = queued_bytes pw"
    and fr: "pw_fin pw \<longrightarrow> fz_fin_requested st" by (auto simp: fuzz_inv_def)
  note S = fake.flush_spec [OF f [unfolded r] inv]
  have "fs_accepted q = length (fs_bytes q)"
    using f fake_counts [of ?q "pw_fin pw" 0 "pw_chunks pw" r _ q] inv
    by (auto simp: flush_pending_write_with_progress_def pw_inv_def chunks_inv_def split: prod.splits)
  moreover have "length (fs_bytes q) + queued_bytes pw' = queued_bytes pw"
    using arg_cong [OF S(2), of length] queued_bytes_length [OF S(3)] queued_bytes_length [OF inv]
    by simp
  ultimately have bytes: "queued_bytes pw - fs_accepted q = queued_bytes pw'" by simp
  have empty: "fo_done out \<Longrightarrow> queued_bytes pw' = 0" using S(5) by (simp add: queued_bytes_def)
  have "flush_pending_write fake_send ?q pw = (Inr (fo_done out), pw', q)"
    using f r by (simp add: flush_pending_write_def)
  with Some assms S(3,4,6) bytes empty fr exp show ?thesis
    by (auto simp: fuzz_flush_def fuzz_inv_def assert_def Let_def saturating_sub_def)
qed

lemma fuzz_inv_step:
  assumes "fuzz_inv st" and reopen: "unat (fst op) mod 5 = 4 \<longrightarrow> fz_pending st = None"
  shows "\<exists>st'. fuzz_step st op = Some st' \<and> fuzz_inv st'"
proof -
  obtain t l a where op: "op = (t, l, a)" by (cases op) auto
  have "unat t mod 5 \<in> {0, 1, 2, 3, 4}" by auto
  then consider (append) "unat t mod 5 = 0" | (flush) "unat t mod 5 = 1" | (noop) "unat t mod 5 = 2"
    | (close) "unat t mod 5 = 3" | (reopen) "unat t mod 5 = 4" by fastforce
  then show ?thesis
  proof cases
    case append
    with assms show ?thesis
      by (cases "fz_closed st") (simp_all add: fuzz_step_def op fuzz_inv_append)
  next
    case flush
    with assms fuzz_inv_flush [OF assms(1)] show ?thesis
      by (cases "fz_closed st") (auto simp: fuzz_step_def op fuzz_inv_def split: option.splits)
  next
    case noop
    with assms show ?thesis
      by (auto simp: fuzz_step_def op fuzz_inv_def assert_def split: option.splits)
  next
    case close
    with assms show ?thesis by (auto simp: fuzz_step_def op fuzz_inv_def)
  next
    case reopen
    with assms show ?thesis by (auto simp: fuzz_step_def op fuzz_inv_def)
  qed
qed

text \<open>Runs in which a stream is re-opened only when no write is pending, which is what the
  comment at the re-open operation intends.\<close>

fun reopens_after_close :: "fuzz_state \<Rightarrow> (byte \<times> byte \<times> byte) list \<Rightarrow> bool" where
  "reopens_after_close st [] = True"
| "reopens_after_close st (op # ops) =
     ((unat (fst op) mod 5 = 4 \<longrightarrow> fz_pending st = None) \<and>
      (case fuzz_step st op of Some st' \<Rightarrow> reopens_after_close st' ops | None \<Rightarrow> True))"

lemma fuzz_run_ok:
  "fuzz_inv st \<Longrightarrow> reopens_after_close st ops \<Longrightarrow> \<exists>st'. fuzz_pending_write_state_ops st ops = Some st'"
proof (induction ops arbitrary: st)
  case (Cons op ops)
  from Cons.prems have "unat (fst op) mod 5 = 4 \<longrightarrow> fz_pending st = None" by simp
  from fuzz_inv_step [OF Cons.prems(1) this] obtain st'
    where st': "fuzz_step st op = Some st'" "fuzz_inv st'" by blast
  with Cons.prems Cons.IH [OF st'(2)] show ?case by (simp add: fuzz_inv_check)
qed simp

text \<open>
  The assertions of the pending-write harness hold. For every sequence of operations that
  re-opens a stream only when nothing is pending, no assertion fails: after every flush with every
  accept budget the queue holds exactly the bytes not yet accepted, a flush that reports done has
  emptied it, and FIN is accepted only after it was requested.
\<close>

theorem fuzz_harness_holds:
  assumes "reopens_after_close fuzz_init (chunks3 data)"
  shows "\<exists>st. fuzz_pending_write_state data = Some st"
  using assms fuzz_run_ok [of fuzz_init]
  by (simp add: fuzz_pending_write_state_def fuzz_init_def fuzz_inv_def)

definition harness_input :: "byte list" where
  "harness_input = [0, 5, 1, 1, 3, 0, 3, 0, 0, 4]"

lemmas fuzz_eval = fuzz_pending_write_state_def fuzz_init_def fuzz_step_def fuzz_append_def
  fuzz_flush_def flush_pending_write_def flush_pending_write_with_progress_def fake_send_def
  pending_write_new_def arc_from_chunk_def chunk_unpooled_def into_raw_parts_def arc_split_at_def
  remaining_len_def saturating_sub_def assert_def queued_bytes_def

theorem fuzz_harness_holds_witness: "\<exists>st. fuzz_pending_write_state harness_input = Some st"
  by (rule fuzz_harness_holds) (simp add: harness_input_def fuzz_eval Let_def unat_arith_simps)

text \<open>
  Re-opening a stream with a write still pending breaks the harness itself: the operations
  append five bytes with FIN, re-open, flush end in a failed assertion, because re-opening clears
  the record of the requested FIN but keeps the pending write that carries it.
\<close>

theorem fuzz_harness_false_alarm:
  "fuzz_pending_write_state [0, 5, 1, 4, 0, 0, 1, 64, 0] = None"
  by (simp add: fuzz_eval Let_def released_units_for_send_def)

end
