(* ===== verification/Buffer_Pool.thy ===== *)
theory Buffer_Pool
  imports Size_Classes
begin

text \<open>
  The receive-side buffer pools of \<^verbatim>\<open>buffer_pool.rs\<close> and the receive buffer of
  \<^verbatim>\<open>unsafe_boundary.rs\<close> / \<^verbatim>\<open>proof_core/recv_buf_model.rs\<close>. The process-wide right-sized pool
  is a value passed through the operations that use it; its mutex makes each use atomic.
\<close>

subsection \<open>The right-sized pool\<close>

definition DEFAULT_BUF_SIZE :: nat where "DEFAULT_BUF_SIZE = 65535"
definition DEFAULT_POOL_SIZE :: nat where "DEFAULT_POOL_SIZE = 256"
definition RIGHT_SIZED_MAX_PER_CLASS :: nat where "RIGHT_SIZED_MAX_PER_CLASS = 256"

type_synonym right_sized_pool = "rvec list list"

definition right_sized_new :: right_sized_pool where
  "right_sized_new = replicate (length RIGHT_SIZED_CLASSES) []"

fun take_buckets :: "nat list \<Rightarrow> nat \<Rightarrow> right_sized_pool \<Rightarrow> rvec option \<times> right_sized_pool" where
  "take_buckets [] len g = (None, g)"
| "take_buckets (i # is) len g =
     (case vec_pop (g ! i) of
        None \<Rightarrow> take_buckets is len g
      | Some (buf, rest) \<Rightarrow>
          let g' = g[i := rest]; buf' = vec_clear buf in
          if len \<le> capacity buf' then (Some buf', g') else take_buckets is len g')"

definition right_sized_take :: "right_sized_pool \<Rightarrow> nat \<Rightarrow> rvec option \<times> right_sized_pool" where
  "right_sized_take g len =
     (case class_for_request len of
        None \<Rightarrow> (None, g)
      | Some start \<Rightarrow> take_buckets [start ..< length g] len g)"

definition right_sized_recycle :: "right_sized_pool \<Rightarrow> rvec \<Rightarrow> bool \<times> right_sized_pool" where
  "right_sized_recycle g buf =
     (case class_for_capacity (capacity buf) of
        None \<Rightarrow> (False, g)
      | Some index \<Rightarrow>
          if RIGHT_SIZED_MAX_PER_CLASS \<le> length (g ! index) then (False, g)
          else (True, g[index := g ! index @ [vec_clear buf]]))"

subsection \<open>The fixed-size packet pool\<close>

record buffer_pool =
  bp_buffers :: "rvec list"
  bp_buf_size :: nat

definition zeroed_vec :: "nat \<Rightarrow> rvec" where
  "zeroed_vec n = \<lparr>contents = replicate n 0, capacity = n\<rparr>"

definition buffer_pool_new :: "nat \<Rightarrow> nat \<Rightarrow> buffer_pool" where
  "buffer_pool_new pool_size buf_size =
     \<lparr>bp_buffers = replicate pool_size (zeroed_vec buf_size), bp_buf_size = buf_size\<rparr>"

definition buffer_pool_default :: buffer_pool where
  "buffer_pool_default = buffer_pool_new DEFAULT_POOL_SIZE DEFAULT_BUF_SIZE"

definition bp_checkout :: "buffer_pool \<Rightarrow> rvec \<times> buffer_pool" where
  "bp_checkout p =
     (case vec_pop (bp_buffers p) of
        Some (buf, rest) \<Rightarrow> (buf, p\<lparr>bp_buffers := rest\<rparr>)
      | None \<Rightarrow> (zeroed_vec (bp_buf_size p), p))"

definition bp_checkin :: "buffer_pool \<Rightarrow> rvec \<Rightarrow> buffer_pool" where
  "bp_checkin p buf =
     (if vec_len buf = bp_buf_size p \<and> bp_buf_size p \<le> capacity buf
      then p\<lparr>bp_buffers := bp_buffers p @ [buf]\<rparr> else p)"

subsection \<open>The adaptive pool\<close>

record adaptive_pool =
  ap_buffers :: "rvec list"
  ap_max_buffers :: nat
  ap_min_capacity :: nat
  ap_max_retain :: nat

definition adaptive_new :: "nat \<Rightarrow> nat \<Rightarrow> adaptive_pool" where
  "adaptive_new max_buffers min_capacity =
     \<lparr>ap_buffers = [], ap_max_buffers = max_buffers, ap_min_capacity = min_capacity,
      ap_max_retain = max (saturating_mul min_capacity 4) min_capacity\<rparr>"

definition with_recycler :: "nat \<Rightarrow> nat \<Rightarrow> adaptive_pool \<times> rvec channel" where
  "with_recycler max_buffers min_capacity =
     (adaptive_new max_buffers min_capacity, chan_bounded (max_buffers * 2))"

definition checkout_empty_vec ::
  "adaptive_pool \<Rightarrow> right_sized_pool \<Rightarrow> nat \<Rightarrow> rvec \<times> bool \<times> adaptive_pool \<times> right_sized_pool" where
  "checkout_empty_vec p g len =
     (case rposition (\<lambda>buf. len \<le> capacity buf) (ap_buffers p) of
        Some index \<Rightarrow>
          (case swap_remove (ap_buffers p) index of (buf, rest) \<Rightarrow>
             (vec_clear buf, True, p\<lparr>ap_buffers := rest\<rparr>, g))
      | None \<Rightarrow>
          (case right_sized_take g len of
             (Some buf, g') \<Rightarrow> (buf, True, p, g')
           | (None, g') \<Rightarrow> (vec_with_capacity (max len (ap_min_capacity p)), False, p, g')))"

definition ap_checkout ::
  "adaptive_pool \<Rightarrow> right_sized_pool \<Rightarrow> nat \<Rightarrow> rvec \<times> bool \<times> adaptive_pool \<times> right_sized_pool" where
  "ap_checkout p g len =
     (case checkout_empty_vec p g len of (buf, reused, p', g') \<Rightarrow> (vec_resize buf len 0, reused, p', g'))"

definition copy_from_slice ::
  "adaptive_pool \<Rightarrow> right_sized_pool \<Rightarrow> byte list \<Rightarrow> rvec \<times> bool \<times> adaptive_pool \<times> right_sized_pool" where
  "copy_from_slice p g data =
     (case checkout_empty_vec p g (length data) of (buf, reused, p', g') \<Rightarrow>
        (vec_extend buf data, reused, p', g'))"

definition ap_checkin ::
  "adaptive_pool \<Rightarrow> right_sized_pool \<Rightarrow> rvec \<Rightarrow> bool \<times> adaptive_pool \<times> right_sized_pool" where
  "ap_checkin p g buf =
     (if capacity buf < ap_min_capacity p \<or> ap_max_retain p < capacity buf
      then (case right_sized_recycle g buf of (ok, g') \<Rightarrow> (ok, p, g'))
      else if ap_max_buffers p \<le> length (ap_buffers p)
      then (case right_sized_recycle g buf of (ok, g') \<Rightarrow> (ok, p, g'))
      else (True, p\<lparr>ap_buffers := ap_buffers p @ [vec_clear buf]\<rparr>, g))"

fun ap_drain_queue ::
  "adaptive_pool \<Rightarrow> right_sized_pool \<Rightarrow> rvec list \<Rightarrow> adaptive_pool \<times> right_sized_pool" where
  "ap_drain_queue p g [] = (p, g)"
| "ap_drain_queue p g (buf # rest) =
     (case ap_checkin p g buf of (_, p', g') \<Rightarrow> ap_drain_queue p' g' rest)"

definition ap_drain_returned ::
  "adaptive_pool \<Rightarrow> right_sized_pool \<Rightarrow> rvec channel
     \<Rightarrow> adaptive_pool \<times> right_sized_pool \<times> rvec channel" where
  "ap_drain_returned p g rx =
     (case ap_drain_queue p g (chan_queue rx) of (p', g') \<Rightarrow> (p', g', rx\<lparr>chan_queue := []\<rparr>))"

text \<open>\<^verbatim>\<open>BufferRecycler::recycle\<close>: the channel first, then the right-sized pool; the flag says
  whether the buffer was dropped.\<close>

definition recycler_recycle ::
  "rvec channel \<Rightarrow> right_sized_pool \<Rightarrow> rvec \<Rightarrow> bool \<times> rvec channel \<times> right_sized_pool" where
  "recycler_recycle ch g buf =
     (case try_send ch buf of
        (True, ch') \<Rightarrow> (False, ch', g)
      | (False, ch') \<Rightarrow> (case right_sized_recycle g buf of (ok, g') \<Rightarrow> (\<not> ok, ch', g')))"

subsection \<open>The receive buffer\<close>

record recv_buf_model =
  initialized_len :: nat
  target_len :: nat

definition recv_buf_model_new :: "nat \<Rightarrow> recv_buf_model" where
  "recv_buf_model_new n = \<lparr>initialized_len = 0, target_len = n\<rparr>"

definition rbm_is_empty :: "recv_buf_model \<Rightarrow> bool" where
  "rbm_is_empty m \<longleftrightarrow> initialized_len m = 0"

definition rbm_is_full :: "recv_buf_model \<Rightarrow> bool" where
  "rbm_is_full m \<longleftrightarrow> target_len m \<le> initialized_len m"

definition rbm_remaining :: "recv_buf_model \<Rightarrow> nat" where
  "rbm_remaining m = saturating_sub (target_len m) (initialized_len m)"

definition rbm_append_len :: "recv_buf_model \<Rightarrow> nat \<Rightarrow> nat" where
  "rbm_append_len m requested_len = min requested_len (rbm_remaining m)"

definition rbm_after_append :: "recv_buf_model \<Rightarrow> nat \<Rightarrow> recv_buf_model" where
  "rbm_after_append m written =
     \<lparr>initialized_len = min (saturating_add (initialized_len m) written) (target_len m),
      target_len = target_len m\<rparr>"

definition reported_write_is_valid :: "nat \<Rightarrow> nat \<Rightarrow> nat \<Rightarrow> nat \<Rightarrow> bool" where
  "reported_write_is_valid before remaining written actual_after \<longleftrightarrow>
     written \<le> remaining \<and> before \<le> actual_after \<and> actual_after - before = written"

record recv_buf =
  rb_buf :: rvec
  rb_model :: recv_buf_model

definition recv_buf_from_vec :: "rvec \<Rightarrow> nat \<Rightarrow> recv_buf" where
  "recv_buf_from_vec buf n =
     (let b = vec_clear buf;
          b' = (if capacity b < n then b\<lparr>capacity := n\<rparr> else b)
      in \<lparr>rb_buf = b', rb_model = recv_buf_model_new n\<rparr>)"

definition recv_buf_with_capacity :: "nat \<Rightarrow> recv_buf" where
  "recv_buf_with_capacity n = recv_buf_from_vec (vec_with_capacity n) n"

definition ap_checkout_recv ::
  "adaptive_pool \<Rightarrow> right_sized_pool \<Rightarrow> nat \<Rightarrow> recv_buf \<times> bool \<times> adaptive_pool \<times> right_sized_pool" where
  "ap_checkout_recv p g len =
     (case checkout_empty_vec p g len of (buf, reused, p', g') \<Rightarrow>
        (recv_buf_from_vec buf len, reused, p', g'))"

text \<open>\<^const>\<open>None\<close> is the panic of the assertion in \<^verbatim>\<open>validate_reported_write\<close>.\<close>

definition validate_reported_write :: "recv_buf \<Rightarrow> nat \<Rightarrow> nat \<Rightarrow> nat \<Rightarrow> recv_buf option" where
  "validate_reported_write rb before remaining written =
     (if reported_write_is_valid before remaining written (vec_len (rb_buf rb))
      then Some (rb\<lparr>rb_model := rbm_after_append (rb_model rb) written\<rparr>) else None)"

text \<open>A receive through quiche's \<^verbatim>\<open>*_buf\<close> functions. The transport is the argument \<open>recv\<close>: given
  the remaining limit it returns the bytes it appended and its result.\<close>

definition recv_into :: "recv_buf \<Rightarrow> (nat \<Rightarrow> byte list \<times> ('e + nat \<times> 'r)) \<Rightarrow> (('e + nat \<times> 'r) \<times> recv_buf) option" where
  "recv_into rb recv =
     (let before = initialized_len (rb_model rb); remaining = rbm_remaining (rb_model rb) in
      case recv remaining of (bytes, res) \<Rightarrow>
        let rb' = rb\<lparr>rb_buf := vec_extend (rb_buf rb) bytes\<rparr> in
        case res of
          Inl e \<Rightarrow> Some (Inl e, rb')
        | Inr (written, r) \<Rightarrow>
            (case validate_reported_write rb' before remaining written of
               None \<Rightarrow> None | Some rb'' \<Rightarrow> Some (Inr (written, r), rb'')))"

definition append_initialized :: "recv_buf \<Rightarrow> byte list \<Rightarrow> nat \<times> recv_buf" where
  "append_initialized rb data =
     (let len = rbm_append_len (rb_model rb) (length data)
      in (len, rb\<lparr>rb_buf := vec_extend (rb_buf rb) (take len data),
                 rb_model := rbm_after_append (rb_model rb) len\<rparr>))"

definition into_initialized_vec :: "recv_buf \<Rightarrow> rvec" where
  "into_initialized_vec rb = rb_buf rb"

definition into_recycle_vec :: "recv_buf \<Rightarrow> rvec" where
  "into_recycle_vec rb = vec_clear (rb_buf rb)"

subsection \<open>Invariants of the right-sized pool\<close>

definition right_sized_inv :: "right_sized_pool \<Rightarrow> bool" where
  "right_sized_inv g \<longleftrightarrow> length g = length RIGHT_SIZED_CLASSES \<and>
     (\<forall>i < length g. length (g ! i) \<le> RIGHT_SIZED_MAX_PER_CLASS \<and>
        (\<forall>b \<in> set (g ! i). contents b = [] \<and> class_for_capacity (capacity b) = Some i))"

lemma right_sized_inv_new [simp]: "right_sized_inv right_sized_new"
  by (simp add: right_sized_inv_def right_sized_new_def)

lemma right_sized_inv_recycle:
  assumes "right_sized_inv g"
  shows "right_sized_inv (snd (right_sized_recycle g buf))"
proof (cases "class_for_capacity (capacity buf)")
  case None
  with assms show ?thesis by (simp add: right_sized_recycle_def)
next
  case (Some i)
  with assms right_sized_classes.for_capacity_index [OF Some] show ?thesis
    by (auto simp: right_sized_recycle_def right_sized_inv_def nth_list_update)
qed

text \<open>A buffer popped from a bucket at or above the requested class always passes the capacity
  check, so the search never drops a buffer on its way.\<close>

lemma take_buckets_first_fits:
  assumes "right_sized_inv g" "class_for_request len = Some start"
    and "set is \<subseteq> {start ..< length g}"
  shows "(case take_buckets is len g of
      (Some buf, g') \<Rightarrow> (\<exists>i rest. i < length g \<and> g ! i = rest @ [buf] \<and> g' = g[i := rest]
          \<and> len \<le> capacity buf \<and> contents buf = [])
    | (None, g') \<Rightarrow> g' = g \<and> (\<forall>i \<in> set is. g ! i = []))"
  using assms(3)
proof (induction "is")
  case (Cons i "is")
  then have i: "start \<le> i" "i < length g" by auto
  show ?case
  proof (cases "vec_pop (g ! i)")
    case None
    with Cons show ?thesis by (auto split: prod.splits option.splits)
  next
    case (Some br)
    then obtain buf rest where br: "br = (buf, rest)" "g ! i = rest @ [buf]"
      by (cases br) (auto simp: vec_pop_Some)
    with assms(1) i have filed: "class_for_capacity (capacity buf) = Some i" "contents buf = []"
      by (auto simp: right_sized_inv_def)
    from right_sized_classes.filed_buffer_fits [OF assms(2) filed(1) i(1)]
    have "len \<le> capacity buf" .
    moreover from filed(2) have "vec_clear buf = buf" by (simp add: vec_clear_def)
    ultimately show ?thesis using Some br i filed by (auto simp: Let_def)
  qed
qed simp

definition rs_pooled :: "right_sized_pool \<Rightarrow> rvec multiset" where
  "rs_pooled g = sum_list (map mset g)"

lemma right_sized_inv_pop:
  assumes "right_sized_inv g" "i < length g" "g ! i = rest @ [buf]"
  shows "right_sized_inv (g[i := rest])"
proof -
  from assms have "length rest \<le> RIGHT_SIZED_MAX_PER_CLASS"
    "\<forall>b \<in> set rest. contents b = [] \<and> class_for_capacity (capacity b) = Some i"
    by (auto simp: right_sized_inv_def dest!: spec [of _ i])
  with assms show ?thesis by (auto simp: right_sized_inv_def nth_list_update)
qed

lemma right_sized_take_Some:
  assumes "right_sized_inv g" "right_sized_take g len = (Some buf, g')"
  shows "contents buf = []" "len \<le> capacity buf" "right_sized_inv g'"
    "rs_pooled g = add_mset buf (rs_pooled g')"
proof -
  from assms(2) obtain start where start: "class_for_request len = Some start"
    and t: "take_buckets [start ..< length g] len g = (Some buf, g')"
    by (auto simp: right_sized_take_def split: option.splits)
  from take_buckets_first_fits [OF assms(1) start, of "[start ..< length g]"] t
  obtain i rest where i: "i < length g" "g ! i = rest @ [buf]" "g' = g[i := rest]"
    and "len \<le> capacity buf" "contents buf = []" by auto
  then show "contents buf = []" "len \<le> capacity buf" by auto
  from right_sized_inv_pop [OF assms(1) i(1,2)] i(3) show "right_sized_inv g'" by simp
  from i show "rs_pooled g = add_mset buf (rs_pooled g')"
    by (simp add: rs_pooled_def sum_mset_bins_pop)
qed

lemma right_sized_take_None:
  assumes "right_sized_inv g" "right_sized_take g len = (None, g')"
  shows "g' = g"
proof (cases "class_for_request len")
  case None
  with assms(2) show ?thesis by (simp add: right_sized_take_def)
next
  case (Some start)
  with take_buckets_first_fits [OF assms(1) Some, of "[start ..< length g]"] assms(2) show ?thesis
    by (simp add: right_sized_take_def)
qed

subsection \<open>The adaptive pool\<close>

definition adaptive_inv :: "adaptive_pool \<Rightarrow> bool" where
  "adaptive_inv p \<longleftrightarrow> length (ap_buffers p) \<le> ap_max_buffers p \<and>
     (\<forall>b \<in> set (ap_buffers p). contents b = [] \<and> ap_min_capacity p \<le> capacity b
        \<and> capacity b \<le> ap_max_retain p)"

lemma adaptive_inv_new [simp]: "adaptive_inv (adaptive_new m c)"
  by (simp add: adaptive_inv_def adaptive_new_def)

lemma adaptive_inv_checkin:
  assumes "adaptive_inv p" "right_sized_inv g" "ap_checkin p g buf = (ok, p', g')"
  shows "adaptive_inv p' \<and> right_sized_inv g'"
  using assms right_sized_inv_recycle [OF assms(2), of buf]
  by (auto simp: ap_checkin_def adaptive_inv_def split: if_splits prod.splits)

lemma ap_drain_queue_inv:
  "adaptive_inv p \<Longrightarrow> right_sized_inv g \<Longrightarrow> ap_drain_queue p g q = (p', g') \<Longrightarrow>
     adaptive_inv p' \<and> right_sized_inv g'"
  by (induction p g q rule: ap_drain_queue.induct) (auto split: prod.splits dest: adaptive_inv_checkin)

lemma adaptive_inv_subset:
  "adaptive_inv p \<Longrightarrow> mset (ap_buffers p) = add_mset b (mset bs) \<Longrightarrow> adaptive_inv (p\<lparr>ap_buffers := bs\<rparr>)"
  using mset_eq_length [of "ap_buffers p" "b # bs"] mset_eq_setD [of "ap_buffers p" "b # bs"]
  by (auto simp: adaptive_inv_def)

text \<open>The checkout of an empty vector: enough capacity, no stale bytes, and the buffer leaves
  whichever pool it came from.\<close>

lemma checkout_empty_vec_spec:
  assumes "adaptive_inv p" "right_sized_inv g" "checkout_empty_vec p g len = (buf, reused, p', g')"
  shows "contents buf = [] \<and> len \<le> capacity buf \<and> adaptive_inv p' \<and> right_sized_inv g'
    \<and> (if reused then mset (ap_buffers p) + rs_pooled g
                     = add_mset buf (mset (ap_buffers p') + rs_pooled g')
       else p' = p \<and> g' = g \<and> capacity buf = max len (ap_min_capacity p))"
proof (cases "rposition (\<lambda>b. len \<le> capacity b) (ap_buffers p)")
  case (Some i)
  obtain b rest where sr: "swap_remove (ap_buffers p) i = (b, rest)" by fastforce
  from rposition_SomeD [OF Some] have i: "i < length (ap_buffers p)" "len \<le> capacity (ap_buffers p ! i)"
    by auto
  note sm = swap_remove_mset [OF i(1) sr]
  have "contents b = []" using assms(1) i sm(1) by (auto simp: adaptive_inv_def)
  then have "vec_clear b = b" by (simp add: vec_clear_def)
  with Some sr assms sm i adaptive_inv_subset [OF assms(1) sm(2)] \<open>contents b = []\<close> show ?thesis
    by (auto simp: checkout_empty_vec_def)
next
  case None
  obtain r g'' where t: "right_sized_take g len = (r, g'')" by fastforce
  show ?thesis
  proof (cases r)
    case None
    with right_sized_take_None [OF assms(2)] t \<open>rposition _ _ = None\<close> assms show ?thesis
      by (auto simp: checkout_empty_vec_def)
  next
    case (Some b)
    with right_sized_take_Some [OF assms(2), of len b g''] t \<open>rposition _ _ = None\<close> assms show ?thesis
      by (auto simp: checkout_empty_vec_def)
  qed
qed

text \<open>
  Receive buffers never leak bytes and are never handed out twice. A buffer checked out of
  the adaptive pool is all zeroes at the requested length whether it is fresh, reused from the
  local pool or taken from the shared right-sized pool; a reused buffer has the capacity already
  and is removed from the pool it came from, with every other buffer kept; and both pools keep
  their limits and class filing.
\<close>

theorem adaptive_checkout_correct:
  assumes "adaptive_inv p" "right_sized_inv g" "ap_checkout p g len = (buf, reused, p', g')"
  shows "contents buf = replicate len 0 \<and> len \<le> capacity buf \<and> adaptive_inv p' \<and> right_sized_inv g'
    \<and> (reused \<longrightarrow> (\<exists>old. capacity old = capacity buf \<and> mset (ap_buffers p) + rs_pooled g
          = add_mset old (mset (ap_buffers p') + rs_pooled g')))"
proof -
  obtain b where b: "checkout_empty_vec p g len = (b, reused, p', g')" "buf = vec_resize b len 0"
    using assms(3) by (auto simp: ap_checkout_def split: prod.splits)
  with checkout_empty_vec_spec [OF assms(1,2) b(1)] show ?thesis by auto
qed

theorem adaptive_checkout_correct_witness:
  "contents (fst (ap_checkout (adaptive_new 2 8) right_sized_new 3)) = [0, 0, 0]"
  using adaptive_checkout_correct [of "adaptive_new 2 8" right_sized_new 3
      "fst (ap_checkout (adaptive_new 2 8) right_sized_new 3)"
      "fst (snd (ap_checkout (adaptive_new 2 8) right_sized_new 3))"
      "fst (snd (snd (ap_checkout (adaptive_new 2 8) right_sized_new 3)))"
      "snd (snd (snd (ap_checkout (adaptive_new 2 8) right_sized_new 3)))"]
  by (simp add: numeral_eq_Suc)

subsection \<open>The fixed-size pool\<close>

definition buffer_pool_inv :: "buffer_pool \<Rightarrow> bool" where
  "buffer_pool_inv p \<longleftrightarrow> (\<forall>b \<in> set (bp_buffers p). vec_len b = bp_buf_size p)"

lemma buffer_pool_inv_new [simp]: "buffer_pool_inv (buffer_pool_new n m)"
  by (simp add: buffer_pool_inv_def buffer_pool_new_def zeroed_vec_def)

lemma buffer_pool_inv_checkin: "buffer_pool_inv p \<Longrightarrow> buffer_pool_inv (bp_checkin p buf)"
  by (auto simp: buffer_pool_inv_def bp_checkin_def)

lemma buffer_pool_checkout:
  assumes "buffer_pool_inv p" "bp_checkout p = (buf, p')"
  shows "vec_len buf = bp_buf_size p" "buffer_pool_inv p'"
  using assms in_set_butlastD [of _ "bp_buffers p"]
  by (auto simp: bp_checkout_def buffer_pool_inv_def zeroed_vec_def vec_pop_def
      split: option.splits if_splits prod.splits)

subsection \<open>The receive buffer\<close>

definition recv_buf_inv :: "recv_buf \<Rightarrow> bool" where
  "recv_buf_inv rb \<longleftrightarrow> initialized_len (rb_model rb) = vec_len (rb_buf rb)
     \<and> vec_len (rb_buf rb) \<le> target_len (rb_model rb)
     \<and> target_len (rb_model rb) \<le> capacity (rb_buf rb) \<and> target_len (rb_model rb) \<le> usize_max"

lemma recv_buf_inv_from_vec: "n \<le> usize_max \<Longrightarrow> recv_buf_inv (recv_buf_from_vec v n)"
  by (simp add: recv_buf_inv_def recv_buf_from_vec_def recv_buf_model_new_def Let_def)

lemma recv_buf_append:
  assumes "recv_buf_inv rb" "length bytes \<le> rbm_remaining (rb_model rb)"
  shows "recv_buf_inv (rb\<lparr>rb_buf := vec_extend (rb_buf rb) bytes,
     rb_model := rbm_after_append (rb_model rb) (length bytes)\<rparr>)"
  using assms
  by (auto simp: recv_buf_inv_def rbm_remaining_def rbm_after_append_def saturating_sub_def
      saturating_add_def vec_grow_def)

lemma recv_buf_inv_append_initialized:
  "recv_buf_inv rb \<Longrightarrow> recv_buf_inv (snd (append_initialized rb data))"
  using recv_buf_append [of rb "take (rbm_append_len (rb_model rb) (length data)) data"]
  by (simp add: append_initialized_def Let_def rbm_append_len_def min_absorb2 min_absorb1)



end
