(* ===== verification/Timer_Heap.thy ===== *)
theory Timer_Heap
  imports Rust_Prelude "HOL-Library.Product_Lexorder"
begin

text \<open>
  The deadline heap of \<^verbatim>\<open>timer_heap.rs\<close>: a min-heap of \<open>(deadline, handle)\<close> entries with lazy
  removal, and the canonical deadline per handle. \<^verbatim>\<open>BinaryHeap<Reverse<_>>\<close> is a sorted list
  behind a min-heap contract; instants are natural numbers. The abstract specification is the
  table of canonical deadlines: every operation refines an operation on that table.
\<close>

type_synonym instant = nat
type_synonym handle = nat
type_synonym heap_entry = "instant \<times> handle"

subsection \<open>The heap contract\<close>

definition heap_new :: "heap_entry list" where
  "heap_new = []"

definition heap_push :: "heap_entry \<Rightarrow> heap_entry list \<Rightarrow> heap_entry list" where
  "heap_push e h = insort e h"

definition heap_peek :: "heap_entry list \<Rightarrow> heap_entry option" where
  "heap_peek h = (case h of [] \<Rightarrow> None | e # _ \<Rightarrow> Some e)"

definition heap_pop :: "heap_entry list \<Rightarrow> heap_entry list" where
  "heap_pop h = tl h"

locale min_heap =
  fixes new :: 'h
    and push :: "'e :: linorder \<Rightarrow> 'h \<Rightarrow> 'h"
    and peek :: "'h \<Rightarrow> 'e option"
    and pop :: "'h \<Rightarrow> 'h"
    and elems :: "'h \<Rightarrow> 'e multiset"
    and heap_inv :: "'h \<Rightarrow> bool"
  assumes new_inv: "heap_inv new" and new_elems: "elems new = {#}"
    and push_inv: "heap_inv h \<Longrightarrow> heap_inv (push e h)"
    and push_elems: "heap_inv h \<Longrightarrow> elems (push e h) = add_mset e (elems h)"
    and peek_min: "heap_inv h \<Longrightarrow> peek h = (if elems h = {#} then None else Some (Min_mset (elems h)))"
    and pop_inv: "heap_inv h \<Longrightarrow> heap_inv (pop h)"
    and pop_elems: "heap_inv h \<Longrightarrow> peek h = Some e \<Longrightarrow> elems h = add_mset e (elems (pop h))"
begin

lemma peek_Some_le: "heap_inv h \<Longrightarrow> peek h = Some e \<Longrightarrow> x \<in># elems h \<Longrightarrow> e \<le> x"
  by (auto simp: peek_min split: if_splits)

lemma peek_Some_member: "heap_inv h \<Longrightarrow> peek h = Some e \<Longrightarrow> e \<in># elems h"
  using pop_elems by fastforce

lemma pop_smaller: "heap_inv h \<Longrightarrow> peek h = Some e \<Longrightarrow> size (elems (pop h)) < size (elems h)"
  using pop_elems by fastforce

lemma fold_push_elems:
  "heap_inv h \<Longrightarrow> heap_inv (fold push es h) \<and> elems (fold push es h) = mset es + elems h"
  by (induction es arbitrary: h) (auto simp: push_inv push_elems)

end

lemma Min_mset_sorted_Cons: "sorted (e # es) \<Longrightarrow> Min_mset (mset (e # es)) = e"
  by (auto intro!: Min_eqI)

interpretation sorted_heap: min_heap heap_new heap_push heap_peek heap_pop mset sorted
proof unfold_locales
  fix h :: "heap_entry list" assume h: "sorted h"
  show "heap_peek h = (if mset h = {#} then None else Some (Min_mset (mset h)))"
  proof (cases h)
    case (Cons e es)
    with h Min_mset_sorted_Cons [of e es] show ?thesis by (simp add: heap_peek_def)
  qed (simp add: heap_peek_def)
qed (auto simp: heap_new_def heap_push_def heap_pop_def heap_peek_def sorted_insort sorted_tl
    split: list.splits)

subsection \<open>The timer heap\<close>

record timer_heap =
  th_heap :: "heap_entry list"
  th_deadlines :: "(handle, instant) hashmap"

definition timer_heap_new :: timer_heap where
  "timer_heap_new = \<lparr>th_heap = heap_new, th_deadlines = []\<rparr>"

definition is_current_deadline :: "timer_heap \<Rightarrow> handle \<Rightarrow> instant \<Rightarrow> bool" where
  "is_current_deadline t handle deadline \<longleftrightarrow> hm_get (th_deadlines t) handle = Some deadline"

definition compact :: "timer_heap \<Rightarrow> timer_heap" where
  "compact t =
     t\<lparr>th_heap := fold (\<lambda>(deadline, handle) h.
          if is_current_deadline t handle deadline then heap_push (deadline, handle) h else h)
        (th_heap t) heap_new\<rparr>"

definition maybe_compact :: "timer_heap \<Rightarrow> timer_heap" where
  "maybe_compact t =
     (let active = length (th_deadlines t) in
      if saturating_mul active 4 + 32 < length (th_heap t) then compact t else t)"

definition schedule :: "timer_heap \<Rightarrow> handle \<Rightarrow> instant \<Rightarrow> timer_heap" where
  "schedule t handle deadline =
     maybe_compact (t\<lparr>th_deadlines := hm_insert handle deadline (th_deadlines t),
                      th_heap := heap_push (deadline, handle) (th_heap t)\<rparr>)"

definition remove_connection :: "timer_heap \<Rightarrow> handle \<Rightarrow> timer_heap" where
  "remove_connection t handle = maybe_compact (t\<lparr>th_deadlines := hm_remove handle (th_deadlines t)\<rparr>)"

definition set_deadline :: "timer_heap \<Rightarrow> handle \<Rightarrow> instant option \<Rightarrow> timer_heap" where
  "set_deadline t handle deadline =
     (case deadline of Some d \<Rightarrow> schedule t handle d | None \<Rightarrow> remove_connection t handle)"

text \<open>The two loops pop the heap until it is empty or the front entry decides; both recurse on the
  heap, which shrinks at every turn.\<close>

fun drop_stale :: "(handle, instant) hashmap \<Rightarrow> heap_entry list \<Rightarrow> heap_entry list" where
  "drop_stale dl [] = []"
| "drop_stale dl ((deadline, handle) # h) =
     (if hm_get dl handle \<noteq> Some deadline then drop_stale dl h else (deadline, handle) # h)"

definition next_deadline :: "timer_heap \<Rightarrow> instant option \<times> timer_heap" where
  "next_deadline t =
     (let h = drop_stale (th_deadlines t) (th_heap t)
      in (map_option fst (heap_peek h), t\<lparr>th_heap := h\<rparr>))"

fun pop_loop :: "instant \<Rightarrow> (handle, instant) hashmap \<Rightarrow> heap_entry list \<Rightarrow> handle list
    \<Rightarrow> handle list \<times> (handle, instant) hashmap \<times> heap_entry list" where
  "pop_loop now dl [] expired = (expired, dl, [])"
| "pop_loop now dl ((deadline, handle) # h) expired =
     (if hm_get dl handle \<noteq> Some deadline then pop_loop now dl h expired
      else if now < deadline then (expired, dl, (deadline, handle) # h)
      else pop_loop now (hm_remove handle dl) h (expired @ [handle]))"

definition pop_expired :: "timer_heap \<Rightarrow> instant \<Rightarrow> handle list \<times> timer_heap" where
  "pop_expired t now =
     (case pop_loop now (th_deadlines t) (th_heap t) [] of
        (expired, dl, h) \<Rightarrow> (expired, t\<lparr>th_heap := h, th_deadlines := dl\<rparr>))"

subsection \<open>Invariant\<close>

text \<open>Every canonical deadline has an entry in the heap, so skipping stale entries never skips a
  live timer.\<close>

definition covers :: "(handle, instant) hashmap \<Rightarrow> heap_entry list \<Rightarrow> bool" where
  "covers dl h \<longleftrightarrow> (\<forall>handle deadline. hm_get dl handle = Some deadline \<longrightarrow> (deadline, handle) \<in> set h)"

definition timer_inv :: "timer_heap \<Rightarrow> bool" where
  "timer_inv t \<longleftrightarrow> sorted (th_heap t) \<and> hm_wf (th_deadlines t) \<and> covers (th_deadlines t) (th_heap t)"

definition current_entries :: "timer_heap \<Rightarrow> heap_entry list" where
  "current_entries t = filter (\<lambda>(d, h). is_current_deadline t h d) (th_heap t)"

lemma fold_filter_push:
  "fold (\<lambda>(d, h) acc. if P h d then heap_push (d, h) acc else acc) es acc
     = fold heap_push (filter (\<lambda>(d, h). P h d) es) acc"
  by (induction es arbitrary: acc) auto

lemma compact_heap: "mset (th_heap (compact t)) = mset (current_entries t)" "sorted (th_heap (compact t))"
  using sorted_heap.fold_push_elems [OF sorted_heap.new_inv, of "current_entries t"]
    sorted_heap.new_elems
  by (simp_all add: compact_def fold_filter_push current_entries_def)

lemma compact_deadlines [simp]: "th_deadlines (compact t) = th_deadlines t"
  by (simp add: compact_def)

lemma maybe_compact_deadlines [simp]: "th_deadlines (maybe_compact t) = th_deadlines t"
  by (simp add: maybe_compact_def Let_def)

lemma compact_inv:
  assumes "timer_inv t"
  shows "timer_inv (compact t)"
proof -
  have "set (th_heap (compact t)) = set (current_entries t)"
    using compact_heap(1) mset_eq_setD by blast
  with assms compact_heap(2) show ?thesis
    by (auto simp: timer_inv_def covers_def current_entries_def is_current_deadline_def)
qed

lemma maybe_compact_inv: "timer_inv t \<Longrightarrow> timer_inv (maybe_compact t)"
  by (simp add: maybe_compact_def Let_def compact_inv)

lemma timer_inv_new [simp]: "timer_inv timer_heap_new"
  by (simp add: timer_inv_def timer_heap_new_def covers_def heap_new_def)

lemma schedule_inv:
  assumes "timer_inv t"
  shows "timer_inv (schedule t h d)"
  unfolding schedule_def using assms
  by (intro maybe_compact_inv)
     (auto simp: timer_inv_def covers_def hm_simps heap_push_def set_insort_key sorted_insort split: if_splits)

lemma remove_connection_inv: "timer_inv t \<Longrightarrow> timer_inv (remove_connection t h)"
  unfolding remove_connection_def
  by (intro maybe_compact_inv) (auto simp: timer_inv_def covers_def hm_simps split: if_splits)

lemma set_deadline_inv: "timer_inv t \<Longrightarrow> timer_inv (set_deadline t h d)"
  by (simp add: set_deadline_def schedule_inv remove_connection_inv split: option.splits)

lemma set_deadline_table:
  "hm_get (th_deadlines (set_deadline t h d)) k = (if k = h then d else hm_get (th_deadlines t) k)"
  by (auto simp: set_deadline_def schedule_def remove_connection_def hm_simps split: option.splits)

subsection \<open>Reading the next deadline\<close>

lemma drop_stale_sorted: "sorted h \<Longrightarrow> sorted (drop_stale dl h)"
  by (induction dl h rule: drop_stale.induct) auto

lemma drop_stale_covers: "covers dl h \<Longrightarrow> covers dl (drop_stale dl h)"
  by (induction dl h rule: drop_stale.induct) (auto simp: covers_def)

lemma drop_stale_front:
  "drop_stale dl h = (d, k) # es \<Longrightarrow> hm_get dl k = Some d"
  by (induction dl h rule: drop_stale.induct) (auto split: if_splits)

lemma covers_front_le:
  "sorted (e # es) \<Longrightarrow> covers dl (e # es) \<Longrightarrow> hm_get dl k = Some d \<Longrightarrow> e \<le> (d, k)"
  by (auto simp: covers_def)

lemma covers_Nil: "covers dl [] \<Longrightarrow> hm_get dl k = None"
  by (cases "hm_get dl k") (auto simp: covers_def)

lemma next_deadline_inv: "timer_inv t \<Longrightarrow> timer_inv (snd (next_deadline t))"
  by (simp add: timer_inv_def next_deadline_def Let_def drop_stale_sorted drop_stale_covers)

lemma next_deadline_spec:
  assumes "timer_inv t"
  shows "case fst (next_deadline t) of
      None \<Rightarrow> \<forall>k. hm_get (th_deadlines t) k = None
    | Some d \<Rightarrow> (\<exists>k. hm_get (th_deadlines t) k = Some d)
         \<and> (\<forall>k d'. hm_get (th_deadlines t) k = Some d' \<longrightarrow> d \<le> d')"
proof -
  let ?dl = "th_deadlines t" and ?h = "drop_stale (th_deadlines t) (th_heap t)"
  from assms have sc: "sorted ?h" "covers ?dl ?h"
    by (simp_all add: timer_inv_def drop_stale_sorted drop_stale_covers)
  show ?thesis
  proof (cases ?h)
    case Nil
    with sc covers_Nil show ?thesis by (auto simp: next_deadline_def heap_peek_def Let_def)
  next
    case (Cons e es)
    obtain d k where e: "e = (d, k)" by (cases e)
    from Cons e drop_stale_front have "hm_get ?dl k = Some d" by blast
    moreover have "d \<le> d'" if "hm_get ?dl k' = Some d'" for k' d'
      using covers_front_le [of e es ?dl k' d'] sc Cons e that by (auto simp: less_eq_prod_def)
    ultimately show ?thesis using Cons e by (auto simp: next_deadline_def heap_peek_def Let_def)
  qed
qed

subsection \<open>Popping expired timers\<close>

definition due :: "instant \<Rightarrow> (handle, instant) hashmap \<Rightarrow> heap_entry set" where
  "due now dl = {(d, k). hm_get dl k = Some d \<and> d \<le> now}"

definition not_due :: "instant \<Rightarrow> (handle, instant) hashmap \<Rightarrow> handle \<Rightarrow> instant option" where
  "not_due now dl k = (case hm_get dl k of Some d \<Rightarrow> if d \<le> now then None else Some d | None \<Rightarrow> None)"

lemma pop_loop_spec:
  assumes "sorted h" "covers dl h" "hm_wf dl"
  shows "\<exists>es dl' h'. pop_loop now dl h acc = (acc @ map snd es, dl', h')
    \<and> sorted_wrt (<) es \<and> set es = due now dl
    \<and> (\<forall>k. hm_get dl' k = not_due now dl k) \<and> sorted h' \<and> covers dl' h' \<and> hm_wf dl'"
  using assms
proof (induction now dl h acc rule: pop_loop.induct)
  case (1 now dl acc)
  then have none: "hm_get dl k = None" for k using covers_Nil by blast
  with 1 show ?case by (intro exI [of _ "[]"] exI [of _ dl]) (auto simp: due_def not_due_def covers_def)
next
  case (2 now dl d k h acc)
  consider (stale) "hm_get dl k \<noteq> Some d" | (later) "hm_get dl k = Some d" "now < d"
    | (fire) "hm_get dl k = Some d" "d \<le> now" by fastforce
  then show ?case
  proof cases
    case stale
    with 2(4) have "covers dl h" by (auto simp: covers_def)
    with 2(1) [OF stale] 2(3,5) stale show ?thesis by simp
  next
    case later
    have after: "now < d'" if "hm_get dl k' = Some d'" for k' d'
      using covers_front_le [OF 2(3,4) that] later(2) by (auto simp: less_eq_prod_def)
    have "due now dl = {}" using after by (fastforce simp: due_def)
    moreover have "not_due now dl k' = hm_get dl k'" for k'
      using after by (fastforce simp: not_due_def split: option.splits)
    ultimately show ?thesis using later 2(3-5)
      by (intro exI [of _ "[]"] exI [of _ dl] exI [of _ "(d, k) # h"]) simp
  next
    case fire
    let ?dl = "hm_remove k dl"
    have "covers ?dl h" using 2(4) by (auto simp: covers_def hm_simps split: if_splits)
    with 2(2) fire 2(3,5) obtain es dl' h'
      where IH: "pop_loop now ?dl h (acc @ [k]) = ((acc @ [k]) @ map snd es, dl', h')"
        "sorted_wrt (<) es" "set es = due now ?dl" "\<forall>k. hm_get dl' k = not_due now ?dl k"
        "sorted h'" "covers dl' h'" "hm_wf dl'"
      by (metis hm_wf_remove leD sorted_simps(2))
    have first: "(d, k) < e" if "e \<in> set es" for e
    proof -
      obtain d' k' where e: "e = (d', k')" by (cases e)
      with that IH(3) have "k' \<noteq> k" "hm_get dl k' = Some d'"
        by (auto simp: due_def hm_simps split: if_splits)
      with covers_front_le [OF 2(3,4), of k' d'] e show ?thesis by (auto simp: less_prod_def less_eq_prod_def)
    qed
    have "set ((d, k) # es) = due now dl"
      using IH(3) fire by (auto simp: due_def hm_simps split: if_splits)
    moreover have "hm_get dl' k' = not_due now dl k'" for k'
      using IH(4) fire by (auto simp: not_due_def hm_simps)
    moreover have "pop_loop now dl ((d, k) # h) acc = (acc @ map snd ((d, k) # es), dl', h')"
      using IH(1) fire by simp
    ultimately show ?thesis using IH first
      by (intro exI [of _ "(d, k) # es"] exI [of _ dl'] exI [of _ h']) auto
  qed
qed

lemma pop_expired_spec:
  assumes "timer_inv t" "pop_expired t now = (expired, t')"
  shows "\<exists>es. expired = map snd es \<and> sorted_wrt (<) es \<and> set es = due now (th_deadlines t)"
    "hm_get (th_deadlines t') k = not_due now (th_deadlines t) k" "timer_inv t'"
proof -
  from assms(1) have pre: "sorted (th_heap t)" "covers (th_deadlines t) (th_heap t)" "hm_wf (th_deadlines t)"
    by (simp_all add: timer_inv_def)
  from pop_loop_spec [OF pre, of now "[]"] obtain es dl' h'
    where r: "pop_loop now (th_deadlines t) (th_heap t) [] = (map snd es, dl', h')"
      "sorted_wrt (<) es" "set es = due now (th_deadlines t)"
      "\<forall>k. hm_get dl' k = not_due now (th_deadlines t) k" "sorted h'" "covers dl' h'" "hm_wf dl'"
    by (metis append_Nil)
  from r(1) assms(2) have e: "expired = map snd es" and t': "t' = t\<lparr>th_heap := h', th_deadlines := dl'\<rparr>"
    by (auto simp: pop_expired_def)
  with r show "\<exists>es. expired = map snd es \<and> sorted_wrt (<) es \<and> set es = due now (th_deadlines t)"
    "hm_get (th_deadlines t') k = not_due now (th_deadlines t) k" "timer_inv t'"
    by (auto simp: timer_inv_def)
qed

text \<open>
  C25. No timer is lost, repeated or fired early. On a heap with its invariant,
  \<^verbatim>\<open>pop_expired\<close> returns, in order of deadline and then handle, exactly the handles whose
  canonical deadline is at or before \<^verbatim>\<open>now\<close>, each once; it forgets exactly those deadlines and
  leaves the rest; and \<^verbatim>\<open>next_deadline\<close> is the earliest canonical deadline, or none when there
  is none, however many stale entries the heap holds.
\<close>

theorem timer_heap_fires_exactly_due:
  assumes "timer_inv t" and "pop_expired t now = (expired, t')"
  shows "(\<exists>es. expired = map snd es \<and> sorted_wrt (<) es
            \<and> set es = {(d, k). hm_get (th_deadlines t) k = Some d \<and> d \<le> now})
    \<and> (\<forall>k. hm_get (th_deadlines t') k = (case hm_get (th_deadlines t) k of
            Some d \<Rightarrow> if d \<le> now then None else Some d | None \<Rightarrow> None))
    \<and> timer_inv t'
    \<and> (case fst (next_deadline t) of
        None \<Rightarrow> \<forall>k. hm_get (th_deadlines t) k = None
      | Some d \<Rightarrow> (\<exists>k. hm_get (th_deadlines t) k = Some d)
           \<and> (\<forall>k d'. hm_get (th_deadlines t) k = Some d' \<longrightarrow> d \<le> d'))"
  using pop_expired_spec [OF assms] next_deadline_spec [OF assms(1)]
  by (simp add: due_def not_due_def)

definition sample_heap :: timer_heap where
  "sample_heap = set_deadline (set_deadline (set_deadline timer_heap_new 1 (Some 100)) 2 (Some 50)) 1 (Some 200)"

lemma sample_heap_inv: "timer_inv sample_heap"
  by (simp add: sample_heap_def set_deadline_inv)

lemma sample_heap_pop:
  "pop_expired sample_heap 120
     = ([2], \<lparr>th_heap = [(200, 1)], th_deadlines = [(1, 200)]\<rparr>)"
  by (simp add: sample_heap_def timer_heap_new_def heap_new_def set_deadline_def schedule_def
      heap_push_def maybe_compact_def pop_expired_def saturating_mul_def usize_max_def)

theorem timer_heap_fires_exactly_due_witness:
  "(\<exists>es. [2] = map snd es \<and> sorted_wrt (<) es
      \<and> set es = {(d, k). hm_get (th_deadlines sample_heap) k = Some d \<and> d \<le> 120})
   \<and> fst (next_deadline sample_heap) = Some 50"
  using timer_heap_fires_exactly_due [OF sample_heap_inv sample_heap_pop]
  by (simp add: sample_heap_def timer_heap_new_def heap_new_def set_deadline_def schedule_def
      heap_push_def maybe_compact_def next_deadline_def heap_peek_def saturating_mul_def usize_max_def)

subsection \<open>Compaction\<close>

lemma compact_current: "e \<in> set (th_heap (compact t)) \<Longrightarrow> is_current_deadline t (snd e) (fst e)"
  using mset_eq_setD [OF compact_heap(1)] by (auto simp: current_entries_def)

text \<open>
  Stale entries are bounded. After every \<^verbatim>\<open>set_deadline\<close> either the heap is at most four
  times the number of live timers plus thirty-two, or it holds no stale entry at all.
\<close>

theorem timer_heap_stale_bounded:
  "let t' = set_deadline t h d in
     length (th_heap t') \<le> 4 * length (th_deadlines t') + 32
     \<or> (\<forall>e \<in> set (th_heap t'). is_current_deadline t' (snd e) (fst e))"
proof -
  have bounded: "length (th_heap (maybe_compact u)) \<le> 4 * length (th_deadlines u) + 32
     \<or> (\<forall>e \<in> set (th_heap (maybe_compact u)). is_current_deadline (maybe_compact u) (snd e) (fst e))" for u
  proof (cases "saturating_mul (length (th_deadlines u)) 4 + 32 < length (th_heap u)")
    case True
    then have "maybe_compact u = compact u" by (simp add: maybe_compact_def)
    then show ?thesis using compact_current [of _ u] by (auto simp: is_current_deadline_def)
  next
    case False
    then show ?thesis by (auto simp: maybe_compact_def saturating_mul_def)
  qed
  obtain u where "set_deadline t h d = maybe_compact u"
    by (cases d) (auto simp: set_deadline_def schedule_def remove_connection_def)
  with bounded [of u] show ?thesis by (simp add: Let_def)
qed

theorem timer_heap_stale_bounded_witness:
  "length (th_heap sample_heap) \<le> 4 * length (th_deadlines sample_heap) + 32
   \<or> (\<forall>e \<in> set (th_heap sample_heap). is_current_deadline sample_heap (snd e) (fst e))"
  using timer_heap_stale_bounded
    [of "set_deadline (set_deadline timer_heap_new 1 (Some 100)) 2 (Some 50)" 1 "Some 200"]
  by (simp add: sample_heap_def Let_def)

lemma repeat_schedule:
  "(((\<lambda>t. set_deadline t h (Some d)) ^^ Suc n) timer_heap_new)
     = \<lparr>th_heap = replicate (Suc n) (d, h), th_deadlines = [(h, d)]\<rparr>"
proof (induction n)
  case 0
  show ?case
    by (simp add: set_deadline_def schedule_def timer_heap_new_def heap_new_def heap_push_def
        maybe_compact_def saturating_mul_def usize_max_def)
next
  case (Suc n)
  have push: "heap_push (d, h) (replicate m (d, h)) = replicate (Suc m) (d, h)" for m
    by (induction m) (simp_all add: heap_push_def)
  have "fold (\<lambda>(deadline, handle) hp. if is_current_deadline \<lparr>th_heap = H, th_deadlines = [(h, d)]\<rparr> handle deadline
            then heap_push (deadline, handle) hp else hp) (replicate m (d, h)) (replicate k (d, h))
        = replicate (m + k) (d, h)" for m k H
    by (induction m arbitrary: k) (simp_all add: is_current_deadline_def push del: replicate.simps)
  from this [of _ _ 0] have keep: "maybe_compact \<lparr>th_heap = replicate m (d, h), th_deadlines = [(h, d)]\<rparr>
      = \<lparr>th_heap = replicate m (d, h), th_deadlines = [(h, d)]\<rparr>" for m
    by (simp add: maybe_compact_def compact_def heap_new_def)
  show ?case
    unfolding funpow.simps(2) [of "Suc n"] o_apply Suc.IH
    by (simp add: set_deadline_def schedule_def push keep del: replicate.simps)
qed

text \<open>
  Re-arming an unchanged deadline grows the heap without bound. Compaction drops stale
  entries only, so scheduling the same deadline for one handle n times leaves n entries in the
  heap for a single live timer.
\<close>

theorem timer_heap_duplicates_kept:
  "let t = ((\<lambda>t. set_deadline t h (Some d)) ^^ Suc n) timer_heap_new
   in length (th_heap t) = Suc n \<and> length (th_deadlines t) = 1"
  unfolding repeat_schedule by simp

end
