(* ===== verification/Native_Error.thy ===== *)
theory Native_Error
  imports Rust_Prelude
begin

text \<open>
  The error type of \<^verbatim>\<open>error.rs\<close> and the structured tag it carries across the JavaScript boundary.
  Of quiche's error enumerations the development names the variants the sources match on; the
  others keep a code.
\<close>

datatype quiche_error = QDone | QBufferTooShort | QStreamStopped nat | QOther nat

datatype h3_error = H3Done | H3StreamBlocked | H3ExcessiveLoad | H3Transport quiche_error | H3Other nat

record io_error =
  raw_os_error :: "int option"
  io_message :: string

datatype native_error =
    Quiche quiche_error
  | H3 h3_error
  | Io io_error
  | FastPathUnavailable string string "int option" io_error
  | RuntimeIo string string "int option" string io_error
  | InvalidState string
  | Config string
  | ConnectionNotFound nat

definition fast_path_unavailable :: "string \<Rightarrow> string \<Rightarrow> io_error \<Rightarrow> native_error" where
  "fast_path_unavailable driver syscall src = FastPathUnavailable driver syscall (raw_os_error src) src"

definition runtime_io :: "string \<Rightarrow> string \<Rightarrow> string \<Rightarrow> io_error \<Rightarrow> native_error" where
  "runtime_io driver syscall reason_code src = RuntimeIo driver syscall (raw_os_error src) reason_code src"

fun show_nat :: "nat \<Rightarrow> string" where
  "show_nat n = (if n < 10 then [char_of (48 + n)] else show_nat (n div 10) @ [char_of (48 + n mod 10)])"

declare show_nat.simps [simp del]

definition show_int :: "int \<Rightarrow> string" where
  "show_int i = (if i < 0 then ''-'' @ show_nat (nat (- i)) else show_nat (nat i))"

fun structured_tag :: "native_error \<Rightarrow> string" where
  "structured_tag (Quiche _) = ''[h3:quic]''"
| "structured_tag (H3 _) = ''[h3:h3]''"
| "structured_tag (Io io) =
     (case raw_os_error io of
        Some errno \<Rightarrow> ''[h3:io|errno='' @ show_int errno @ '']'' | None \<Rightarrow> ''[h3:io]'')"
| "structured_tag (FastPathUnavailable driver syscall errno _) =
     ''[h3:fast-path|driver='' @ driver @ ''|syscall='' @ syscall
       @ (case errno of Some e \<Rightarrow> ''|errno='' @ show_int e | None \<Rightarrow> []) @ '']''"
| "structured_tag (RuntimeIo driver syscall errno reason_code _) =
     ''[h3:runtime-io|driver='' @ driver @ ''|syscall='' @ syscall @ ''|reason='' @ reason_code
       @ (case errno of Some e \<Rightarrow> ''|errno='' @ show_int e | None \<Rightarrow> []) @ '']''"
| "structured_tag (InvalidState _) = ''[h3:invalid-state]''"
| "structured_tag (Config _) = ''[h3:config]''"
| "structured_tag (ConnectionNotFound handle) = ''[h3:not-found|handle='' @ show_nat handle @ '']''"

text \<open>The \<^verbatim>\<open>Display\<close> text; those of the two libraries' errors are arguments.\<close>

definition errno_text :: "int option \<Rightarrow> string" where
  "errno_text e = (case e of None \<Rightarrow> ''unknown'' | Some v \<Rightarrow> show_int v)"

fun native_error_text :: "(quiche_error \<Rightarrow> string) \<Rightarrow> (h3_error \<Rightarrow> string) \<Rightarrow> native_error \<Rightarrow> string" where
  "native_error_text qt ht (Quiche e) = ''QUIC error: '' @ qt e"
| "native_error_text qt ht (H3 e) = ''HTTP/3 error: '' @ ht e"
| "native_error_text qt ht (Io io) = ''IO error: '' @ io_message io"
| "native_error_text qt ht (FastPathUnavailable driver syscall en io) =
     ''ERR_HTTP3_FAST_PATH_UNAVAILABLE driver='' @ driver @ '' syscall='' @ syscall @ '' errno='' @ errno_text en
       @ '' reason_code=fast-path-unavailable: '' @ io_message io"
| "native_error_text qt ht (RuntimeIo driver syscall en reason io) =
     ''ERR_HTTP3_RUNTIME_UNSUPPORTED driver='' @ driver @ '' syscall='' @ syscall @ '' errno='' @ errno_text en
       @ '' reason_code='' @ reason @ '': '' @ io_message io"
| "native_error_text qt ht (InvalidState s) = ''invalid state: '' @ s"
| "native_error_text qt ht (Config s) = ''config error: '' @ s"
| "native_error_text qt ht (ConnectionNotFound h) = ''connection not found: handle='' @ show_nat h"

end
