(* ===== verification/Cid.thy ===== *)
theory Cid
  imports Native_Error
begin

text \<open>
  Connection identifiers: \<^verbatim>\<open>cid.rs\<close> and \<^verbatim>\<open>proof_core/cid_model.rs\<close>. Random bytes are an
  argument; the QUIC-LB transform writes the rotation bits and the server identifier into them.
\<close>

definition SCID_LEN :: nat where "SCID_LEN = 20"
definition QUIC_LB_SERVER_ID_LEN :: nat where "QUIC_LB_SERVER_ID_LEN = 8"
definition CONFIG_ROTATION_MASK :: byte where "CONFIG_ROTATION_MASK = 0xE0"
definition RANDOM_LOW_BITS_MASK :: byte where "RANDOM_LOW_BITS_MASK = 0x1F"
definition MAX_CONFIG_ROTATION :: byte where "MAX_CONFIG_ROTATION = 6"

datatype cid_model_error = InvalidScidLen | InvalidConfigRotation

definition valid_config_rotation :: "byte \<Rightarrow> bool" where
  "valid_config_rotation r \<longleftrightarrow> r \<le> MAX_CONFIG_ROTATION"

definition model_apply_quic_lb_plaintext ::
  "byte list \<Rightarrow> nat \<Rightarrow> byte list \<Rightarrow> byte \<Rightarrow> cid_model_error + byte list" where
  "model_apply_quic_lb_plaintext scid expected_scid_len server_id config_rotation =
     (if length scid \<noteq> expected_scid_len \<or> expected_scid_len < 1 + QUIC_LB_SERVER_ID_LEN
      then Inl InvalidScidLen
      else if \<not> valid_config_rotation config_rotation then Inl InvalidConfigRotation
      else
        let random_low_bits = (scid ! 0) AND RANDOM_LOW_BITS_MASK;
            first = (push_bit 5 config_rotation AND CONFIG_ROTATION_MASK) OR random_low_bits
        in Inr (first # server_id @ drop (1 + QUIC_LB_SERVER_ID_LEN) scid))"

fun map_cid_model_error :: "cid_model_error \<Rightarrow> native_error" where
  "map_cid_model_error InvalidScidLen = Config ''scid length must be exactly 20 bytes''"
| "map_cid_model_error InvalidConfigRotation =
     Config ''quic_lb config_rotation must be in range 0..=6 (0b111 is reserved)''"

datatype cid_encoding = Random | QuicLbPlaintext "byte list" byte

definition quic_lb_plaintext :: "byte list \<Rightarrow> byte \<Rightarrow> native_error + cid_encoding" where
  "quic_lb_plaintext server_id config_rotation =
     (if \<not> valid_config_rotation config_rotation
      then Inl (Config ''quic_lb config_rotation must be in range 0..=6 (0b111 is reserved)'')
      else Inr (QuicLbPlaintext server_id config_rotation))"

definition apply_quic_lb_plaintext :: "byte list \<Rightarrow> byte list \<Rightarrow> byte \<Rightarrow> native_error + byte list" where
  "apply_quic_lb_plaintext scid server_id config_rotation =
     (if length scid \<noteq> SCID_LEN then Inl (Config ''scid length must be exactly 20 bytes'')
      else map_sum map_cid_model_error id
             (model_apply_quic_lb_plaintext scid SCID_LEN server_id config_rotation))"

definition apply_encoding :: "cid_encoding \<Rightarrow> byte list \<Rightarrow> native_error + byte list" where
  "apply_encoding enc scid =
     (case enc of
        QuicLbPlaintext server_id config_rotation \<Rightarrow>
          apply_quic_lb_plaintext scid server_id config_rotation
      | Random \<Rightarrow> Inr scid)"

text \<open>The native path fills \<^const>\<open>SCID_LEN\<close> bytes from the system generator, here the argument
  \<open>rng\<close> (\<^const>\<open>None\<close> when it fails); the other path takes the caller's bytes.\<close>

definition generate_scid :: "cid_encoding \<Rightarrow> byte list option \<Rightarrow> native_error + byte list" where
  "generate_scid enc rng =
     (case rng of
        None \<Rightarrow> Inl (Config ''cryptographic RNG failed'')
      | Some scid \<Rightarrow> apply_encoding enc scid)"

definition generate_scid_from_bytes :: "cid_encoding \<Rightarrow> byte list \<Rightarrow> native_error + byte list" where
  "generate_scid_from_bytes enc random_bytes =
     (if length random_bytes \<noteq> SCID_LEN then Inl (Config ''random_bytes must be exactly 20 bytes'')
      else apply_encoding enc random_bytes)"

definition parse_server_id_bytes :: "byte list \<Rightarrow> native_error + byte list" where
  "parse_server_id_bytes server_id =
     (if length server_id \<noteq> QUIC_LB_SERVER_ID_LEN
      then Inl (Config ''server_id must be exactly 8 bytes'') else Inr server_id)"

definition extract_plaintext_server_id :: "byte list \<Rightarrow> byte list option" where
  "extract_plaintext_server_id scid =
     (if length scid < 1 + QUIC_LB_SERVER_ID_LEN then None
      else Some (take QUIC_LB_SERVER_ID_LEN (drop 1 scid)))"

text \<open>An encoding as the constructors build it: an eight-byte server identifier and a rotation
  below seven.\<close>

definition cid_encoding_wf :: "cid_encoding \<Rightarrow> bool" where
  "cid_encoding_wf enc \<longleftrightarrow>
     (case enc of
        Random \<Rightarrow> True
      | QuicLbPlaintext sid r \<Rightarrow> length sid = QUIC_LB_SERVER_ID_LEN \<and> valid_config_rotation r)"

subsection \<open>Bits of the first byte\<close>

lemma rotation_cases:
  assumes "valid_config_rotation r"
  shows "r \<in> {0, 1, 2, 3, 4, 5, 6}"
proof -
  from assms have "unat r \<le> 6"
    by (simp add: valid_config_rotation_def MAX_CONFIG_ROTATION_def word_le_nat_alt)
  then have "unat r \<in> {0, 1, 2, 3, 4, 5, 6}" by auto
  then show ?thesis by (auto simp: word_unat_eq_iff)
qed

lemma first_byte_rotation:
  assumes "valid_config_rotation r"
  shows "drop_bit 5 ((push_bit 5 r AND CONFIG_ROTATION_MASK) OR (x AND RANDOM_LOW_BITS_MASK)) = r"
proof -
  have high: "drop_bit 5 (x AND RANDOM_LOW_BITS_MASK) = 0"
    unfolding RANDOM_LOW_BITS_MASK_def drop_bit_and by simp
  show ?thesis
    using rotation_cases [OF assms]
    unfolding drop_bit_or high by (auto simp: CONFIG_ROTATION_MASK_def)
qed

lemma first_byte_random_bits:
  "((push_bit 5 r AND CONFIG_ROTATION_MASK) OR (x AND RANDOM_LOW_BITS_MASK)) AND RANDOM_LOW_BITS_MASK
     = x AND RANDOM_LOW_BITS_MASK"
proof -
  have "CONFIG_ROTATION_MASK AND RANDOM_LOW_BITS_MASK = 0"
    by (simp add: CONFIG_ROTATION_MASK_def RANDOM_LOW_BITS_MASK_def)
  then have "(push_bit 5 r AND CONFIG_ROTATION_MASK) AND RANDOM_LOW_BITS_MASK = 0"
    by (simp add: and.assoc)
  then show ?thesis by (simp add: bit.conj_disj_distrib2 and.assoc)
qed

subsection \<open>Encoding\<close>

lemma apply_encoding_length:
  assumes "cid_encoding_wf enc" "length scid = SCID_LEN" "apply_encoding enc scid = Inr scid'"
  shows "length scid' = SCID_LEN"
  using assms
  by (auto simp: apply_encoding_def apply_quic_lb_plaintext_def model_apply_quic_lb_plaintext_def
      cid_encoding_wf_def SCID_LEN_def QUIC_LB_SERVER_ID_LEN_def Let_def split: cid_encoding.splits if_splits)

lemma apply_encoding_total:
  assumes "cid_encoding_wf enc" "length scid = SCID_LEN"
  shows "\<exists>scid'. apply_encoding enc scid = Inr scid'"
  using assms
  by (auto simp: apply_encoding_def apply_quic_lb_plaintext_def model_apply_quic_lb_plaintext_def
      cid_encoding_wf_def SCID_LEN_def QUIC_LB_SERVER_ID_LEN_def Let_def split: cid_encoding.splits)

text \<open>
  C33. A QUIC-LB connection identifier carries its routing data and nothing else changes. For
  every well-formed encoding and every twenty random bytes generation succeeds with a twenty-byte
  identifier; the load balancer reads back the server identifier and the rotation, which is never
  the reserved value seven; and the low five bits of the first byte and the last eleven bytes are
  the random ones.
\<close>

theorem quic_lb_cid_round_trip:
  assumes "length server_id = QUIC_LB_SERVER_ID_LEN" and "valid_config_rotation r"
    and "length random_bytes = SCID_LEN"
  shows "\<exists>scid. generate_scid_from_bytes (QuicLbPlaintext server_id r) random_bytes = Inr scid
    \<and> length scid = SCID_LEN \<and> extract_plaintext_server_id scid = Some server_id
    \<and> drop_bit 5 (scid ! 0) = r \<and> r \<noteq> 7
    \<and> scid ! 0 AND RANDOM_LOW_BITS_MASK = random_bytes ! 0 AND RANDOM_LOW_BITS_MASK
    \<and> drop 9 scid = drop 9 random_bytes"
proof -
  let ?first = "(push_bit 5 r AND CONFIG_ROTATION_MASK) OR (random_bytes ! 0 AND RANDOM_LOW_BITS_MASK)"
  have gen: "generate_scid_from_bytes (QuicLbPlaintext server_id r) random_bytes
      = Inr (?first # server_id @ drop 9 random_bytes)"
    using assms by (simp add: generate_scid_from_bytes_def apply_encoding_def apply_quic_lb_plaintext_def
        model_apply_quic_lb_plaintext_def SCID_LEN_def QUIC_LB_SERVER_ID_LEN_def Let_def)
  have "r \<noteq> 7" using rotation_cases [OF assms(2)] by auto
  with gen assms first_byte_rotation [OF assms(2)] first_byte_random_bits show ?thesis
    by (simp add: extract_plaintext_server_id_def SCID_LEN_def QUIC_LB_SERVER_ID_LEN_def)
qed

theorem quic_lb_cid_round_trip_witness:
  "\<exists>scid. generate_scid_from_bytes (QuicLbPlaintext [1, 2, 3, 4, 5, 6, 7, 8] 2) (replicate 20 255) = Inr scid
    \<and> extract_plaintext_server_id scid = Some [1, 2, 3, 4, 5, 6, 7, 8] \<and> drop_bit 5 (scid ! 0) = 2"
  using quic_lb_cid_round_trip [of "[1, 2, 3, 4, 5, 6, 7, 8]" 2 "replicate 20 255"]
  by (auto simp: SCID_LEN_def QUIC_LB_SERVER_ID_LEN_def valid_config_rotation_def MAX_CONFIG_ROTATION_def)

end
