(* ===== verification/Retry_Token.thy ===== *)
theory Retry_Token
  imports Cid
begin

text \<open>
  Retry tokens: the payload codec of \<^verbatim>\<open>proof_core/retry_token_model.rs\<close>, the HMAC use and the
  deterministic identifier source of \<^verbatim>\<open>retry_token.rs\<close>. The HMAC-SHA256 primitive of the
  \<^verbatim>\<open>boring\<close> crate is the argument \<open>hmac\<close>; the only property used of it is that a tag has
  thirty-two bytes.
\<close>

subsection \<open>Big-endian bytes\<close>

fun be_bytes :: "nat \<Rightarrow> nat \<Rightarrow> byte list" where
  "be_bytes 0 x = []"
| "be_bytes (Suc n) x = be_bytes n (x div 256) @ [of_nat x]"

definition from_be_bytes :: "byte list \<Rightarrow> nat" where
  "from_be_bytes bs = foldl (\<lambda>acc b. acc * 256 + unat b) 0 bs"

lemma byte_bound: "unat (b :: byte) < 256"
proof -
  have "unat b < 2 ^ 8" using unsigned_less [of b] by simp
  then show ?thesis by simp
qed

lemma be_bytes_length [simp]: "length (be_bytes n x) = n"
  by (induction n arbitrary: x) auto

lemma from_be_bytes_snoc: "from_be_bytes (bs @ [b]) = from_be_bytes bs * 256 + unat b"
  by (simp add: from_be_bytes_def)

lemma from_be_be_bytes: "from_be_bytes (be_bytes n x) = x mod 256 ^ n"
proof (induction n arbitrary: x)
  case (Suc n)
  have "unat (of_nat x :: byte) = x mod 256" by (simp add: unat_of_nat)
  then show ?case by (simp add: from_be_bytes_snoc Suc.IH mod_mult2_eq ac_simps)
qed (simp add: from_be_bytes_def)

lemma from_be_bytes_bound: "from_be_bytes bs < 256 ^ length bs"
proof (induction bs rule: rev_induct)
  case (snoc b bs)
  have "unat b < 256" by (rule byte_bound)
  with snoc show ?case by (simp add: from_be_bytes_snoc)
qed (simp add: from_be_bytes_def)

lemma be_from_be_bytes: "be_bytes (length bs) (from_be_bytes bs) = bs"
proof (induction bs rule: rev_induct)
  case (snoc b bs)
  have "unat b < 256" by (rule byte_bound)
  then have "(from_be_bytes bs * 256 + unat b) div 256 = from_be_bytes bs"
    by simp
  moreover have "(of_nat (from_be_bytes bs * 256 + unat b) :: byte) = b"
  proof -
    have "(of_nat 256 :: byte) = 0" by simp
    then show ?thesis by (simp del: of_nat_numeral)
  qed
  ultimately show ?case using snoc by (simp add: from_be_bytes_snoc del: of_nat_add)
qed (simp add: from_be_bytes_def)

subsection \<open>Addresses and payloads\<close>

datatype socket_addr = V4 "32 word" "16 word" | V6 "128 word" "16 word"

definition build_token_payload :: "socket_addr \<Rightarrow> 64 word \<Rightarrow> byte list \<Rightarrow> byte list" where
  "build_token_payload peer now odcid =
     (case peer of
        V4 ip port \<Rightarrow> 4 # be_bytes 4 (unat ip) @ be_bytes 2 (unat port)
      | V6 ip port \<Rightarrow> 6 # be_bytes 16 (unat ip) @ be_bytes 2 (unat port))
     @ be_bytes 8 (unat now) @ [of_nat (length odcid)] @ odcid"

definition slice :: "byte list \<Rightarrow> nat \<Rightarrow> nat \<Rightarrow> byte list" where
  "slice bs from n = take n (drop from bs)"

definition abs_diff :: "64 word \<Rightarrow> 64 word \<Rightarrow> nat" where
  "abs_diff a b = (if b \<le> a then unat a - unat b else unat b - unat a)"

text \<open>The address check of \<^verbatim>\<open>parse_token_payload\<close>; the result is the position after it.\<close>

definition parse_addr :: "byte list \<Rightarrow> socket_addr \<Rightarrow> nat \<Rightarrow> byte \<Rightarrow> nat option" where
  "parse_addr payload peer pos family =
     (case peer of
        V4 ip port \<Rightarrow>
          if family \<noteq> 4 then None
          else if length payload < pos + 6 then None
          else if slice payload pos 4 \<noteq> be_bytes 4 (unat ip) then None
          else if slice payload (pos + 4) 2 \<noteq> be_bytes 2 (unat port) then None
          else Some (pos + 6)
      | V6 ip port \<Rightarrow>
          if family \<noteq> 6 then None
          else if length payload < pos + 18 then None
          else if slice payload pos 16 \<noteq> be_bytes 16 (unat ip) then None
          else if slice payload (pos + 16) 2 \<noteq> be_bytes 2 (unat port) then None
          else Some (pos + 18))"

definition parse_token_payload :: "byte list \<Rightarrow> socket_addr \<Rightarrow> 64 word \<Rightarrow> 64 word \<Rightarrow> byte list option" where
  "parse_token_payload payload peer now lifetime_secs =
     (if length payload \<le> 0 then None
      else case parse_addr payload peer 1 (payload ! 0) of
        None \<Rightarrow> None
      | Some pos \<Rightarrow>
          if length payload < pos + 8 then None
          else
            let timestamp = (of_nat (from_be_bytes (slice payload pos 8)) :: 64 word);
                pos = pos + 8
            in if unat lifetime_secs < abs_diff now timestamp then None
            else if length payload \<le> pos then None
            else
              let odcid_len = unat (payload ! pos); pos = pos + 1
              in if length payload < pos + odcid_len then None
                 else Some (slice payload pos odcid_len))"

subsection \<open>Tokens and identifiers keyed by HMAC\<close>

type_synonym hmac_fn = "byte list \<Rightarrow> byte list \<Rightarrow> byte list"

definition TOKEN_LIFETIME_SECS :: "64 word" where "TOKEN_LIFETIME_SECS = 60"

definition hmac_sha256_verify :: "hmac_fn \<Rightarrow> byte list \<Rightarrow> byte list \<Rightarrow> byte list \<Rightarrow> bool" where
  "hmac_sha256_verify hmac key data tag = (if length tag \<noteq> 32 then False else hmac key data = tag)"

definition mint_token :: "hmac_fn \<Rightarrow> byte list \<Rightarrow> 64 word \<Rightarrow> socket_addr \<Rightarrow> byte list \<Rightarrow> byte list" where
  "mint_token hmac key now peer odcid =
     (let payload = build_token_payload peer now odcid in hmac key payload @ payload)"

definition validate_token ::
  "hmac_fn \<Rightarrow> byte list \<Rightarrow> 64 word \<Rightarrow> byte list \<Rightarrow> socket_addr \<Rightarrow> byte list option" where
  "validate_token hmac key now token peer =
     (if length token < 32 then None
      else let tag_bytes = take 32 token; payload = drop 32 token in
        if \<not> hmac_sha256_verify hmac key payload tag_bytes then None
        else parse_token_payload payload peer now TOKEN_LIFETIME_SECS)"

record scid_source =
  src_key :: "byte list"
  src_counter :: "64 word"

definition scid_source_new :: "byte list \<Rightarrow> scid_source" where
  "scid_source_new key = \<lparr>src_key = key, src_counter = 0\<rparr>"

definition scid_message :: "64 word \<Rightarrow> byte list" where
  "scid_message counter = [0x73, 0x63, 0x69, 0x64, 0x3A] @ be_bytes 8 (unat counter)"

definition next_scid :: "hmac_fn \<Rightarrow> scid_source \<Rightarrow> cid_encoding \<Rightarrow> (native_error + byte list) \<times> scid_source" where
  "next_scid hmac src enc =
     (let counter = src_counter src + 1;
          digest = hmac (src_key src) (scid_message counter)
      in (generate_scid_from_bytes enc (take SCID_LEN digest), src\<lparr>src_counter := counter\<rparr>))"

subsection \<open>The codec\<close>

lemma abs_diff_le: "abs_diff a b \<le> n \<longleftrightarrow> unat a \<le> unat b + n \<and> unat b \<le> unat a + n"
  by (auto simp: abs_diff_def word_le_nat_alt)

lemma slice_append: "slice (xs @ ys) (length xs) n = take n ys"
  by (simp add: slice_def)

definition addr_part :: "socket_addr \<Rightarrow> byte list" where
  "addr_part peer = (case peer of
        V4 ip port \<Rightarrow> 4 # be_bytes 4 (unat ip) @ be_bytes 2 (unat port)
      | V6 ip port \<Rightarrow> 6 # be_bytes 16 (unat ip) @ be_bytes 2 (unat port))"

lemma build_parts:
  "build_token_payload peer now odcid
     = addr_part peer @ be_bytes 8 (unat now) @ [of_nat (length odcid)] @ odcid"
  by (simp add: build_token_payload_def addr_part_def)

lemma take_prefix_split: "take n xs = ys \<Longrightarrow> length ys = n \<Longrightarrow> xs = ys @ drop n xs"
  by (metis append_take_drop_id)

text \<open>The address check accepts exactly the payloads that begin with the encoded address.\<close>

lemma parse_addr_iff:
  assumes "payload \<noteq> []"
  shows "parse_addr payload peer 1 (payload ! 0) = Some pos \<longleftrightarrow>
    pos = length (addr_part peer) \<and> (\<exists>rest. payload = addr_part peer @ rest)"
proof (cases payload)
  case (Cons f xs)
  have v4: "take 4 xs = a \<and> take 2 (drop 4 xs) = b \<longleftrightarrow> (\<exists>rest. xs = a @ b @ rest)"
    if "length a = 4" "length b = 2" for a b :: "byte list"
    using that take_prefix_split [of 4 xs a] take_prefix_split [of 2 "drop 4 xs" b]
    by (auto simp: drop_drop) (metis append_take_drop_id)
  have v6: "take 16 xs = a \<and> take 2 (drop 16 xs) = b \<longleftrightarrow> (\<exists>rest. xs = a @ b @ rest)"
    if "length a = 16" "length b = 2" for a b :: "byte list"
    using that take_prefix_split [of 16 xs a] take_prefix_split [of 2 "drop 16 xs" b]
    by (auto simp: drop_drop) (metis append_take_drop_id)
  show ?thesis
  proof (cases peer)
    case (V4 ip port)
    with Cons v4 [of "be_bytes 4 (unat ip)" "be_bytes 2 (unat port)"] show ?thesis
      by (auto simp: parse_addr_def addr_part_def slice_def)
  next
    case (V6 ip port)
    with Cons v6 [of "be_bytes 16 (unat ip)" "be_bytes 2 (unat port)"] show ?thesis
      by (auto simp: parse_addr_def addr_part_def slice_def)
  qed
qed (use assms in simp)

lemma addr_part_nonempty [simp]: "addr_part peer \<noteq> []"
  by (cases peer) (simp_all add: addr_part_def)

lemma timestamp_round_trip: "(of_nat (from_be_bytes (be_bytes 8 (unat ts))) :: 64 word) = ts"
proof -
  have "unat ts < 2 ^ 64" using unsigned_less [of ts] by simp
  then show ?thesis by (simp add: from_be_be_bytes)
qed

lemma timestamp_bytes: "length bs = 8 \<Longrightarrow> be_bytes 8 (unat (of_nat (from_be_bytes bs) :: 64 word)) = bs"
proof -
  assume "length bs = 8"
  with from_be_bytes_bound [of bs] have "from_be_bytes bs < 2 ^ 64" by simp
  then have "unat (of_nat (from_be_bytes bs) :: 64 word) = from_be_bytes bs"
    by (simp add: unat_of_nat)
  with be_from_be_bytes [of bs] \<open>length bs = 8\<close> show ?thesis by simp
qed

text \<open>What the parser accepts is exactly an encoding for this peer, possibly followed by further
  bytes, whose timestamp is within the lifetime in either direction.\<close>

lemma parse_token_payload_sound:
  assumes "parse_token_payload payload peer now lifetime = Some odcid"
  shows "\<exists>ts rest. payload = build_token_payload peer ts odcid @ rest
    \<and> abs_diff now ts \<le> unat lifetime \<and> length odcid < 256"
proof -
  from assms have ne: "payload \<noteq> []" by (auto simp: parse_token_payload_def)
  with assms obtain pos where pa: "parse_addr payload peer 1 (payload ! 0) = Some pos"
    by (auto simp: parse_token_payload_def split: option.splits)
  then obtain r where pos: "pos = length (addr_part peer)" and payload: "payload = addr_part peer @ r"
    using parse_addr_iff [OF ne] by blast
  let ?ts = "of_nat (from_be_bytes (take 8 r)) :: 64 word"
  from assms ne pa pos have len: "8 < length r" and skew: "abs_diff now ?ts \<le> unat lifetime"
    and olen: "9 + unat (r ! 8) \<le> length r" and od: "odcid = take (unat (r ! 8)) (drop 9 r)"
    by (auto simp: parse_token_payload_def payload slice_def Let_def nth_append split: if_splits)
  have tsb: "be_bytes 8 (unat ?ts) = take 8 r" using len by (intro timestamp_bytes) simp
  have lo: "length odcid = unat (r ! 8)" using od olen by simp
  have lb: "length odcid < 256" using lo byte_bound by simp
  have "r = take 8 r @ [r ! 8] @ drop 9 r"
    using len by (metis Cons_nth_drop_Suc append_Cons append_Nil append_take_drop_id eval_nat_numeral(3))
  also have "drop 9 r = odcid @ drop (unat (r ! 8)) (drop 9 r)"
    by (simp add: od del: drop_drop)
  finally have "r = be_bytes 8 (unat ?ts) @ [of_nat (length odcid)] @ odcid @ drop (unat (r ! 8)) (drop 9 r)"
    by (simp add: tsb lo)
  then have "payload = build_token_payload peer ?ts odcid @ drop (unat (r ! 8)) (drop 9 r)"
    unfolding payload build_parts by simp
  with skew lb show ?thesis by blast
qed

lemma parse_build_token_payload:
  assumes "length odcid < 256" "abs_diff now ts \<le> unat lifetime"
  shows "parse_token_payload (build_token_payload peer ts odcid @ rest) peer now lifetime = Some odcid"
proof -
  let ?p = "build_token_payload peer ts odcid @ rest"
  have ne: "?p \<noteq> []" by (simp add: build_parts)
  have pa: "parse_addr ?p peer 1 (?p ! 0) = Some (length (addr_part peer))"
    unfolding parse_addr_iff [OF ne] by (simp add: build_parts)
  have "unat (of_nat (length odcid) :: byte) = length odcid" using assms(1) by (simp add: unat_of_nat)
  with pa ne assms show ?thesis
    by (simp add: parse_token_payload_def build_parts slice_def timestamp_round_trip Let_def nth_append)
qed

lemma be_bytes_inject:
  "x < 256 ^ n \<Longrightarrow> y < 256 ^ n \<Longrightarrow> be_bytes n x = be_bytes n y \<Longrightarrow> x = y"
  by (metis from_be_be_bytes mod_less)

lemma addr_part_inject:
  assumes "addr_part a @ xs = addr_part b @ ys"
  shows "a = b \<and> xs = ys"
proof -
  have w4: "unat (ip :: 32 word) < 256 ^ 4" for ip using unsigned_less [of ip] by simp
  have w6: "unat (ip :: 128 word) < 256 ^ 16" for ip using unsigned_less [of ip] by simp
  have wp: "unat (p :: 16 word) < 256 ^ 2" for p using unsigned_less [of p] by simp
  note inj = be_bytes_inject [OF w4 w4] be_bytes_inject [OF w6 w6] be_bytes_inject [OF wp wp]
  show ?thesis
    using assms
    by (cases a; cases b) (auto simp: addr_part_def append_eq_append_conv word_unat_eq_iff dest!: inj simp flip: append_assoc)
qed

lemma build_token_payload_inject:
  assumes "build_token_payload p ts od = build_token_payload p' ts' od' @ rest"
    and "length od < 256" "length od' < 256"
  shows "p = p' \<and> ts = ts' \<and> od = od' \<and> rest = []"
proof -
  from assms(1) have parts: "addr_part p @ be_bytes 8 (unat ts) @ of_nat (length od) # od
      = addr_part p' @ be_bytes 8 (unat ts') @ of_nat (length od') # od' @ rest"
    by (simp add: build_parts)
  from addr_part_inject [OF parts] have p: "p = p'"
    and r: "be_bytes 8 (unat ts) @ of_nat (length od) # od = be_bytes 8 (unat ts') @ of_nat (length od') # od' @ rest"
    by auto
  have wt: "unat (t :: 64 word) < 256 ^ 8" for t using unsigned_less [of t] by simp
  from r have tb: "be_bytes 8 (unat ts) = be_bytes 8 (unat ts')"
    and l: "(of_nat (length od) :: byte) = of_nat (length od')" and o: "od = od' @ rest"
    by (auto simp: append_eq_append_conv)
  from be_bytes_inject [OF wt wt tb] have "ts = ts'" by (simp add: word_unat_eq_iff)
  moreover have "length od = length od'"
    using arg_cong [OF l, of unat] assms(2,3) by (simp add: unat_of_nat)
  ultimately show ?thesis using p o by auto
qed


lemma validate_mint:
  assumes "\<And>k d. length (hmac k d) = 32"
  shows "validate_token hmac key now (mint_token hmac key minted peer odcid) peer'
       = parse_token_payload (build_token_payload peer minted odcid) peer' now TOKEN_LIFETIME_SECS"
  using assms by (simp add: validate_token_def mint_token_def hmac_sha256_verify_def Let_def)

text \<open>
  C22. A minted token validates for its own peer and for no other. With HMAC tags of thirty-two
  bytes, a token minted for a peer at some time validates at another time for a peer address if
  and only if the address is the same and the two times are at most sixty seconds apart, and it
  then yields the original connection identifier.
\<close>

theorem retry_token_bound_to_peer:
  assumes "\<And>k d. length (hmac k d) = 32" and "length odcid < 256"
  shows "validate_token hmac key now (mint_token hmac key minted peer odcid) peer'
       = (if peer' = peer \<and> unat now \<le> unat minted + 60 \<and> unat minted \<le> unat now + 60
          then Some odcid else None)"
proof -
  let ?r = "parse_token_payload (build_token_payload peer minted odcid) peer' now TOKEN_LIFETIME_SECS"
  have life: "unat TOKEN_LIFETIME_SECS = 60" by (simp add: TOKEN_LIFETIME_SECS_def)
  have only: "peer' = peer \<and> o' = odcid \<and> abs_diff now minted \<le> 60" if "?r = Some o'" for o'
  proof -
    from parse_token_payload_sound [OF that] obtain ts rest
      where eq: "build_token_payload peer minted odcid = build_token_payload peer' ts o' @ rest"
        and ts: "abs_diff now ts \<le> 60" and l: "length o' < 256" by (auto simp: life)
    from build_token_payload_inject [OF eq assms(2) l] ts show ?thesis by simp
  qed
  have "?r = (if peer' = peer \<and> abs_diff now minted \<le> 60 then Some odcid else None)"
    using only parse_build_token_payload [OF assms(2), of now minted TOKEN_LIFETIME_SECS peer "[]"] life
    by (cases ?r) auto
  with validate_mint [of hmac, OF assms(1)] show ?thesis by (simp add: abs_diff_le)
qed

theorem retry_token_bound_to_peer_witness:
  "validate_token (\<lambda>k d. replicate 32 0) [] 130 (mint_token (\<lambda>k d. replicate 32 0) [] 100 (V4 1 2) [9]) (V4 1 2)
     = Some [9]
   \<and> validate_token (\<lambda>k d. replicate 32 0) [] 130 (mint_token (\<lambda>k d. replicate 32 0) [] 100 (V4 1 2) [9]) (V4 1 3)
     = None"
  using retry_token_bound_to_peer [of "\<lambda>k d. replicate 32 0" "[9]" "[]" 130 100 "V4 1 2"]
  by simp

text \<open>
  The two uses of the HMAC key never share an input. The message that derives the next
  connection identifier differs from every retry-token payload and from the message of every
  other counter value, so a token tag is never an identifier digest and no identifier is derived
  twice before the counter wraps.
\<close>

theorem scid_derivation_domain_separated:
  "scid_message counter \<noteq> build_token_payload peer now odcid
   \<and> (scid_message counter = scid_message counter' \<longleftrightarrow> counter = counter')"
proof
  show "scid_message counter \<noteq> build_token_payload peer now odcid"
    by (cases peer) (simp_all add: scid_message_def build_token_payload_def)
  have w: "unat (c :: 64 word) < 256 ^ 8" for c using unsigned_less [of c] by simp
  show "scid_message counter = scid_message counter' \<longleftrightarrow> counter = counter'"
    using be_bytes_inject [OF w w] by (auto simp: scid_message_def word_unat_eq_iff)
qed

lemma next_scid_length:
  assumes "\<And>k d. length (hmac k d) = 32" "cid_encoding_wf enc"
  shows "\<exists>scid. fst (next_scid hmac src enc) = Inr scid \<and> length scid = SCID_LEN"
proof -
  have l: "length (take SCID_LEN (hmac k d)) = SCID_LEN" for k d using assms(1) by (simp add: SCID_LEN_def)
  then show ?thesis
    using apply_encoding_total [OF assms(2) l] apply_encoding_length [OF assms(2) l]
    by (fastforce simp: next_scid_def generate_scid_from_bytes_def Let_def)
qed

end
