(* ===== verification/Connection_Map.thy ===== *)
theory Connection_Map
  imports Retry_Token
begin

text \<open>
  Connection routing of \<^verbatim>\<open>connection_map.rs\<close>; \<^verbatim>\<open>QuicConnectionMap\<close> of
  \<^verbatim>\<open>quic_worker.rs\<close> is the same code over another connection type, so the model is polymorphic
  in the connection. The \<^verbatim>\<open>slab\<close> crate is an ordered table whose key allocation is the argument
  \<open>vacant\<close>: all that is used of it is that a new key is not in use. Accepting a connection in
  quiche is the argument \<open>accept\<close>.
\<close>

subsection \<open>The slab\<close>

type_synonym 'v slab = "(nat \<times> 'v) list"

definition slab_wf :: "'v slab \<Rightarrow> bool" where
  "slab_wf s \<longleftrightarrow> sorted_wrt (<) (map fst s)"

definition slab_insert :: "(nat list \<Rightarrow> nat) \<Rightarrow> 'v \<Rightarrow> 'v slab \<Rightarrow> nat \<times> 'v slab" where
  "slab_insert vacant v s = (let k = vacant (map fst s) in (k, insort_key fst (k, v) s))"

abbreviation slab_get :: "'v slab \<Rightarrow> nat \<Rightarrow> 'v option" where
  "slab_get s k \<equiv> map_of s k"

abbreviation slab_contains :: "'v slab \<Rightarrow> nat \<Rightarrow> bool" where
  "slab_contains s k \<equiv> map_of s k \<noteq> None"

abbreviation slab_remove :: "nat \<Rightarrow> 'v slab \<Rightarrow> 'v slab" where
  "slab_remove k s \<equiv> AList.delete k s"

abbreviation slab_put :: "nat \<Rightarrow> 'v \<Rightarrow> 'v slab \<Rightarrow> 'v slab" where
  "slab_put k v s \<equiv> AList.update k v s"

lemma slab_wf_distinct: "slab_wf s \<Longrightarrow> distinct (map fst s)"
  by (simp add: slab_wf_def strict_sorted_iff)

lemma insort_key_map_of:
  "k \<notin> fst ` set s \<Longrightarrow> map_of (insort_key fst (k, v) s) k' = (if k' = k then Some v else map_of s k')"
  by (induction s) auto

lemma insort_key_fst: "map fst (insort_key fst (k, v) s) = insort k (map fst s)"
  by (induction s) auto

lemma slab_insert_get:
  assumes "slab_insert vacant v s = (k, s')" "\<And>ks. vacant ks \<notin> set ks"
  shows "slab_get s' k' = (if k' = k then Some v else slab_get s k')" "slab_get s k = None"
    "length s' = Suc (length s)"
  using assms(1) assms(2) [of "map fst s"]
  by (auto simp: slab_insert_def Let_def insort_key_map_of map_of_eq_None_iff)

lemma slab_wf_insert:
  assumes "slab_insert vacant v s = (k, s')" "\<And>ks. vacant ks \<notin> set ks" "slab_wf s"
  shows "slab_wf s'"
proof -
  have "k \<notin> set (map fst s)"
    using assms(1) assms(2) [of "map fst s"] by (auto simp: slab_insert_def Let_def)
  with assms(1,3) show ?thesis
    by (auto simp: slab_wf_def slab_insert_def Let_def insort_key_fst strict_sorted_iff
        distinct_insort sorted_insort)
qed

lemma map_fst_delete: "map fst (AList.delete k s) = filter (\<lambda>x. x \<noteq> k) (map fst s)"
  by (induction s) auto

lemma slab_wf_remove: "slab_wf s \<Longrightarrow> slab_wf (slab_remove k s)"
  by (simp add: slab_wf_def map_fst_delete sorted_wrt_filter)

lemma map_fst_update: "map_of s k \<noteq> None \<Longrightarrow> map fst (AList.update k v s) = map fst s"
  by (induction s) auto

lemma slab_put_keys: "slab_contains s k \<Longrightarrow> map fst (slab_put k v s) = map fst s"
  by (rule map_fst_update) simp

lemma slab_wf_put: "slab_wf s \<Longrightarrow> slab_contains s k \<Longrightarrow> slab_wf (slab_put k v s)"
  by (simp add: slab_wf_def slab_put_keys)

lemma slab_length_put: "slab_contains s k \<Longrightarrow> length (slab_put k v s) = length s"
  using slab_put_keys [of s k v] by (metis length_map)

subsection \<open>The map\<close>

definition DEFAULT_MAX_CONNECTIONS :: nat where
  "DEFAULT_MAX_CONNECTIONS = 10000"

record 'c connection_map =
  by_dcid :: "(byte list, nat) hashmap"
  connections :: "'c slab"
  token_key :: "byte list"
  max_connections :: nat
  cm_cid_encoding :: cid_encoding
  cm_scid_source :: scid_source

definition with_key_bytes :: "nat \<Rightarrow> cid_encoding \<Rightarrow> byte list \<Rightarrow> 'c connection_map" where
  "with_key_bytes maxc enc key_bytes =
     \<lparr>by_dcid = [], connections = [], token_key = key_bytes, max_connections = maxc,
      cm_cid_encoding = enc, cm_scid_source = scid_source_new key_bytes\<rparr>"

definition with_max_connections_and_cid :: "byte list \<Rightarrow> nat \<Rightarrow> cid_encoding \<Rightarrow> 'c connection_map" where
  "with_max_connections_and_cid rng maxc enc = with_key_bytes maxc enc rng"

definition with_max_connections :: "byte list \<Rightarrow> nat \<Rightarrow> 'c connection_map" where
  "with_max_connections rng maxc = with_max_connections_and_cid rng maxc Random"

definition connection_map_new :: "byte list \<Rightarrow> 'c connection_map" where
  "connection_map_new rng = with_max_connections rng DEFAULT_MAX_CONNECTIONS"

definition cm_generate_scid :: "'c connection_map \<Rightarrow> byte list option \<Rightarrow> native_error + byte list" where
  "cm_generate_scid m rng = generate_scid (cm_cid_encoding m) rng"

definition generate_scid_direct ::
  "hmac_fn \<Rightarrow> 'c connection_map \<Rightarrow> (native_error + byte list) \<times> 'c connection_map" where
  "generate_scid_direct hmac m =
     (case next_scid hmac (cm_scid_source m) (cm_cid_encoding m) of
        (r, src) \<Rightarrow> (r, m\<lparr>cm_scid_source := src\<rparr>))"

definition generate_random_scid :: "byte list option \<Rightarrow> native_error + byte list" where
  "generate_random_scid rng = generate_scid Random rng"

definition route_packet :: "'c connection_map \<Rightarrow> byte list \<Rightarrow> nat option" where
  "route_packet m dcid = hm_get (by_dcid m) dcid"

definition add_dcid :: "'c connection_map \<Rightarrow> nat \<Rightarrow> byte list \<Rightarrow> 'c connection_map" where
  "add_dcid m handle dcid =
     (if slab_contains (connections m) handle
      then m\<lparr>by_dcid := hm_insert dcid handle (by_dcid m)\<rparr> else m)"

definition remove_dcid :: "'c connection_map \<Rightarrow> byte list \<Rightarrow> 'c connection_map" where
  "remove_dcid m dcid = m\<lparr>by_dcid := hm_remove dcid (by_dcid m)\<rparr>"

definition cm_mint_token :: "hmac_fn \<Rightarrow> 'c connection_map \<Rightarrow> 64 word \<Rightarrow> socket_addr \<Rightarrow> byte list \<Rightarrow> byte list" where
  "cm_mint_token hmac m now peer odcid = mint_token hmac (token_key m) now peer odcid"

definition cm_validate_token ::
  "hmac_fn \<Rightarrow> 'c connection_map \<Rightarrow> 64 word \<Rightarrow> byte list \<Rightarrow> socket_addr \<Rightarrow> byte list option" where
  "cm_validate_token hmac m now token peer = validate_token hmac (token_key m) now token peer"

definition accept_new ::
  "(nat list \<Rightarrow> nat) \<Rightarrow> (byte list \<Rightarrow> byte list option \<Rightarrow> socket_addr \<Rightarrow> socket_addr \<Rightarrow> quiche_error + 'c)
     \<Rightarrow> 'c connection_map \<Rightarrow> byte list \<Rightarrow> byte list option \<Rightarrow> socket_addr \<Rightarrow> socket_addr
     \<Rightarrow> (native_error + nat) \<times> 'c connection_map" where
  "accept_new vacant accept m scid odcid peer local =
     (if max_connections m \<le> length (connections m)
      then (Inl (Config (''max connections ('' @ show_nat (max_connections m) @ '') reached'')), m)
      else case accept scid odcid local peer of
        Inl e \<Rightarrow> (Inl (Quiche e), m)
      | Inr conn \<Rightarrow>
          (case slab_insert vacant conn (connections m) of (handle, conns) \<Rightarrow>
             (Inr handle, m\<lparr>connections := conns, by_dcid := hm_insert scid handle (by_dcid m)\<rparr>)))"

definition cm_get :: "'c connection_map \<Rightarrow> nat \<Rightarrow> 'c option" where
  "cm_get m handle = slab_get (connections m) handle"

text \<open>\<^verbatim>\<open>get_mut\<close> followed by a mutation of the connection.\<close>

definition cm_put :: "'c connection_map \<Rightarrow> nat \<Rightarrow> 'c \<Rightarrow> 'c connection_map" where
  "cm_put m handle conn =
     (if slab_contains (connections m) handle
      then m\<lparr>connections := slab_put handle conn (connections m)\<rparr> else m)"

definition cm_remove :: "'c connection_map \<Rightarrow> nat \<Rightarrow> 'c option \<times> 'c connection_map" where
  "cm_remove m handle =
     (case slab_get (connections m) handle of
        Some conn \<Rightarrow>
          (Some conn, m\<lparr>connections := slab_remove handle (connections m),
                        by_dcid := filter (\<lambda>(_, h). h \<noteq> handle) (by_dcid m)\<rparr>)
      | None \<Rightarrow> (None, m))"

definition fill_handles :: "'c connection_map \<Rightarrow> nat list" where
  "fill_handles m = map fst (connections m)"

definition cm_len :: "'c connection_map \<Rightarrow> nat" where
  "cm_len m = length (connections m)"

definition cm_is_empty :: "'c connection_map \<Rightarrow> bool" where
  "cm_is_empty m \<longleftrightarrow> connections m = []"

fun remove_each :: "'c connection_map \<Rightarrow> nat list \<Rightarrow> (nat \<times> 'c) list \<times> 'c connection_map" where
  "remove_each m [] = ([], m)"
| "remove_each m (h # hs) =
     (case cm_remove m h of (r, m') \<Rightarrow>
        case remove_each m' hs of (out, m'') \<Rightarrow>
          ((case r of Some c \<Rightarrow> (h, c) # out | None \<Rightarrow> out), m''))"

definition drain_closed :: "('c \<Rightarrow> bool) \<Rightarrow> 'c connection_map \<Rightarrow> (nat \<times> 'c) list \<times> 'c connection_map" where
  "drain_closed is_closed m =
     (let closed = map fst (filter (\<lambda>(_, conn). is_closed conn) (connections m)) in remove_each m closed)"

subsection \<open>The routing contract\<close>

definition cm_inv :: "'c connection_map \<Rightarrow> bool" where
  "cm_inv m \<longleftrightarrow> hm_wf (by_dcid m) \<and> slab_wf (connections m)
     \<and> (\<forall>d h. hm_get (by_dcid m) d = Some h \<longrightarrow> slab_contains (connections m) h)"

locale connection_registry =
  fixes inv :: "'m \<Rightarrow> bool"
    and route :: "'m \<Rightarrow> 'd \<Rightarrow> 'h option"
    and get :: "'m \<Rightarrow> 'h \<Rightarrow> 'c option"
    and remove :: "'m \<Rightarrow> 'h \<Rightarrow> 'm"
  assumes routed_live: "inv m \<Longrightarrow> route m d = Some h \<Longrightarrow> get m h \<noteq> None"
    and remove_inv: "inv m \<Longrightarrow> inv (remove m h)"
    and remove_get: "inv m \<Longrightarrow> get (remove m h) h' = (if h' = h then None else get m h')"
    and remove_route: "inv m \<Longrightarrow> route (remove m h) d = (if route m d = Some h then None else route m d)"
begin

lemma remove_list_inv: "inv m \<Longrightarrow> inv (foldl remove m hs)"
  by (induction hs arbitrary: m) (auto simp: remove_inv)

lemma remove_list_get: "inv m \<Longrightarrow> get (foldl remove m hs) h = (if h \<in> set hs then None else get m h)"
  by (induction hs arbitrary: m) (auto simp: remove_inv remove_get)

lemma remove_list_route:
  "inv m \<Longrightarrow> route (foldl remove m hs) d = (case route m d of
     Some h \<Rightarrow> if h \<in> set hs then None else Some h | None \<Rightarrow> None)"
  by (induction hs arbitrary: m) (auto simp: remove_inv remove_route split: option.splits)

end

lemma cm_inv_new [simp]: "cm_inv (with_key_bytes n enc key)"
  by (simp add: cm_inv_def with_key_bytes_def slab_wf_def)

lemma cm_inv_remove: "cm_inv m \<Longrightarrow> cm_inv (snd (cm_remove m h))"
  by (auto simp: cm_inv_def cm_remove_def slab_wf_remove hm_get_filter hm_simps
      split: option.splits if_splits)

interpretation h3_map: connection_registry cm_inv route_packet cm_get "\<lambda>m h. snd (cm_remove m h)"
proof unfold_locales
  fix m :: "'c connection_map" and h h' :: nat and d :: "byte list"
  assume inv: "cm_inv m"
  show "cm_inv (snd (cm_remove m h))" using inv by (rule cm_inv_remove)
  show "route_packet m d = Some h \<Longrightarrow> cm_get m h \<noteq> None"
    using inv by (auto simp: cm_inv_def route_packet_def cm_get_def)
  show "cm_get (snd (cm_remove m h)) h' = (if h' = h then None else cm_get m h')"
    by (auto simp: cm_remove_def cm_get_def hm_simps split: option.splits)
  show "route_packet (snd (cm_remove m h)) d = (if route_packet m d = Some h then None else route_packet m d)"
    using inv by (fastforce simp: cm_inv_def cm_remove_def route_packet_def hm_get_filter split: option.splits)
qed

subsection \<open>Accepting and removing\<close>

lemma remove_each_map: "snd (remove_each m hs) = foldl (\<lambda>m h. snd (cm_remove m h)) m hs"
  by (induction m hs rule: remove_each.induct) (auto split: prod.splits)

lemma cm_inv_add_dcid: "cm_inv m \<Longrightarrow> cm_inv (add_dcid m h d)"
  by (auto simp: cm_inv_def add_dcid_def hm_simps)

lemma cm_inv_remove_dcid: "cm_inv m \<Longrightarrow> cm_inv (remove_dcid m d)"
  by (auto simp: cm_inv_def remove_dcid_def hm_simps split: if_splits)

lemma cm_inv_put: "cm_inv m \<Longrightarrow> cm_inv (cm_put m h c)"
  by (auto simp: cm_inv_def cm_put_def slab_wf_put hm_simps)

lemma cm_inv_generate: "cm_inv m \<Longrightarrow> cm_inv (snd (generate_scid_direct hmac m))"
  by (simp add: cm_inv_def generate_scid_direct_def split: prod.splits)

lemma cm_put_get: "cm_get (cm_put m h c) h' = (if h' = h \<and> cm_get m h \<noteq> None then Some c else cm_get m h')"
  by (auto simp: cm_put_def cm_get_def hm_simps)

lemma cm_put_route [simp]: "route_packet (cm_put m h c) d = route_packet m d"
  by (simp add: cm_put_def route_packet_def)

lemma cm_put_len [simp]: "cm_len (cm_put m h c) = cm_len m" "max_connections (cm_put m h c) = max_connections m"
  by (simp_all add: cm_put_def cm_len_def slab_length_put)

lemma cm_inv_accept:
  assumes "cm_inv m" "accept_new vacant accept m scid odcid peer local = (r, m')"
    and vac: "\<And>ks. vacant ks \<notin> set ks"
  shows "cm_inv m'"
proof (cases "max_connections m \<le> length (connections m) \<or> isl (accept scid odcid local peer)")
  case True
  with assms(2) have "m' = m" by (auto simp: accept_new_def split: if_splits sum.splits)
  with assms(1) show ?thesis by simp
next
  case False
  then obtain conn where c: "accept scid odcid local peer = Inr conn"
    by (cases "accept scid odcid local peer") auto
  obtain handle conns where ins: "slab_insert vacant conn (connections m) = (handle, conns)" by fastforce
  from False c ins assms(2)
  have m': "m' = m\<lparr>connections := conns, by_dcid := hm_insert scid handle (by_dcid m)\<rparr>"
    by (simp add: accept_new_def)
  note I = slab_insert_get [OF ins vac]
  have "slab_contains conns h" if "hm_get (hm_insert scid handle (by_dcid m)) d = Some h" for d h
    using that assms(1) I(1) [of h] by (auto simp: cm_inv_def hm_simps split: if_splits)
  with assms(1) slab_wf_insert [OF ins vac] show ?thesis by (simp add: cm_inv_def m')
qed

text \<open>
  C21. Accepting a connection is isolated and bounded. When the connection limit is reached, or
  quiche refuses, the map is unchanged and the error says why. Otherwise the new connection gets a
  handle no live connection has, its identifier routes to it, every other identifier routes where
  it did, every existing connection is untouched, and the limit still holds.
\<close>

theorem accept_new_isolated:
  assumes "cm_inv m" and "\<And>ks. vacant ks \<notin> set ks"
    and "accept_new vacant accept m scid odcid peer local = (r, m')"
    and "cm_len m \<le> max_connections m"
  shows "cm_inv m' \<and> cm_len m' \<le> max_connections m' \<and>
    (case r of
       Inl e \<Rightarrow> m' = m \<and> (if cm_len m = max_connections m
          then e = Config (''max connections ('' @ show_nat (max_connections m) @ '') reached'')
          else \<exists>q. e = Quiche q \<and> accept scid odcid local peer = Inl q)
     | Inr handle \<Rightarrow>
         cm_len m < max_connections m \<and> cm_get m handle = None
         \<and> accept scid odcid local peer = Inr (the (cm_get m' handle))
         \<and> (\<forall>d. route_packet m' d = (if d = scid then Some handle else route_packet m d))
         \<and> (\<forall>h. h \<noteq> handle \<longrightarrow> cm_get m' h = cm_get m h))"
proof (cases "max_connections m \<le> length (connections m)")
  case True
  with assms show ?thesis by (auto simp: accept_new_def cm_len_def)
next
  case False
  show ?thesis
  proof (cases "accept scid odcid local peer")
    case (Inl e)
    with False assms show ?thesis by (auto simp: accept_new_def cm_len_def)
  next
    case (Inr conn)
    obtain handle conns where ins: "slab_insert vacant conn (connections m) = (handle, conns)" by fastforce
    note I = slab_insert_get [OF ins assms(2)]
    from False Inr ins assms(3)
    have m': "m' = m\<lparr>connections := conns, by_dcid := hm_insert scid handle (by_dcid m)\<rparr>"
      and r: "r = Inr handle" by (auto simp: accept_new_def)
    show ?thesis
      using False Inr I cm_inv_accept [OF assms(1,3,2)]
      by (simp add: m' r cm_len_def cm_get_def route_packet_def hm_simps)
  qed
qed

definition fresh_key :: "nat list \<Rightarrow> nat" where
  "fresh_key ks = Suc (foldr max ks 0)"

lemma fresh_key_vacant: "fresh_key ks \<notin> set ks"
proof -
  have le: "k \<in> set ks \<Longrightarrow> k \<le> foldr max ks 0" for k
    by (induction ks) auto
  show ?thesis
  proof
    assume "fresh_key ks \<in> set ks"
    from le [OF this] show False by (simp add: fresh_key_def)
  qed
qed

definition one_connection :: "bool connection_map" where
  "one_connection = (with_key_bytes 2 Random [])\<lparr>by_dcid := [([7], 1)], connections := [(1, True)]\<rparr>"

lemma one_connection_accepted:
  "accept_new fresh_key (\<lambda>_ _ _ _. Inr True) (with_key_bytes 2 Random []) [7] None (V4 1 2) (V4 3 4)
     = (Inr 1, one_connection)"
  by (simp add: accept_new_def with_key_bytes_def slab_insert_def fresh_key_def one_connection_def Let_def)

theorem accept_new_isolated_witness:
  "cm_inv one_connection \<and> route_packet one_connection [7] = Some 1"
  using accept_new_isolated [OF cm_inv_new fresh_key_vacant one_connection_accepted]
  by (simp add: with_key_bytes_def cm_len_def)

lemma remove_each_out:
  "cm_inv m \<Longrightarrow> distinct hs \<Longrightarrow>
     set (fst (remove_each m hs)) = {(h, c). h \<in> set hs \<and> cm_get m h = Some c}"
proof (induction hs arbitrary: m)
  case (Cons h hs)
  let ?m = "snd (cm_remove m h)"
  have get: "cm_get ?m h' = (if h' = h then None else cm_get m h')" for h'
    by (rule h3_map.remove_get [OF Cons.prems(1)])
  have "fst (cm_remove m h) = cm_get m h" by (simp add: cm_remove_def cm_get_def split: option.splits)
  then have "fst (remove_each m (h # hs)) =
      (case cm_get m h of Some c \<Rightarrow> (h, c) # fst (remove_each ?m hs) | None \<Rightarrow> fst (remove_each ?m hs))"
    by (cases "cm_remove m h") (auto split: prod.splits option.splits)
  moreover have "set (fst (remove_each ?m hs)) = {(h', c). h' \<in> set hs \<and> cm_get m h' = Some c}"
    using Cons.IH [OF cm_inv_remove [OF Cons.prems(1)]] Cons.prems(2) get by (auto split: if_splits)
  ultimately show ?case by (cases "cm_get m h") auto
qed simp

lemma closed_handles:
  assumes "cm_inv m"
  shows "h \<in> set (map fst (filter (\<lambda>(_, conn). is_closed conn) (connections m)))
    \<longleftrightarrow> (\<exists>c. cm_get m h = Some c \<and> is_closed c)"
proof -
  have "distinct (map fst (connections m))" using assms by (simp add: cm_inv_def slab_wf_distinct)
  then have "(h, c) \<in> set (connections m) \<longleftrightarrow> cm_get m h = Some c" for c
    by (simp add: cm_get_def)
  then show ?thesis by (auto simp: image_iff)
qed

text \<open>
  C28. A removed connection receives no packet. Draining the closed connections returns exactly
  those, leaves every other connection and its routes as they were, and leaves no identifier that
  routes to a drained handle, so a later connection that reuses the slot does not inherit one.
\<close>

theorem drain_closed_unroutable:
  assumes "cm_inv m" and "drain_closed is_closed m = (out, m')"
  shows "cm_inv m' \<and> set out = {(h, c). cm_get m h = Some c \<and> is_closed c}
    \<and> (\<forall>h. cm_get m' h = (case cm_get m h of Some c \<Rightarrow> if is_closed c then None else Some c | None \<Rightarrow> None))
    \<and> (\<forall>d. route_packet m' d = (case route_packet m d of
          Some h \<Rightarrow> if is_closed (the (cm_get m h)) then None else Some h | None \<Rightarrow> None))"
proof -
  let ?closed = "map fst (filter (\<lambda>(_, conn). is_closed conn) (connections m))"
  note mem = closed_handles [OF assms(1), of _ is_closed]
  have m': "m' = foldl (\<lambda>m h. snd (cm_remove m h)) m ?closed"
    using assms(2) remove_each_map [of m ?closed] by (simp add: drain_closed_def)
  have get: "cm_get m' h = (if h \<in> set ?closed then None else cm_get m h)" for h
    unfolding m' by (rule h3_map.remove_list_get [OF assms(1)])
  have route: "route_packet m' d = (case route_packet m d of
      Some h \<Rightarrow> if h \<in> set ?closed then None else Some h | None \<Rightarrow> None)" for d
    unfolding m' by (rule h3_map.remove_list_route [OF assms(1)])
  have "distinct ?closed"
    using assms(1) by (intro distinct_map_filter) (simp add: cm_inv_def slab_wf_distinct)
  then have "set out = {(h, c). h \<in> set ?closed \<and> cm_get m h = Some c}"
    using remove_each_out [OF assms(1), of ?closed] assms(2) by (simp add: drain_closed_def)
  then have out: "set out = {(h, c). cm_get m h = Some c \<and> is_closed c}"
    unfolding mem by auto
  have get': "cm_get m' h = (case cm_get m h of Some c \<Rightarrow> if is_closed c then None else Some c | None \<Rightarrow> None)" for h
    unfolding get mem by (simp split: option.splits)
  have route': "route_packet m' d = (case route_packet m d of
      Some h \<Rightarrow> if is_closed (the (cm_get m h)) then None else Some h | None \<Rightarrow> None)" for d
  proof (cases "route_packet m d")
    case (Some h)
    with h3_map.routed_live [OF assms(1) Some] show ?thesis unfolding route mem by auto
  qed (simp add: route)
  have "cm_inv m'" unfolding m' by (rule h3_map.remove_list_inv [OF assms(1)])
  with out get' route' show ?thesis by blast
qed

definition two_connections :: "bool connection_map" where
  "two_connections = \<lparr>by_dcid = [([1], 0), ([2], 1)], connections = [(0, True), (1, False)],
     token_key = [], max_connections = 2, cm_cid_encoding = Random, cm_scid_source = scid_source_new []\<rparr>"

lemma two_connections_inv: "cm_inv two_connections"
  by (auto simp: two_connections_def cm_inv_def hm_wf_def slab_wf_def)

lemma two_connections_get:
  "route_packet two_connections [1] = Some 0" "route_packet two_connections [2] = Some 1"
  "cm_get two_connections 0 = Some True" "cm_get two_connections 1 = Some False"
  by (simp_all add: two_connections_def route_packet_def cm_get_def)

theorem drain_closed_unroutable_witness:
  "route_packet (snd (drain_closed id two_connections)) [1] = None
   \<and> route_packet (snd (drain_closed id two_connections)) [2] = Some 1"
  using drain_closed_unroutable [OF two_connections_inv, of id "fst (drain_closed id two_connections)"
      "snd (drain_closed id two_connections)"] two_connections_get
  by simp

end
