(* ===== verification/Server_Sharding.thy ===== *)
theory Server_Sharding
  imports Rust_Prelude
begin

text \<open>
  Handle sharding of \<^verbatim>\<open>server_sharding.rs\<close>: the worker index in the upper twelve bits of a
  connection handle, the slab handle in the lower twenty.
\<close>

definition WORKER_SHIFT :: nat where "WORKER_SHIFT = 20"
definition WORKER_MASK :: "32 word" where "WORKER_MASK = push_bit WORKER_SHIFT 1 - 1"

definition worker_index :: "32 word \<Rightarrow> nat" where
  "worker_index conn_handle = unat (drop_bit WORKER_SHIFT conn_handle)"

definition local_conn_handle :: "32 word \<Rightarrow> 32 word" where
  "local_conn_handle conn_handle = conn_handle AND WORKER_MASK"

definition handle_offset :: "32 word \<Rightarrow> 32 word" where
  "handle_offset index = push_bit WORKER_SHIFT index"

lemma worker_mask: "WORKER_MASK = mask 20"
  by (simp add: WORKER_MASK_def WORKER_SHIFT_def mask_eq_exp_minus_1)

lemma local_conn_handle_take_bit: "local_conn_handle h = take_bit 20 h"
  by (simp add: local_conn_handle_def worker_mask take_bit_eq_mask)

lemma handle_recompose: "handle_offset (drop_bit 20 h) OR local_conn_handle h = h"
proof -
  have "push_bit 20 (drop_bit 20 h) OR take_bit 20 h = h"
    by (rule bit_word_eqI) (auto simp: bit_simps)
  then show ?thesis
    by (simp add: handle_offset_def local_conn_handle_take_bit WORKER_SHIFT_def)
qed

lemma compose_handle:
  assumes "unat w < 4096" and "unat l < 2 ^ 20"
  shows "worker_index (handle_offset w OR l) = unat w" and "local_conn_handle (handle_offset w OR l) = l"
proof -
  have l: "take_bit 20 l = l"
    using assms(2) by (simp add: word_unat_eq_iff unsigned_take_bit_eq take_bit_nat_eq_self)
  have w: "take_bit 12 w = w"
    using assms(1) by (simp add: word_unat_eq_iff unsigned_take_bit_eq take_bit_nat_eq_self)
  have "drop_bit 20 (push_bit 20 w OR l) = take_bit 12 w OR drop_bit 20 (take_bit 20 l)"
    unfolding l by (rule bit_word_eqI) (auto simp: bit_simps)
  moreover have "drop_bit 20 (take_bit 20 l) = 0" by (rule bit_word_eqI) (auto simp: bit_simps)
  ultimately show "worker_index (handle_offset w OR l) = unat w"
    using w by (simp add: worker_index_def handle_offset_def WORKER_SHIFT_def)
  have "take_bit 20 (push_bit 20 w OR l) = take_bit 20 l"
    by (rule bit_word_eqI) (auto simp: bit_simps)
  then show "local_conn_handle (handle_offset w OR l) = l"
    using l by (simp add: local_conn_handle_take_bit handle_offset_def WORKER_SHIFT_def)
qed

lemma worker_index_local: "unat l < 2 ^ 20 \<Longrightarrow> worker_index l = 0"
  using compose_handle(1) [of 0 l] by (simp add: handle_offset_def)

text \<open>
  C35. Global handles are unambiguous. A worker with an index below 4096 and a slab handle below
  2^20 compose to a handle from which both are read back; and composing what is read back from
  any handle gives that handle again, so no two connections of a server share one.
\<close>

theorem sharded_handle_round_trip:
  assumes "unat w < 4096" and "unat l < 2 ^ 20"
  shows "worker_index (handle_offset w OR l) = unat w
    \<and> local_conn_handle (handle_offset w OR l) = l
    \<and> handle_offset (drop_bit WORKER_SHIFT h) OR local_conn_handle h = h"
  using compose_handle [OF assms] handle_recompose [of h] by (simp add: WORKER_SHIFT_def)

theorem sharded_handle_round_trip_witness:
  "worker_index (handle_offset 3 OR 17) = 3 \<and> local_conn_handle (handle_offset 3 OR 17) = 17"
  using sharded_handle_round_trip [of 3 17] by simp

end
