(* ===== verification/Stream_Tracking.thy ===== *)
theory Stream_Tracking
  imports Rust_Prelude
begin

text \<open>
  The per-stream cleanup bookkeeping of \<^verbatim>\<open>proof_core/stream_tracking.rs\<close>: fixed arrays of flags
  and a fixed-capacity queue compacted in place. The in-place loops are modelled step by step and
  shown to compute the filtered queue.
\<close>

definition STREAM_TRACKING_SLOTS :: nat where "STREAM_TRACKING_SLOTS = 4"
definition BLOCKED_QUEUE_CAPACITY :: nat where "BLOCKED_QUEUE_CAPACITY = 8"

record stream_tracking_flags =
  fl_blocked_set :: bool
  fl_blocked_queue_entries :: nat
  fl_pending_body :: bool
  fl_trailer_fin :: bool
  fl_pending_write :: bool
  fl_pending_response :: bool

definition flags_has_any_state :: "stream_tracking_flags \<Rightarrow> bool" where
  "flags_has_any_state f \<longleftrightarrow> fl_blocked_set f \<or> 0 < fl_blocked_queue_entries f \<or> fl_pending_body f
     \<or> fl_trailer_fin f \<or> fl_pending_write f \<or> fl_pending_response f"

record stream_tracking_model =
  st_blocked_set :: "bool list"
  st_blocked_queue :: "nat list"
  st_blocked_queue_len :: nat
  st_pending_body :: "bool list"
  st_trailer_fin :: "bool list"
  st_pending_write :: "bool list"
  st_pending_response :: "bool list"

definition stream_tracking_new :: stream_tracking_model where
  "stream_tracking_new =
     \<lparr>st_blocked_set = replicate STREAM_TRACKING_SLOTS False,
      st_blocked_queue = replicate BLOCKED_QUEUE_CAPACITY 0, st_blocked_queue_len = 0,
      st_pending_body = replicate STREAM_TRACKING_SLOTS False,
      st_trailer_fin = replicate STREAM_TRACKING_SLOTS False,
      st_pending_write = replicate STREAM_TRACKING_SLOTS False,
      st_pending_response = replicate STREAM_TRACKING_SLOTS False\<rparr>"

definition model_slot :: "nat \<Rightarrow> nat" where
  "model_slot stream_slot = stream_slot mod STREAM_TRACKING_SLOTS"

definition push_blocked_queue_entry :: "stream_tracking_model \<Rightarrow> nat \<Rightarrow> stream_tracking_model" where
  "push_blocked_queue_entry m slot =
     (if st_blocked_queue_len m < BLOCKED_QUEUE_CAPACITY
      then m\<lparr>st_blocked_queue := (st_blocked_queue m)[st_blocked_queue_len m := slot],
             st_blocked_queue_len := st_blocked_queue_len m + 1\<rparr>
      else m)"

definition track_blocked :: "stream_tracking_model \<Rightarrow> nat \<Rightarrow> stream_tracking_model" where
  "track_blocked m stream_slot =
     (let slot = model_slot stream_slot in
      if \<not> st_blocked_set m ! slot
      then push_blocked_queue_entry (m\<lparr>st_blocked_set := (st_blocked_set m)[slot := True]\<rparr>) slot
      else m)"

definition inject_blocked_queue_entry :: "stream_tracking_model \<Rightarrow> nat \<Rightarrow> stream_tracking_model" where
  "inject_blocked_queue_entry m stream_slot = push_blocked_queue_entry m (model_slot stream_slot)"

definition track_pending_body :: "stream_tracking_model \<Rightarrow> nat \<Rightarrow> stream_tracking_model" where
  "track_pending_body m slot = m\<lparr>st_pending_body := (st_pending_body m)[model_slot slot := True]\<rparr>"

definition track_trailer_fin :: "stream_tracking_model \<Rightarrow> nat \<Rightarrow> stream_tracking_model" where
  "track_trailer_fin m slot = m\<lparr>st_trailer_fin := (st_trailer_fin m)[model_slot slot := True]\<rparr>"

definition track_pending_write :: "stream_tracking_model \<Rightarrow> nat \<Rightarrow> stream_tracking_model" where
  "track_pending_write m slot = m\<lparr>st_pending_write := (st_pending_write m)[model_slot slot := True]\<rparr>"

definition track_pending_response :: "stream_tracking_model \<Rightarrow> nat \<Rightarrow> stream_tracking_model" where
  "track_pending_response m slot = m\<lparr>st_pending_response := (st_pending_response m)[model_slot slot := True]\<rparr>"

text \<open>The two loops of \<^verbatim>\<open>remove_blocked_queue_entries\<close>: compact in place, then clear the tail.\<close>

definition compact_step :: "nat \<Rightarrow> nat \<Rightarrow> nat \<Rightarrow> nat list \<times> nat \<Rightarrow> nat list \<times> nat" where
  "compact_step len slot read acc =
     (case acc of (q, w) \<Rightarrow>
        if read < len then
          let entry = q ! read in if entry \<noteq> slot then (q[w := entry], w + 1) else (q, w)
        else (q, w))"

definition clear_step :: "nat \<Rightarrow> nat \<Rightarrow> nat list \<Rightarrow> nat list" where
  "clear_step w idx q = (if w \<le> idx then q[idx := 0] else q)"

definition remove_blocked_queue_entries :: "stream_tracking_model \<Rightarrow> nat \<Rightarrow> stream_tracking_model" where
  "remove_blocked_queue_entries m slot =
     (let len = min (st_blocked_queue_len m) BLOCKED_QUEUE_CAPACITY in
      case fold (compact_step len slot) [0 ..< BLOCKED_QUEUE_CAPACITY] (st_blocked_queue m, 0) of
        (q, w) \<Rightarrow>
          m\<lparr>st_blocked_queue := fold (clear_step w) [0 ..< BLOCKED_QUEUE_CAPACITY] q,
            st_blocked_queue_len := w\<rparr>)"

definition cleanup_h3_closed_stream :: "stream_tracking_model \<Rightarrow> nat \<Rightarrow> stream_tracking_model" where
  "cleanup_h3_closed_stream m stream_slot =
     (let slot = model_slot stream_slot;
          m1 = remove_blocked_queue_entries (m\<lparr>st_blocked_set := (st_blocked_set m)[slot := False]\<rparr>) slot
      in m1\<lparr>st_pending_body := (st_pending_body m1)[slot := False],
            st_trailer_fin := (st_trailer_fin m1)[slot := False]\<rparr>)"

definition cleanup_worker_closed_stream :: "stream_tracking_model \<Rightarrow> nat \<Rightarrow> stream_tracking_model" where
  "cleanup_worker_closed_stream m stream_slot =
     (let slot = model_slot stream_slot
      in m\<lparr>st_pending_write := (st_pending_write m)[slot := False],
           st_pending_response := (st_pending_response m)[slot := False]\<rparr>)"

definition cleanup_closed_stream :: "stream_tracking_model \<Rightarrow> nat \<Rightarrow> stream_tracking_model" where
  "cleanup_closed_stream m slot = cleanup_worker_closed_stream (cleanup_h3_closed_stream m slot) slot"

definition cleanup_if_closed :: "stream_tracking_model \<Rightarrow> nat \<Rightarrow> bool \<Rightarrow> stream_tracking_model" where
  "cleanup_if_closed m slot closed = (if closed then cleanup_closed_stream m slot else m)"

definition blocked_queue_entries :: "stream_tracking_model \<Rightarrow> nat \<Rightarrow> nat" where
  "blocked_queue_entries m stream_slot =
     (let slot = model_slot stream_slot;
          len = min (st_blocked_queue_len m) BLOCKED_QUEUE_CAPACITY
      in fold (\<lambda>idx count. if idx < len \<and> st_blocked_queue m ! idx = slot then count + 1 else count)
           [0 ..< BLOCKED_QUEUE_CAPACITY] 0)"

definition tracking_flags :: "stream_tracking_model \<Rightarrow> nat \<Rightarrow> stream_tracking_flags" where
  "tracking_flags m stream_slot =
     (let slot = model_slot stream_slot in
      \<lparr>fl_blocked_set = st_blocked_set m ! slot,
       fl_blocked_queue_entries = blocked_queue_entries m slot,
       fl_pending_body = st_pending_body m ! slot, fl_trailer_fin = st_trailer_fin m ! slot,
       fl_pending_write = st_pending_write m ! slot,
       fl_pending_response = st_pending_response m ! slot\<rparr>)"

definition has_any_state :: "stream_tracking_model \<Rightarrow> nat \<Rightarrow> bool" where
  "has_any_state m slot = flags_has_any_state (tracking_flags m slot)"

subsection \<open>Invariant and abstraction\<close>

definition tracking_inv :: "stream_tracking_model \<Rightarrow> bool" where
  "tracking_inv m \<longleftrightarrow> length (st_blocked_set m) = STREAM_TRACKING_SLOTS
     \<and> length (st_blocked_queue m) = BLOCKED_QUEUE_CAPACITY
     \<and> st_blocked_queue_len m \<le> BLOCKED_QUEUE_CAPACITY
     \<and> length (st_pending_body m) = STREAM_TRACKING_SLOTS
     \<and> length (st_trailer_fin m) = STREAM_TRACKING_SLOTS
     \<and> length (st_pending_write m) = STREAM_TRACKING_SLOTS
     \<and> length (st_pending_response m) = STREAM_TRACKING_SLOTS"

definition queue_of :: "stream_tracking_model \<Rightarrow> nat list" where
  "queue_of m = take (st_blocked_queue_len m) (st_blocked_queue m)"

lemma model_slot_bound [simp]: "model_slot n < STREAM_TRACKING_SLOTS"
  by (simp add: model_slot_def STREAM_TRACKING_SLOTS_def)

lemma model_slot_idem [simp]: "model_slot (model_slot n) = model_slot n"
  by (simp add: model_slot_def)

text \<open>Writing behind the read position does not disturb what is still to be read.\<close>

lemma compact_loop:
  assumes "n \<le> length q" "len \<le> length q"
  shows "let kept = filter (\<lambda>e. e \<noteq> slot) (take (min n len) q);
             (q', w) = fold (compact_step len slot) [0 ..< n] (q, 0)
         in w = length kept \<and> take w q' = kept \<and> length q' = length q \<and> drop n q' = drop n q \<and> w \<le> n"
  using assms(1)
proof (induction n)
  case (Suc n)
  obtain q' w where f: "fold (compact_step len slot) [0 ..< n] (q, 0) = (q', w)" by fastforce
  let ?kept = "filter (\<lambda>e. e \<noteq> slot) (take (min n len) q)"
  from Suc f have w: "w = length ?kept" "take w q' = ?kept" "length q' = length q"
    "drop n q' = drop n q" "w \<le> n" by (auto simp: Let_def)
  have read: "q' ! n = q ! n"
    using w(3,4) Suc.prems by (metis Suc_le_eq hd_drop_conv_nth)
  have drop: "drop (Suc n) q' = drop (Suc n) q"
    using w(4) by (metis drop_Suc drop_tl)
  have step: "fold (compact_step len slot) [0 ..< Suc n] (q, 0) = compact_step len slot n (q', w)"
    by (simp add: f)
  show ?case
  proof (cases "n < len \<and> q ! n \<noteq> slot")
    case True
    then have k: "filter (\<lambda>e. e \<noteq> slot) (take (min (Suc n) len) q) = ?kept @ [q ! n]"
      using Suc.prems by (simp add: min_def take_Suc_conv_app_nth)
    have "take (w + 1) (q'[w := q ! n]) = ?kept @ [q ! n]"
      using w Suc.prems by (simp add: take_Suc_conv_app_nth)
    moreover have "compact_step len slot n (q', w) = (q'[w := q ! n], w + 1)"
      using True read by (simp add: compact_step_def)
    ultimately show ?thesis
      unfolding step using k drop w Suc.prems by (simp add: Let_def)
  next
    case False
    then have k: "filter (\<lambda>e. e \<noteq> slot) (take (min (Suc n) len) q) = ?kept"
    proof (cases "n < len")
      case True
      with False Suc.prems show ?thesis by (simp add: min_def take_Suc_conv_app_nth)
    next
      case False
      then have "min (Suc n) len = min n len" by simp
      then show ?thesis by simp
    qed
    moreover have "compact_step len slot n (q', w) = (q', w)"
      using False read by (auto simp: compact_step_def)
    ultimately show ?thesis
      unfolding step using drop w by (simp add: Let_def)
  qed
qed simp

lemma clear_loop_length: "length (fold (clear_step w) idxs q) = length q"
  by (induction idxs arbitrary: q) (auto simp: clear_step_def)

lemma clear_loop_prefix: "take w (fold (clear_step w) idxs q) = take w q"
  by (induction idxs arbitrary: q) (auto simp: clear_step_def)

lemma remove_entries_queue:
  assumes "tracking_inv m"
  shows "queue_of (remove_blocked_queue_entries m slot) = filter (\<lambda>e. e \<noteq> slot) (queue_of m)"
    "tracking_inv (remove_blocked_queue_entries m slot)"
proof -
  let ?len = "st_blocked_queue_len m" and ?q = "st_blocked_queue m"
  from assms have len: "?len \<le> BLOCKED_QUEUE_CAPACITY" "length ?q = BLOCKED_QUEUE_CAPACITY"
    by (auto simp: tracking_inv_def)
  obtain q w where f: "fold (compact_step ?len slot) [0 ..< BLOCKED_QUEUE_CAPACITY] (?q, 0) = (q, w)"
    by fastforce
  from compact_loop [of BLOCKED_QUEUE_CAPACITY ?q ?len slot] f len
  have w: "w = length (filter (\<lambda>e. e \<noteq> slot) (take ?len ?q))"
    "take w q = filter (\<lambda>e. e \<noteq> slot) (take ?len ?q)" "length q = BLOCKED_QUEUE_CAPACITY"
    "w \<le> BLOCKED_QUEUE_CAPACITY" by (auto simp: Let_def)
  have r: "remove_blocked_queue_entries m slot =
      m\<lparr>st_blocked_queue := fold (clear_step w) [0 ..< BLOCKED_QUEUE_CAPACITY] q, st_blocked_queue_len := w\<rparr>"
    using f len by (simp add: remove_blocked_queue_entries_def min_absorb1)
  show "queue_of (remove_blocked_queue_entries m slot) = filter (\<lambda>e. e \<noteq> slot) (queue_of m)"
    using w by (simp add: queue_of_def r clear_loop_prefix)
  show "tracking_inv (remove_blocked_queue_entries m slot)"
    using assms w by (simp add: tracking_inv_def r clear_loop_length)
qed

lemma count_loop:
  assumes "n \<le> length q"
  shows "fold (\<lambda>idx count. if idx < len \<and> q ! idx = slot then count + 1 else count) [0 ..< n] (0 :: nat)
       = length (filter (\<lambda>e. e = slot) (take (min n len) q))"
  using assms
proof (induction n)
  case (Suc n)
  then show ?case by (auto simp: min_def take_Suc_conv_app_nth not_less)
qed simp

lemma entries_count:
  assumes "tracking_inv m"
  shows "blocked_queue_entries m slot = length (filter (\<lambda>e. e = model_slot slot) (queue_of m))"
  using assms count_loop [of BLOCKED_QUEUE_CAPACITY "st_blocked_queue m"]
  by (simp add: blocked_queue_entries_def Let_def tracking_inv_def queue_of_def min_absorb1 min_absorb2)

lemma cleanup_inv: "tracking_inv m \<Longrightarrow> tracking_inv (cleanup_closed_stream m slot)"
  using remove_entries_queue(2) [of "m\<lparr>st_blocked_set := (st_blocked_set m)[model_slot slot := False]\<rparr>"]
  by (simp add: cleanup_closed_stream_def cleanup_worker_closed_stream_def cleanup_h3_closed_stream_def
      Let_def tracking_inv_def)

lemma cleanup_queue:
  assumes "tracking_inv m"
  shows "queue_of (cleanup_closed_stream m slot) = filter (\<lambda>e. e \<noteq> model_slot slot) (queue_of m)"
proof -
  let ?m = "m\<lparr>st_blocked_set := (st_blocked_set m)[model_slot slot := False]\<rparr>"
  have "tracking_inv ?m" using assms by (simp add: tracking_inv_def)
  from remove_entries_queue(1) [OF this, of "model_slot slot"] show ?thesis
    by (simp add: cleanup_closed_stream_def cleanup_worker_closed_stream_def cleanup_h3_closed_stream_def
        Let_def queue_of_def)
qed

text \<open>
  Closing a stream forgets it entirely and nothing else. After the cleanup of a closed stream
  no flag, pending entry or queue entry of that stream is left, the flags of every other stream
  are exactly what they were, and the arrays keep their bounds.
\<close>

theorem stream_cleanup_exact:
  assumes "tracking_inv m"
  shows "tracking_inv (cleanup_closed_stream m slot)
    \<and> \<not> has_any_state (cleanup_closed_stream m slot) slot
    \<and> (model_slot other \<noteq> model_slot slot \<longrightarrow>
         tracking_flags (cleanup_closed_stream m slot) other = tracking_flags m other)
    \<and> cleanup_if_closed m slot False = m"
proof -
  let ?c = "cleanup_closed_stream m slot"
  have inv: "tracking_inv ?c" using assms by (rule cleanup_inv)
  have count: "blocked_queue_entries ?c s = (if model_slot s = model_slot slot then 0 else blocked_queue_entries m s)" for s
    unfolding entries_count [OF inv] entries_count [OF assms] cleanup_queue [OF assms]
    by (auto simp: filter_empty_conv intro!: arg_cong [where f = length] filter_cong)
  have flags: "st_blocked_set ?c = (st_blocked_set m)[model_slot slot := False]"
    "st_pending_body ?c = (st_pending_body m)[model_slot slot := False]"
    "st_trailer_fin ?c = (st_trailer_fin m)[model_slot slot := False]"
    "st_pending_write ?c = (st_pending_write m)[model_slot slot := False]"
    "st_pending_response ?c = (st_pending_response m)[model_slot slot := False]"
    by (simp_all add: cleanup_closed_stream_def cleanup_worker_closed_stream_def
        cleanup_h3_closed_stream_def remove_blocked_queue_entries_def Let_def split: prod.splits)
  have "\<not> has_any_state ?c slot"
    using assms count [of "model_slot slot"]
    by (simp add: has_any_state_def flags_has_any_state_def tracking_flags_def Let_def flags tracking_inv_def)
  moreover have "tracking_flags ?c other = tracking_flags m other" if "model_slot other \<noteq> model_slot slot"
    using that count [of "model_slot other"]
    by (simp add: tracking_flags_def Let_def flags)
  ultimately show ?thesis using inv by (simp add: cleanup_if_closed_def)
qed

theorem stream_cleanup_exact_witness:
  "\<not> has_any_state (cleanup_closed_stream (track_pending_write (track_blocked stream_tracking_new 2) 2) 2) 2"
  using stream_cleanup_exact [of "track_pending_write (track_blocked stream_tracking_new 2) 2" 2 1]
  by (simp add: tracking_inv_def track_pending_write_def track_blocked_def stream_tracking_new_def
      push_blocked_queue_entry_def STREAM_TRACKING_SLOTS_def BLOCKED_QUEUE_CAPACITY_def model_slot_def Let_def)

end
