(* ===== verification/Cmsg.thy ===== *)
theory Cmsg
  imports Retry_Token
begin

text \<open>
  Control messages and buffer rings: \<^verbatim>\<open>proof_core/cmsg_cursor.rs\<close>, the control-buffer walk of
  \<^verbatim>\<open>transport/socket.rs\<close> on 64-bit little-endian Linux, and \<^verbatim>\<open>proof_core/ring_layout.rs\<close>.
  A raw read outside the control buffer is \<^const>\<open>None\<close>.
\<close>

subsection \<open>Cursor arithmetic\<close>

record cmsg_step_result =
  data_offset :: nat
  next_offset :: nat

definition is_power_of_two :: "nat \<Rightarrow> bool" where
  "is_power_of_two n = list_ex (\<lambda>k. n = 2 ^ k) [0 ..< 64]"

definition checked_cmsg_align :: "nat \<Rightarrow> nat \<Rightarrow> nat option" where
  "checked_cmsg_align len align =
     (if align = 0 \<or> \<not> is_power_of_two align then None
      else map_option (\<lambda>l. unat ((of_nat l :: 64 word) AND NOT (of_nat (align - 1))))
             (checked_add len (align - 1)))"

definition cmsg_data_offset :: "nat \<Rightarrow> nat \<Rightarrow> nat option" where
  "cmsg_data_offset hdr_size align = checked_cmsg_align hdr_size align"

definition cmsg_header_fits :: "nat \<Rightarrow> nat \<Rightarrow> nat \<Rightarrow> bool" where
  "cmsg_header_fits control_len offset hdr_size =
     (case checked_add offset hdr_size of Some e \<Rightarrow> e \<le> control_len | None \<Rightarrow> False)"

definition cmsg_step :: "nat \<Rightarrow> nat \<Rightarrow> nat \<Rightarrow> nat \<Rightarrow> nat \<Rightarrow> cmsg_step_result option" where
  "cmsg_step control_len offset hdr_size cmsg_len align =
     (if cmsg_len = 0 \<or> \<not> cmsg_header_fits control_len offset hdr_size then None
      else case cmsg_data_offset hdr_size align of
        None \<Rightarrow> None
      | Some data_relative \<Rightarrow>
          if cmsg_len < data_relative then None
          else case checked_add offset data_relative of
            None \<Rightarrow> None
          | Some d \<Rightarrow>
              (case checked_cmsg_align cmsg_len align of
                 None \<Rightarrow> None
               | Some aligned_len \<Rightarrow>
                   (case checked_add offset aligned_len of
                      None \<Rightarrow> None
                    | Some n \<Rightarrow>
                        if n \<le> offset \<or> control_len < n then None
                        else Some \<lparr>data_offset = d, next_offset = n\<rparr>)))"

lemma power_of_two_cases: "is_power_of_two n \<longleftrightarrow> (\<exists>k < 64. n = 2 ^ k)"
  by (auto simp: is_power_of_two_def list_ex_iff)

lemma align_word:
  assumes "k < 64" "x \<le> usize_max"
  shows "unat ((of_nat x :: 64 word) AND NOT (of_nat (2 ^ k - 1))) = x - x mod 2 ^ k"
proof -
  have m: "(of_nat (2 ^ k - 1) :: 64 word) = mask k"
    by (simp add: mask_eq_exp_minus_1 of_nat_diff)
  have "(of_nat x :: 64 word) AND NOT (mask k) = push_bit k (drop_bit k (of_nat x))"
    by (rule bit_word_eqI) (auto simp: bit_simps)
  moreover have "unat (push_bit k (drop_bit k (of_nat x :: 64 word))) = x - x mod 2 ^ k"
  proof -
    have "x < 2 ^ 64" using assms(2) by (simp add: usize_max_def)
    then have u: "unat (of_nat x :: 64 word) = x" by (simp add: unat_of_nat)
    have le: "push_bit k (drop_bit k x) = x - x mod 2 ^ k"
      by (simp add: push_bit_eq_mult drop_bit_eq_div minus_mod_eq_div_mult)
    have t: "take_bit 64 y = y" if "y \<le> x" for y
      using \<open>x < 2 ^ 64\<close> that by (intro take_bit_nat_eq_self) simp
    have d: "unat (drop_bit k (of_nat x :: 64 word)) = drop_bit k x"
      by (simp only: unsigned_drop_bit_eq u) (simp add: t)
    show ?thesis
      by (simp only: unsigned_push_bit_eq d le) (simp add: t)
  qed
  ultimately show ?thesis using m by simp
qed

lemma checked_cmsg_align_eq:
  assumes "k < 64" "len + (2 ^ k - 1) \<le> usize_max"
  shows "checked_cmsg_align len (2 ^ k) = Some ((len + (2 ^ k - 1)) - (len + (2 ^ k - 1)) mod 2 ^ k)"
proof -
  have "is_power_of_two (2 ^ k)" using assms(1) by (auto simp: power_of_two_cases)
  then show ?thesis
    unfolding checked_cmsg_align_def checked_add_def
    by (simp only: assms(2) align_word [OF assms] if_True option.map) simp
qed

text \<open>Alignment rounds up to the next multiple and says so exactly.\<close>

lemma checked_cmsg_align_Some:
  assumes "checked_cmsg_align len align = Some n"
  shows "len \<le> n" "n < len + align" "align dvd n" "n \<le> usize_max"
proof -
  from assms obtain k where k: "k < 64" "align = 2 ^ k"
    by (auto simp: checked_cmsg_align_def power_of_two_cases split: if_splits)
  from assms have le: "len + (align - 1) \<le> usize_max"
    by (auto simp: checked_cmsg_align_def checked_add_def split: if_splits)
  with assms k have n: "n = (len + (align - 1)) - (len + (align - 1)) mod align"
    by (simp add: checked_cmsg_align_eq)
  have pos: "0 < align" using k by simp
  have r: "(len + (align - 1)) mod align < align" using pos by simp
  then show "len \<le> n" and "n < len + align" using n pos by linarith+
  show "align dvd n" using n by (simp add: minus_mod_eq_mult_div)
  show "n \<le> usize_max" using n le by simp
qed

lemma cmsg_step_Some:
  assumes "cmsg_step control_len offset hdr_size cmsg_len align = Some st"
  shows "offset < next_offset st" "next_offset st \<le> control_len"
    "offset + hdr_size \<le> data_offset st" "data_offset st \<le> offset + cmsg_len"
    "data_offset st \<le> next_offset st" "offset + cmsg_len \<le> next_offset st"
proof -
  from assms obtain d a where d: "checked_cmsg_align hdr_size align = Some d" "d \<le> cmsg_len"
    and a: "checked_cmsg_align cmsg_len align = Some a"
    and st: "st = \<lparr>data_offset = offset + d, next_offset = offset + a\<rparr>"
    and b: "offset < offset + a" "offset + a \<le> control_len"
    by (auto simp: cmsg_step_def cmsg_data_offset_def split: if_splits option.splits)
  from checked_cmsg_align_Some [OF d(1)] checked_cmsg_align_Some [OF a] d(2) b st
  show "offset < next_offset st" "next_offset st \<le> control_len"
    "offset + hdr_size \<le> data_offset st" "data_offset st \<le> offset + cmsg_len"
    "data_offset st \<le> next_offset st" "offset + cmsg_len \<le> next_offset st"
    by auto
qed

subsection \<open>The control-buffer walk\<close>

datatype ip_addr = IpV4 "32 word" | IpV6 "byte list"

record parsed_recv_cmsgs =
  local_ip :: "ip_addr option"
  tos :: "byte option"
  segment_size :: "16 word option"

definition cmsghdr_size :: nat where "cmsghdr_size = 16"
definition cmsg_alignment :: nat where "cmsg_alignment = 8"

definition IPPROTO_IP :: nat where "IPPROTO_IP = 0"
definition IPPROTO_IPV6 :: nat where "IPPROTO_IPV6 = 41"
definition IPV6_PKTINFO :: nat where "IPV6_PKTINFO = 50"
definition IPV6_TCLASS :: nat where "IPV6_TCLASS = 67"
definition IP_TOS :: nat where "IP_TOS = 1"
definition IP_PKTINFO :: nat where "IP_PKTINFO = 8"
definition SOL_UDP :: nat where "SOL_UDP = 17"
definition UDP_GRO :: nat where "UDP_GRO = 104"
definition UDP_SEGMENT :: nat where "UDP_SEGMENT = 103"

definition from_le_bytes :: "byte list \<Rightarrow> nat" where
  "from_le_bytes bs = from_be_bytes (rev bs)"

definition read_bytes :: "byte list \<Rightarrow> nat \<Rightarrow> nat \<Rightarrow> byte list option" where
  "read_bytes control off n = (if off + n \<le> length control then Some (slice control off n) else None)"

text \<open>One control message: the header fields and what the body does with the payload.\<close>

definition apply_cmsg ::
  "byte list \<Rightarrow> nat \<Rightarrow> nat \<Rightarrow> nat \<Rightarrow> parsed_recv_cmsgs \<Rightarrow> parsed_recv_cmsgs option" where
  "apply_cmsg control level ty data_off out =
     (let len = length control in
      if level = IPPROTO_IPV6 \<and> ty = IPV6_PKTINFO then
        (if data_off + 20 \<le> len
         then map_option (\<lambda>b. out\<lparr>local_ip := Some (IpV6 (take 16 b))\<rparr>) (read_bytes control data_off 20)
         else Some out)
      else if level = IPPROTO_IPV6 \<and> ty = IPV6_TCLASS then
        (if data_off + 4 \<le> len
         then map_option (\<lambda>b. out\<lparr>tos := Some (of_nat (from_le_bytes b) AND 0xFF)\<rparr>) (read_bytes control data_off 4)
         else Some out)
      else if level = IPPROTO_IP \<and> ty = IP_TOS then
        (if data_off < len
         then map_option (\<lambda>b. out\<lparr>tos := Some (hd b)\<rparr>) (read_bytes control data_off 1) else Some out)
      else if level = IPPROTO_IP \<and> ty = IP_PKTINFO then
        (if data_off + 12 \<le> len
         then map_option (\<lambda>b. out\<lparr>local_ip := Some (IpV4 (of_nat (from_be_bytes (slice b 4 4))))\<rparr>)
                (read_bytes control data_off 12)
         else Some out)
      else if level = SOL_UDP \<and> ty = UDP_GRO then
        (if data_off + 2 \<le> len
         then map_option (\<lambda>b. out\<lparr>segment_size := Some (of_nat (from_le_bytes b))\<rparr>) (read_bytes control data_off 2)
         else Some out)
      else Some out)"

function parse_cmsgs_from :: "byte list \<Rightarrow> nat \<Rightarrow> parsed_recv_cmsgs \<Rightarrow> parsed_recv_cmsgs option" where
  "parse_cmsgs_from control offset out =
     (if \<not> cmsg_header_fits (length control) offset cmsghdr_size then Some out
      else case read_bytes control offset cmsghdr_size of
        None \<Rightarrow> None
      | Some hdr \<Rightarrow>
          let cmsg_len = from_le_bytes (slice hdr 0 8);
              cmsg_level = from_le_bytes (slice hdr 8 4);
              cmsg_type = from_le_bytes (slice hdr 12 4)
          in if cmsg_len = 0 then Some out
             else case cmsg_step (length control) offset cmsghdr_size cmsg_len cmsg_alignment of
               None \<Rightarrow> Some out
             | Some st \<Rightarrow>
                 (case apply_cmsg control cmsg_level cmsg_type (data_offset st) out of
                    None \<Rightarrow> None
                  | Some out' \<Rightarrow> parse_cmsgs_from control (next_offset st) out'))"
  by pat_completeness auto

termination parse_cmsgs_from
proof (relation "measure (\<lambda>(control, offset, out). length control - offset)", goal_cases)
  case (2 control offset out hdr cmsg_len cmsg_level cmsg_type st out')
  then show ?case using cmsg_step_Some(1,2) [OF 2(7)] by simp
qed simp

declare parse_cmsgs_from.simps [simp del]

definition parse_recv_cmsgs :: "byte list \<Rightarrow> parsed_recv_cmsgs option" where
  "parse_recv_cmsgs control =
     parse_cmsgs_from control 0 \<lparr>local_ip = None, tos = None, segment_size = None\<rparr>"

lemma apply_cmsg_in_bounds: "apply_cmsg control level ty data_off out \<noteq> None"
  by (auto simp: apply_cmsg_def Let_def read_bytes_def)

lemma parse_cmsgs_in_bounds: "parse_cmsgs_from control offset out \<noteq> None"
proof (induction control offset out rule: parse_cmsgs_from.induct)
  case (1 control offset out)
  show ?case
  proof (cases "cmsg_header_fits (length control) offset cmsghdr_size")
    case True
    then have "read_bytes control offset cmsghdr_size \<noteq> None"
      by (auto simp: cmsg_header_fits_def read_bytes_def split: option.splits)
    then show ?thesis
      using 1 True apply_cmsg_in_bounds
      by (subst parse_cmsgs_from.simps) (fastforce simp: Let_def split: option.splits)
  qed (simp add: parse_cmsgs_from.simps)
qed

text \<open>
  C36. Walking a control buffer is safe on every input. For arbitrary bytes, however corrupt their
  length fields, the walk terminates, never reads outside the buffer, and every accepted message
  makes the cursor advance to an offset inside the buffer past the message, with its payload
  between header and end.
\<close>

theorem cmsg_walk_safe:
  "(\<exists>out. parse_recv_cmsgs control = Some out)
   \<and> (case cmsg_step control_len offset hdr_size cmsg_len align of
        None \<Rightarrow> True
      | Some st \<Rightarrow> offset < next_offset st \<and> next_offset st \<le> control_len
          \<and> offset + hdr_size \<le> data_offset st \<and> data_offset st \<le> offset + cmsg_len
          \<and> offset + cmsg_len \<le> next_offset st)"
  using parse_cmsgs_in_bounds [of control 0] cmsg_step_Some
  by (auto simp: parse_recv_cmsgs_def split: option.splits)

subsection \<open>Well-formed control buffers\<close>

definition le_bytes :: "nat \<Rightarrow> nat \<Rightarrow> byte list" where
  "le_bytes n x = rev (be_bytes n x)"

lemma le_bytes_simps [simp]:
  "length (le_bytes n x) = n" "x < 256 ^ n \<Longrightarrow> from_le_bytes (le_bytes n x) = x"
  by (simp_all add: le_bytes_def from_le_bytes_def from_be_be_bytes)

text \<open>A control message as the kernel lays it out: level, type and payload.\<close>

type_synonym cmsg = "nat \<times> nat \<times> byte list"

definition cmsg_padding :: "nat \<Rightarrow> nat" where
  "cmsg_padding n = (8 - n mod 8) mod 8"

fun encode_cmsg :: "cmsg \<Rightarrow> byte list" where
  "encode_cmsg (level, ty, payload) =
     le_bytes 8 (16 + length payload) @ le_bytes 4 level @ le_bytes 4 ty
     @ payload @ replicate (cmsg_padding (length payload)) 0"

definition cmsg_payload_size :: "nat \<Rightarrow> nat \<Rightarrow> nat" where
  "cmsg_payload_size level ty =
     (if level = IPPROTO_IPV6 \<and> ty = IPV6_PKTINFO then 20
      else if level = IPPROTO_IPV6 \<and> ty = IPV6_TCLASS then 4
      else if level = IPPROTO_IP \<and> ty = IP_TOS then 1
      else if level = IPPROTO_IP \<and> ty = IP_PKTINFO then 12
      else if level = SOL_UDP \<and> ty = UDP_GRO then 2 else 0)"

fun cmsg_wf :: "cmsg \<Rightarrow> bool" where
  "cmsg_wf (level, ty, payload) \<longleftrightarrow>
     level < 2 ^ 32 \<and> ty < 2 ^ 32 \<and> cmsg_payload_size level ty \<le> length payload"

text \<open>What one message contributes, read off its payload alone.\<close>

definition cmsg_effect :: "parsed_recv_cmsgs \<Rightarrow> cmsg \<Rightarrow> parsed_recv_cmsgs" where
  "cmsg_effect out m = (case m of (level, ty, payload) \<Rightarrow>
     (if level = IPPROTO_IPV6 \<and> ty = IPV6_PKTINFO then out\<lparr>local_ip := Some (IpV6 (take 16 payload))\<rparr>
      else if level = IPPROTO_IPV6 \<and> ty = IPV6_TCLASS
        then out\<lparr>tos := Some (of_nat (from_le_bytes (take 4 payload)) AND 0xFF)\<rparr>
      else if level = IPPROTO_IP \<and> ty = IP_TOS then out\<lparr>tos := Some (hd payload)\<rparr>
      else if level = IPPROTO_IP \<and> ty = IP_PKTINFO
        then out\<lparr>local_ip := Some (IpV4 (of_nat (from_be_bytes (take 4 (drop 4 payload)))))\<rparr>
      else if level = SOL_UDP \<and> ty = UDP_GRO
        then out\<lparr>segment_size := Some (of_nat (from_le_bytes (take 2 payload)))\<rparr>
      else out))"

lemma cmsg_padding_align: "(23 + n) - (23 + n) mod 8 = 16 + n + cmsg_padding n"
proof -
  obtain q r where n: "n = 8 * q + r" "r < 8" using that [of "n div 8" "n mod 8"] by simp
  show ?thesis
  proof (cases "r = 0")
    case False
    then have "23 + n = (r - 1) + 8 * (q + 3)" using n by simp
    then have "(23 + n) mod 8 = r - 1" using n by (simp only: mod_mult_self2) simp
    with False n show ?thesis by (simp add: cmsg_padding_def)
  qed (simp add: n cmsg_padding_def)
qed

lemma cmsg_step_encoded:
  assumes "n + cmsg_padding n + offset + 16 \<le> control_len" "control_len + 8 \<le> usize_max"
  shows "cmsg_step control_len offset cmsghdr_size (16 + n) cmsg_alignment =
    Some \<lparr>data_offset = offset + 16, next_offset = offset + (16 + n + cmsg_padding n)\<rparr>"
proof -
  have d: "checked_cmsg_align 16 8 = Some 16"
    using checked_cmsg_align_eq [of 3 16] by (simp add: usize_max_def)
  have "(23 + n) - (23 + n) mod 8 = 16 + n + cmsg_padding n" by (rule cmsg_padding_align)
  then have a: "checked_cmsg_align (16 + n) 8 = Some (16 + n + cmsg_padding n)"
    using checked_cmsg_align_eq [of 3 "16 + n"] assms by (simp add: ac_simps)
  show ?thesis
    using assms
    by (simp add: cmsg_step_def cmsg_data_offset_def cmsghdr_size_def cmsg_alignment_def
        cmsg_header_fits_def d a checked_add_def)
qed

lemmas cmsg_consts = IPPROTO_IP_def IPPROTO_IPV6_def IPV6_PKTINFO_def IPV6_TCLASS_def IP_TOS_def
  IP_PKTINFO_def SOL_UDP_def UDP_GRO_def

lemmas apply_cmsg_simps = cmsg_effect_def cmsg_payload_size_def apply_cmsg_def cmsg_consts

lemma apply_cmsg_encoded:
  assumes "cmsg_wf (level, ty, payload)"
    and "control = pre @ payload @ post" "data_off = length pre"
  shows "apply_cmsg control level ty data_off out = Some (cmsg_effect out (level, ty, payload))"
proof -
  have r: "read_bytes control data_off n = Some (take n payload)" if "n \<le> length payload" for n
    using that assms by (simp add: read_bytes_def slice_def)
  have l: "data_off + n \<le> length control" if "n \<le> length payload" for n
    using that assms by simp
  have l1: "data_off < length control" if "payload \<noteq> []"
    using that assms by (cases payload) auto
  consider "level = IPPROTO_IPV6" "ty = IPV6_PKTINFO" | "level = IPPROTO_IPV6" "ty = IPV6_TCLASS"
    | "level = IPPROTO_IP" "ty = IP_TOS" | "level = IPPROTO_IP" "ty = IP_PKTINFO"
    | "level = SOL_UDP" "ty = UDP_GRO" | 
      "\<not> (level = IPPROTO_IPV6 \<and> ty = IPV6_PKTINFO)" "\<not> (level = IPPROTO_IPV6 \<and> ty = IPV6_TCLASS)"
      "\<not> (level = IPPROTO_IP \<and> ty = IP_TOS)" "\<not> (level = IPPROTO_IP \<and> ty = IP_PKTINFO)"
      "\<not> (level = SOL_UDP \<and> ty = UDP_GRO)"
    by blast
  then show ?thesis
  proof cases
    case 1 then show ?thesis using assms(1) r [of 20] l [of 20] by (simp add: apply_cmsg_simps min_def)
  next
    case 2 then show ?thesis using assms(1) r [of 4] l [of 4] by (simp add: apply_cmsg_simps)
  next
    case 3 then show ?thesis using assms(1) r [of 1] l1
      by (cases payload) (simp_all add: apply_cmsg_simps)
  next
    case 4 then show ?thesis using assms(1) r [of 12] l [of 12]
      by (simp add: apply_cmsg_simps slice_def drop_take min_def)
  next
    case 5 then show ?thesis using assms(1) r [of 2] l [of 2] by (simp add: apply_cmsg_simps)
  next
    case 6 then show ?thesis by (auto simp: cmsg_effect_def apply_cmsg_def)
  qed
qed

lemma parse_cmsgs_encoded:
  assumes "\<forall>m \<in> set ms. cmsg_wf m"
    and "length (pre @ concat (map encode_cmsg ms)) + 8 \<le> usize_max"
  shows "parse_cmsgs_from (pre @ concat (map encode_cmsg ms)) (length pre) out
    = Some (foldl cmsg_effect out ms)"
  using assms
proof (induction ms arbitrary: pre out)
  case Nil
  then show ?case
    by (simp add: parse_cmsgs_from.simps cmsg_header_fits_def cmsghdr_size_def checked_add_def)
next
  case (Cons m ms)
  obtain level ty payload where m: "m = (level, ty, payload)" by (cases m)
  let ?n = "length payload" and ?rest = "concat (map encode_cmsg ms)"
  let ?hdr = "le_bytes 8 (16 + ?n) @ le_bytes 4 level @ le_bytes 4 ty"
  let ?pad = "replicate (cmsg_padding ?n) 0"
  let ?c = "pre @ concat (map encode_cmsg (m # ms))"
  have c: "?c = (pre @ ?hdr) @ payload @ (?pad @ ?rest)" by (simp add: m)
  have wf: "cmsg_wf (level, ty, payload)" using Cons.prems(1) m by simp
  have len: "length ?c = length pre + 16 + ?n + cmsg_padding ?n + length ?rest" by (simp add: m)
  have max: "length ?c + 8 \<le> usize_max" using Cons.prems(2) by simp
  then have n64: "16 + ?n < 256 ^ 8" using len by (simp add: usize_max_def)
  have fits: "cmsg_header_fits (length ?c) (length pre) cmsghdr_size"
    using len max by (simp add: cmsg_header_fits_def cmsghdr_size_def checked_add_def)
  have hdr: "read_bytes ?c (length pre) cmsghdr_size = Some ?hdr"
    using len by (simp add: read_bytes_def slice_def cmsghdr_size_def m)
  have fields: "from_le_bytes (slice ?hdr 0 8) = 16 + ?n" "from_le_bytes (slice ?hdr 8 4) = level"
    "from_le_bytes (slice ?hdr 12 4) = ty"
    using wf n64 by (simp_all add: slice_def)
  have step: "cmsg_step (length ?c) (length pre) cmsghdr_size (16 + ?n) cmsg_alignment =
      Some \<lparr>data_offset = length pre + 16, next_offset = length pre + (16 + ?n + cmsg_padding ?n)\<rparr>"
    using len max by (intro cmsg_step_encoded) simp_all
  have app: "apply_cmsg ?c level ty (length pre + 16) out = Some (cmsg_effect out m)"
    unfolding m by (rule apply_cmsg_encoded [OF wf c [unfolded m]]) simp
  have "parse_cmsgs_from ?c (length pre) out
      = parse_cmsgs_from ?c (length pre + (16 + ?n + cmsg_padding ?n)) (cmsg_effect out m)"
    by (subst parse_cmsgs_from.simps)
      (simp only: fits hdr fields step app Let_def option.case if_False not_True_eq_False
        cmsg_step_result.select_convs, simp)
  also have "\<dots> = Some (foldl cmsg_effect (cmsg_effect out m) ms)"
    using Cons.IH [of "pre @ encode_cmsg m" "cmsg_effect out m"] Cons.prems by (simp add: m ac_simps)
  finally show ?case by simp
qed

text \<open>
  A well-formed control buffer is decoded exactly. For any sequence of control messages laid
  out as the kernel lays them out, the single walk returns precisely the destination address, the
  TOS byte and the segment size those messages carry, the last of each kind winning, unknown kinds
  being skipped.
\<close>

theorem parse_recv_cmsgs_decodes:
  assumes "\<forall>m \<in> set ms. cmsg_wf m"
    and "length (concat (map encode_cmsg ms)) + 8 \<le> usize_max"
  shows "parse_recv_cmsgs (concat (map encode_cmsg ms)) =
    Some (foldl cmsg_effect \<lparr>local_ip = None, tos = None, segment_size = None\<rparr> ms)"
  using parse_cmsgs_encoded [of ms "[]"] assms by (simp add: parse_recv_cmsgs_def)

theorem parse_recv_cmsgs_decodes_witness:
  "parse_recv_cmsgs (encode_cmsg (0, 1, [2]) @ encode_cmsg (17, 104, [0xB0, 4])) =
     Some \<lparr>local_ip = None, tos = Some 2, segment_size = Some 1200\<rparr>"
proof -
  have "from_le_bytes [0xB0, 4] = 1200" by (simp add: from_le_bytes_def from_be_bytes_def)
  then show ?thesis
    using parse_recv_cmsgs_decodes [of "[(0, 1, [2]), (17, 104, [0xB0, 4])]"]
    by (simp add: cmsg_effect_def cmsg_payload_size_def cmsg_consts cmsg_padding_def usize_max_def)
qed

subsection \<open>Building a segmentation message\<close>

definition build_gso_cmsg :: "byte list \<Rightarrow> 16 word \<Rightarrow> nat option \<times> byte list" where
  "build_gso_cmsg buf seg =
     (let cmsg_len = cmsghdr_size + 2;
          hdr = le_bytes 8 cmsg_len @ le_bytes 4 SOL_UDP @ le_bytes 4 UDP_SEGMENT
      in (checked_cmsg_align cmsg_len cmsg_alignment,
          hdr @ le_bytes 2 (unat seg) @ drop 18 buf))"

lemma build_gso_cmsg_encodes:
  assumes "32 \<le> length buf" "\<forall>i < length buf. buf ! i = 0"
  shows "fst (build_gso_cmsg buf seg) = Some 24"
    and "take 24 (snd (build_gso_cmsg buf seg)) = encode_cmsg (SOL_UDP, UDP_SEGMENT, le_bytes 2 (unat seg))"
proof -
  show "fst (build_gso_cmsg buf seg) = Some 24"
    using checked_cmsg_align_eq [of 3 18]
    by (simp add: build_gso_cmsg_def Let_def cmsghdr_size_def cmsg_alignment_def usize_max_def)
  have "take 6 (drop 18 buf) = replicate 6 0"
    using assms by (intro nth_equalityI) auto
  then show "take 24 (snd (build_gso_cmsg buf seg)) = encode_cmsg (SOL_UDP, UDP_SEGMENT, le_bytes 2 (unat seg))"
    by (simp add: build_gso_cmsg_def Let_def cmsghdr_size_def cmsg_padding_def)
qed

subsection \<open>Provided-buffer rings\<close>

definition provided_buffer_id_is_valid :: "16 word \<Rightarrow> 16 word \<Rightarrow> bool" where
  "provided_buffer_id_is_valid bid ring_size \<longleftrightarrow> bid < ring_size"

definition provided_buffer_offset :: "16 word \<Rightarrow> nat \<Rightarrow> nat option" where
  "provided_buffer_offset bid buf_size = checked_mul (unat bid) buf_size"

definition provided_buffer_layout_size :: "16 word \<Rightarrow> nat \<Rightarrow> nat option" where
  "provided_buffer_layout_size ring_size buf_size = checked_mul (unat ring_size) buf_size"

definition provided_buffer_range_in_layout :: "16 word \<Rightarrow> 16 word \<Rightarrow> nat \<Rightarrow> bool" where
  "provided_buffer_range_in_layout bid ring_size buf_size =
     (if \<not> provided_buffer_id_is_valid bid ring_size then False
      else case provided_buffer_offset bid buf_size of
        None \<Rightarrow> False
      | Some offset \<Rightarrow>
          (case provided_buffer_layout_size ring_size buf_size of
             None \<Rightarrow> False
           | Some layout_size \<Rightarrow>
               offset < layout_size \<and> saturating_add offset buf_size \<le> layout_size))"

definition provided_buffer_id_new :: "16 word \<Rightarrow> 16 word \<Rightarrow> 16 word option" where
  "provided_buffer_id_new bid ring_size =
     (if provided_buffer_id_is_valid bid ring_size then Some bid else None)"

text \<open>
  Ring buffers are disjoint and inside the allocation. When the ring's total size fits an
  address, every valid buffer id denotes a non-empty range inside it, exactly the invalid ones are
  refused, and the ranges of two different ids do not overlap.
\<close>

theorem ring_buffers_disjoint:
  assumes "unat ring_size * buf_size \<le> usize_max" and "0 < buf_size"
  shows "provided_buffer_range_in_layout bid ring_size buf_size = (unat bid < unat ring_size)
    \<and> (unat bid < unat bid' \<longrightarrow>
         (\<forall>o1 o2. provided_buffer_offset bid buf_size = Some o1 \<and> provided_buffer_offset bid' buf_size = Some o2
            \<longrightarrow> o1 + buf_size \<le> o2))"
proof -
  have fits: "Suc (unat bid) * buf_size \<le> unat ring_size * buf_size" if "unat bid < unat ring_size"
    using that by (intro mult_le_mono1) simp
  then have "provided_buffer_range_in_layout bid ring_size buf_size = (unat bid < unat ring_size)"
    using assms
    by (auto simp: provided_buffer_range_in_layout_def provided_buffer_id_is_valid_def word_less_nat_alt
        provided_buffer_offset_def provided_buffer_layout_size_def saturating_add_def checked_mul_def)
  moreover have "Suc (unat bid) * buf_size \<le> unat bid' * buf_size" if "unat bid < unat bid'"
    using that by (intro mult_le_mono1) simp
  ultimately show ?thesis by (auto simp: provided_buffer_offset_def)
qed

theorem ring_buffers_disjoint_witness: "provided_buffer_range_in_layout 3 4 2048"
  using ring_buffers_disjoint [of 4 2048 3 3] by (simp add: usize_max_def)

end
