(* ===== verification/Gso.thy ===== *)
theory Gso
  imports Cmsg
begin

text \<open>
  Datagrams and segmentation offload: the value types of \<^verbatim>\<open>datagram.rs\<close>, the batching of
  \<^verbatim>\<open>transport/mod.rs\<close> (\<^verbatim>\<open>group_for_gso\<close>), the send side of the poll driver
  (\<^verbatim>\<open>transport/poll.rs\<close>), the retry queue of the io_uring driver, and the splitting of coalesced
  datagrams in \<^verbatim>\<open>event_loop.rs\<close>. System calls are arguments: what \<^verbatim>\<open>sendmmsg\<close> or \<^verbatim>\<open>send_to\<close>
  answered. What reached the wire is an extra result.
\<close>

subsection \<open>Datagrams\<close>

type_synonym datagram = "socket_addr \<times> byte list"

record tx_datagram =
  tx_data :: "byte list"
  tx_payload_len :: nat
  tx_to :: socket_addr
  tx_max_segment_size :: "16 word option"

record rx_datagram =
  rx_data :: "byte list"
  rx_peer :: socket_addr
  rx_local :: socket_addr
  rx_segment_size :: "16 word option"

datatype runtime_driver_kind = Kqueue | IoUring | Poll | Mock

fun driver_kind_as_str :: "runtime_driver_kind \<Rightarrow> string" where
  "driver_kind_as_str Kqueue = ''kqueue''"
| "driver_kind_as_str IoUring = ''io_uring''"
| "driver_kind_as_str Poll = ''poll''"
| "driver_kind_as_str Mock = ''mock''"

text \<open>\<^const>\<open>None\<close> is the assertion failure of the constructor.\<close>

definition tx_new :: "byte list \<Rightarrow> nat \<Rightarrow> socket_addr \<Rightarrow> 16 word option \<Rightarrow> tx_datagram option" where
  "tx_new d n addr m =
     (if n \<le> length d
      then Some \<lparr>tx_data = d, tx_payload_len = n, tx_to = addr, tx_max_segment_size = m\<rparr> else None)"

definition tx_from_payload :: "byte list \<Rightarrow> socket_addr \<Rightarrow> 16 word option \<Rightarrow> tx_datagram" where
  "tx_from_payload d addr m =
     \<lparr>tx_data = d, tx_payload_len = length d, tx_to = addr, tx_max_segment_size = m\<rparr>"

definition tx_payload :: "tx_datagram \<Rightarrow> byte list" where
  "tx_payload p = take (tx_payload_len p) (tx_data p)"

definition tx_wf :: "tx_datagram \<Rightarrow> bool" where
  "tx_wf p \<longleftrightarrow> tx_payload_len p \<le> length (tx_data p)"

definition tx_dgram :: "tx_datagram \<Rightarrow> datagram" where
  "tx_dgram p = (tx_to p, tx_payload p)"

lemma tx_new_wf: "tx_new d n addr m = Some p \<Longrightarrow> tx_wf p \<and> tx_dgram p = (addr, take n d)"
  by (auto simp: tx_new_def tx_wf_def tx_dgram_def tx_payload_def split: if_splits)

lemma tx_from_payload_simps [simp]:
  "tx_wf (tx_from_payload d addr m)" "tx_dgram (tx_from_payload d addr m) = (addr, d)"
  by (simp_all add: tx_from_payload_def tx_wf_def tx_dgram_def tx_payload_def)

subsection \<open>Slices in chunks\<close>

text \<open>\<^verbatim>\<open>slice::chunks\<close>; it panics on a zero size, which its callers below exclude or report.\<close>

function chunks :: "nat \<Rightarrow> 'a list \<Rightarrow> 'a list list" where
  "chunks n xs = (if n = 0 \<or> xs = [] then [] else take n xs # chunks n (drop n xs))"
  by pat_completeness auto

termination chunks
  by (relation "measure (\<lambda>(n, xs). length xs)") auto

declare chunks.simps [simp del]

lemma chunks_Nil [simp]: "chunks n [] = []"
  by (simp add: chunks.simps)

lemma chunks_Cons: "0 < n \<Longrightarrow> xs \<noteq> [] \<Longrightarrow> chunks n xs = take n xs # chunks n (drop n xs)"
  by (subst chunks.simps) simp

lemma chunks_single: "0 < n \<Longrightarrow> xs \<noteq> [] \<Longrightarrow> length xs \<le> n \<Longrightarrow> chunks n xs = [xs]"
  by (simp add: chunks_Cons)

lemma chunks_exact: "0 < n \<Longrightarrow> length xs = n \<Longrightarrow> chunks n xs = [xs]"
  by (rule chunks_single) auto

lemma concat_chunks: "0 < n \<Longrightarrow> concat (chunks n xs) = xs"
proof (induction n xs rule: chunks.induct)
  case (1 n xs)
  then show ?case by (cases "xs = []") (simp_all add: chunks_Cons)
qed

lemma chunks_append:
  assumes "0 < n" "n dvd length xs"
  shows "chunks n (xs @ ys) = chunks n xs @ chunks n ys"
  using assms
proof (induction n xs rule: chunks.induct)
  case (1 n xs)
  show ?case
  proof (cases "xs = []")
    case False
    with 1(3) have "n \<le> length xs" by (simp add: dvd_imp_le)
    with False 1 show ?thesis by (simp add: chunks_Cons dvd_diff_nat)
  qed simp
qed

lemma chunks_concat:
  assumes "0 < n" "\<forall>x \<in> set xs. length x = n"
  shows "chunks n (concat xs @ l) = xs @ chunks n l"
  using assms by (induction xs) (simp_all add: chunks_append chunks_exact)

lemma length_chunks: "0 < n \<Longrightarrow> n dvd length xs \<Longrightarrow> length (chunks n xs) = length xs div n"
proof (induction n xs rule: chunks.induct)
  case (1 n xs)
  show ?case
  proof (cases "xs = []")
    case False
    with 1(3) have "n \<le> length xs" by (simp add: dvd_imp_le)
    moreover from this have "length xs div n = Suc ((length xs - n) div n)" using 1(2) by (rule le_div_geq [rotated])
    ultimately show ?thesis using False 1 by (simp add: chunks_Cons dvd_diff_nat)
  qed simp
qed

lemma chunk_sizes: "0 < n \<Longrightarrow> n dvd length xs \<Longrightarrow> c \<in> set (chunks n xs) \<Longrightarrow> length c = n"
proof (induction n xs rule: chunks.induct)
  case (1 n xs)
  show ?case
  proof (cases "xs = []")
    case False
    with 1(3) have "n \<le> length xs" by (simp add: dvd_imp_le)
    with False 1 show ?thesis by (auto simp: chunks_Cons dvd_diff_nat)
  qed (use 1 in simp)
qed

subsection \<open>Grouping for GSO\<close>

record gso_batch =
  gb_data :: "byte list"
  gb_payload_len :: nat
  gb_to :: socket_addr
  gb_segment_size :: "16 word"

record gso_batching =
  batches :: "gso_batch list"
  recycled :: "byte list list"

definition GSO_MAX_PAYLOAD :: nat where "GSO_MAX_PAYLOAD = 65535"
definition GSO_MAX_SEGMENT :: nat where "GSO_MAX_SEGMENT = 1472"

definition gb_payload :: "gso_batch \<Rightarrow> byte list" where
  "gb_payload b = take (gb_payload_len b) (gb_data b)"

definition resize :: "byte list \<Rightarrow> nat \<Rightarrow> byte list" where
  "resize d n = (if length d < n then d @ replicate (n - length d) 0 else d)"

definition copy_at :: "byte list \<Rightarrow> nat \<Rightarrow> byte list \<Rightarrow> byte list" where
  "copy_at d start src = take start d @ src @ drop (start + length src) d"

definition gso_joins :: "gso_batch \<Rightarrow> tx_datagram \<Rightarrow> 16 word \<Rightarrow> bool" where
  "gso_joins b pkt seg_size \<longleftrightarrow>
     (let seg_cap = (case tx_max_segment_size pkt of None \<Rightarrow> GSO_MAX_SEGMENT | Some s \<Rightarrow> unat s)
      in gb_to b = tx_to pkt \<and> gb_segment_size b = seg_size \<and> 0 < seg_size \<and> unat seg_size \<le> seg_cap
         \<and> gb_payload_len b div unat seg_size < 64
         \<and> gb_payload_len b + tx_payload_len pkt \<le> GSO_MAX_PAYLOAD)"

definition gso_append :: "gso_batch \<Rightarrow> tx_datagram \<Rightarrow> gso_batch" where
  "gso_append b pkt =
     (let start = gb_payload_len b; e = start + tx_payload_len pkt
      in b\<lparr>gb_data := copy_at (resize (gb_data b) e) start (tx_payload pkt), gb_payload_len := e\<rparr>)"

definition gso_step :: "gso_batching \<Rightarrow> tx_datagram \<Rightarrow> gso_batching" where
  "gso_step g pkt =
     (let n = tx_payload_len pkt
      in if 65535 < n
         then g\<lparr>batches := batches g @ [\<lparr>gb_data = tx_data pkt, gb_payload_len = n, gb_to = tx_to pkt,
                                        gb_segment_size = 0\<rparr>]\<rparr>
         else let seg_size = (of_nat n :: 16 word)
           in if batches g \<noteq> [] \<and> gso_joins (last (batches g)) pkt seg_size
              then g\<lparr>batches := butlast (batches g) @ [gso_append (last (batches g)) pkt],
                     recycled := recycled g @ [tx_data pkt]\<rparr>
              else g\<lparr>batches := batches g @ [\<lparr>gb_data = tx_data pkt, gb_payload_len = n,
                                             gb_to = tx_to pkt, gb_segment_size = seg_size\<rparr>]\<rparr>)"

definition group_for_gso :: "tx_datagram list \<Rightarrow> gso_batching" where
  "group_for_gso packets = foldl gso_step \<lparr>batches = [], recycled = []\<rparr> packets"

text \<open>
  What the kernel emits for a batch: a batch longer than its segment size carries the
  \<^verbatim>\<open>UDP_SEGMENT\<close> message and is cut into segments, any other batch is one datagram.
\<close>

definition gso_segmented :: "gso_batch \<Rightarrow> bool" where
  "gso_segmented b \<longleftrightarrow> 0 < gb_segment_size b \<and> unat (gb_segment_size b) < gb_payload_len b"

definition batch_emit :: "gso_batch \<Rightarrow> datagram list" where
  "batch_emit b =
     (if gso_segmented b then map (Pair (gb_to b)) (chunks (unat (gb_segment_size b)) (gb_payload b))
      else [(gb_to b, gb_payload b)])"

definition gso_batch_ok :: "gso_batch \<Rightarrow> bool" where
  "gso_batch_ok b \<longleftrightarrow> gb_payload_len b \<le> length (gb_data b)
     \<and> (0 < gb_segment_size b \<longrightarrow>
          unat (gb_segment_size b) dvd gb_payload_len b \<and> 0 < gb_payload_len b
          \<and> gb_payload_len b div unat (gb_segment_size b) \<le> 64 \<and> gb_payload_len b \<le> GSO_MAX_PAYLOAD)"

lemma word16_zero: "(0 :: 16 word) < s \<longleftrightarrow> 0 < unat s"
  by (simp add: word_less_nat_alt)

lemma copy_at_take:
  assumes "start \<le> length d" "e = start + length src"
  shows "take e (copy_at (resize d e) start src) = take start d @ src"
    and "e \<le> length (copy_at (resize d e) start src)"
  using assms by (auto simp: copy_at_def resize_def min_def)

text \<open>For a batch in good order the two ways of emitting agree: it is its chunks.\<close>

lemma batch_emit_chunks:
  assumes "gso_batch_ok b" "0 < gb_segment_size b"
  shows "batch_emit b = map (Pair (gb_to b)) (chunks (unat (gb_segment_size b)) (gb_payload b))"
proof (cases "gso_segmented b")
  case False
  have s: "0 < unat (gb_segment_size b)" using assms(2) by (simp add: word16_zero)
  have "length (gb_payload b) = gb_payload_len b" "0 < gb_payload_len b"
    using assms by (auto simp: gso_batch_ok_def gb_payload_def)
  moreover have "gb_payload_len b \<le> unat (gb_segment_size b)"
    using False assms(2) by (simp add: gso_segmented_def)
  ultimately have "chunks (unat (gb_segment_size b)) (gb_payload b) = [gb_payload b]"
    using s by (intro chunks_single) auto
  with False show ?thesis by (simp add: batch_emit_def)
qed (simp add: batch_emit_def)

lemma gso_append_ok:
  assumes ok: "gso_batch_ok b" and p: "tx_wf pkt" "tx_payload_len pkt \<le> 65535"
    and j: "gso_joins b pkt (of_nat (tx_payload_len pkt))"
  shows "gso_batch_ok (gso_append b pkt)"
    and "batch_emit (gso_append b pkt) = batch_emit b @ [tx_dgram pkt]"
proof -
  let ?n = "tx_payload_len pkt" and ?b = "gso_append b pkt"
  have n: "unat (of_nat ?n :: 16 word) = ?n"
    using p(2) by (simp add: unat_of_nat)
  have seg: "unat (gb_segment_size b) = ?n" "0 < ?n" "0 < gb_segment_size b"
    and dest: "gb_to b = tx_to pkt"
    and bounds: "gb_payload_len b div ?n < 64" "gb_payload_len b + ?n \<le> GSO_MAX_PAYLOAD"
    using j n by (auto simp: gso_joins_def Let_def word16_zero)
  have b: "gb_payload_len b \<le> length (gb_data b)" "?n dvd gb_payload_len b"
    using ok seg by (auto simp: gso_batch_ok_def)
  have len: "length (tx_payload pkt) = ?n" using p by (simp add: tx_payload_def tx_wf_def)
  have e: "gb_payload_len b + ?n = gb_payload_len b + length (tx_payload pkt)" using len by simp
  have pl: "gb_payload ?b = gb_payload b @ tx_payload pkt"
    using copy_at_take(1) [OF b(1) e] by (simp add: gso_append_def gb_payload_def Let_def)
  show ok': "gso_batch_ok ?b"
    using copy_at_take(2) [OF b(1) e] b(2) seg bounds
    by (auto simp: gso_batch_ok_def gso_append_def Let_def)
  have same: "gb_segment_size ?b = gb_segment_size b" "gb_to ?b = gb_to b"
    by (simp_all add: gso_append_def Let_def)
  have "chunks ?n (gb_payload b @ tx_payload pkt) = chunks ?n (gb_payload b) @ [tx_payload pkt]"
    using seg(2) b len by (subst chunks_append) (auto simp: gb_payload_def min_def chunks_exact)
  then show "batch_emit ?b = batch_emit b @ [tx_dgram pkt]"
    using batch_emit_chunks [OF ok'] batch_emit_chunks [OF ok] seg same pl dest
    by (simp add: tx_dgram_def)
qed

lemma gso_step_correct:
  assumes inv: "\<forall>b \<in> set (batches g). gso_batch_ok b" and p: "tx_wf pkt"
  shows "(\<forall>b \<in> set (batches (gso_step g pkt)). gso_batch_ok b)
    \<and> concat (map batch_emit (batches (gso_step g pkt))) = concat (map batch_emit (batches g)) @ [tx_dgram pkt]
    \<and> length (recycled (gso_step g pkt)) + length (batches (gso_step g pkt))
        = Suc (length (recycled g) + length (batches g))"
proof -
  let ?n = "tx_payload_len pkt"
  let ?new = "\<lambda>s. \<lparr>gb_data = tx_data pkt, gb_payload_len = ?n, gb_to = tx_to pkt, gb_segment_size = s\<rparr>"
  have big: "gso_batch_ok (?new 0)" "batch_emit (?new 0) = [tx_dgram pkt]"
    using p by (simp_all add: gso_batch_ok_def batch_emit_def gso_segmented_def tx_dgram_def
        gb_payload_def tx_payload_def tx_wf_def)
  have small: "gso_batch_ok (?new (of_nat ?n))" "batch_emit (?new (of_nat ?n)) = [tx_dgram pkt]" if "?n \<le> 65535"
  proof -
    have "unat (of_nat ?n :: 16 word) = ?n" using that by (simp add: unat_of_nat)
    then show "gso_batch_ok (?new (of_nat ?n))" "batch_emit (?new (of_nat ?n)) = [tx_dgram pkt]"
      using p that by (auto simp: gso_batch_ok_def batch_emit_def gso_segmented_def tx_dgram_def
          gb_payload_def tx_payload_def tx_wf_def GSO_MAX_PAYLOAD_def word16_zero)
  qed
  show ?thesis
  proof (cases "65535 < ?n")
    case True
    then show ?thesis using inv big by (auto simp: gso_step_def Let_def)
  next
    case False
    show ?thesis
    proof (cases "batches g \<noteq> [] \<and> gso_joins (last (batches g)) pkt (of_nat ?n)")
      case True
      then obtain bs b where bs: "batches g = bs @ [b]" by (cases "batches g" rule: rev_cases) auto
      have "gso_batch_ok (gso_append b pkt)" "batch_emit (gso_append b pkt) = batch_emit b @ [tx_dgram pkt]"
        using gso_append_ok [of b pkt] inv True False p bs by auto
      with False True bs inv show ?thesis by (auto simp: gso_step_def Let_def)
    next
      case no: False
      with False inv small show ?thesis by (auto simp: gso_step_def Let_def)
    qed
  qed
qed

lemma group_for_gso_correct:
  assumes "\<forall>p \<in> set packets. tx_wf p"
  shows "(\<forall>b \<in> set (batches (group_for_gso packets)). gso_batch_ok b)
    \<and> concat (map batch_emit (batches (group_for_gso packets))) = map tx_dgram packets
    \<and> length (recycled (group_for_gso packets)) + length (batches (group_for_gso packets)) = length packets"
  using assms
proof (induction packets rule: rev_induct)
  case (snoc p ps)
  let ?g = "group_for_gso ps"
  have "group_for_gso (ps @ [p]) = gso_step ?g p" by (simp add: group_for_gso_def)
  moreover have "tx_wf p" using snoc.prems by simp
  ultimately show ?case
    using snoc gso_step_correct [of ?g p] by auto
qed (simp add: group_for_gso_def)

text \<open>
  C23. Segmentation offload is transparent. The kernel's segmentation of the batches gives back the
  submitted packets, each with its bytes and destination, in order; no batch exceeds 64 segments or,
  if it carries a segment size, the 65535-byte payload limit, every segmented batch divides evenly,
  and each packet either opened a batch or returned its buffer for reuse.
\<close>

theorem gso_transparent:
  assumes "\<forall>p \<in> set packets. tx_wf p"
  shows "concat (map batch_emit (batches (group_for_gso packets))) = map tx_dgram packets
    \<and> (\<forall>b \<in> set (batches (group_for_gso packets)).
         length (batch_emit b) \<le> 64 \<and> (0 < gb_segment_size b \<longrightarrow> gb_payload_len b \<le> 65535
           \<and> (\<forall>d \<in> set (batch_emit b). length (snd d) = unat (gb_segment_size b))))
    \<and> length (recycled (group_for_gso packets)) + length (batches (group_for_gso packets)) = length packets"
proof -
  have seg: "length (batch_emit b) \<le> 64 \<and> (0 < gb_segment_size b \<longrightarrow> gb_payload_len b \<le> 65535
      \<and> (\<forall>d \<in> set (batch_emit b). length (snd d) = unat (gb_segment_size b)))"
    if ok: "gso_batch_ok b" for b
  proof (cases "0 < gb_segment_size b")
    case True
    let ?s = "unat (gb_segment_size b)"
    have s: "0 < ?s" "?s dvd length (gb_payload b)" "length (gb_payload b) = gb_payload_len b"
      using ok True by (auto simp: gso_batch_ok_def gb_payload_def word16_zero min_def)
    then have "\<forall>c \<in> set (chunks ?s (gb_payload b)). length c = ?s" using chunk_sizes by blast
    then show ?thesis
      using batch_emit_chunks [OF ok True] length_chunks [OF s(1,2)] ok True s
      by (auto simp: gso_batch_ok_def GSO_MAX_PAYLOAD_def)
  next
    case False
    then show ?thesis by (simp add: batch_emit_def gso_segmented_def)
  qed
  then show ?thesis using group_for_gso_correct [OF assms] by blast
qed

theorem gso_transparent_witness:
  "concat (map batch_emit (batches (group_for_gso
      [tx_from_payload [1, 2] (V4 0 9) None, tx_from_payload [3, 4] (V4 0 9) None,
       tx_from_payload [5] (V4 0 9) None])))
   = [(V4 0 9, [1, 2]), (V4 0 9, [3, 4]), (V4 0 9, [5])]
   \<and> length (batches (group_for_gso
      [tx_from_payload [1, 2] (V4 0 9) None, tx_from_payload [3, 4] (V4 0 9) None,
       tx_from_payload [5] (V4 0 9) None])) = 2"
proof -
  let ?ps = "[tx_from_payload [1, 2] (V4 0 9) None, tx_from_payload [3, 4] (V4 0 9) None,
       tx_from_payload [5] (V4 0 9) None]"
  have "length (batches (group_for_gso ?ps)) = 2"
    by (simp add: group_for_gso_def gso_step_def gso_joins_def gso_append_def tx_from_payload_def Let_def
        GSO_MAX_SEGMENT_def GSO_MAX_PAYLOAD_def word_less_nat_alt)
  then show ?thesis using gso_transparent [of ?ps] by simp
qed

subsection \<open>The poll driver's send side\<close>

text \<open>What a send system call answered: a count, or one of the error classes the code tells apart.\<close>

datatype io_result = IoOk nat | IoWouldBlock | IoEmsgsize | IoOther

record poll_tx =
  gso_supported :: bool
  unsent :: "tx_datagram list"
  recycled_tx :: "byte list list"

definition should_requeue_gso_send_error :: "io_result \<Rightarrow> bool" where
  "should_requeue_gso_send_error e \<longleftrightarrow> e = IoWouldBlock \<or> e = IoEmsgsize"

definition mk_tx :: "byte list \<Rightarrow> nat \<Rightarrow> socket_addr \<Rightarrow> tx_datagram" where
  "mk_tx d n addr = \<lparr>tx_data = d, tx_payload_len = n, tx_to = addr, tx_max_segment_size = None\<rparr>"

definition requeue_gso_batch :: "tx_datagram list \<Rightarrow> gso_batch \<Rightarrow> tx_datagram list" where
  "requeue_gso_batch q b =
     (let seg = unat (gb_segment_size b)
      in if seg = 0 \<or> gb_payload_len b \<le> seg then q @ [mk_tx (gb_data b) (gb_payload_len b) (gb_to b)]
         else q @ map (\<lambda>c. tx_from_payload c (gb_to b) None) (chunks seg (gb_payload b)))"

definition sent_and_requeue :: "(io_result \<Rightarrow> bool) \<Rightarrow> io_result \<Rightarrow> nat \<times> bool" where
  "sent_and_requeue transient r = (case r of IoOk n \<Rightarrow> (n, True) | e \<Rightarrow> (0, transient e))"

definition send_batch_plain :: "io_result \<Rightarrow> tx_datagram list \<Rightarrow> poll_tx \<Rightarrow> poll_tx \<times> datagram list" where
  "send_batch_plain r packets st =
     (let (sent_count, requeue) = sent_and_requeue (\<lambda>e. e = IoWouldBlock) r;
          rest = drop sent_count packets
      in (if requeue
          then st\<lparr>recycled_tx := recycled_tx st @ map tx_data (take sent_count packets),
                 unsent := unsent st @ map (\<lambda>p. mk_tx (tx_data p) (tx_payload_len p) (tx_to p)) rest\<rparr>
          else st\<lparr>recycled_tx := recycled_tx st @ map tx_data packets\<rparr>,
          map tx_dgram (take sent_count packets)))"

definition send_batch_gso :: "io_result \<Rightarrow> tx_datagram list \<Rightarrow> poll_tx \<Rightarrow> poll_tx \<times> datagram list" where
  "send_batch_gso r packets st =
     (let g = group_for_gso packets;
          (sent_count, requeue) = sent_and_requeue should_requeue_gso_send_error r;
          st1 = st\<lparr>recycled_tx := recycled_tx st @ recycled g\<rparr>
      in (if requeue
          then st1\<lparr>recycled_tx := recycled_tx st1 @ map gb_data (take sent_count (batches g)),
                  unsent := foldl requeue_gso_batch (unsent st1) (drop sent_count (batches g))\<rparr>
          else st1\<lparr>recycled_tx := recycled_tx st1 @ map gb_data (batches g)\<rparr>,
          concat (map batch_emit (take sent_count (batches g)))))"

definition send_batch :: "io_result \<Rightarrow> tx_datagram list \<Rightarrow> poll_tx \<Rightarrow> poll_tx \<times> datagram list" where
  "send_batch r packets st =
     (if gso_supported st \<and> 1 < length packets then send_batch_gso r packets st
      else send_batch_plain r packets st)"

definition submit_sends :: "io_result \<Rightarrow> tx_datagram list \<Rightarrow> poll_tx \<Rightarrow> poll_tx \<times> datagram list" where
  "submit_sends r packets st = (if packets = [] then (st, []) else send_batch r packets st)"

definition pending_tx_count :: "poll_tx \<Rightarrow> nat" where
  "pending_tx_count st = length (unsent st)"

definition drain_recycled_tx :: "poll_tx \<Rightarrow> poll_tx \<times> byte list list" where
  "drain_recycled_tx st = (st\<lparr>recycled_tx := []\<rparr>, recycled_tx st)"

text \<open>The drain of the queue; \<open>answer\<close> is what \<^verbatim>\<open>send_to\<close> says for the packets in turn.\<close>

fun drain_unsent_loop ::
  "io_result list \<Rightarrow> tx_datagram list \<Rightarrow> byte list list \<Rightarrow> tx_datagram list \<times> byte list list \<times> datagram list" where
  "drain_unsent_loop answers [] rec = ([], rec, [])"
| "drain_unsent_loop [] q rec = (q, rec, [])"
| "drain_unsent_loop (a # answers) (p # q) rec =
     (case a of
        IoWouldBlock \<Rightarrow> (p # q, rec, [])
      | IoOk n \<Rightarrow>
          (let (q', rec', w) = drain_unsent_loop answers q (rec @ [tx_data p]) in (q', rec', tx_dgram p # w))
      | _ \<Rightarrow> drain_unsent_loop answers q (rec @ [tx_data p]))"

definition drain_unsent :: "io_result list \<Rightarrow> poll_tx \<Rightarrow> poll_tx \<times> datagram list" where
  "drain_unsent answers st =
     (let (q, rec, w) = drain_unsent_loop answers (unsent st) (recycled_tx st)
      in (st\<lparr>unsent := q, recycled_tx := rec\<rparr>, w))"

lemma mk_tx_simps [simp]:
  "tx_dgram (mk_tx d n addr) = (addr, take n d)" "tx_wf (mk_tx d n addr) = (n \<le> length d)"
  by (simp_all add: mk_tx_def tx_dgram_def tx_payload_def tx_wf_def)

lemma requeue_gso_batch_emit:
  assumes "gso_batch_ok b"
  shows "map tx_dgram (requeue_gso_batch q b) = map tx_dgram q @ batch_emit b"
    and "\<forall>p \<in> set q. tx_wf p \<Longrightarrow> \<forall>p \<in> set (requeue_gso_batch q b). tx_wf p"
  using assms
  by (auto simp: requeue_gso_batch_def Let_def batch_emit_def gso_segmented_def word16_zero
      gb_payload_def gso_batch_ok_def)

lemma requeue_gso_batches_emit:
  assumes "\<forall>b \<in> set bs. gso_batch_ok b" "\<forall>p \<in> set q. tx_wf p"
  shows "map tx_dgram (foldl requeue_gso_batch q bs) = map tx_dgram q @ concat (map batch_emit bs)
    \<and> (\<forall>p \<in> set (foldl requeue_gso_batch q bs). tx_wf p)"
  using assms
proof (induction bs arbitrary: q)
  case (Cons b bs)
  have "\<forall>p \<in> set (requeue_gso_batch q b). tx_wf p"
    using Cons.prems by (intro requeue_gso_batch_emit(2)) auto
  with Cons requeue_gso_batch_emit(1) [of b q] show ?case by simp
qed simp

text \<open>
  The answers after which the driver keeps what was not sent: a partial send, a full socket, and for
  the segmented path a message the kernel found too large.
\<close>

definition send_transient :: "poll_tx \<Rightarrow> tx_datagram list \<Rightarrow> io_result \<Rightarrow> bool" where
  "send_transient st packets r =
     (case r of IoOk n \<Rightarrow> True | IoWouldBlock \<Rightarrow> True
      | IoEmsgsize \<Rightarrow> gso_supported st \<and> 1 < length packets | IoOther \<Rightarrow> False)"

definition sent_of :: "io_result \<Rightarrow> nat" where
  "sent_of r = (case r of IoOk n \<Rightarrow> n | _ \<Rightarrow> 0)"

lemma send_batch_plain_cases:
  "send_batch_plain r packets st =
     (if (case r of IoOk n \<Rightarrow> True | e \<Rightarrow> e = IoWouldBlock)
      then (st\<lparr>recycled_tx := recycled_tx st @ map tx_data (take (sent_of r) packets),
               unsent := unsent st @ map (\<lambda>p. mk_tx (tx_data p) (tx_payload_len p) (tx_to p)) (drop (sent_of r) packets)\<rparr>,
            map tx_dgram (take (sent_of r) packets))
      else (st\<lparr>recycled_tx := recycled_tx st @ map tx_data packets\<rparr>, []))"
  by (cases r) (simp_all add: send_batch_plain_def sent_and_requeue_def sent_of_def)

lemma send_batch_gso_cases:
  "send_batch_gso r packets st =
     (if r \<noteq> IoOther
      then (st\<lparr>recycled_tx := recycled_tx st @ recycled (group_for_gso packets)
                 @ map gb_data (take (sent_of r) (batches (group_for_gso packets))),
               unsent := foldl requeue_gso_batch (unsent st) (drop (sent_of r) (batches (group_for_gso packets)))\<rparr>,
            concat (map batch_emit (take (sent_of r) (batches (group_for_gso packets)))))
      else (st\<lparr>recycled_tx := recycled_tx st @ recycled (group_for_gso packets)
                 @ map gb_data (batches (group_for_gso packets))\<rparr>, []))"
  by (cases r) (simp_all add: send_batch_gso_def sent_and_requeue_def sent_of_def
      should_requeue_gso_send_error_def Let_def)

lemma send_batch_plain_conserves:
  assumes "\<forall>p \<in> set packets. tx_wf p" "\<forall>p \<in> set (unsent st). tx_wf p"
    and "case r of IoOk n \<Rightarrow> True | e \<Rightarrow> e = IoWouldBlock"
  shows "\<exists>q. map tx_dgram (unsent (fst (send_batch_plain r packets st))) = map tx_dgram (unsent st) @ q
      \<and> map tx_dgram packets = snd (send_batch_plain r packets st) @ q
      \<and> (\<forall>p \<in> set (unsent (fst (send_batch_plain r packets st))). tx_wf p)"
proof (intro exI conjI)
  let ?q = "map tx_dgram (drop (sent_of r) packets)"
  show "map tx_dgram (unsent (fst (send_batch_plain r packets st))) = map tx_dgram (unsent st) @ ?q"
    using assms(3) by (simp add: send_batch_plain_cases tx_dgram_def tx_payload_def mk_tx_def)
  show "map tx_dgram packets = snd (send_batch_plain r packets st) @ ?q"
    using assms(3) by (simp add: send_batch_plain_cases flip: map_append)
  show "\<forall>p \<in> set (unsent (fst (send_batch_plain r packets st))). tx_wf p"
    using assms by (auto simp: send_batch_plain_cases dest!: in_set_dropD) (auto simp: tx_wf_def)
qed

lemma send_batch_gso_conserves:
  assumes "\<forall>p \<in> set packets. tx_wf p" "\<forall>p \<in> set (unsent st). tx_wf p" "r \<noteq> IoOther"
  shows "\<exists>q. map tx_dgram (unsent (fst (send_batch_gso r packets st))) = map tx_dgram (unsent st) @ q
      \<and> map tx_dgram packets = snd (send_batch_gso r packets st) @ q
      \<and> (\<forall>p \<in> set (unsent (fst (send_batch_gso r packets st))). tx_wf p)"
proof -
  let ?bs = "batches (group_for_gso packets)"
  have g: "\<forall>b \<in> set ?bs. gso_batch_ok b" "concat (map batch_emit ?bs) = map tx_dgram packets"
    using group_for_gso_correct [OF assms(1)] by auto
  have "\<forall>b \<in> set (drop (sent_of r) ?bs). gso_batch_ok b" using g(1) by (meson in_set_dropD)
  note rq = requeue_gso_batches_emit [OF this assms(2)]
  have "map tx_dgram packets
      = concat (map batch_emit (take (sent_of r) ?bs)) @ concat (map batch_emit (drop (sent_of r) ?bs))"
    by (simp add: g(2) [symmetric] flip: concat_append map_append)
  with rq assms(3) show ?thesis
    by (intro exI [of _ "concat (map batch_emit (drop (sent_of r) ?bs))"]) (simp add: send_batch_gso_cases)
qed

lemma drain_unsent_loop_conserves:
  assumes "\<forall>a \<in> set answers. a \<noteq> IoOther \<and> a \<noteq> IoEmsgsize"
  shows "case drain_unsent_loop answers q rec of (q', rec', w) \<Rightarrow>
    map tx_dgram q = w @ map tx_dgram q'"
  using assms
proof (induction answers q rec rule: drain_unsent_loop.induct)
  case (3 a answers p q rec)
  then show ?case by (cases a) (auto split: prod.splits)
qed auto



subsection \<open>The io_uring retry queue\<close>

definition enqueue_retry_data :: "tx_datagram list \<Rightarrow> byte list \<Rightarrow> nat \<Rightarrow> socket_addr \<Rightarrow> 16 word \<Rightarrow> tx_datagram list" where
  "enqueue_retry_data pending d n peer seg =
     (if seg = 0 then pending @ [mk_tx d n peer]
      else pending @ map (\<lambda>c. tx_from_payload c peer None) (chunks (unat seg) (take n d)))"

definition enqueue_gso_batch_for_retry :: "tx_datagram list \<Rightarrow> gso_batch \<Rightarrow> tx_datagram list" where
  "enqueue_gso_batch_for_retry pending b =
     enqueue_retry_data pending (gb_data b) (gb_payload_len b) (gb_to b) (gb_segment_size b)"

text \<open>Both drivers cut a batch back into the packets it was made of.\<close>

lemma enqueue_gso_batch_for_retry_emit:
  assumes "gso_batch_ok b"
  shows "map tx_dgram (enqueue_gso_batch_for_retry q b) = map tx_dgram q @ batch_emit b"
proof (cases "gb_segment_size b = 0")
  case True
  then show ?thesis
    by (simp add: enqueue_gso_batch_for_retry_def enqueue_retry_data_def batch_emit_def gso_segmented_def
        gb_payload_def)
next
  case False
  then have "0 < gb_segment_size b" by (simp add: word_neq_0_conv)
  from batch_emit_chunks [OF assms this] False show ?thesis
    by (simp add: enqueue_gso_batch_for_retry_def enqueue_retry_data_def gb_payload_def)
qed

subsection \<open>Splitting coalesced datagrams\<close>

text \<open>
  The event loop cuts a received buffer by its segment size; a size of zero would make
  \<^verbatim>\<open>chunks\<close> panic, which is \<^const>\<open>None\<close>.
\<close>

definition gro_split :: "rx_datagram \<Rightarrow> byte list list option" where
  "gro_split pkt =
     (case rx_segment_size pkt of
        None \<Rightarrow> Some [rx_data pkt]
      | Some seg \<Rightarrow> if seg = 0 then None else Some (chunks (unat seg) (rx_data pkt)))"

lemma gro_split_inverse:
  assumes "0 < seg" "\<forall>x \<in> set xs. length x = unat seg" "l \<noteq> []" "length l \<le> unat seg"
  shows "gro_split \<lparr>rx_data = concat xs @ l, rx_peer = p, rx_local = a, rx_segment_size = Some seg\<rparr>
    = Some (xs @ [l])"
  using assms by (auto simp: gro_split_def chunks_concat chunks_single word16_zero)

text \<open>
  What one peer batches, the other unbatches. When a segmented batch arrives as one coalesced
  buffer with its segment size, splitting it hands the protocol exactly the sender's packets.
\<close>

theorem gso_gro_round_trip:
  assumes "\<forall>p \<in> set packets. tx_wf p" "b \<in> set (batches (group_for_gso packets))" "0 < gb_segment_size b"
  shows "map (Pair (gb_to b)) (the (gro_split
       \<lparr>rx_data = gb_payload b, rx_peer = p, rx_local = a, rx_segment_size = Some (gb_segment_size b)\<rparr>))
     = batch_emit b"
  using batch_emit_chunks [of b] group_for_gso_correct [OF assms(1)] assms(2,3)
  by (auto simp: gro_split_def)

theorem gso_gro_round_trip_witness:
  "map (Pair (V4 0 9)) (the (gro_split
     \<lparr>rx_data = [7], rx_peer = V4 0 1, rx_local = V4 0 2, rx_segment_size = Some 1\<rparr>)) = [(V4 0 9, [7])]"
  using gso_gro_round_trip [of "[tx_from_payload [7] (V4 0 9) None]"
      "\<lparr>gb_data = [7], gb_payload_len = 1, gb_to = V4 0 9, gb_segment_size = 1\<rparr>" "V4 0 1" "V4 0 2"]
  by (simp add: group_for_gso_def gso_step_def tx_from_payload_def gb_payload_def batch_emit_def
      gso_segmented_def tx_wf_def)

end
