(* ===== verification/H3_Event.thy ===== *)
theory H3_Event
  imports Native_Error
begin

text \<open>
  The events handed to JavaScript: \<^verbatim>\<open>h3_event.rs\<close>. A buffer is its bytes; the recycler that a
  buffer carries back to its pool is part of the buffer-pool component. Durations are natural
  numbers of clock ticks, where the source has floating-point milliseconds.
\<close>

definition EVENT_NEW_SESSION :: nat where "EVENT_NEW_SESSION = 1"
definition EVENT_NEW_STREAM :: nat where "EVENT_NEW_STREAM = 2"
definition EVENT_HEADERS :: nat where "EVENT_HEADERS = 3"
definition EVENT_DATA :: nat where "EVENT_DATA = 4"
definition EVENT_FINISHED :: nat where "EVENT_FINISHED = 5"
definition EVENT_RESET :: nat where "EVENT_RESET = 6"
definition EVENT_SESSION_CLOSE :: nat where "EVENT_SESSION_CLOSE = 7"
definition EVENT_DRAIN :: nat where "EVENT_DRAIN = 8"
definition EVENT_GOAWAY :: nat where "EVENT_GOAWAY = 9"
definition EVENT_ERROR :: nat where "EVENT_ERROR = 10"
definition EVENT_HANDSHAKE_COMPLETE :: nat where "EVENT_HANDSHAKE_COMPLETE = 11"
definition EVENT_SESSION_TICKET :: nat where "EVENT_SESSION_TICKET = 12"
definition EVENT_METRICS :: nat where "EVENT_METRICS = 13"
definition EVENT_DATAGRAM :: nat where "EVENT_DATAGRAM = 14"
definition EVENT_SHUTDOWN_COMPLETE :: nat where "EVENT_SHUTDOWN_COMPLETE = 15"
definition EVENT_STREAM_BLOCKED :: nat where "EVENT_STREAM_BLOCKED = 16"
definition EVENT_PING_ACK :: nat where "EVENT_PING_ACK = 17"
definition EVENT_WRITE_READY :: nat where "EVENT_WRITE_READY = 18"

lemmas event_types = EVENT_NEW_SESSION_def EVENT_NEW_STREAM_def EVENT_HEADERS_def EVENT_DATA_def
  EVENT_FINISHED_def EVENT_RESET_def EVENT_SESSION_CLOSE_def EVENT_DRAIN_def EVENT_GOAWAY_def
  EVENT_ERROR_def EVENT_HANDSHAKE_COMPLETE_def EVENT_SESSION_TICKET_def EVENT_METRICS_def
  EVENT_DATAGRAM_def EVENT_SHUTDOWN_COMPLETE_def EVENT_STREAM_BLOCKED_def EVENT_PING_ACK_def
  EVENT_WRITE_READY_def

type_synonym js_header = "string \<times> string"
type_synonym conn_handle = "32 word"
type_synonym stream_id = nat

record js_event_meta =
  error_code :: "32 word option"
  error_reason :: "string option"
  error_category :: "string option"
  remote_addr :: "string option"
  remote_port :: "16 word option"
  server_name :: "string option"
  reason_code :: "string option"
  runtime_driver :: "string option"
  runtime_mode :: "string option"
  requested_runtime_mode :: "string option"
  fallback_occurred :: "bool option"
  errno :: "int option"
  syscall :: "string option"
  peer_certificate_presented :: "bool option"
  peer_certificate_chain :: "byte list list option"
  duration_ms :: "nat option"

record js_session_metrics =
  m_packets_in :: "32 word"
  m_packets_out :: "32 word"
  m_bytes_in :: int
  m_bytes_out :: int
  m_handshake_time_ms :: nat
  m_rtt_ms :: nat
  m_cwnd :: int
  m_pmtu :: int
  m_datagram_queue_depth :: "32 word"

record js_event =
  event_type :: nat
  ev_conn :: conn_handle
  ev_stream :: int
  ev_headers :: "js_header list option"
  ev_data :: "byte list option"
  ev_fin :: "bool option"
  ev_meta :: "js_event_meta option"
  ev_metrics :: "js_session_metrics option"

text \<open>\<^verbatim>\<open>as i64\<close> on a \<^verbatim>\<open>u64\<close>.\<close>

definition as_i64 :: "nat \<Rightarrow> int" where
  "as_i64 n = (let m = n mod 2 ^ 64 in if m < 2 ^ 63 then int m else int m - 2 ^ 64)"

definition meta_empty :: js_event_meta where
  "meta_empty = \<lparr>error_code = None, error_reason = None, error_category = None, remote_addr = None,
     remote_port = None, server_name = None, reason_code = None, runtime_driver = None,
     runtime_mode = None, requested_runtime_mode = None, fallback_occurred = None, errno = None,
     syscall = None, peer_certificate_presented = None, peer_certificate_chain = None, duration_ms = None\<rparr>"

definition metrics_zeroed :: js_session_metrics where
  "metrics_zeroed = \<lparr>m_packets_in = 0, m_packets_out = 0, m_bytes_in = 0, m_bytes_out = 0,
     m_handshake_time_ms = 0, m_rtt_ms = 0, m_cwnd = 0, m_pmtu = 0, m_datagram_queue_depth = 0\<rparr>"

text \<open>The shape shared by the constructors: no headers, no data, no metrics, not final.\<close>

definition plain_event :: "nat \<Rightarrow> conn_handle \<Rightarrow> int \<Rightarrow> js_event" where
  "plain_event t h s = \<lparr>event_type = t, ev_conn = h, ev_stream = s, ev_headers = None, ev_data = None,
     ev_fin = Some False, ev_meta = None, ev_metrics = None\<rparr>"

definition ev_new_session :: "conn_handle \<Rightarrow> string \<Rightarrow> 16 word \<Rightarrow> string \<Rightarrow> js_event" where
  "ev_new_session h addr port name = (plain_event EVENT_NEW_SESSION h (-1))
     \<lparr>ev_meta := Some (meta_empty\<lparr>remote_addr := Some addr, remote_port := Some port, server_name := Some name\<rparr>)\<rparr>"

definition ev_new_stream :: "conn_handle \<Rightarrow> stream_id \<Rightarrow> js_event" where
  "ev_new_stream h s = plain_event EVENT_NEW_STREAM h (as_i64 s)"

definition ev_new_stream_with_data :: "conn_handle \<Rightarrow> stream_id \<Rightarrow> byte list \<Rightarrow> bool \<Rightarrow> js_event" where
  "ev_new_stream_with_data h s d f = (plain_event EVENT_NEW_STREAM h (as_i64 s))
     \<lparr>ev_data := (if d = [] then None else Some d), ev_fin := Some f\<rparr>"

definition ev_headers_event :: "conn_handle \<Rightarrow> stream_id \<Rightarrow> js_header list \<Rightarrow> bool \<Rightarrow> js_event" where
  "ev_headers_event h s hs f = (plain_event EVENT_HEADERS h (as_i64 s))\<lparr>ev_headers := Some hs, ev_fin := Some f\<rparr>"

definition ev_data_event :: "conn_handle \<Rightarrow> stream_id \<Rightarrow> byte list \<Rightarrow> bool \<Rightarrow> js_event" where
  "ev_data_event h s d f = (plain_event EVENT_DATA h (as_i64 s))\<lparr>ev_data := Some d, ev_fin := Some f\<rparr>"

text \<open>\<^const>\<open>None\<close> is the refusal, which gives the data event back unchanged.\<close>

definition try_coalesce_following_data :: "js_event \<Rightarrow> js_event \<Rightarrow> js_event option" where
  "try_coalesce_following_data e d =
     (if event_type e \<noteq> EVENT_HEADERS \<or> event_type d \<noteq> EVENT_DATA \<or> ev_conn e \<noteq> ev_conn d
         \<or> ev_stream e \<noteq> ev_stream d \<or> ev_data e \<noteq> None \<or> ev_fin e = Some True \<or> ev_fin d \<noteq> Some False
      then None else Some (e\<lparr>ev_data := ev_data d\<rparr>))"

definition ev_finished :: "conn_handle \<Rightarrow> stream_id \<Rightarrow> js_event" where
  "ev_finished h s = plain_event EVENT_FINISHED h (as_i64 s)"

definition ev_reset :: "conn_handle \<Rightarrow> stream_id \<Rightarrow> nat \<Rightarrow> js_event" where
  "ev_reset h s code = (plain_event EVENT_RESET h (as_i64 s))
     \<lparr>ev_meta := Some (meta_empty\<lparr>error_code := Some (of_nat code)\<rparr>)\<rparr>"

definition ev_session_close :: "conn_handle \<Rightarrow> js_event" where
  "ev_session_close h = plain_event EVENT_SESSION_CLOSE h (-1)"

definition ev_session_close_with_error :: "conn_handle \<Rightarrow> nat \<Rightarrow> string \<Rightarrow> js_event" where
  "ev_session_close_with_error h code reason = (plain_event EVENT_SESSION_CLOSE h (-1))
     \<lparr>ev_meta := Some (meta_empty\<lparr>error_code := Some (if code < 2 ^ 32 then of_nat code else -1),
                                  error_reason := Some reason\<rparr>)\<rparr>"

definition ev_drain :: "conn_handle \<Rightarrow> stream_id \<Rightarrow> js_event" where
  "ev_drain h s = plain_event EVENT_DRAIN h (as_i64 s)"

definition ev_stream_blocked :: "conn_handle \<Rightarrow> stream_id \<Rightarrow> js_event" where
  "ev_stream_blocked h s = plain_event EVENT_STREAM_BLOCKED h (as_i64 s)"

definition ev_write_ready :: "conn_handle \<Rightarrow> js_event" where
  "ev_write_ready h = plain_event EVENT_WRITE_READY h (-1)"

definition ev_goaway :: "conn_handle \<Rightarrow> stream_id \<Rightarrow> js_event" where
  "ev_goaway h s = plain_event EVENT_GOAWAY h (as_i64 s)"

definition ev_error :: "conn_handle \<Rightarrow> int \<Rightarrow> 32 word \<Rightarrow> string \<Rightarrow> js_event" where
  "ev_error h s code reason = (plain_event EVENT_ERROR h s)
     \<lparr>ev_meta := Some (meta_empty\<lparr>error_code := Some code, error_reason := Some reason\<rparr>)\<rparr>"

definition ev_runtime_error :: "conn_handle \<Rightarrow> string \<Rightarrow> string \<Rightarrow> string \<Rightarrow> io_error \<Rightarrow> js_event" where
  "ev_runtime_error h driver call reason err = (plain_event EVENT_ERROR h (-1))
     \<lparr>ev_meta := Some (meta_empty\<lparr>error_reason := Some (io_message err), error_category := Some ''runtime'',
        reason_code := Some reason, runtime_driver := Some driver, errno := raw_os_error err,
        syscall := Some call\<rparr>)\<rparr>"

definition ev_handshake_complete :: "conn_handle \<Rightarrow> js_event" where
  "ev_handshake_complete h = plain_event EVENT_HANDSHAKE_COMPLETE h (-1)"

definition ev_handshake_complete_with_peer_certificate ::
  "conn_handle \<Rightarrow> bool \<Rightarrow> byte list list option \<Rightarrow> js_event" where
  "ev_handshake_complete_with_peer_certificate h presented chain =
     (plain_event EVENT_HANDSHAKE_COMPLETE h (-1))
     \<lparr>ev_meta := Some (meta_empty\<lparr>peer_certificate_presented := Some presented, peer_certificate_chain := chain\<rparr>)\<rparr>"

definition ev_session_ticket :: "conn_handle \<Rightarrow> byte list \<Rightarrow> js_event" where
  "ev_session_ticket h ticket = (plain_event EVENT_SESSION_TICKET h (-1))\<lparr>ev_data := Some ticket\<rparr>"

definition ev_metrics_event :: "conn_handle \<Rightarrow> js_session_metrics \<Rightarrow> js_event" where
  "ev_metrics_event h m = (plain_event EVENT_METRICS h (-1))\<lparr>ev_metrics := Some m\<rparr>"

definition ev_datagram :: "conn_handle \<Rightarrow> byte list \<Rightarrow> js_event" where
  "ev_datagram h d = (plain_event EVENT_DATAGRAM h (-1))\<lparr>ev_data := Some d\<rparr>"

definition ev_ping_ack :: "conn_handle \<Rightarrow> nat \<Rightarrow> js_event" where
  "ev_ping_ack h t = (plain_event EVENT_PING_ACK h (-1))\<lparr>ev_meta := Some (meta_empty\<lparr>duration_ms := Some t\<rparr>)\<rparr>"

definition ev_shutdown_complete :: js_event where
  "ev_shutdown_complete = plain_event EVENT_SHUTDOWN_COMPLETE 0 (-1)"

lemmas event_defs = plain_event_def ev_new_session_def ev_new_stream_def ev_new_stream_with_data_def
  ev_headers_event_def ev_data_event_def ev_finished_def ev_reset_def ev_session_close_def
  ev_session_close_with_error_def ev_drain_def ev_stream_blocked_def ev_write_ready_def ev_goaway_def
  ev_error_def ev_runtime_error_def ev_handshake_complete_def
  ev_handshake_complete_with_peer_certificate_def ev_session_ticket_def ev_metrics_event_def
  ev_datagram_def ev_ping_ack_def ev_shutdown_complete_def

subsection \<open>Stream bytes carried by events\<close>

text \<open>The bytes a list of events delivers to one stream: those of NEW_STREAM, HEADERS and DATA.\<close>

definition carries_stream_data :: "conn_handle \<Rightarrow> stream_id \<Rightarrow> js_event \<Rightarrow> bool" where
  "carries_stream_data h s e \<longleftrightarrow> ev_conn e = h \<and> ev_stream e = as_i64 s
     \<and> event_type e \<in> {EVENT_NEW_STREAM, EVENT_HEADERS, EVENT_DATA}"

definition event_bytes :: "conn_handle \<Rightarrow> stream_id \<Rightarrow> js_event \<Rightarrow> byte list" where
  "event_bytes h s e = (if carries_stream_data h s e then (case ev_data e of None \<Rightarrow> [] | Some d \<Rightarrow> d) else [])"

definition stream_bytes :: "conn_handle \<Rightarrow> stream_id \<Rightarrow> js_event list \<Rightarrow> byte list" where
  "stream_bytes h s es = concat (map (event_bytes h s) es)"

lemma stream_bytes_simps [simp]:
  "stream_bytes h s [] = []"
  "stream_bytes h s (e # es) = event_bytes h s e @ stream_bytes h s es"
  "stream_bytes h s (es @ fs) = stream_bytes h s es @ stream_bytes h s fs"
  by (simp_all add: stream_bytes_def)

lemma as_i64_inject:
  "a < 2 ^ 62 \<Longrightarrow> b < 2 ^ 62 \<Longrightarrow> as_i64 a = as_i64 b \<longleftrightarrow> a = b"
  by (auto simp: as_i64_def Let_def)

lemma event_bytes_simps [simp]:
  "event_bytes h s (ev_new_stream g t) = []"
  "event_bytes h s (ev_new_stream_with_data g t d f) = (if g = h \<and> as_i64 t = as_i64 s then d else [])"
  "event_bytes h s (ev_headers_event g t hs f) = []"
  "event_bytes h s (ev_data_event g t d f) = (if g = h \<and> as_i64 t = as_i64 s then d else [])"
  "event_bytes h s (ev_finished g t) = []"
  "event_bytes h s (ev_reset g t c) = []"
  "event_bytes h s (ev_drain g t) = []"
  "event_bytes h s (ev_goaway g t) = []"
  "event_bytes h s (ev_error g i c2 r) = []"
  "event_bytes h s (ev_datagram g d) = []"
  by (auto simp: event_bytes_def carries_stream_data_def event_defs event_types)

text \<open>Folding a DATA event into the HEADERS event before it changes no stream's bytes.\<close>

lemma coalesce_bytes:
  assumes "try_coalesce_following_data e d = Some e'"
  shows "event_bytes h s e' = event_bytes h s e @ event_bytes h s d"
proof -
  from assms have eq: "event_type e = EVENT_HEADERS" "event_type d = EVENT_DATA" "ev_conn e = ev_conn d"
    "ev_stream e = ev_stream d" "ev_data e = None" "e' = e\<lparr>ev_data := ev_data d\<rparr>"
    by (auto simp: try_coalesce_following_data_def split: if_splits)
  then show ?thesis
    by (auto simp: event_bytes_def carries_stream_data_def event_types split: option.splits)
qed

text \<open>
  Stream error codes above 32 bits are not reported faithfully. QUIC error codes have up to 62
  bits. A session close saturates, but a stream reset truncates: a reset with code \<open>2 ^ 32\<close> looks to
  JavaScript exactly like a reset with code 0, and codes that agree modulo \<open>2 ^ 32\<close> collide, while
  codes below \<open>2 ^ 32\<close> are told apart.
\<close>

theorem reset_code_truncated:
  "ev_reset h s (c + 2 ^ 32) = ev_reset h s c
   \<and> (c < 2 ^ 32 \<and> d < 2 ^ 32 \<longrightarrow> (ev_reset h s c = ev_reset h s d) = (c = d))
   \<and> ev_session_close_with_error h (2 ^ 32) r \<noteq> ev_session_close_with_error h 0 r"
proof (intro conjI impI)
  have "(of_nat (c + 2 ^ 32) :: 32 word) = of_nat c"
    by (simp add: word_unat_eq_iff unat_of_nat del: of_nat_add)
  then show "ev_reset h s (c + 2 ^ 32) = ev_reset h s c" by (simp only: ev_reset_def)
  show "(ev_reset h s c = ev_reset h s d) = (c = d)" if "c < 2 ^ 32 \<and> d < 2 ^ 32"
    using that by (auto simp: event_defs meta_empty_def word_unat_eq_iff unat_of_nat)
  show "ev_session_close_with_error h (2 ^ 32) r \<noteq> ev_session_close_with_error h 0 r"
    by (simp add: event_defs meta_empty_def)
qed

theorem reset_code_truncated_witness:
  "ev_reset 1 4 (7 + 2 ^ 32) = ev_reset 1 4 7 \<and> ev_reset 1 4 7 \<noteq> ev_reset 1 4 8"
  using reset_code_truncated [of 1 4 7 8 "[]"] by simp

end
