(* ===== verification/Quiche_Api.thy ===== *)
theory Quiche_Api
  imports Pending_Write H3_Event Timer_Heap Retry_Token
begin

text \<open>
  The transport library as the sources call it, the laws of its documentation the proofs use, and
  the state every connection shares: traffic counters, outstanding pings
  (\<^verbatim>\<open>ping_state.rs\<close>) and the set of streams waiting for credit.

  \<^verbatim>\<open>quiche::Connection\<close> is a type variable with its operations in a record. An operation that takes
  \<^verbatim>\<open>&mut self\<close> returns the new connection; the result of an operation whose error the sources drop
  with \<^verbatim>\<open>.ok()\<close> is left out.
\<close>

record 'q quiche_api =
  q_is_server :: "'q \<Rightarrow> bool"
  q_is_closed :: "'q \<Rightarrow> bool"
  q_is_draining :: "'q \<Rightarrow> bool"
  q_is_timed_out :: "'q \<Rightarrow> bool"
  q_peer_error :: "'q \<Rightarrow> (nat \<times> string) option"
  q_local_error :: "'q \<Rightarrow> (nat \<times> string) option"
  q_recv :: "'q \<Rightarrow> byte list \<Rightarrow> (quiche_error + nat) \<times> 'q"
  q_send :: "'q \<Rightarrow> nat \<Rightarrow> (quiche_error + byte list \<times> socket_addr) \<times> 'q"
  q_readable :: "'q \<Rightarrow> stream_id list"
  q_stream_recv :: "'q \<Rightarrow> stream_id \<Rightarrow> nat \<Rightarrow> (quiche_error + byte list \<times> bool) \<times> 'q"
  q_stream_send :: "'q \<Rightarrow> stream_id \<Rightarrow> byte list \<Rightarrow> bool \<Rightarrow> (quiche_error + nat) \<times> 'q"
  q_stream_send_zc :: "'q \<Rightarrow> stream_id \<Rightarrow> arc_buf \<Rightarrow> bool \<Rightarrow> (quiche_error + nat \<times> arc_buf option) \<times> 'q"
  q_stream_capacity :: "'q \<Rightarrow> stream_id \<Rightarrow> (quiche_error + nat) \<times> 'q"
  q_stream_writable_next :: "'q \<Rightarrow> (stream_id \<times> 'q) option"
  q_stream_finished :: "'q \<Rightarrow> stream_id \<Rightarrow> bool"
  q_stream_readable :: "'q \<Rightarrow> stream_id \<Rightarrow> bool"
  q_stream_closed :: "'q \<Rightarrow> stream_id \<Rightarrow> bool"
  q_stream_shutdown :: "'q \<Rightarrow> stream_id \<Rightarrow> bool \<Rightarrow> nat \<Rightarrow> 'q"
  q_dgram_queue_full :: "'q \<Rightarrow> bool"
  q_dgram_send :: "'q \<Rightarrow> byte list \<Rightarrow> (quiche_error + unit) \<times> 'q"
  q_dgram_recv :: "'q \<Rightarrow> (quiche_error + byte list) \<times> 'q"
  q_send_ack_eliciting :: "'q \<Rightarrow> (quiche_error + unit) \<times> 'q"
  q_stats :: "'q \<Rightarrow> nat \<times> nat"
  q_session :: "'q \<Rightarrow> byte list option"
  q_timeout :: "'q \<Rightarrow> nat option"
  q_on_timeout :: "'q \<Rightarrow> 'q"
  q_error_text :: "quiche_error \<Rightarrow> string"
  q_close :: "'q \<Rightarrow> bool \<Rightarrow> nat \<Rightarrow> string \<Rightarrow> 'q"
  q_is_established :: "'q \<Rightarrow> bool"
  q_is_in_early_data :: "'q \<Rightarrow> bool"
  q_source_id :: "'q \<Rightarrow> byte list"
  q_retired_scid_next :: "'q \<Rightarrow> (byte list \<times> 'q) option"
  q_peer_cert :: "'q \<Rightarrow> byte list option"
  q_scids_left :: "'q \<Rightarrow> nat"
  q_new_scid :: "'q \<Rightarrow> byte list \<Rightarrow> byte list \<Rightarrow> bool \<times> 'q"
  q_max_udp :: "'q \<Rightarrow> nat"

text \<open>The two sides of \<^verbatim>\<open>quiche::Shutdown\<close>.\<close>

abbreviation (input) shutdown_read :: bool where "shutdown_read \<equiv> True"
abbreviation (input) shutdown_write :: bool where "shutdown_write \<equiv> False"

subsection \<open>Laws\<close>

text \<open>
  Sending. \<open>sent\<close> and \<open>finned\<close> observe what a connection has taken on each stream. A send takes a
  prefix of the buffer, returns the rest when there is one, and takes the FIN exactly when it was
  asked for and nothing is left; other streams and failed sends are not affected.
\<close>

definition stream_sends_prefix ::
  "('q \<Rightarrow> stream_id \<Rightarrow> byte list) \<Rightarrow> ('q \<Rightarrow> stream_id \<Rightarrow> bool) \<Rightarrow> stream_id \<Rightarrow> byte list \<Rightarrow> bool \<Rightarrow> 'q \<Rightarrow> 'q \<Rightarrow> bool" where
  "stream_sends_prefix sent finned sid bytes fin q q' \<longleftrightarrow>
     sent q' sid = sent q sid @ bytes \<and> (finned q' sid \<longleftrightarrow> finned q sid \<or> fin)
     \<and> (\<forall>t. t \<noteq> sid \<longrightarrow> sent q' t = sent q t \<and> finned q' t = finned q t)"

definition quiche_send_laws ::
  "'q quiche_api \<Rightarrow> ('q \<Rightarrow> stream_id \<Rightarrow> byte list) \<Rightarrow> ('q \<Rightarrow> stream_id \<Rightarrow> bool) \<Rightarrow> bool" where
  "quiche_send_laws Q sent finned \<longleftrightarrow>
     (\<forall>q sid buf fin n q'. q_stream_send_zc Q q sid buf fin = (Inr (n, None), q') \<longrightarrow>
        n = remaining_len buf \<and> stream_sends_prefix sent finned sid (arc_as_ref buf) fin q q')
   \<and> (\<forall>q sid buf fin n r q'. q_stream_send_zc Q q sid buf fin = (Inr (n, Some r), q') \<longrightarrow>
        n \<le> remaining_len buf \<and> stream_sends_prefix sent finned sid (take n (arc_as_ref buf)) False q q'
        \<and> (arc_inv buf \<longrightarrow> arc_inv r \<and> arc_as_ref r = drop n (arc_as_ref buf)
             \<and> remaining_len r = remaining_len buf - n))
   \<and> (\<forall>q sid buf fin e q'. q_stream_send_zc Q q sid buf fin = (Inl e, q') \<longrightarrow>
        sent q' = sent q \<and> finned q' = finned q)
   \<and> (\<forall>q sid n q'. q_stream_send Q q sid [] True = (Inr n, q') \<longrightarrow>
        stream_sends_prefix sent finned sid [] True q q')
   \<and> (\<forall>q sid bs fin e q'. q_stream_send Q q sid bs fin = (Inl e, q') \<longrightarrow> sent q' = sent q \<and> finned q' = finned q)
   \<and> (\<forall>q sid r q'. q_stream_capacity Q q sid = (r, q') \<longrightarrow> sent q' = sent q \<and> finned q' = finned q)"

text \<open>
  Receiving. \<open>received\<close> observes what a connection has handed out on each stream; a receive hands
  out the bytes it returns, at most as many as asked for, and nothing else changes it. Stream ids
  are QUIC variable-length integers.
\<close>

definition quiche_recv_laws :: "'q quiche_api \<Rightarrow> ('q \<Rightarrow> stream_id \<Rightarrow> byte list) \<Rightarrow> bool" where
  "quiche_recv_laws Q received \<longleftrightarrow>
     (\<forall>q sid n d fin q'. q_stream_recv Q q sid n = (Inr (d, fin), q') \<longrightarrow>
        length d \<le> n \<and> received q' = (received q)(sid := received q sid @ d))
   \<and> (\<forall>q sid n e q'. q_stream_recv Q q sid n = (Inl e, q') \<longrightarrow> received q' = received q)
   \<and> (\<forall>q sid rd code. received (q_stream_shutdown Q q sid rd code) = received q)
   \<and> (\<forall>q sid r q'. q_stream_capacity Q q sid = (r, q') \<longrightarrow> received q' = received q)
   \<and> (\<forall>q r q'. q_dgram_recv Q q = (r, q') \<longrightarrow> received q' = received q)
   \<and> (\<forall>q sid. sid \<in> set (q_readable Q q) \<longrightarrow> sid < 2 ^ 62)"

lemma recv_laws_simps:
  assumes "quiche_recv_laws Q received"
  shows "q_stream_recv Q q sid n = (Inr (d, fin), q') \<Longrightarrow> received q' = (received q)(sid := received q sid @ d)"
    and "q_stream_recv Q q sid n = (Inl e, q') \<Longrightarrow> received q' = received q"
    and "received (q_stream_shutdown Q q sid rd code) = received q"
    and "q_stream_capacity Q q sid = (r, q') \<Longrightarrow> received q' = received q"
    and "q_dgram_recv Q q = (r2, q') \<Longrightarrow> received q' = received q"
    and "sid \<in> set (q_readable Q q) \<Longrightarrow> sid < 2 ^ 62"
  using assms by (auto simp: quiche_recv_laws_def)

subsection \<open>Hash sets\<close>

text \<open>A \<^verbatim>\<open>HashSet\<close> is the list of its elements in iteration order.\<close>

definition hs_insert :: "'a \<Rightarrow> 'a list \<Rightarrow> bool \<times> 'a list" where
  "hs_insert x xs = (if x \<in> set xs then (False, xs) else (True, xs @ [x]))"

definition hs_remove :: "'a \<Rightarrow> 'a list \<Rightarrow> bool \<times> 'a list" where
  "hs_remove x xs = (x \<in> set xs, removeAll x xs)"

lemma hs_simps [simp]:
  "set (snd (hs_insert x xs)) = insert x (set xs)" "distinct xs \<Longrightarrow> distinct (snd (hs_insert x xs))"
  "fst (hs_insert x xs) \<longleftrightarrow> x \<notin> set xs" "fst (hs_remove x xs) \<longleftrightarrow> x \<in> set xs"
  "set (snd (hs_remove x xs)) = set xs - {x}" "distinct xs \<Longrightarrow> distinct (snd (hs_remove x xs))"
  by (auto simp: hs_insert_def hs_remove_def distinct_removeAll)

subsection \<open>Counters and pings\<close>

record connection_metrics =
  packets_in :: nat
  packets_out :: nat
  bytes_in :: nat
  bytes_out :: nat
  handshake_complete_at :: "instant option"

definition connection_metrics_new :: connection_metrics where
  "connection_metrics_new =
     \<lparr>packets_in = 0, packets_out = 0, bytes_in = 0, bytes_out = 0, handshake_complete_at = None\<rparr>"

record pending_ping =
  started_at :: instant
  target_sent_packets :: nat
  baseline_acked_bytes :: nat

type_synonym ping_state = "pending_ping list"

definition ping_queue :: "instant \<Rightarrow> nat \<times> nat \<Rightarrow> ping_state \<Rightarrow> ping_state" where
  "ping_queue now stats ps =
     ps @ [\<lparr>started_at = now, target_sent_packets = saturating_add (fst stats) 1,
            baseline_acked_bytes = snd stats\<rparr>]"

definition ping_acked :: "nat \<times> nat \<Rightarrow> pending_ping \<Rightarrow> bool" where
  "ping_acked stats p \<longleftrightarrow> target_sent_packets p \<le> fst stats \<and> baseline_acked_bytes p < snd stats"

fun ping_complete_acked :: "instant \<Rightarrow> nat \<times> nat \<Rightarrow> ping_state \<Rightarrow> nat list \<times> ping_state" where
  "ping_complete_acked now stats [] = ([], [])"
| "ping_complete_acked now stats (p # ps) =
     (if ping_acked stats p
      then (case ping_complete_acked now stats ps of (ds, ps') \<Rightarrow> ((now - started_at p) # ds, ps'))
      else ([], p # ps))"

lemma ping_complete_acked_eq:
  "ping_complete_acked now stats ps =
     (map (\<lambda>p. now - started_at p) (takeWhile (ping_acked stats) ps), dropWhile (ping_acked stats) ps)"
  by (induction now stats ps rule: ping_complete_acked.induct) auto

text \<open>
  Pings complete in the order they were queued: since the counters only grow, the queue is ordered
  by both thresholds, so a completion leaves exactly the pings that are not yet acknowledged.
\<close>

definition pings_ordered :: "ping_state \<Rightarrow> bool" where
  "pings_ordered ps \<longleftrightarrow> sorted_wrt (\<lambda>p r. target_sent_packets p \<le> target_sent_packets r
     \<and> baseline_acked_bytes p \<le> baseline_acked_bytes r) ps"

lemma pings_ordered_queue:
  assumes "pings_ordered ps" "\<forall>p \<in> set ps. target_sent_packets p \<le> saturating_add (fst stats) 1
    \<and> baseline_acked_bytes p \<le> snd stats"
  shows "pings_ordered (ping_queue now stats ps)"
  using assms by (auto simp: pings_ordered_def ping_queue_def sorted_wrt_append)

lemma ping_complete_acked_exact:
  assumes "pings_ordered ps"
  shows "snd (ping_complete_acked now stats ps) = filter (\<lambda>p. \<not> ping_acked stats p) ps"
  using assms
proof (induction ps)
  case (Cons p ps)
  show ?case
  proof (cases "ping_acked stats p")
    case False
    then have "\<forall>r \<in> set ps. \<not> ping_acked stats r"
      using Cons.prems by (fastforce simp: pings_ordered_def ping_acked_def)
    with False show ?thesis by (simp add: filter_id_conv)
  qed (use Cons in \<open>auto simp: pings_ordered_def ping_complete_acked_eq\<close>)
qed simp

subsection \<open>Streams waiting for credit\<close>

text \<open>The pair of a queue and its membership set that both connection types keep.\<close>

record blocked_streams =
  blocked_queue :: "stream_id list"
  blocked_set :: "stream_id list"

definition blocked_new :: blocked_streams where
  "blocked_new = \<lparr>blocked_queue = [], blocked_set = []\<rparr>"

definition mark_blocked :: "stream_id \<Rightarrow> blocked_streams \<Rightarrow> blocked_streams" where
  "mark_blocked sid b =
     (case hs_insert sid (blocked_set b) of (fresh, s) \<Rightarrow>
        \<lparr>blocked_queue = (if fresh then blocked_queue b @ [sid] else blocked_queue b), blocked_set = s\<rparr>)"

definition unmark_blocked :: "stream_id \<Rightarrow> blocked_streams \<Rightarrow> blocked_streams" where
  "unmark_blocked sid b =
     (case hs_remove sid (blocked_set b) of (was, s) \<Rightarrow>
        \<lparr>blocked_queue = (if was then filter (\<lambda>i. i \<noteq> sid) (blocked_queue b) else blocked_queue b),
         blocked_set = s\<rparr>)"

definition blocked_inv :: "blocked_streams \<Rightarrow> bool" where
  "blocked_inv b \<longleftrightarrow> distinct (blocked_queue b) \<and> distinct (blocked_set b)
     \<and> set (blocked_queue b) = set (blocked_set b)"

lemma blocked_inv_new [simp]: "blocked_inv blocked_new"
  by (simp add: blocked_inv_def blocked_new_def)

lemma blocked_inv_mark [simp]: "blocked_inv b \<Longrightarrow> blocked_inv (mark_blocked sid b)"
  by (auto simp: blocked_inv_def mark_blocked_def hs_insert_def)

lemma blocked_inv_unmark [simp]: "blocked_inv b \<Longrightarrow> blocked_inv (unmark_blocked sid b)"
  by (auto simp: blocked_inv_def unmark_blocked_def hs_remove_def distinct_removeAll)

lemma set_mark_blocked [simp]: "set (blocked_set (mark_blocked sid b)) = insert sid (set (blocked_set b))"
  by (auto simp: mark_blocked_def hs_insert_def)

lemma set_unmark_blocked [simp]: "set (blocked_set (unmark_blocked sid b)) = set (blocked_set b) - {sid}"
  by (auto simp: unmark_blocked_def hs_remove_def)

text \<open>
  The capacity probe over the queue, once round: a stream with credit gets a drain event, a stream
  whose probe fails an error event, and the others go back to the end in order.
\<close>

fun probe_blocked ::
  "'q quiche_api \<Rightarrow> conn_handle \<Rightarrow> nat \<Rightarrow> 'q \<Rightarrow> blocked_streams \<Rightarrow> js_event list
     \<Rightarrow> 'q \<times> blocked_streams \<times> js_event list" where
  "probe_blocked Q h 0 q b ev = (q, b, ev)"
| "probe_blocked Q h (Suc n) q b ev =
     (case blocked_queue b of
        [] \<Rightarrow> (q, b, ev)
      | sid # rest \<Rightarrow>
          (case q_stream_capacity Q q sid of
             (Inr cap, q') \<Rightarrow>
               if 0 < cap
               then probe_blocked Q h n q' \<lparr>blocked_queue = rest, blocked_set = snd (hs_remove sid (blocked_set b))\<rparr>
                      (ev @ [ev_drain h sid])
               else probe_blocked Q h n q' (b\<lparr>blocked_queue := rest @ [sid]\<rparr>) ev
           | (Inl e, q') \<Rightarrow>
               probe_blocked Q h n q' \<lparr>blocked_queue = rest, blocked_set = snd (hs_remove sid (blocked_set b))\<rparr>
                 (ev @ [ev_error h (as_i64 sid) 0 (''stream_capacity failed: '' @ q_error_text Q e)])))"

text \<open>What one event of a probe is: a drain or an error for the stream.\<close>

definition wakes :: "conn_handle \<Rightarrow> stream_id \<Rightarrow> js_event \<Rightarrow> bool" where
  "wakes h sid e \<longleftrightarrow> e = ev_drain h sid \<or> (\<exists>t. e = ev_error h (as_i64 sid) 0 t)"

lemma probe_blocked_spec:
  assumes "probe_blocked Q h n q b ev = (q', b', ev')" "blocked_inv b"
    and "blocked_queue b = todo @ kept" "n = length todo"
  shows "blocked_inv b' \<and> (\<exists>woken new. ev' = ev @ new \<and> list_all2 (wakes h) woken new
    \<and> set woken \<subseteq> set todo \<and> distinct woken
    \<and> blocked_queue b' = kept @ filter (\<lambda>s. s \<notin> set woken) todo)"
  using assms
proof (induction todo arbitrary: n q b ev kept)
  case Nil
  then show ?case by (auto intro: exI [of _ "[]"])
next
  case (Cons sid todo)
  obtain r q1 where r: "q_stream_capacity Q q sid = (r, q1)" by fastforce
  let ?gone = "\<lparr>blocked_queue = todo @ kept, blocked_set = snd (hs_remove sid (blocked_set b))\<rparr>"
  have gone: "blocked_inv ?gone" "sid \<notin> set todo"
    using Cons.prems(2,3) by (auto simp: blocked_inv_def hs_remove_def distinct_removeAll)
  have wake: ?case if e: "wakes h sid e" and p: "probe_blocked Q h (length todo) q1 ?gone (ev @ [e]) = (q', b', ev')" for e
  proof -
    from Cons.IH [OF p gone(1)] obtain woken new where W: "blocked_inv b'" "ev' = (ev @ [e]) @ new"
      "list_all2 (wakes h) woken new" "set woken \<subseteq> set todo" "distinct woken"
      "blocked_queue b' = kept @ filter (\<lambda>s. s \<notin> set woken) todo" by auto
    have "filter (\<lambda>s. s \<notin> set (sid # woken)) (sid # todo) = filter (\<lambda>s. s \<notin> set woken) todo"
      using gone(2) by (auto intro: filter_cong)
    with W e gone(2) show ?thesis
      by (intro conjI exI [of _ "sid # woken"] exI [of _ "e # new"]) auto
  qed
  show ?case
  proof (cases "\<exists>cap. r = Inr cap \<and> cap = 0")
    case True
    let ?again = "b\<lparr>blocked_queue := todo @ kept @ [sid]\<rparr>"
    have inv: "blocked_inv ?again" using Cons.prems(2,3) by (auto simp: blocked_inv_def)
    have p: "probe_blocked Q h (length todo) q1 ?again ev = (q', b', ev')"
      using Cons.prems True r by auto
    from Cons.IH [OF p inv, of "kept @ [sid]"] obtain woken new where W: "blocked_inv b'" "ev' = ev @ new"
      "list_all2 (wakes h) woken new" "set woken \<subseteq> set todo" "distinct woken"
      "blocked_queue b' = (kept @ [sid]) @ filter (\<lambda>s. s \<notin> set woken) todo" by auto
    moreover have "sid \<notin> set woken" using W(4) gone(2) by auto
    ultimately show ?thesis by (intro conjI exI [of _ woken] exI [of _ new]) auto
  next
    case False
    show ?thesis
    proof (cases r)
      case (Inl e)
      with Cons.prems r show ?thesis
        by (intro wake [of "ev_error h (as_i64 sid) 0 (''stream_capacity failed: '' @ q_error_text Q e)"])
          (auto simp: wakes_def)
    next
      case (Inr cap)
      with False Cons.prems r show ?thesis
        by (intro wake [of "ev_drain h sid"]) (auto simp: wakes_def)
    qed
  qed
qed

subsection \<open>A loopback transport\<close>

text \<open>
  A small transport that satisfies the laws: bytes waiting per stream to be read, bytes and FINs
  taken per stream, and a send credit shared by all streams.
\<close>

record loopback =
  lb_in :: "stream_id \<Rightarrow> byte list"
  lb_got :: "stream_id \<Rightarrow> byte list"
  lb_sent :: "stream_id \<Rightarrow> byte list"
  lb_fin :: "stream_id \<Rightarrow> bool"
  lb_credit :: nat
  lb_ready :: "stream_id list"

definition lb_empty :: loopback where
  "lb_empty = \<lparr>lb_in = (\<lambda>_. []), lb_got = (\<lambda>_. []), lb_sent = (\<lambda>_. []), lb_fin = (\<lambda>_. False),
     lb_credit = 0, lb_ready = []\<rparr>"

definition lb_recv :: "loopback \<Rightarrow> stream_id \<Rightarrow> nat \<Rightarrow> (quiche_error + byte list \<times> bool) \<times> loopback" where
  "lb_recv q s n =
     (let d = take n (lb_in q s) in
      if d = [] then (Inl QDone, q)
      else (Inr (d, False), q\<lparr>lb_in := (lb_in q)(s := drop n (lb_in q s)), lb_got := (lb_got q)(s := lb_got q s @ d)\<rparr>))"

definition lb_take :: "loopback \<Rightarrow> stream_id \<Rightarrow> byte list \<Rightarrow> bool \<Rightarrow> loopback" where
  "lb_take q s bs f = q\<lparr>lb_sent := (lb_sent q)(s := lb_sent q s @ bs), lb_fin := (lb_fin q)(s := lb_fin q s \<or> f),
     lb_credit := lb_credit q - length bs\<rparr>"

definition lb_send_zc :: "loopback \<Rightarrow> stream_id \<Rightarrow> arc_buf \<Rightarrow> bool \<Rightarrow> (quiche_error + nat \<times> arc_buf option) \<times> loopback" where
  "lb_send_zc q s buf f =
     (if remaining_len buf \<le> lb_credit q then (Inr (remaining_len buf, None), lb_take q s (arc_as_ref buf) f)
      else if lb_credit q = 0 then (Inl QDone, q)
      else case arc_split_at buf (lb_credit q) of
        None \<Rightarrow> (Inl QDone, q)
      | Some (_, r) \<Rightarrow> (Inr (lb_credit q, Some r), lb_take q s (take (lb_credit q) (arc_as_ref buf)) False))"

definition loopback_api :: "loopback quiche_api" where
  "loopback_api =
     \<lparr>q_is_server = (\<lambda>_. True), q_is_closed = (\<lambda>_. False), q_is_draining = (\<lambda>_. False),
      q_is_timed_out = (\<lambda>_. False), q_peer_error = (\<lambda>_. None), q_local_error = (\<lambda>_. None),
      q_recv = (\<lambda>q bs. (Inr (length bs), q)), q_send = (\<lambda>q n. (Inl QDone, q)),
      q_readable = (\<lambda>q. filter (\<lambda>s. s < 2 ^ 62) (lb_ready q)), q_stream_recv = lb_recv,
      q_stream_send = (\<lambda>q s bs f. (Inr (length bs), lb_take q s bs f)), q_stream_send_zc = lb_send_zc,
      q_stream_capacity = (\<lambda>q s. (Inr (lb_credit q), q)), q_stream_writable_next = (\<lambda>q. None),
      q_stream_finished = (\<lambda>q s. False), q_stream_readable = (\<lambda>q s. lb_in q s \<noteq> []),
      q_stream_closed = (\<lambda>q s. False), q_stream_shutdown = (\<lambda>q s rd code. q),
      q_dgram_queue_full = (\<lambda>_. True), q_dgram_send = (\<lambda>q d. (Inr (), q)), q_dgram_recv = (\<lambda>q. (Inl QDone, q)),
      q_send_ack_eliciting = (\<lambda>q. (Inr (), q)), q_stats = (\<lambda>_. (0, 0)), q_session = (\<lambda>_. None),
      q_timeout = (\<lambda>_. None), q_on_timeout = (\<lambda>q. q), q_error_text = (\<lambda>_. ''error''),
      q_close = (\<lambda>q app code reason. q), q_is_established = (\<lambda>_. True), q_is_in_early_data = (\<lambda>_. False),
      q_source_id = (\<lambda>_. []), q_retired_scid_next = (\<lambda>_. None), q_peer_cert = (\<lambda>_. None), q_scids_left = (\<lambda>_. 0),
      q_new_scid = (\<lambda>q scid token. (False, q)), q_max_udp = (\<lambda>_. 1200)\<rparr>"

lemma loopback_recv_laws: "quiche_recv_laws loopback_api lb_got"
  by (auto simp: quiche_recv_laws_def loopback_api_def lb_recv_def Let_def split: if_splits)

lemma lb_take_prefix: "stream_sends_prefix lb_sent lb_fin s bs f q (lb_take q s bs f)"
  by (simp add: stream_sends_prefix_def lb_take_def)

lemma lb_send_zc_cases:
  assumes "lb_send_zc q s buf f = (Inr (n, r), q')"
  shows "(r = None \<and> n = remaining_len buf \<and> q' = lb_take q s (arc_as_ref buf) f)
    \<or> (\<exists>a b. r = Some b \<and> arc_split_at buf n = Some (a, b) \<and> n < remaining_len buf
        \<and> q' = lb_take q s (take n (arc_as_ref buf)) False)"
  using assms by (auto simp: lb_send_zc_def split: if_splits option.splits)

lemma lb_api_simps [simp]:
  "q_stream_send_zc loopback_api = lb_send_zc"
  "q_stream_send loopback_api q s bs f = (Inr (length bs), lb_take q s bs f)"
  "q_stream_capacity loopback_api q s = (Inr (lb_credit q), q)"
  by (simp_all add: loopback_api_def)

lemma lb_send_zc_error: "lb_send_zc q s buf f = (Inl e, q') \<Longrightarrow> q' = q"
  by (auto simp: lb_send_zc_def split: if_splits option.splits)

lemma split_rest:
  assumes "arc_split_at buf n = Some (a, r)" "arc_inv buf"
  shows "arc_inv r \<and> arc_as_ref r = drop n (arc_as_ref buf) \<and> remaining_len r = remaining_len buf - n"
proof -
  note S = arc_split_at_spec [OF assms(1)]
  have "length (arc_as_ref a) = n" using S(2,5) assms(2) arc_as_ref_length by auto
  with S assms(2) show ?thesis by auto
qed

lemma loopback_send_laws: "quiche_send_laws loopback_api lb_sent lb_fin"
  unfolding quiche_send_laws_def lb_api_simps
proof (intro conjI allI impI, goal_cases)
  case (1 q sid buf fin n q')
  then show ?case using lb_send_zc_cases [OF 1] by simp
next
  case (2 q sid buf fin n q')
  then show ?case using lb_send_zc_cases [OF 2] lb_take_prefix by auto
next
  case (3 q sid buf fin n r q')
  then show ?case using lb_send_zc_cases [OF 3] by auto
next
  case (4 q sid buf fin n r q')
  then show ?case using lb_send_zc_cases [OF 4] lb_take_prefix by auto
next
  case (5 q sid buf fin n r q')
  then show ?case using lb_send_zc_cases [OF 5(1)] split_rest by blast
next
  case (6 q sid buf fin n r q')
  then show ?case using lb_send_zc_cases [OF 6(1)] split_rest by blast
next
  case (7 q sid buf fin n r q')
  then show ?case using lb_send_zc_cases [OF 7(1)] split_rest by blast
qed (auto dest: lb_send_zc_error simp: lb_take_prefix)

end
