(* ===== verification/Quic_Connection.thy ===== *)
theory Quic_Connection
  imports Quiche_Api
begin

text \<open>
  A raw QUIC connection: \<^verbatim>\<open>quic_connection.rs\<close>. The transport is the parameter \<open>Q\<close>. Receive
  buffers come from the connection's pool and go back to it; that traffic is the buffer-pool
  component, and here a received buffer is its bytes. Telemetry and qlog are left out.
\<close>

definition MAX_OUTBOUND_DATAGRAM_QUEUE :: nat where "MAX_OUTBOUND_DATAGRAM_QUEUE = 64"
definition RECV_CHUNK :: nat where "RECV_CHUNK = 64 * 1024"

record 'q quic_connection =
  qc_quiche :: 'q
  qc_conn_id :: "byte list"
  qc_created_at :: instant
  qc_is_established :: bool
  qc_handshake_complete_emitted :: bool
  qc_metrics :: connection_metrics
  qc_blocked :: blocked_streams
  qc_known_streams :: "stream_id list"
  qc_pending_fin :: "stream_id list"
  qc_session_ticket :: "byte list option"
  qc_outbound_datagrams :: "arc_buf list"
  qc_ping_state :: ping_state

definition is_local_stream :: "'q quiche_api \<Rightarrow> 'q quic_connection \<Rightarrow> stream_id \<Rightarrow> bool" where
  "is_local_stream Q c sid = (sid mod 2 = (if q_is_server Q (qc_quiche c) then 1 else 0))"

definition quic_connection_new :: "'q \<Rightarrow> byte list \<Rightarrow> instant \<Rightarrow> 'q quic_connection" where
  "quic_connection_new q cid now =
     \<lparr>qc_quiche = q, qc_conn_id = cid, qc_created_at = now, qc_is_established = False,
      qc_handshake_complete_emitted = False, qc_metrics = connection_metrics_new,
      qc_blocked = blocked_new, qc_known_streams = [], qc_pending_fin = [],
      qc_session_ticket = None, qc_outbound_datagrams = [], qc_ping_state = []\<rparr>"

definition quic_recv :: "'q quiche_api \<Rightarrow> 'q quic_connection \<Rightarrow> byte list \<Rightarrow> (native_error + nat) \<times> 'q quic_connection" where
  "quic_recv Q c buf =
     (case q_recv Q (qc_quiche c) buf of
        (Inl e, q') \<Rightarrow> (Inl (Quiche e), c\<lparr>qc_quiche := q'\<rparr>)
      | (Inr len, q') \<Rightarrow>
          (Inr len, c\<lparr>qc_quiche := q', qc_metrics := (qc_metrics c)
             \<lparr>packets_in := packets_in (qc_metrics c) + 1, bytes_in := bytes_in (qc_metrics c) + len\<rparr>\<rparr>))"

definition quic_send :: "'q quiche_api \<Rightarrow> 'q quic_connection \<Rightarrow> nat \<Rightarrow> (native_error + byte list \<times> socket_addr) \<times> 'q quic_connection" where
  "quic_send Q c out_len =
     (case q_send Q (qc_quiche c) out_len of
        (Inl e, q') \<Rightarrow> (Inl (Quiche e), c\<lparr>qc_quiche := q'\<rparr>)
      | (Inr (pkt, to), q') \<Rightarrow>
          (Inr (pkt, to), c\<lparr>qc_quiche := q', qc_metrics := (qc_metrics c)
             \<lparr>packets_out := packets_out (qc_metrics c) + 1, bytes_out := bytes_out (qc_metrics c) + length pkt\<rparr>\<rparr>))"

definition quic_queue_ping :: "'q quiche_api \<Rightarrow> instant \<Rightarrow> 'q quic_connection \<Rightarrow> (native_error + unit) \<times> 'q quic_connection" where
  "quic_queue_ping Q now c =
     (if q_is_closed Q (qc_quiche c) \<or> q_is_draining Q (qc_quiche c)
      then (Inl (InvalidState ''connection is closing''), c)
      else case q_send_ack_eliciting Q (qc_quiche c) of
        (Inl e, q') \<Rightarrow> (Inl (Quiche e), c\<lparr>qc_quiche := q'\<rparr>)
      | (Inr _, q') \<Rightarrow>
          (Inr (), c\<lparr>qc_quiche := q', qc_ping_state := ping_queue now (q_stats Q q') (qc_ping_state c)\<rparr>))"

definition quic_poll_ping_acks :: "'q quiche_api \<Rightarrow> instant \<Rightarrow> 'q quic_connection \<Rightarrow> nat list \<times> 'q quic_connection" where
  "quic_poll_ping_acks Q now c =
     (case ping_complete_acked now (q_stats Q (qc_quiche c)) (qc_ping_state c) of
        (ds, ps) \<Rightarrow> (ds, c\<lparr>qc_ping_state := ps\<rparr>))"

definition quic_mark_established :: "instant \<Rightarrow> 'q quic_connection \<Rightarrow> 'q quic_connection" where
  "quic_mark_established now c =
     (if qc_is_established c then c
      else c\<lparr>qc_is_established := True, qc_metrics := (qc_metrics c)\<lparr>handshake_complete_at := Some now\<rparr>\<rparr>)"

subsection \<open>Receiving\<close>

definition forget_stream :: "stream_id \<Rightarrow> 'q quic_connection \<Rightarrow> 'q quic_connection" where
  "forget_stream sid c = c\<lparr>qc_known_streams := snd (hs_remove sid (qc_known_streams c))\<rparr>"

definition finish_stream :: "'q quiche_api \<Rightarrow> stream_id \<Rightarrow> 'q quic_connection \<Rightarrow> 'q quic_connection" where
  "finish_stream Q sid c =
     (forget_stream sid c)\<lparr>qc_quiche := q_stream_shutdown Q (qc_quiche c) sid shutdown_read 0\<rparr>"

text \<open>
  The inner loop over one stream. Every turn that does not end it has pushed an event, so it
  recurses on the budget left. When a FIN arrives with no data there is budget left by then, and
  the branch of the source that would put the stream on \<^verbatim>\<open>pending_fin\<close> cannot be taken.
\<close>

fun recv_loop ::
  "'q quiche_api \<Rightarrow> conn_handle \<Rightarrow> stream_id \<Rightarrow> nat \<Rightarrow> 'q quic_connection \<Rightarrow> js_event list
     \<Rightarrow> 'q quic_connection \<times> nat \<times> js_event list" where
  "recv_loop Q h sid 0 c ev = (c, 0, ev)"
| "recv_loop Q h sid (Suc n) c ev =
     (case q_stream_recv Q (qc_quiche c) sid RECV_CHUNK of
        (Inr (d, fin), q') \<Rightarrow>
          let c' = c\<lparr>qc_quiche := q'\<rparr> in
          if d \<noteq> [] then
            (if fin then (finish_stream Q sid c', n, ev @ [ev_data_event h sid d fin])
             else recv_loop Q h sid n c' (ev @ [ev_data_event h sid d fin]))
          else if fin then (finish_stream Q sid c', n, ev @ [ev_finished h sid])
          else (c', Suc n, ev)
      | (Inl QDone, q') \<Rightarrow>
          let c' = c\<lparr>qc_quiche := q'\<rparr> in
          if q_stream_finished Q q' sid
          then (finish_stream Q sid (c'\<lparr>qc_pending_fin := snd (hs_remove sid (qc_pending_fin c))\<rparr>), n,
                ev @ [ev_finished h sid])
          else (c'\<lparr>qc_pending_fin := snd (hs_insert sid (qc_pending_fin c))\<rparr>, Suc n, ev)
      | (Inl e, q') \<Rightarrow>
          (forget_stream sid (c\<lparr>qc_quiche := q'\<rparr>), n, ev @ [ev_error h (as_i64 sid) 0 (q_error_text Q e)]))"

text \<open>A stream seen for the first time: its first bytes travel in the NEW_STREAM event.\<close>

definition poll_new_stream ::
  "'q quiche_api \<Rightarrow> conn_handle \<Rightarrow> stream_id \<Rightarrow> nat \<Rightarrow> 'q quic_connection \<Rightarrow> js_event list
     \<Rightarrow> 'q quic_connection \<times> nat \<times> js_event list" where
  "poll_new_stream Q h sid n c ev =
     (case q_stream_recv Q (qc_quiche c) sid RECV_CHUNK of
        (Inr (d, fin), q') \<Rightarrow>
          let c' = c\<lparr>qc_quiche := q'\<rparr>; ev' = ev @ [ev_new_stream_with_data h sid d fin] in
          if fin then (finish_stream Q sid c', n - 1, ev') else recv_loop Q h sid (n - 1) c' ev'
      | (Inl QDone, q') \<Rightarrow> (c\<lparr>qc_quiche := q'\<rparr>, n - 1, ev @ [ev_new_stream h sid])
      | (Inl e, q') \<Rightarrow>
          let c' = forget_stream sid (c\<lparr>qc_quiche := q'\<rparr>) in
          if n - 1 = 0 then (c', 0, ev @ [ev_new_stream h sid])
          else (c', n - 2, ev @ [ev_new_stream h sid, ev_error h (as_i64 sid) 0 (q_error_text Q e)]))"

definition poll_stream ::
  "'q quiche_api \<Rightarrow> conn_handle \<Rightarrow> stream_id \<Rightarrow> nat \<Rightarrow> 'q quic_connection \<Rightarrow> js_event list
     \<Rightarrow> 'q quic_connection \<times> nat \<times> js_event list" where
  "poll_stream Q h sid n c ev =
     (case hs_insert sid (qc_known_streams c) of (is_new, known) \<Rightarrow>
        let c' = c\<lparr>qc_known_streams := known\<rparr> in
        if is_new then poll_new_stream Q h sid n c' ev else recv_loop Q h sid n c' ev)"

fun poll_readable ::
  "'q quiche_api \<Rightarrow> conn_handle \<Rightarrow> stream_id list \<Rightarrow> nat \<Rightarrow> 'q quic_connection \<Rightarrow> js_event list
     \<Rightarrow> 'q quic_connection \<times> nat \<times> js_event list" where
  "poll_readable Q h [] n c ev = (c, n, ev)"
| "poll_readable Q h (sid # sids) n c ev =
     (if n = 0 then (c, n, ev)
      else case poll_stream Q h sid n c ev of (c', n', ev') \<Rightarrow> poll_readable Q h sids n' c' ev')"

fun poll_datagram_events ::
  "'q quiche_api \<Rightarrow> conn_handle \<Rightarrow> nat \<Rightarrow> 'q \<Rightarrow> js_event list \<Rightarrow> 'q \<times> js_event list" where
  "poll_datagram_events Q h 0 q ev = (q, ev)"
| "poll_datagram_events Q h (Suc n) q ev =
     (case q_dgram_recv Q q of
        (Inr d, q') \<Rightarrow> poll_datagram_events Q h n q' (ev @ [ev_datagram h d])
      | (Inl e, q') \<Rightarrow> (q', ev))"

definition quic_poll_drain_events ::
  "'q quiche_api \<Rightarrow> conn_handle \<Rightarrow> 'q quic_connection \<Rightarrow> js_event list \<Rightarrow> 'q quic_connection \<times> js_event list" where
  "quic_poll_drain_events Q h c ev =
     (case probe_blocked Q h (length (blocked_queue (qc_blocked c))) (qc_quiche c) (qc_blocked c) ev of
        (q', b', ev') \<Rightarrow> (c\<lparr>qc_quiche := q', qc_blocked := b'\<rparr>, ev'))"

definition poll_quic_events ::
  "'q quiche_api \<Rightarrow> conn_handle \<Rightarrow> nat \<Rightarrow> 'q quic_connection \<Rightarrow> js_event list \<Rightarrow> 'q quic_connection \<times> js_event list" where
  "poll_quic_events Q h budget c ev =
     (if budget = 0 then quic_poll_drain_events Q h c ev
      else case poll_readable Q h (q_readable Q (qc_quiche c)) budget c ev of
        (c1, n, ev1) \<Rightarrow>
          (case poll_datagram_events Q h n (qc_quiche c1) ev1 of
             (q2, ev2) \<Rightarrow> quic_poll_drain_events Q h (c1\<lparr>qc_quiche := q2\<rparr>) ev2))"

text \<open>The timer-driven sweep: first the candidates within the budget, then their events.\<close>

fun sweep_candidates :: "'q quiche_api \<Rightarrow> 'q \<Rightarrow> nat \<Rightarrow> stream_id list \<Rightarrow> stream_id list" where
  "sweep_candidates Q q n [] = []"
| "sweep_candidates Q q n (sid # sids) =
     (if n = 0 then []
      else if q_stream_finished Q q sid \<and> \<not> q_stream_readable Q q sid
      then sid # sweep_candidates Q q (n - 1) sids else sweep_candidates Q q n sids)"

fun sweep_streams ::
  "'q quiche_api \<Rightarrow> conn_handle \<Rightarrow> stream_id list \<Rightarrow> 'q quic_connection \<Rightarrow> js_event list
     \<Rightarrow> 'q quic_connection \<times> js_event list" where
  "sweep_streams Q h [] c ev = (c, ev)"
| "sweep_streams Q h (sid # sids) c ev =
     (let c1 = c\<lparr>qc_pending_fin := snd (hs_remove sid (qc_pending_fin c))\<rparr>
      in if sid \<in> set (qc_known_streams c)
         then sweep_streams Q h sids (finish_stream Q sid c1) (ev @ [ev_finished h sid])
         else sweep_streams Q h sids c1 ev)"

definition sweep_finished_streams ::
  "'q quiche_api \<Rightarrow> conn_handle \<Rightarrow> nat \<Rightarrow> 'q quic_connection \<Rightarrow> js_event list \<Rightarrow> 'q quic_connection \<times> js_event list" where
  "sweep_finished_streams Q h budget c ev =
     (if qc_pending_fin c = [] \<or> budget = 0 then (c, ev)
      else sweep_streams Q h (sweep_candidates Q (qc_quiche c) budget (qc_pending_fin c)) c ev)"

subsection \<open>Sending\<close>

definition know_local :: "'q quiche_api \<Rightarrow> stream_id \<Rightarrow> 'q quic_connection \<Rightarrow> 'q quic_connection" where
  "know_local Q sid c =
     (if is_local_stream Q c sid then c\<lparr>qc_known_streams := snd (hs_insert sid (qc_known_streams c))\<rparr> else c)"

definition block_stream :: "stream_id \<Rightarrow> 'q quic_connection \<Rightarrow> 'q quic_connection" where
  "block_stream sid c = c\<lparr>qc_blocked := mark_blocked sid (qc_blocked c)\<rparr>"

abbreviation send_out :: "nat \<Rightarrow> bool \<Rightarrow> arc_buf option \<Rightarrow> send_outcome" where
  "send_out w f r \<equiv> \<lparr>so_written = w, so_fin_accepted = f, so_remainder = r\<rparr>"

definition send_fin_only ::
  "'q quiche_api \<Rightarrow> stream_id \<Rightarrow> 'q quic_connection \<Rightarrow> arc_buf \<Rightarrow> (native_error + send_outcome) \<times> 'q quic_connection" where
  "send_fin_only Q sid c buf =
     (case q_stream_send Q (qc_quiche c) sid [] True of
        (Inr written, q') \<Rightarrow>
          (Inr (send_out (if written = 0 then 1 else written) True None), know_local Q sid (c\<lparr>qc_quiche := q'\<rparr>))
      | (Inl QDone, q') \<Rightarrow> (Inr (send_out 0 False (Some buf)), block_stream sid (c\<lparr>qc_quiche := q'\<rparr>))
      | (Inl e, q') \<Rightarrow> (Inl (Quiche e), c\<lparr>qc_quiche := q'\<rparr>))"

definition send_zc ::
  "'q quiche_api \<Rightarrow> stream_id \<Rightarrow> 'q quic_connection \<Rightarrow> arc_buf \<Rightarrow> bool \<Rightarrow> (native_error + send_outcome) \<times> 'q quic_connection" where
  "send_zc Q sid c buf fin =
     (case q_stream_send_zc Q (qc_quiche c) sid buf fin of
        (Inr (written, remaining), q') \<Rightarrow>
          let c1 = c\<lparr>qc_quiche := q'\<rparr>;
              c2 = (if written < remaining_len buf then block_stream sid c1 else c1)
          in (Inr (send_out written (fin \<and> remaining = None) remaining), know_local Q sid c2)
      | (Inl QDone, q') \<Rightarrow> (Inr (send_out 0 False (Some buf)), block_stream sid (c\<lparr>qc_quiche := q'\<rparr>))
      | (Inl e, q') \<Rightarrow> (Inl (Quiche e), c\<lparr>qc_quiche := q'\<rparr>))"

definition stream_send_arcbuf ::
  "'q quiche_api \<Rightarrow> stream_id \<Rightarrow> 'q quic_connection \<Rightarrow> arc_buf \<Rightarrow> bool \<Rightarrow> (native_error + send_outcome) \<times> 'q quic_connection" where
  "stream_send_arcbuf Q sid c buf fin =
     (if remaining_len buf = 0 then
        (if \<not> fin then (Inr (send_out 0 False None), c) else send_fin_only Q sid c buf)
      else if sid \<in> set (blocked_set (qc_blocked c)) then
        (case q_stream_capacity Q (qc_quiche c) sid of
           (Inl e, q') \<Rightarrow> (Inl (Quiche e), c\<lparr>qc_quiche := q'\<rparr>)
         | (Inr cap, q') \<Rightarrow>
             if cap = 0 then (Inr (send_out 0 False (Some buf)), c\<lparr>qc_quiche := q'\<rparr>)
             else send_zc Q sid (c\<lparr>qc_quiche := q'\<rparr>) buf fin)
      else send_zc Q sid c buf fin)"

definition stream_send_chunk where
  "stream_send_chunk Q sid c ch fin = stream_send_arcbuf Q sid c (arc_from_chunk ch) fin"

definition stream_send_vec ::
  "'q quiche_api \<Rightarrow> stream_id \<Rightarrow> 'q quic_connection \<Rightarrow> rvec \<Rightarrow> bool
     \<Rightarrow> (native_error + nat \<times> byte list option) \<times> 'q quic_connection" where
  "stream_send_vec Q sid c d fin =
     (case stream_send_arcbuf Q sid c (arc_from_vec d) fin of
        (Inl e, c') \<Rightarrow> (Inl e, c')
      | (Inr out, c') \<Rightarrow> (Inr (so_written out, map_option arc_as_ref (so_remainder out)), c'))"

definition reserve_local_bidi_stream ::
  "'q quiche_api \<Rightarrow> stream_id \<Rightarrow> 'q quic_connection \<Rightarrow> (native_error + unit) \<times> 'q quic_connection" where
  "reserve_local_bidi_stream Q sid c =
     (if \<not> is_local_stream Q c sid \<or> (sid div 2) mod 2 \<noteq> 0
      then (Inl (InvalidState (''stream '' @ show_nat sid @ '' is not a local bidirectional stream'')), c)
      else case q_stream_send Q (qc_quiche c) sid [] False of
        (Inr 0, q') \<Rightarrow>
          (Inr (), c\<lparr>qc_quiche := q', qc_known_streams := snd (hs_insert sid (qc_known_streams c))\<rparr>)
      | (Inr (Suc n), q') \<Rightarrow>
          (Inl (InvalidState (''empty stream reservation wrote '' @ show_nat (Suc n) @ '' bytes'')),
           c\<lparr>qc_quiche := q'\<rparr>)
      | (Inl e, q') \<Rightarrow> (Inl (Quiche e), c\<lparr>qc_quiche := q'\<rparr>))"

definition stream_send_borrowed ::
  "'q quiche_api \<Rightarrow> stream_id \<Rightarrow> 'q quic_connection \<Rightarrow> byte list \<Rightarrow> bool \<Rightarrow> (native_error + nat) \<times> 'q quic_connection" where
  "stream_send_borrowed Q sid c d fin =
     (case q_stream_send Q (qc_quiche c) sid d fin of
        (Inr written, q') \<Rightarrow>
          let c1 = c\<lparr>qc_quiche := q'\<rparr>;
              c2 = (if written < length d then block_stream sid c1 else c1)
          in (Inr (if d = [] \<and> fin \<and> written = 0 then 1 else written), know_local Q sid c2)
      | (Inl QDone, q') \<Rightarrow> (Inr 0, block_stream sid (c\<lparr>qc_quiche := q'\<rparr>))
      | (Inl e, q') \<Rightarrow> (Inl (Quiche e), c\<lparr>qc_quiche := q'\<rparr>))"

definition quic_stream_close :: "'q quiche_api \<Rightarrow> stream_id \<Rightarrow> nat \<Rightarrow> 'q quic_connection \<Rightarrow> 'q quic_connection" where
  "quic_stream_close Q sid code c =
     (let q1 = q_stream_shutdown Q (qc_quiche c) sid shutdown_read code;
          q2 = q_stream_shutdown Q q1 sid shutdown_write code
      in forget_stream sid (c\<lparr>qc_quiche := q2, qc_blocked := unmark_blocked sid (qc_blocked c)\<rparr>))"

subsection \<open>Datagrams, closing, tickets\<close>

definition quic_send_datagram :: "'q quiche_api \<Rightarrow> byte list \<Rightarrow> 'q quic_connection \<Rightarrow> (native_error + unit) \<times> 'q quic_connection" where
  "quic_send_datagram Q d c =
     (case q_dgram_send Q (qc_quiche c) d of
        (Inl e, q') \<Rightarrow> (Inl (Quiche e), c\<lparr>qc_quiche := q'\<rparr>)
      | (Inr _, q') \<Rightarrow> (Inr (), c\<lparr>qc_quiche := q'\<rparr>))"

definition queue_datagram :: "'q quiche_api \<Rightarrow> chunk \<Rightarrow> 'q quic_connection \<Rightarrow> (native_error + bool) \<times> 'q quic_connection" where
  "queue_datagram Q ch c =
     (let d = arc_from_chunk ch in
      if q_dgram_queue_full Q (qc_quiche c) then
        (if MAX_OUTBOUND_DATAGRAM_QUEUE \<le> length (qc_outbound_datagrams c) then (Inr False, c)
         else (Inr True, c\<lparr>qc_outbound_datagrams := qc_outbound_datagrams c @ [d]\<rparr>))
      else case q_dgram_send Q (qc_quiche c) (arc_as_ref d) of
        (Inl e, q') \<Rightarrow> (Inl (Quiche e), c\<lparr>qc_quiche := q'\<rparr>)
      | (Inr _, q') \<Rightarrow> (Inr True, c\<lparr>qc_quiche := q'\<rparr>))"

fun drain_datagrams :: "'q quiche_api \<Rightarrow> 'q \<Rightarrow> arc_buf list \<Rightarrow> 'q \<times> arc_buf list" where
  "drain_datagrams Q q [] = (q, [])"
| "drain_datagrams Q q (d # ds) =
     (if q_dgram_queue_full Q q then (q, d # ds)
      else case q_dgram_send Q q (arc_as_ref d) of
        (Inl e, q') \<Rightarrow> (q', ds) | (Inr _, q') \<Rightarrow> drain_datagrams Q q' ds)"

definition drain_outbound_datagrams :: "'q quiche_api \<Rightarrow> 'q quic_connection \<Rightarrow> 'q quic_connection" where
  "drain_outbound_datagrams Q c =
     (case drain_datagrams Q (qc_quiche c) (qc_outbound_datagrams c) of
        (q', ds) \<Rightarrow> c\<lparr>qc_quiche := q', qc_outbound_datagrams := ds\<rparr>)"

definition close_event :: "'q quiche_api \<Rightarrow> 'q \<Rightarrow> conn_handle \<Rightarrow> js_event" where
  "close_event Q q h =
     (case (case q_peer_error Q q of Some e \<Rightarrow> Some e | None \<Rightarrow> q_local_error Q q) of
        Some (code, reason) \<Rightarrow> ev_session_close_with_error h code reason
      | None \<Rightarrow> if q_is_timed_out Q q then ev_session_close_with_error h 0 ''idle timeout''
                else ev_session_close h)"

definition quic_session_close_event :: "'q quiche_api \<Rightarrow> 'q quic_connection \<Rightarrow> conn_handle \<Rightarrow> js_event" where
  "quic_session_close_event Q c h = close_event Q (qc_quiche c) h"

definition ticket_update :: "byte list option \<Rightarrow> byte list option \<Rightarrow> byte list option \<times> byte list option" where
  "ticket_update session prev =
     (case session of
        None \<Rightarrow> (None, prev)
      | Some t \<Rightarrow> if prev = Some t then (None, prev) else (Some t, Some t))"

definition quic_update_session_ticket :: "'q quiche_api \<Rightarrow> 'q quic_connection \<Rightarrow> byte list option \<times> 'q quic_connection" where
  "quic_update_session_ticket Q c =
     (case ticket_update (q_session Q (qc_quiche c)) (qc_session_ticket c) of
        (r, t) \<Rightarrow> (r, c\<lparr>qc_session_ticket := t\<rparr>))"

subsection \<open>The send contract\<close>

lemma quiche_send_lawsD:
  assumes "quiche_send_laws Q sent finned"
  shows "q_stream_send_zc Q q sid buf fin = (Inr (n, None), q') \<Longrightarrow>
      n = remaining_len buf \<and> stream_sends_prefix sent finned sid (arc_as_ref buf) fin q q'"
    and "q_stream_send_zc Q q sid buf fin = (Inr (n, Some r), q') \<Longrightarrow>
      n \<le> remaining_len buf \<and> stream_sends_prefix sent finned sid (take n (arc_as_ref buf)) False q q'
        \<and> (arc_inv buf \<longrightarrow> arc_inv r \<and> arc_as_ref r = drop n (arc_as_ref buf)
             \<and> remaining_len r = remaining_len buf - n)"
    and "q_stream_send_zc Q q sid buf fin = (Inl e, q') \<Longrightarrow> sent q' = sent q \<and> finned q' = finned q"
    and "q_stream_send Q q sid [] True = (Inr n, q') \<Longrightarrow> stream_sends_prefix sent finned sid [] True q q'"
    and "q_stream_send Q q sid bs fin = (Inl e, q') \<Longrightarrow> sent q' = sent q \<and> finned q' = finned q"
    and "q_stream_capacity Q q sid = (c, q') \<Longrightarrow> sent q' = sent q \<and> finned q' = finned q"
  using assms unfolding quiche_send_laws_def by (meson)+

lemma conn_quiche_simps [simp]:
  "qc_quiche (know_local Q sid c) = qc_quiche c" "qc_quiche (block_stream sid c) = qc_quiche c"
  "qc_quiche (forget_stream sid c) = qc_quiche c"
  "qc_quiche (finish_stream Q sid c) = q_stream_shutdown Q (qc_quiche c) sid shutdown_read 0"
  by (simp_all add: know_local_def block_stream_def forget_stream_def finish_stream_def)

text \<open>
  What a send reports is what happened: the bytes and the FIN taken on this stream, the rest handed
  back, other streams untouched.
\<close>

definition send_reported ::
  "('q \<Rightarrow> stream_id \<Rightarrow> byte list) \<Rightarrow> ('q \<Rightarrow> stream_id \<Rightarrow> bool) \<Rightarrow> stream_id \<Rightarrow> 'q \<Rightarrow> arc_buf \<Rightarrow> bool \<Rightarrow> send_outcome \<Rightarrow> 'q \<Rightarrow> bool" where
  "send_reported sent finned sid q buf fin out q' \<longleftrightarrow>
     stream_sends_prefix sent finned sid (take (so_written out) (arc_as_ref buf)) (so_fin_accepted out) q q'
     \<and> (so_fin_accepted out \<longrightarrow> fin)
     \<and> (case so_remainder out of
          None \<Rightarrow> remaining_len buf \<le> so_written out
        | Some r \<Rightarrow> so_written out \<le> remaining_len buf \<and> \<not> so_fin_accepted out
            \<and> (arc_inv buf \<longrightarrow> arc_inv r \<and> arc_as_ref r = drop (so_written out) (arc_as_ref buf)
                 \<and> remaining_len r = remaining_len buf - so_written out))"

lemma sends_nothing: "sent q' = sent q \<Longrightarrow> finned q' = finned q \<Longrightarrow> stream_sends_prefix sent finned sid [] False q q'"
  by (simp add: stream_sends_prefix_def)

lemma sends_prefix_trans:
  "sent q1 = sent q \<Longrightarrow> finned q1 = finned q \<Longrightarrow> stream_sends_prefix sent finned sid bs f q1 q'
     \<Longrightarrow> stream_sends_prefix sent finned sid bs f q q'"
  by (simp add: stream_sends_prefix_def)

lemma remaining_len_zero: "remaining_len buf = 0 \<Longrightarrow> arc_as_ref buf = []"
  by (simp add: remaining_len_def arc_as_ref_def)

lemma arc_as_ref_le: "length (arc_as_ref buf) \<le> remaining_len buf"
  by (simp add: remaining_len_def arc_as_ref_def)

lemma send_zc_reported:
  assumes L: "quiche_send_laws Q sent finned" and s: "send_zc Q sid c buf fin = (Inr out, c')"
  shows "send_reported sent finned sid (qc_quiche c) buf fin out (qc_quiche c')"
proof -
  obtain r q' where r: "q_stream_send_zc Q (qc_quiche c) sid buf fin = (r, q')" by fastforce
  show ?thesis
  proof (cases r)
    case (Inl e)
    with r quiche_send_lawsD(3) [OF L] have "stream_sends_prefix sent finned sid [] False (qc_quiche c) q'"
      by (intro sends_nothing) blast+
    with Inl r s show ?thesis
      by (cases e) (auto simp: send_zc_def send_reported_def)
  next
    case (Inr p)
    obtain n rem where p: "p = (n, rem)" by (cases p)
    show ?thesis
    proof (cases rem)
      case None
      with quiche_send_lawsD(1) [OF L] r Inr p
      have "n = remaining_len buf" "stream_sends_prefix sent finned sid (arc_as_ref buf) fin (qc_quiche c) q'" by auto
      with None Inr p r s arc_as_ref_le [of buf] show ?thesis
        by (auto simp: send_zc_def send_reported_def Let_def)
    next
      case (Some b)
      with quiche_send_lawsD(2) [OF L] r Inr p
      have "n \<le> remaining_len buf" "stream_sends_prefix sent finned sid (take n (arc_as_ref buf)) False (qc_quiche c) q'"
        "arc_inv buf \<longrightarrow> arc_inv b \<and> arc_as_ref b = drop n (arc_as_ref buf) \<and> remaining_len b = remaining_len buf - n"
        by auto
      with Some Inr p r s show ?thesis
        by (auto simp: send_zc_def send_reported_def Let_def)
    qed
  qed
qed

lemma send_fin_only_reported:
  assumes L: "quiche_send_laws Q sent finned" and z: "remaining_len buf = 0"
    and s: "send_fin_only Q sid c buf = (Inr out, c')"
  shows "send_reported sent finned sid (qc_quiche c) buf True out (qc_quiche c')"
proof -
  obtain r q' where r: "q_stream_send Q (qc_quiche c) sid [] True = (r, q')" by fastforce
  note z' = z remaining_len_zero [OF z]
  show ?thesis
  proof (cases r)
    case (Inl e)
    with r quiche_send_lawsD(5) [OF L] have "stream_sends_prefix sent finned sid [] False (qc_quiche c) q'"
      by (intro sends_nothing) blast+
    with Inl r s z' show ?thesis
      by (cases e) (auto simp: send_fin_only_def send_reported_def)
  next
    case (Inr n)
    with r quiche_send_lawsD(4) [OF L] have "stream_sends_prefix sent finned sid [] True (qc_quiche c) q'" by blast
    with Inr r s z' show ?thesis by (auto simp: send_fin_only_def send_reported_def)
  qed
qed

lemma stream_send_reported:
  assumes L: "quiche_send_laws Q sent finned" and s: "stream_send_arcbuf Q sid c buf fin = (Inr out, c')"
  shows "send_reported sent finned sid (qc_quiche c) buf fin out (qc_quiche c')"
proof (cases "remaining_len buf = 0")
  case True
  show ?thesis
  proof (cases fin)
    case True
    with s send_fin_only_reported [OF L \<open>remaining_len buf = 0\<close>] \<open>remaining_len buf = 0\<close> show ?thesis
      by (auto simp: stream_send_arcbuf_def)
  next
    case False
    with s \<open>remaining_len buf = 0\<close> show ?thesis
      by (auto simp: stream_send_arcbuf_def send_reported_def intro: sends_nothing)
  qed
next
  case nz: False
  show ?thesis
  proof (cases "sid \<in> set (blocked_set (qc_blocked c))")
    case False
    with nz s send_zc_reported [OF L] show ?thesis by (simp add: stream_send_arcbuf_def)
  next
    case True
    obtain r q1 where r: "q_stream_capacity Q (qc_quiche c) sid = (r, q1)" by fastforce
    with quiche_send_lawsD(6) [OF L] have same: "sent q1 = sent (qc_quiche c)" "finned q1 = finned (qc_quiche c)" by blast+
    show ?thesis
    proof (cases "r = Inr 0")
      case True
      with nz s r \<open>sid \<in> _\<close> same show ?thesis
        by (auto simp: stream_send_arcbuf_def send_reported_def intro: sends_nothing)
    next
      case False
      then obtain cap where cap: "r = Inr cap" "cap \<noteq> 0"
        using nz s r \<open>sid \<in> _\<close> by (cases r) (auto simp: stream_send_arcbuf_def)
      with nz s r \<open>sid \<in> _\<close> have "send_zc Q sid (c\<lparr>qc_quiche := q1\<rparr>) buf fin = (Inr out, c')"
        by (simp add: stream_send_arcbuf_def)
      from send_zc_reported [OF L this] same show ?thesis
        by (auto simp: send_reported_def intro: sends_prefix_trans)
    qed
  qed
qed

lemma quic_stream_sender:
  assumes "quiche_send_laws Q sent finned"
  shows "stream_sender (stream_send_arcbuf Q sid) (\<lambda>c. sent (qc_quiche c) sid) (\<lambda>c. finned (qc_quiche c) sid)"
proof
  fix c buf fin out c' r
  assume s: "stream_send_arcbuf Q sid c buf fin = (Inr out, c')"
  note R = stream_send_reported [OF assms s, unfolded send_reported_def stream_sends_prefix_def]
  show "so_remainder out = None \<Longrightarrow> remaining_len buf \<le> so_written out" using R by simp
  show "so_remainder out = Some r \<Longrightarrow> arc_inv buf \<Longrightarrow> arc_inv r \<and> so_written out \<le> remaining_len buf
      \<and> arc_as_ref r = drop (so_written out) (arc_as_ref buf)
      \<and> remaining_len r = remaining_len buf - so_written out \<and> \<not> so_fin_accepted out"
    using R by simp
  show "so_fin_accepted out \<Longrightarrow> fin" using R by simp
  show "sent (qc_quiche c') sid = sent (qc_quiche c) sid @ take (so_written out) (arc_as_ref buf)" using R by simp
  show "finned (qc_quiche c') sid = (finned (qc_quiche c) sid \<or> so_fin_accepted out)" using R by simp
qed

subsection \<open>Delivery\<close>

text \<open>
  A polling step that moves budget into events: the bytes taken from the transport are exactly the
  bytes in the new events, stream by stream and in order, and the blocked streams are not touched.
\<close>

definition delivers ::
  "('q \<Rightarrow> stream_id \<Rightarrow> byte list) \<Rightarrow> conn_handle \<Rightarrow> 'q quic_connection \<Rightarrow> nat \<Rightarrow> js_event list
     \<Rightarrow> 'q quic_connection \<times> nat \<times> js_event list \<Rightarrow> bool" where
  "delivers received h c n ev r \<longleftrightarrow> (case r of (c', n', ev') \<Rightarrow>
     (\<exists>new. ev' = ev @ new \<and> n' + length new \<le> n
        \<and> (\<forall>s < 2 ^ 62. received (qc_quiche c') s = received (qc_quiche c) s @ stream_bytes h s new))
     \<and> qc_blocked c' = qc_blocked c \<and> qc_outbound_datagrams c' = qc_outbound_datagrams c)"

lemma delivers_refl: "delivers received h c n ev (c, n, ev)"
  by (simp add: delivers_def)

lemma delivers_one:
  assumes "n' < n" "qc_blocked c' = qc_blocked c" "qc_outbound_datagrams c' = qc_outbound_datagrams c"
    and "\<And>s. s < 2 ^ 62 \<Longrightarrow> received (qc_quiche c') s = received (qc_quiche c) s @ event_bytes h s e"
  shows "delivers received h c n ev (c', n', ev @ [e])"
  using assms by (auto simp: delivers_def)

lemma delivers_trans:
  assumes "delivers received h c n ev (c1, n1, ev1)" "delivers received h c1 n1 ev1 r"
  shows "delivers received h c n ev r"
proof -
  obtain c2 n2 ev2 where r: "r = (c2, n2, ev2)" by (cases r)
  from assms r obtain a b where "ev1 = ev @ a" "n1 + length a \<le> n" "ev2 = ev1 @ b" "n2 + length b \<le> n1"
    "\<forall>s < 2 ^ 62. received (qc_quiche c1) s = received (qc_quiche c) s @ stream_bytes h s a"
    "\<forall>s < 2 ^ 62. received (qc_quiche c2) s = received (qc_quiche c1) s @ stream_bytes h s b"
    by (auto simp: delivers_def)
  with assms r show ?thesis
    by (auto simp: delivers_def intro!: exI [of _ "a @ b"])
qed

lemma conn_frame_simps [simp]:
  "qc_blocked (forget_stream sid c) = qc_blocked c" "qc_blocked (finish_stream Q sid c) = qc_blocked c"
  "qc_outbound_datagrams (forget_stream sid c) = qc_outbound_datagrams c"
  "qc_outbound_datagrams (finish_stream Q sid c) = qc_outbound_datagrams c"
  by (simp_all add: forget_stream_def finish_stream_def)

lemma delivers_same_quiche:
  assumes "received (qc_quiche c') = received (qc_quiche c)" "qc_blocked c' = qc_blocked c"
    "qc_outbound_datagrams c' = qc_outbound_datagrams c" "n' \<le> n"
  shows "delivers received h c n ev (c', n', ev)"
  using assms by (auto simp: delivers_def intro!: exI [of _ "[]"])

lemma recv_loop_delivers:
  assumes L: "quiche_recv_laws Q received" and sid: "sid < 2 ^ 62"
  shows "delivers received h c n ev (recv_loop Q h sid n c ev)"
proof (induction n arbitrary: c ev)
  case 0
  then show ?case by (simp add: delivers_refl)
next
  case (Suc n)
  obtain r q' where r: "q_stream_recv Q (qc_quiche c) sid RECV_CHUNK = (r, q')" by fastforce
  note laws = recv_laws_simps [OF L]
  show ?case
  proof (cases r)
    case (Inl e)
    have same: "received q' = received (qc_quiche c)" using laws(2) r Inl by blast
    show ?thesis
    proof (cases "e = QDone")
      case True
      with same r Inl laws(3) show ?thesis
        by (auto simp: Let_def intro!: delivers_one delivers_same_quiche)
    next
      case False
      with same r Inl show ?thesis by (cases e) (auto intro!: delivers_one)
    qed
  next
    case (Inr p)
    obtain d fin where p: "p = (d, fin)" by (cases p)
    have rec: "received q' = (received (qc_quiche c))(sid := received (qc_quiche c) sid @ d)"
      using laws(1) r Inr p by blast
    have one: "delivers received h c (Suc n) ev (c1, n, ev @ [ev_data_event h sid d fin])"
      if "received (qc_quiche c1) = received q'" "qc_blocked c1 = qc_blocked c"
        "qc_outbound_datagrams c1 = qc_outbound_datagrams c" for c1
      using that rec sid as_i64_inject by (intro delivers_one) auto
    show ?thesis
    proof (cases "d = []")
      case True
      with rec r Inr p laws(3) show ?thesis
        by (auto simp: Let_def fun_upd_idem intro!: delivers_one delivers_same_quiche)
    next
      case False
      have "delivers received h (c\<lparr>qc_quiche := q'\<rparr>) n (ev @ [ev_data_event h sid d fin])
          (recv_loop Q h sid n (c\<lparr>qc_quiche := q'\<rparr>) (ev @ [ev_data_event h sid d fin]))" by (rule Suc)
      with one [of "c\<lparr>qc_quiche := q'\<rparr>"]
      have "delivers received h c (Suc n) ev
          (recv_loop Q h sid n (c\<lparr>qc_quiche := q'\<rparr>) (ev @ [ev_data_event h sid d fin]))"
        by (auto intro: delivers_trans)
      with False r Inr p one [of "finish_stream Q sid (c\<lparr>qc_quiche := q'\<rparr>)"] laws(3) show ?thesis
        by (auto simp: Let_def)
    qed
  qed
qed

lemma poll_new_stream_delivers:
  assumes L: "quiche_recv_laws Q received" and sid: "sid < 2 ^ 62" and n: "0 < n"
  shows "delivers received h c n ev (poll_new_stream Q h sid n c ev)"
proof -
  obtain r q' where r: "q_stream_recv Q (qc_quiche c) sid RECV_CHUNK = (r, q')" by fastforce
  note laws = recv_laws_simps [OF L]
  show ?thesis
  proof (cases r)
    case (Inl e)
    have same: "received q' = received (qc_quiche c)" using laws(2) r Inl by blast
    let ?c1 = "forget_stream sid (c\<lparr>qc_quiche := q'\<rparr>)"
    have first: "delivers received h c n ev (c1, n - 1, ev @ [ev_new_stream h sid])"
      if "c1 = c\<lparr>qc_quiche := q'\<rparr> \<or> c1 = ?c1" for c1
      using that same n by (intro delivers_one) auto
    show ?thesis
    proof (cases "e = QDone \<or> n - 1 = 0")
      case True
      with r Inl first [of "c\<lparr>qc_quiche := q'\<rparr>"] first [of ?c1] show ?thesis
        by (cases e) (auto simp: poll_new_stream_def Let_def)
    next
      case False
      then have "delivers received h ?c1 (n - 1) (ev @ [ev_new_stream h sid])
          (?c1, n - 2, (ev @ [ev_new_stream h sid]) @ [ev_error h (as_i64 sid) 0 (q_error_text Q e)])"
        by (intro delivers_one) auto
      from delivers_trans [OF first [of ?c1] this] r Inl False show ?thesis
        by (cases e) (auto simp: poll_new_stream_def Let_def)
    qed
  next
    case (Inr p)
    obtain d fin where p: "p = (d, fin)" by (cases p)
    have rec: "received q' = (received (qc_quiche c))(sid := received (qc_quiche c) sid @ d)"
      using laws(1) r Inr p by blast
    let ?ev = "ev @ [ev_new_stream_with_data h sid d fin]"
    have one: "delivers received h c n ev (c1, n - 1, ?ev)"
      if "received (qc_quiche c1) = received q'" "qc_blocked c1 = qc_blocked c"
        "qc_outbound_datagrams c1 = qc_outbound_datagrams c" for c1
      using that rec sid as_i64_inject n by (intro delivers_one) auto
    have "delivers received h (c\<lparr>qc_quiche := q'\<rparr>) (n - 1) ?ev (recv_loop Q h sid (n - 1) (c\<lparr>qc_quiche := q'\<rparr>) ?ev)"
      by (rule recv_loop_delivers [OF L sid])
    with one [of "c\<lparr>qc_quiche := q'\<rparr>"]
    have "delivers received h c n ev (recv_loop Q h sid (n - 1) (c\<lparr>qc_quiche := q'\<rparr>) ?ev)"
      by (auto intro: delivers_trans)
    with one [of "finish_stream Q sid (c\<lparr>qc_quiche := q'\<rparr>)"] r Inr p laws(3) show ?thesis
      by (auto simp: poll_new_stream_def Let_def)
  qed
qed

lemma poll_stream_delivers:
  assumes L: "quiche_recv_laws Q received" and sid: "sid < 2 ^ 62" and n: "0 < n"
  shows "delivers received h c n ev (poll_stream Q h sid n c ev)"
proof -
  let ?c = "c\<lparr>qc_known_streams := snd (hs_insert sid (qc_known_streams c))\<rparr>"
  have "delivers received h ?c n ev (poll_stream Q h sid n c ev)"
    using poll_new_stream_delivers [OF L sid n, of h ?c ev] recv_loop_delivers [OF L sid, of h ?c n ev]
    by (auto simp: poll_stream_def Let_def split: prod.splits)
  then show ?thesis by (simp add: delivers_def)
qed

lemma poll_readable_delivers:
  assumes L: "quiche_recv_laws Q received" and sids: "\<forall>sid \<in> set sids. sid < 2 ^ 62"
  shows "delivers received h c n ev (poll_readable Q h sids n c ev)"
  using sids
proof (induction sids arbitrary: n c ev)
  case Nil
  then show ?case by (simp add: delivers_refl)
next
  case (Cons sid sids)
  obtain c1 n1 ev1 where p: "poll_stream Q h sid n c ev = (c1, n1, ev1)" by (cases "poll_stream Q h sid n c ev")
  show ?case
  proof (cases "n = 0")
    case False
    with poll_stream_delivers [OF L, of sid n h c ev] p Cons
    show ?thesis by (auto intro: delivers_trans)
  qed (simp add: delivers_refl)
qed

lemma poll_datagrams_delivers:
  assumes L: "quiche_recv_laws Q received"
  shows "poll_datagram_events Q h n q ev = (q', ev') \<Longrightarrow> received q' = received q
    \<and> (\<exists>new. ev' = ev @ new \<and> length new \<le> n \<and> (\<forall>s. stream_bytes h s new = []))"
proof (induction n arbitrary: q ev)
  case (Suc n)
  obtain r q1 where r: "q_dgram_recv Q q = (r, q1)" by fastforce
  note rec = recv_laws_simps(5) [OF L r]
  show ?case
  proof (cases r)
    case (Inr d)
    with Suc.prems r have "poll_datagram_events Q h n q1 (ev @ [ev_datagram h d]) = (q', ev')" by simp
    from Suc.IH [OF this] rec show ?thesis by fastforce
  qed (use Suc.prems r rec in auto)
qed simp

lemma wakes_no_bytes: "list_all2 (wakes h) ids new \<Longrightarrow> stream_bytes h s new = []"
  by (induction rule: list_all2_induct) (auto simp: wakes_def)

lemma probe_blocked_received:
  assumes L: "quiche_recv_laws Q received"
  shows "probe_blocked Q h n q b ev = (q', b', ev') \<Longrightarrow> received q' = received q"
proof (induction n arbitrary: q b ev)
  case (Suc n)
  show ?case
  proof (cases "blocked_queue b")
    case (Cons sid rest)
    obtain r q1 where r: "q_stream_capacity Q q sid = (r, q1)" by fastforce
    have "received q1 = received q" by (rule recv_laws_simps(4) [OF L r])
    with Suc r Cons show ?thesis by (auto split: sum.splits if_splits)
  qed (use Suc.prems in simp)
qed simp

text \<open>
  C6. Polling a QUIC connection delivers stream data exactly. Whatever the budget, the bytes a poll
  takes from the transport on a stream are the bytes its events carry for that stream, complete and
  in order; it pushes at most as many application events as the budget allows; and after them it
  wakes some of the blocked streams, each once by a drain or an error event, while the others stay
  queued in their order.
\<close>

theorem quic_poll_delivers_exactly:
  assumes L: "quiche_recv_laws Q received" and inv: "blocked_inv (qc_blocked c)"
    and p: "poll_quic_events Q h budget c ev = (c', ev')"
  shows "\<exists>app woken wakeups. ev' = ev @ app @ wakeups \<and> length app \<le> budget
    \<and> (\<forall>s < 2 ^ 62. received (qc_quiche c') s = received (qc_quiche c) s @ stream_bytes h s app)
    \<and> list_all2 (wakes h) woken wakeups \<and> distinct woken \<and> set woken \<subseteq> set (blocked_queue (qc_blocked c))
    \<and> blocked_queue (qc_blocked c') = filter (\<lambda>s. s \<notin> set woken) (blocked_queue (qc_blocked c))
    \<and> blocked_inv (qc_blocked c')"
proof -
  have drain: "\<exists>woken wakeups. ev' = ev1 @ wakeups \<and> list_all2 (wakes h) woken wakeups \<and> distinct woken
      \<and> set woken \<subseteq> set (blocked_queue (qc_blocked c))
      \<and> blocked_queue (qc_blocked c') = filter (\<lambda>s. s \<notin> set woken) (blocked_queue (qc_blocked c))
      \<and> blocked_inv (qc_blocked c') \<and> received (qc_quiche c') = received (qc_quiche c1)"
    if de: "quic_poll_drain_events Q h c1 ev1 = (c', ev')" and bl: "qc_blocked c1 = qc_blocked c" for c1 ev1
  proof -
    obtain q2 b2 where pr: "probe_blocked Q h (length (blocked_queue (qc_blocked c))) (qc_quiche c1) (qc_blocked c) ev1
        = (q2, b2, ev')" and c': "c' = c1\<lparr>qc_quiche := q2, qc_blocked := b2\<rparr>"
      using de bl by (auto simp: quic_poll_drain_events_def split: prod.splits)
    from probe_blocked_spec [OF pr inv, of "blocked_queue (qc_blocked c)" "[]"] probe_blocked_received [OF L pr] c'
    show ?thesis by auto
  qed
  show ?thesis
  proof (cases "budget = 0")
    case True
    with p drain [of c ev] obtain woken wakeups where "ev' = ev @ wakeups" "list_all2 (wakes h) woken wakeups"
      "distinct woken" "set woken \<subseteq> set (blocked_queue (qc_blocked c))"
      "blocked_queue (qc_blocked c') = filter (\<lambda>s. s \<notin> set woken) (blocked_queue (qc_blocked c))"
      "blocked_inv (qc_blocked c')" "received (qc_quiche c') = received (qc_quiche c)"
      by (auto simp: poll_quic_events_def)
    then show ?thesis by (intro exI [of _ "[]"] exI [of _ woken] exI [of _ wakeups]) auto
  next
    case False
    obtain c1 n ev1 where r: "poll_readable Q h (q_readable Q (qc_quiche c)) budget c ev = (c1, n, ev1)"
      by (cases "poll_readable Q h (q_readable Q (qc_quiche c)) budget c ev")
    obtain q2 ev2 where d: "poll_datagram_events Q h n (qc_quiche c1) ev1 = (q2, ev2)" by fastforce
    have pd: "quic_poll_drain_events Q h (c1\<lparr>qc_quiche := q2\<rparr>) ev2 = (c', ev')"
      using p r d False by (simp add: poll_quic_events_def)
    have "\<forall>sid \<in> set (q_readable Q (qc_quiche c)). sid < 2 ^ 62" using recv_laws_simps(6) [OF L] by blast
    from poll_readable_delivers [OF L this, of h c budget ev] r obtain a where
      a: "ev1 = ev @ a" "n + length a \<le> budget" "qc_blocked c1 = qc_blocked c"
        "\<forall>s < 2 ^ 62. received (qc_quiche c1) s = received (qc_quiche c) s @ stream_bytes h s a"
      by (auto simp: delivers_def)
    from poll_datagrams_delivers [OF L d] obtain b where
      b: "ev2 = ev1 @ b" "length b \<le> n" "\<forall>s. stream_bytes h s b = []" "received q2 = received (qc_quiche c1)" by auto
    from drain [OF pd] a(3) obtain woken wakeups where "ev' = ev2 @ wakeups" "list_all2 (wakes h) woken wakeups"
      "distinct woken" "set woken \<subseteq> set (blocked_queue (qc_blocked c))"
      "blocked_queue (qc_blocked c') = filter (\<lambda>s. s \<notin> set woken) (blocked_queue (qc_blocked c))"
      "blocked_inv (qc_blocked c')" "received (qc_quiche c') = received q2" by auto
    with a b show ?thesis by (intro exI [of _ "a @ b"] exI [of _ woken] exI [of _ wakeups]) auto
  qed
qed

definition sample_quic :: "loopback quic_connection" where
  "sample_quic = quic_connection_new (lb_empty\<lparr>lb_in := (\<lambda>_. [])(4 := [7, 8]), lb_ready := [4]\<rparr>) [] 0"

theorem quic_poll_delivers_exactly_witness:
  "\<exists>app. snd (poll_quic_events loopback_api 1 8 sample_quic []) = app \<and> length app \<le> 8
     \<and> lb_got (qc_quiche (fst (poll_quic_events loopback_api 1 8 sample_quic []))) 4 = stream_bytes 1 4 app"
proof -
  obtain c' ev' where p: "poll_quic_events loopback_api 1 8 sample_quic [] = (c', ev')" by fastforce
  have b: "qc_blocked sample_quic = blocked_new" "lb_got (qc_quiche sample_quic) 4 = []"
    by (simp_all add: sample_quic_def quic_connection_new_def lb_empty_def)
  from quic_poll_delivers_exactly [OF loopback_recv_laws _ p] b obtain app woken wakeups where
    "ev' = app @ wakeups" "length app \<le> 8" "lb_got (qc_quiche c') 4 = stream_bytes 1 4 app"
    "list_all2 (wakes 1) woken wakeups" "set woken \<subseteq> set (blocked_queue blocked_new)"
    by auto
  then show ?thesis using p by (auto simp: blocked_new_def)
qed

subsection \<open>Runs of a connection\<close>

text \<open>Everything the worker does to a connection, as one step relation.\<close>

inductive quic_step :: "'q quiche_api \<Rightarrow> 'q quic_connection \<Rightarrow> 'q quic_connection \<Rightarrow> bool" for Q where
  recv: "quic_step Q c (snd (quic_recv Q c buf))"
| send: "quic_step Q c (snd (quic_send Q c n))"
| ping: "quic_step Q c (snd (quic_queue_ping Q now c))"
| ping_acks: "quic_step Q c (snd (quic_poll_ping_acks Q now c))"
| established: "quic_step Q c (quic_mark_established now c)"
| poll: "quic_step Q c (fst (poll_quic_events Q h budget c ev))"
| drain: "quic_step Q c (fst (quic_poll_drain_events Q h c ev))"
| sweep: "quic_step Q c (fst (sweep_finished_streams Q h budget c ev))"
| stream_send: "quic_step Q c (snd (stream_send_arcbuf Q sid c buf fin))"
| stream_send_borrowed: "quic_step Q c (snd (stream_send_borrowed Q sid c d fin))"
| reserve: "quic_step Q c (snd (reserve_local_bidi_stream Q sid c))"
| close: "quic_step Q c (quic_stream_close Q sid code c)"
| datagram: "quic_step Q c (snd (queue_datagram Q ch c))"
| drain_datagrams: "quic_step Q c (drain_outbound_datagrams Q c)"
| ticket: "quic_step Q c (snd (quic_update_session_ticket Q c))"

inductive quic_reach :: "'q quiche_api \<Rightarrow> 'q quic_connection \<Rightarrow> bool" for Q where
  new: "quic_reach Q (quic_connection_new q cid now)"
| step: "quic_reach Q c \<Longrightarrow> quic_step Q c c' \<Longrightarrow> quic_reach Q c'"

definition quic_inv :: "'q quic_connection \<Rightarrow> bool" where
  "quic_inv c \<longleftrightarrow> blocked_inv (qc_blocked c) \<and> distinct (qc_known_streams c) \<and> distinct (qc_pending_fin c)
     \<and> length (qc_outbound_datagrams c) \<le> MAX_OUTBOUND_DATAGRAM_QUEUE"

lemma quic_inv_frame [simp]:
  "quic_inv (c\<lparr>qc_quiche := q\<rparr>) = quic_inv c"
  "quic_inv (c\<lparr>qc_metrics := m\<rparr>) = quic_inv c"
  "quic_inv (c\<lparr>qc_ping_state := ps\<rparr>) = quic_inv c"
  "quic_inv (c\<lparr>qc_session_ticket := t\<rparr>) = quic_inv c"
  "quic_inv (c\<lparr>qc_is_established := e\<rparr>) = quic_inv c"
  by (simp_all add: quic_inv_def)

lemma quic_inv_fields [simp]:
  "quic_inv c \<Longrightarrow> quic_inv (forget_stream sid c)"
  "quic_inv c \<Longrightarrow> quic_inv (finish_stream Q sid c)"
  "quic_inv c \<Longrightarrow> quic_inv (know_local Q sid c)"
  "quic_inv c \<Longrightarrow> quic_inv (block_stream sid c)"
  "quic_inv c \<Longrightarrow> quic_inv (c\<lparr>qc_pending_fin := snd (hs_remove sid (qc_pending_fin c))\<rparr>)"
  "quic_inv c \<Longrightarrow> quic_inv (c\<lparr>qc_pending_fin := snd (hs_insert sid (qc_pending_fin c))\<rparr>)"
  "quic_inv c \<Longrightarrow> quic_inv (c\<lparr>qc_known_streams := snd (hs_insert sid (qc_known_streams c))\<rparr>)"
  by (auto simp: quic_inv_def forget_stream_def finish_stream_def know_local_def block_stream_def)

lemma quic_inv_quiche_pending [simp]:
  "quic_inv c \<Longrightarrow> quic_inv (c\<lparr>qc_quiche := q, qc_pending_fin := snd (hs_remove sid (qc_pending_fin c))\<rparr>)"
  "quic_inv c \<Longrightarrow> quic_inv (c\<lparr>qc_quiche := q, qc_pending_fin := snd (hs_insert sid (qc_pending_fin c))\<rparr>)"
  "quic_inv c \<Longrightarrow> quic_inv (c\<lparr>qc_quiche := q, qc_known_streams := snd (hs_insert sid (qc_known_streams c))\<rparr>)"
  by (auto simp: quic_inv_def)

lemma quic_inv_recv_loop: "quic_inv c \<Longrightarrow> quic_inv (fst (recv_loop Q h sid n c ev))"
proof (induction n arbitrary: c ev)
  case (Suc n)
  obtain r q' where "q_stream_recv Q (qc_quiche c) sid RECV_CHUNK = (r, q')" by fastforce
  with Suc show ?case
    by (cases r) (auto simp: Let_def split: quiche_error.splits)
qed simp

lemma quic_inv_poll_stream: "quic_inv c \<Longrightarrow> quic_inv (fst (poll_stream Q h sid n c ev))"
proof -
  assume "quic_inv c"
  then have k: "quic_inv (c\<lparr>qc_known_streams := snd (hs_insert sid (qc_known_streams c))\<rparr>)" (is "quic_inv ?c") by simp
  obtain r q' where "q_stream_recv Q (qc_quiche ?c) sid RECV_CHUNK = (r, q')" by fastforce
  with k have "quic_inv (fst (poll_new_stream Q h sid n ?c ev))"
    by (cases r) (auto simp: poll_new_stream_def Let_def quic_inv_recv_loop split: quiche_error.splits)
  with k show ?thesis
    by (auto simp: poll_stream_def Let_def quic_inv_recv_loop split: prod.splits)
qed

lemma quic_inv_poll_readable: "quic_inv c \<Longrightarrow> quic_inv (fst (poll_readable Q h sids n c ev))"
proof (induction Q h sids n c ev rule: poll_readable.induct)
  case (2 Q h sid sids n c ev)
  obtain c1 n1 ev1 where "poll_stream Q h sid n c ev = (c1, n1, ev1)" by (cases "poll_stream Q h sid n c ev")
  with 2 quic_inv_poll_stream [of c Q h sid n ev] show ?case by simp
qed simp

lemma quic_inv_drain: "quic_inv c \<Longrightarrow> quic_inv (fst (quic_poll_drain_events Q h c ev))"
proof -
  assume inv: "quic_inv c"
  obtain q b ev' where p: "probe_blocked Q h (length (blocked_queue (qc_blocked c))) (qc_quiche c) (qc_blocked c) ev = (q, b, ev')"
    by (cases "probe_blocked Q h (length (blocked_queue (qc_blocked c))) (qc_quiche c) (qc_blocked c) ev")
  with inv probe_blocked_spec [OF p, of "blocked_queue (qc_blocked c)" "[]"] show ?thesis
    by (auto simp: quic_poll_drain_events_def quic_inv_def)
qed

lemma quic_inv_poll: "quic_inv c \<Longrightarrow> quic_inv (fst (poll_quic_events Q h budget c ev))"
proof -
  assume inv: "quic_inv c"
  obtain c1 n ev1 where r: "poll_readable Q h (q_readable Q (qc_quiche c)) budget c ev = (c1, n, ev1)"
    by (cases "poll_readable Q h (q_readable Q (qc_quiche c)) budget c ev")
  obtain q2 ev2 where "poll_datagram_events Q h n (qc_quiche c1) ev1 = (q2, ev2)" by fastforce
  with inv r quic_inv_poll_readable [OF inv, of Q h "q_readable Q (qc_quiche c)" budget ev] show ?thesis
    by (simp add: poll_quic_events_def quic_inv_drain)
qed

lemma quic_inv_sweep: "quic_inv c \<Longrightarrow> quic_inv (fst (sweep_finished_streams Q h budget c ev))"
proof -
  have "quic_inv c \<Longrightarrow> quic_inv (fst (sweep_streams Q h sids c ev))" for sids
    by (induction Q h sids c ev rule: sweep_streams.induct) (auto simp: Let_def)
  then show "quic_inv c \<Longrightarrow> ?thesis" by (simp add: sweep_finished_streams_def)
qed

lemma quic_inv_send_zc: "quic_inv c \<Longrightarrow> quic_inv (snd (send_zc Q sid c buf fin))"
  by (auto simp: send_zc_def Let_def split: prod.splits sum.splits quiche_error.splits)

lemma quic_inv_send_fin_only: "quic_inv c \<Longrightarrow> quic_inv (snd (send_fin_only Q sid c buf))"
  by (auto simp: send_fin_only_def split: prod.splits sum.splits quiche_error.splits)

lemma quic_inv_stream_send: "quic_inv c \<Longrightarrow> quic_inv (snd (stream_send_arcbuf Q sid c buf fin))"
  by (auto simp: stream_send_arcbuf_def quic_inv_send_zc quic_inv_send_fin_only split: prod.splits sum.splits)

lemma drain_datagrams_len: "length (snd (drain_datagrams Q q ds)) \<le> length ds"
  by (induction Q q ds rule: drain_datagrams.induct) (fastforce split: prod.splits sum.splits)+

lemma quic_inv_step: "quic_step Q c c' \<Longrightarrow> quic_inv c \<Longrightarrow> quic_inv c'"
proof (induction rule: quic_step.induct)
  case (recv c buf)
  then show ?case by (auto simp: quic_recv_def split: prod.splits sum.splits)
next
  case (send c n)
  then show ?case by (auto simp: quic_send_def split: prod.splits sum.splits)
next
  case (ping c now)
  then show ?case by (auto simp: quic_queue_ping_def split: prod.splits sum.splits)
next
  case (ping_acks c now)
  then show ?case by (auto simp: quic_poll_ping_acks_def split: prod.splits)
next
  case (stream_send_borrowed c sid d fin)
  then show ?case
    by (auto simp: stream_send_borrowed_def Let_def split: prod.splits sum.splits quiche_error.splits)
next
  case (reserve c sid)
  then show ?case
    by (auto simp: reserve_local_bidi_stream_def split: prod.splits sum.splits nat.splits)
next
  case (close c sid code)
  then show ?case by (auto simp: quic_stream_close_def Let_def forget_stream_def quic_inv_def)
next
  case (datagram c ch)
  then show ?case
    by (auto simp: queue_datagram_def Let_def quic_inv_def split: prod.splits sum.splits)
next
  case (drain_datagrams c)
  then show ?case
    using drain_datagrams_len [of Q "qc_quiche c" "qc_outbound_datagrams c"]
    by (auto simp: drain_outbound_datagrams_def quic_inv_def split: prod.splits)
next
  case (ticket c)
  then show ?case by (auto simp: quic_update_session_ticket_def split: prod.splits)
qed (auto simp: quic_mark_established_def quic_inv_poll quic_inv_drain quic_inv_sweep quic_inv_stream_send)

text \<open>
  C26. The bookkeeping of a QUIC connection stays consistent over any run. Whatever sequence of
  packets, polls, writes, resets and datagrams a connection sees, with any transport, a blocked
  stream is in the queue exactly once and in the set, no stream is tracked twice, and at most 64
  datagrams wait.
\<close>

theorem quic_connection_invariant:
  assumes "quic_reach Q c"
  shows "distinct (blocked_queue (qc_blocked c)) \<and> set (blocked_queue (qc_blocked c)) = set (blocked_set (qc_blocked c))
    \<and> distinct (qc_known_streams c) \<and> distinct (qc_pending_fin c) \<and> length (qc_outbound_datagrams c) \<le> 64"
proof -
  have "quic_inv c"
    using assms
  proof induction
    case (new q cid now)
    then show ?case by (simp add: quic_inv_def quic_connection_new_def)
  qed (rule quic_inv_step)
  then show ?thesis by (simp add: quic_inv_def blocked_inv_def MAX_OUTBOUND_DATAGRAM_QUEUE_def)
qed

theorem quic_connection_invariant_witness:
  "distinct (blocked_queue (qc_blocked (snd (stream_send_arcbuf loopback_api 4 sample_quic (arc_from_vec (vec_of_slice [1])) False))))"
proof -
  have "quic_reach loopback_api sample_quic" unfolding sample_quic_def by (rule quic_reach.new)
  then have "quic_reach loopback_api (snd (stream_send_arcbuf loopback_api 4 sample_quic (arc_from_vec (vec_of_slice [1])) False))"
    by (rule quic_reach.step) (rule quic_step.stream_send)
  from quic_connection_invariant [OF this] show ?thesis by blast
qed

end
