(* ===== verification/H3_Connection.thy ===== *)
theory H3_Connection
  imports Quic_Connection
begin

text \<open>
  An HTTP/3 connection: \<^verbatim>\<open>connection.rs\<close>. The HTTP/3 layer of quiche is the parameter \<open>H\<close>, the
  transport under it \<open>Q\<close>; an HTTP/3 call works on both. Receive buffers come from the connection's
  pool and go back to it, which is the buffer-pool component; here such a buffer is its bytes and
  its target length. Telemetry and qlog are left out.
\<close>

datatype h3_event =
    H3Headers "(byte list \<times> byte list) list" bool
  | H3Data
  | H3Finished
  | H3Reset nat
  | H3PriorityUpdate
  | H3GoAway

type_synonym h3_header = "byte list \<times> byte list"

text \<open>The HTTP/3 library; \<open>h3_text\<close> is \<^verbatim>\<open>String::from_utf8_lossy\<close>. \<open>h3_send_body_zc\<close> also returns the
  buffer it was lent.\<close>

record ('h, 'q) h3_api =
  h3_with_transport :: "nat option \<Rightarrow> nat option \<Rightarrow> 'q \<Rightarrow> (h3_error + 'h) \<times> 'q"
  h3_poll :: "'h \<Rightarrow> 'q \<Rightarrow> (h3_error + stream_id \<times> h3_event) \<times> 'h \<times> 'q"
  h3_recv_body :: "'h \<Rightarrow> 'q \<Rightarrow> stream_id \<Rightarrow> nat \<Rightarrow> (h3_error + byte list) \<times> 'h \<times> 'q"
  h3_send_response :: "'h \<Rightarrow> 'q \<Rightarrow> stream_id \<Rightarrow> h3_header list \<Rightarrow> bool \<Rightarrow> (h3_error + unit) \<times> 'h \<times> 'q"
  h3_send_request :: "'h \<Rightarrow> 'q \<Rightarrow> h3_header list \<Rightarrow> bool \<Rightarrow> (h3_error + stream_id) \<times> 'h \<times> 'q"
  h3_send_fin :: "'h \<Rightarrow> 'q \<Rightarrow> stream_id \<Rightarrow> (h3_error + nat) \<times> 'h \<times> 'q"
  h3_send_body_zc :: "'h \<Rightarrow> 'q \<Rightarrow> stream_id \<Rightarrow> arc_buf \<Rightarrow> bool \<Rightarrow> (h3_error + nat) \<times> arc_buf \<times> 'h \<times> 'q"
  h3_send_trailers :: "'h \<Rightarrow> 'q \<Rightarrow> stream_id \<Rightarrow> h3_header list \<Rightarrow> (h3_error + unit) \<times> 'h \<times> 'q"
  h3_send_goaway :: "'h \<Rightarrow> 'q \<Rightarrow> nat \<Rightarrow> (h3_error + unit) \<times> 'h \<times> 'q"
  h3_peer_settings :: "'h \<Rightarrow> (nat \<times> nat) list option"
  h3_error_text :: "h3_error \<Rightarrow> string"
  h3_text :: "byte list \<Rightarrow> string"

definition H3_RECV_CHUNK :: nat where "H3_RECV_CHUNK = 64 * 1024"

record pending_recv_body =
  pb_bytes :: "byte list"
  pb_target :: nat

definition pb_is_full :: "pending_recv_body \<Rightarrow> bool" where
  "pb_is_full pb \<longleftrightarrow> pb_target pb \<le> length (pb_bytes pb)"

definition pb_remaining :: "pending_recv_body \<Rightarrow> nat" where
  "pb_remaining pb = pb_target pb - length (pb_bytes pb)"

record ('h, 'q) h3_connection =
  hc_quiche :: 'q
  hc_h3 :: "'h option"
  hc_conn_id :: "byte list"
  hc_created_at :: instant
  hc_is_established :: bool
  hc_handshake_complete_emitted :: bool
  hc_metrics :: connection_metrics
  hc_blocked :: blocked_streams
  hc_session_ticket :: "byte list option"
  hc_qpack_max_table_capacity :: "nat option"
  hc_qpack_blocked_streams :: "nat option"
  hc_next_request_hint :: nat
  hc_largest_accepted :: "nat option"
  hc_pending_body :: "(stream_id, pending_recv_body) hashmap"
  hc_stream_read_window :: "nat option"
  hc_read_credit :: "(stream_id, nat) hashmap"
  hc_pending_readable :: "stream_id list"
  hc_trailer_fin :: "stream_id list"
  hc_ping_state :: ping_state

definition h3_connection_new ::
  "'q \<Rightarrow> byte list \<Rightarrow> instant \<Rightarrow> nat option \<Rightarrow> nat option \<Rightarrow> ('h, 'q) h3_connection" where
  "h3_connection_new q cid now qcap qblocked =
     \<lparr>hc_quiche = q, hc_h3 = None, hc_conn_id = cid, hc_created_at = now, hc_is_established = False,
      hc_handshake_complete_emitted = False, hc_metrics = connection_metrics_new, hc_blocked = blocked_new,
      hc_session_ticket = None, hc_qpack_max_table_capacity = qcap, hc_qpack_blocked_streams = qblocked,
      hc_next_request_hint = 0, hc_largest_accepted = None, hc_pending_body = [],
      hc_stream_read_window = None, hc_read_credit = [], hc_pending_readable = [], hc_trailer_fin = [],
      hc_ping_state = []\<rparr>"

definition h3_recv :: "'q quiche_api \<Rightarrow> ('h, 'q) h3_connection \<Rightarrow> byte list \<Rightarrow> (native_error + nat) \<times> ('h, 'q) h3_connection" where
  "h3_recv Q c buf =
     (case q_recv Q (hc_quiche c) buf of
        (Inl e, q') \<Rightarrow> (Inl (Quiche e), c\<lparr>hc_quiche := q'\<rparr>)
      | (Inr len, q') \<Rightarrow>
          (Inr len, c\<lparr>hc_quiche := q', hc_metrics := (hc_metrics c)
             \<lparr>packets_in := packets_in (hc_metrics c) + 1, bytes_in := bytes_in (hc_metrics c) + len\<rparr>\<rparr>))"

definition h3_send :: "'q quiche_api \<Rightarrow> ('h, 'q) h3_connection \<Rightarrow> nat \<Rightarrow> (native_error + byte list \<times> socket_addr) \<times> ('h, 'q) h3_connection" where
  "h3_send Q c out_len =
     (case q_send Q (hc_quiche c) out_len of
        (Inl e, q') \<Rightarrow> (Inl (Quiche e), c\<lparr>hc_quiche := q'\<rparr>)
      | (Inr (pkt, to), q') \<Rightarrow>
          (Inr (pkt, to), c\<lparr>hc_quiche := q', hc_metrics := (hc_metrics c)
             \<lparr>packets_out := packets_out (hc_metrics c) + 1, bytes_out := bytes_out (hc_metrics c) + length pkt\<rparr>\<rparr>))"

definition init_h3 :: "('h, 'q) h3_api \<Rightarrow> instant \<Rightarrow> ('h, 'q) h3_connection \<Rightarrow> (native_error + unit) \<times> ('h, 'q) h3_connection" where
  "init_h3 H now c =
     (if hc_h3 c \<noteq> None then (Inr (), c)
      else case h3_with_transport H (hc_qpack_max_table_capacity c) (hc_qpack_blocked_streams c) (hc_quiche c) of
        (Inl e, q') \<Rightarrow> (Inl (H3 e), c\<lparr>hc_quiche := q'\<rparr>)
      | (Inr h, q') \<Rightarrow>
          (Inr (), c\<lparr>hc_quiche := q', hc_h3 := Some h, hc_is_established := True,
                     hc_metrics := (hc_metrics c)\<lparr>handshake_complete_at := Some now\<rparr>\<rparr>))"

definition add_read_credit :: "stream_id \<Rightarrow> nat \<Rightarrow> ('h, 'q) h3_connection \<Rightarrow> ('h, 'q) h3_connection" where
  "add_read_credit sid bytes c =
     (case (hc_stream_read_window c, hm_get (hc_read_credit c) sid) of
        (Some window, Some credit) \<Rightarrow>
          c\<lparr>hc_read_credit := hm_insert sid (min (saturating_add credit bytes) window) (hc_read_credit c)\<rparr>
      | _ \<Rightarrow> c)"

subsection \<open>Body events\<close>

definition take_pending_body_event ::
  "conn_handle \<Rightarrow> stream_id \<Rightarrow> ('h, 'q) h3_connection \<Rightarrow> js_event option \<times> ('h, 'q) h3_connection" where
  "take_pending_body_event h sid c =
     (case hm_get (hc_pending_body c) sid of
        None \<Rightarrow> (None, c)
      | Some pb \<Rightarrow>
          let c' = c\<lparr>hc_pending_body := hm_remove sid (hc_pending_body c)\<rparr>
          in if pb_bytes pb = [] then (None, c') else (Some (ev_data_event h sid (pb_bytes pb) False), c'))"

text \<open>The flag says whether an event was pushed; folding it into the HEADERS event before does not count.\<close>

definition push_or_coalesce :: "js_event \<Rightarrow> js_event list \<Rightarrow> bool \<times> js_event list" where
  "push_or_coalesce e ev =
     (if ev = [] then (True, [e])
      else case try_coalesce_following_data (last ev) e of
        Some l \<Rightarrow> (False, butlast ev @ [l]) | None \<Rightarrow> (True, ev @ [e]))"

definition push_pending_body_event ::
  "conn_handle \<Rightarrow> stream_id \<Rightarrow> ('h, 'q) h3_connection \<Rightarrow> js_event list
     \<Rightarrow> bool \<times> ('h, 'q) h3_connection \<times> js_event list" where
  "push_pending_body_event h sid c ev =
     (case take_pending_body_event h sid c of
        (None, c') \<Rightarrow> (False, c', ev)
      | (Some e, c') \<Rightarrow> (case push_or_coalesce e ev of (p, ev') \<Rightarrow> (p, c', ev')))"

definition credit_of :: "('h, 'q) h3_connection \<Rightarrow> stream_id \<Rightarrow> nat" where
  "credit_of c sid = (case hm_get (hc_read_credit c) sid of None \<Rightarrow> usize_max | Some k \<Rightarrow> k)"

definition spend_credit :: "stream_id \<Rightarrow> nat \<Rightarrow> ('h, 'q) h3_connection \<Rightarrow> ('h, 'q) h3_connection" where
  "spend_credit sid n c =
     (case hm_get (hc_read_credit c) sid of
        None \<Rightarrow> c | Some k \<Rightarrow> c\<lparr>hc_read_credit := hm_insert sid (saturating_sub k n) (hc_read_credit c)\<rparr>)"

text \<open>
  Filling the stream's receive buffer: read until the buffer is full, the current frame is drained,
  nothing comes, or an error. Each turn that goes on has added bytes, so the space left shrinks.
\<close>

datatype fill_result = FillStopped | FillDrained | FillError string

function fill_body ::
  "('h, 'q) h3_api \<Rightarrow> stream_id \<Rightarrow> 'h \<Rightarrow> pending_recv_body \<Rightarrow> ('h, 'q) h3_connection
     \<Rightarrow> fill_result \<times> 'h \<times> pending_recv_body \<times> ('h, 'q) h3_connection" where
  "fill_body H sid h3 pb c =
     (if pb_is_full pb then (FillStopped, h3, pb, c)
      else case h3_recv_body H h3 (hc_quiche c) sid (pb_remaining pb) of
        (Inr d, h3', q') \<Rightarrow>
          let c' = spend_credit sid (length d) (c\<lparr>hc_quiche := q'\<rparr>); pb' = pb\<lparr>pb_bytes := pb_bytes pb @ d\<rparr>
          in if d = [] then (FillStopped, h3', pb', c') else fill_body H sid h3' pb' c'
      | (Inl e, h3', q') \<Rightarrow>
          (if e = H3Done then FillDrained else FillError (h3_error_text H e), h3', pb, c\<lparr>hc_quiche := q'\<rparr>))"
  by pat_completeness auto

termination fill_body
  by (relation "measure (\<lambda>(H, sid, h3, pb, c). pb_remaining pb)")
    (auto simp: pb_remaining_def pb_is_full_def neq_Nil_conv)

declare fill_body.simps [simp del]

text \<open>
  The DATA arm. \<^const>\<open>None\<close> is running out of fuel; \<open>fuel\<close> counts rounds, each of which
  but the last fills a buffer and pushes it.
\<close>

definition pending_or_new :: "stream_id \<Rightarrow> nat \<Rightarrow> ('h, 'q) h3_connection \<Rightarrow> pending_recv_body" where
  "pending_or_new sid credit c =
     (case hm_get (hc_pending_body c) sid of
        Some pb \<Rightarrow> pb | None \<Rightarrow> \<lparr>pb_bytes = [], pb_target = min H3_RECV_CHUNK credit\<rparr>)"

definition store_pending :: "stream_id \<Rightarrow> pending_recv_body \<Rightarrow> ('h, 'q) h3_connection \<Rightarrow> ('h, 'q) h3_connection" where
  "store_pending sid pb c =
     (if pb_bytes pb = [] then c\<lparr>hc_pending_body := hm_remove sid (hc_pending_body c)\<rparr>
      else c\<lparr>hc_pending_body := hm_insert sid pb (hc_pending_body c)\<rparr>)"

type_synonym ('h, 'q) poll_state = "'h \<times> ('h, 'q) h3_connection \<times> nat \<times> js_event list"

definition push_pending :: "conn_handle \<Rightarrow> stream_id \<Rightarrow> ('h, 'q) poll_state \<Rightarrow> ('h, 'q) poll_state" where
  "push_pending h sid = (\<lambda>(h3, c, n, ev).
     (case push_pending_body_event h sid c ev of (p, c', ev') \<Rightarrow> (h3, c', if p then n - 1 else n, ev')))"

fun push_event :: "js_event \<Rightarrow> ('h, 'q) poll_state \<Rightarrow> ('h, 'q) poll_state" where
  "push_event e (h3, c, n, ev) = (h3, c, n - 1, ev @ [e])"

fun h3_data_loop ::
  "('h, 'q) h3_api \<Rightarrow> conn_handle \<Rightarrow> stream_id \<Rightarrow> nat \<Rightarrow> ('h, 'q) poll_state \<Rightarrow> ('h, 'q) poll_state option" where
  "h3_data_loop H h sid 0 st = None"
| "h3_data_loop H h sid (Suc fuel) (h3, c, n, ev) =
     (if n = 0 \<or> credit_of c sid = 0
      then Some (h3, c\<lparr>hc_pending_readable := snd (hs_insert sid (hc_pending_readable c))\<rparr>, n, ev)
      else case fill_body H sid h3 (pending_or_new sid (credit_of c sid) c) c of
        (r, h3', pb, c1) \<Rightarrow>
          let full = pb_is_full pb;
              st1 = (h3', store_pending sid pb c1, n, ev);
              st2 = (if full \<or> r = FillDrained then push_pending h sid st1 else st1)
          in (case r of
                FillError msg \<Rightarrow>
                  (case push_pending h sid st2 of (h4, c4, n4, ev4) \<Rightarrow>
                     Some (if 0 < n4 then push_event (ev_error h (as_i64 sid) 0 msg) (h4, c4, n4, ev4)
                           else (h4, c4, n4, ev4)))
              | FillDrained \<Rightarrow> Some st2
              | FillStopped \<Rightarrow> if full then h3_data_loop H h sid fuel st2 else Some st2))"

subsection \<open>Polling\<close>

definition clear_stream_tracking :: "stream_id \<Rightarrow> ('h, 'q) h3_connection \<Rightarrow> ('h, 'q) h3_connection" where
  "clear_stream_tracking sid c =
     c\<lparr>hc_read_credit := hm_remove sid (hc_read_credit c),
       hc_pending_readable := snd (hs_remove sid (hc_pending_readable c)),
       hc_blocked := unmark_blocked sid (hc_blocked c),
       hc_pending_body := hm_remove sid (hc_pending_body c),
       hc_trailer_fin := snd (hs_remove sid (hc_trailer_fin c))\<rparr>"

definition clear_stream_tracking_if_closed ::
  "'q quiche_api \<Rightarrow> stream_id \<Rightarrow> ('h, 'q) h3_connection \<Rightarrow> ('h, 'q) h3_connection" where
  "clear_stream_tracking_if_closed Q sid c =
     (if q_stream_closed Q (hc_quiche c) sid then clear_stream_tracking sid c else c)"

definition prune_closed_blocked_streams :: "'q quiche_api \<Rightarrow> ('h, 'q) h3_connection \<Rightarrow> ('h, 'q) h3_connection" where
  "prune_closed_blocked_streams Q c =
     foldl (\<lambda>c sid. clear_stream_tracking sid c) c
       (filter (q_stream_closed Q (hc_quiche c)) (blocked_set (hc_blocked c)))"

text \<open>One HEADERS, FINISHED or RESET event of the library.\<close>

definition on_headers ::
  "('h, 'q) h3_api \<Rightarrow> conn_handle \<Rightarrow> stream_id \<Rightarrow> (byte list \<times> byte list) list \<Rightarrow> bool \<Rightarrow> ('h, 'q) poll_state \<Rightarrow> ('h, 'q) poll_state" where
  "on_headers H h sid hs has_more st =
     (case push_pending h sid st of (h3, c, n, ev) \<Rightarrow>
        let c1 = (case hc_stream_read_window c of
                    None \<Rightarrow> c
                  | Some window \<Rightarrow>
                      if hm_contains (hc_read_credit c) sid then c
                      else c\<lparr>hc_read_credit := hm_insert sid window (hc_read_credit c)\<rparr>);
            c2 = c1\<lparr>hc_largest_accepted := Some (case hc_largest_accepted c of None \<Rightarrow> sid | Some i \<Rightarrow> max i sid)\<rparr>
        in push_event (ev_headers_event h sid (map (\<lambda>(a, b). (h3_text H a, h3_text H b)) hs) (\<not> has_more)) (h3, c2, n, ev))"

definition on_finished :: "conn_handle \<Rightarrow> stream_id \<Rightarrow> ('h, 'q) poll_state \<Rightarrow> ('h, 'q) poll_state" where
  "on_finished h sid = (\<lambda>(h3, c, n, ev).
     push_event (ev_finished h sid) (push_pending h sid
       (h3, c\<lparr>hc_read_credit := hm_remove sid (hc_read_credit c),
             hc_pending_readable := snd (hs_remove sid (hc_pending_readable c))\<rparr>, n, ev)))"

definition on_reset :: "conn_handle \<Rightarrow> stream_id \<Rightarrow> nat \<Rightarrow> ('h, 'q) poll_state \<Rightarrow> ('h, 'q) poll_state" where
  "on_reset h sid code st = push_event (ev_reset h sid code) (push_pending h sid st)"

text \<open>The next event: a stream whose unread data has credit again, otherwise what the library reports.\<close>

definition next_h3_event ::
  "('h, 'q) h3_api \<Rightarrow> 'h \<Rightarrow> ('h, 'q) h3_connection \<Rightarrow> (h3_error + stream_id \<times> h3_event) \<times> 'h \<times> ('h, 'q) h3_connection" where
  "next_h3_event H h3 c =
     (case find (\<lambda>sid. 0 < credit_of c sid) (hc_pending_readable c) of
        Some sid \<Rightarrow>
          (Inr (sid, H3Data), h3, c\<lparr>hc_pending_readable := snd (hs_remove sid (hc_pending_readable c))\<rparr>)
      | None \<Rightarrow> (case h3_poll H h3 (hc_quiche c) of (r, h3', q') \<Rightarrow> (r, h3', c\<lparr>hc_quiche := q'\<rparr>)))"

text \<open>
  The poll loop: streams reset and streams finished are collected on the way. \<open>dfuel\<close> bounds the
  rounds of one DATA event, \<open>fuel\<close> the number of events.
\<close>

fun h3_poll_loop ::
  "('h, 'q) h3_api \<Rightarrow> conn_handle \<Rightarrow> nat \<Rightarrow> nat \<Rightarrow> ('h, 'q) poll_state \<Rightarrow> stream_id list \<Rightarrow> stream_id list
     \<Rightarrow> (('h, 'q) poll_state \<times> stream_id list \<times> stream_id list) option" where
  "h3_poll_loop H h dfuel 0 st rs cs = None"
| "h3_poll_loop H h dfuel (Suc fuel) (h3, c, n, ev) rs cs =
     (if n = 0 then Some ((h3, c, n, ev), rs, cs)
      else case next_h3_event H h3 c of
        (Inl e, h3', c') \<Rightarrow>
          Some (if e = H3Done then (h3', c', n, ev)
                else push_event (ev_error h (-1) 0 (h3_error_text H e)) (h3', c', n, ev), rs, cs)
      | (Inr (sid, e), h3', c') \<Rightarrow>
          let st' = (h3', c', n, ev) in
          (case e of
             H3Headers hs has_more \<Rightarrow> h3_poll_loop H h dfuel fuel (on_headers H h sid hs has_more st') rs cs
           | H3Data \<Rightarrow>
               (case h3_data_loop H h sid dfuel st' of
                  None \<Rightarrow> None | Some st'' \<Rightarrow> h3_poll_loop H h dfuel fuel st'' rs cs)
           | H3Finished \<Rightarrow> h3_poll_loop H h dfuel fuel (on_finished h sid st') rs (cs @ [sid])
           | H3Reset code \<Rightarrow> h3_poll_loop H h dfuel fuel (on_reset h sid code st') (rs @ [sid]) cs
           | H3PriorityUpdate \<Rightarrow> h3_poll_loop H h dfuel fuel st' rs cs
           | H3GoAway \<Rightarrow> h3_poll_loop H h dfuel fuel (push_event (ev_goaway h sid) st') rs cs))"

text \<open>Streams the transport reports writable; one stopped by the peer is a reset.\<close>

fun writable_loop ::
  "'q quiche_api \<Rightarrow> conn_handle \<Rightarrow> nat \<Rightarrow> ('h, 'q) h3_connection \<Rightarrow> js_event list \<Rightarrow> (('h, 'q) h3_connection \<times> js_event list) option" where
  "writable_loop Q h 0 c ev = None"
| "writable_loop Q h (Suc fuel) c ev =
     (case q_stream_writable_next Q (hc_quiche c) of
        None \<Rightarrow> Some (c, ev)
      | Some (sid, q1) \<Rightarrow>
          (case q_stream_capacity Q q1 sid of (r, q2) \<Rightarrow>
             let c' = c\<lparr>hc_quiche := q2\<rparr> in
             (case r of
                Inl (QStreamStopped code) \<Rightarrow>
                  writable_loop Q h fuel (clear_stream_tracking sid c') (ev @ [ev_reset h sid code])
              | _ \<Rightarrow>
                  if sid \<in> set (blocked_set (hc_blocked c'))
                  then writable_loop Q h fuel (c'\<lparr>hc_blocked := unmark_blocked sid (hc_blocked c')\<rparr>) (ev @ [ev_drain h sid])
                  else writable_loop Q h fuel c' ev)))"

definition h3_poll_drain_events ::
  "'q quiche_api \<Rightarrow> conn_handle \<Rightarrow> nat \<Rightarrow> ('h, 'q) h3_connection \<Rightarrow> js_event list \<Rightarrow> (('h, 'q) h3_connection \<times> js_event list) option" where
  "h3_poll_drain_events Q h fuel c ev =
     (case writable_loop Q h fuel (prune_closed_blocked_streams Q c) ev of
        None \<Rightarrow> None
      | Some (c1, ev1) \<Rightarrow>
          (case probe_blocked Q h (length (blocked_queue (hc_blocked c1))) (hc_quiche c1) (hc_blocked c1) ev1 of
             (q2, b2, ev2) \<Rightarrow> Some (c1\<lparr>hc_quiche := q2, hc_blocked := b2\<rparr>, ev2)))"

definition poll_h3_events ::
  "('h, 'q) h3_api \<Rightarrow> 'q quiche_api \<Rightarrow> conn_handle \<Rightarrow> nat \<Rightarrow> nat \<Rightarrow> ('h, 'q) h3_connection \<Rightarrow> js_event list
     \<Rightarrow> (('h, 'q) h3_connection \<times> js_event list) option" where
  "poll_h3_events H Q h fuel budget c ev =
     (case (case hc_h3 c of
              None \<Rightarrow> Some (c, budget, ev, [], [])
            | Some h3 \<Rightarrow>
                if budget = 0 then Some (c, budget, ev, [], [])
                else map_option (\<lambda>((h3', c', n, ev'), rs, cs). (c'\<lparr>hc_h3 := Some h3'\<rparr>, n, ev', rs, cs))
                       (h3_poll_loop H h (budget + 2) fuel (h3, c, budget, ev) [] [])) of
        None \<Rightarrow> None
      | Some (c1, n, ev1, rs, cs) \<Rightarrow>
          let c2 = foldl (\<lambda>c sid. clear_stream_tracking sid c) c1 rs;
              c3 = foldl (\<lambda>c sid. clear_stream_tracking_if_closed Q sid c) c2 cs
          in (case poll_datagram_events Q h n (hc_quiche c3) ev1 of
                (q4, ev4) \<Rightarrow> h3_poll_drain_events Q h fuel (c3\<lparr>hc_quiche := q4\<rparr>) ev4))"

subsection \<open>Sending\<close>

definition hc_block :: "stream_id \<Rightarrow> ('h, 'q) h3_connection \<Rightarrow> ('h, 'q) h3_connection" where
  "hc_block sid c = c\<lparr>hc_blocked := mark_blocked sid (hc_blocked c)\<rparr>"

definition h3_not_initialized :: native_error where
  "h3_not_initialized = InvalidState ''H3 not initialized''"

definition send_response ::
  "('h, 'q) h3_api \<Rightarrow> stream_id \<Rightarrow> h3_header list \<Rightarrow> bool \<Rightarrow> ('h, 'q) h3_connection \<Rightarrow> (native_error + unit) \<times> ('h, 'q) h3_connection" where
  "send_response H sid hs fin c =
     (case hc_h3 c of
        None \<Rightarrow> (Inl h3_not_initialized, c)
      | Some h3 \<Rightarrow>
          (case h3_send_response H h3 (hc_quiche c) sid hs fin of (r, h3', q') \<Rightarrow>
             (map_sum H3 id r, c\<lparr>hc_h3 := Some h3', hc_quiche := q'\<rparr>)))"

definition send_request ::
  "('h, 'q) h3_api \<Rightarrow> h3_header list \<Rightarrow> bool \<Rightarrow> ('h, 'q) h3_connection \<Rightarrow> (native_error + stream_id) \<times> ('h, 'q) h3_connection" where
  "send_request H hs fin c =
     (case hc_h3 c of
        None \<Rightarrow> (Inl h3_not_initialized, c)
      | Some h3 \<Rightarrow>
          (case h3_send_request H h3 (hc_quiche c) hs fin of (r, h3', q') \<Rightarrow>
             let c' = c\<lparr>hc_h3 := Some h3', hc_quiche := q'\<rparr> in
             (case r of
                Inr sid \<Rightarrow> (Inr sid, c'\<lparr>hc_next_request_hint := saturating_add sid 4\<rparr>)
              | Inl H3StreamBlocked \<Rightarrow> (Inl (H3 H3StreamBlocked), hc_block (hc_next_request_hint c) c')
              | Inl e \<Rightarrow> (Inl (H3 e), c'))))"

definition data_frame_length_bytes :: "nat \<Rightarrow> nat" where
  "data_frame_length_bytes n =
     (if n \<le> 63 then 1 else if n \<le> 16383 then 2 else if n \<le> 1073741823 then 4 else 8)"

definition body_required :: "nat \<Rightarrow> nat" where
  "body_required data_len = 1 + data_frame_length_bytes data_len + (if 0 < data_len then 1 else 0)"

definition send_body_fin ::
  "('h, 'q) h3_api \<Rightarrow> 'h \<Rightarrow> stream_id \<Rightarrow> ('h, 'q) h3_connection \<Rightarrow> arc_buf \<Rightarrow> (native_error + send_outcome) \<times> ('h, 'q) h3_connection" where
  "send_body_fin H h3 sid c buf =
     (case h3_send_fin H h3 (hc_quiche c) sid of (r, h3', q') \<Rightarrow>
        let c' = c\<lparr>hc_h3 := Some h3', hc_quiche := q'\<rparr> in
        (case r of
           Inr written \<Rightarrow> (Inr (send_out written True None), c')
         | Inl H3Done \<Rightarrow> (Inr (send_out 0 False (Some buf)), hc_block sid c')
         | Inl e \<Rightarrow> (Inl (H3 e), c')))"

definition send_body_data ::
  "('h, 'q) h3_api \<Rightarrow> 'h \<Rightarrow> stream_id \<Rightarrow> ('h, 'q) h3_connection \<Rightarrow> arc_buf \<Rightarrow> bool \<Rightarrow> (native_error + send_outcome) \<times> ('h, 'q) h3_connection" where
  "send_body_data H h3 sid c buf fin =
     (case h3_send_body_zc H h3 (hc_quiche c) sid buf fin of (r, buf', h3', q') \<Rightarrow>
        let c' = c\<lparr>hc_h3 := Some h3', hc_quiche := q'\<rparr> in
        (case r of
           Inr written \<Rightarrow>
             let part = written < remaining_len buf
             in (Inr (send_out written (fin \<and> \<not> part) (if part then Some buf' else None)),
                 if part then hc_block sid c' else c')
         | Inl H3Done \<Rightarrow> (Inr (send_out 0 False (Some buf')), hc_block sid c')
         | Inl e \<Rightarrow> (Inl (H3 e), c')))"

definition send_body_arcbuf ::
  "('h, 'q) h3_api \<Rightarrow> 'q quiche_api \<Rightarrow> stream_id \<Rightarrow> ('h, 'q) h3_connection \<Rightarrow> arc_buf \<Rightarrow> bool
     \<Rightarrow> (native_error + send_outcome) \<times> ('h, 'q) h3_connection" where
  "send_body_arcbuf H Q sid c buf fin =
     (case hc_h3 c of
        None \<Rightarrow> (Inl h3_not_initialized, c)
      | Some h3 \<Rightarrow>
          let data_len = remaining_len buf in
          if data_len = 0 \<and> fin \<and> sid \<in> set (hc_trailer_fin c) then (Inr (send_out 0 True None), c)
          else if 0 < data_len \<or> fin then
            (case q_stream_capacity Q (hc_quiche c) sid of
               (Inl e, q') \<Rightarrow> (Inl (Quiche e), c\<lparr>hc_quiche := q'\<rparr>)
             | (Inr cap, q') \<Rightarrow>
                 let c' = c\<lparr>hc_quiche := q'\<rparr> in
                 if cap < body_required data_len then (Inr (send_out 0 False (Some buf)), hc_block sid c')
                 else if data_len = 0 then send_body_fin H h3 sid c' buf
                 else send_body_data H h3 sid c' buf fin)
          else (Inr (send_out 0 False None), c))"

definition send_body_chunk where
  "send_body_chunk H Q sid c ch fin = send_body_arcbuf H Q sid c (arc_from_chunk ch) fin"

definition send_body_owned ::
  "('h, 'q) h3_api \<Rightarrow> 'q quiche_api \<Rightarrow> stream_id \<Rightarrow> ('h, 'q) h3_connection \<Rightarrow> rvec \<Rightarrow> bool
     \<Rightarrow> (native_error + nat \<times> byte list option) \<times> ('h, 'q) h3_connection" where
  "send_body_owned H Q sid c d fin =
     (case send_body_arcbuf H Q sid c (arc_from_vec d) fin of
        (Inl e, c') \<Rightarrow> (Inl e, c')
      | (Inr out, c') \<Rightarrow> (Inr (so_written out, map_option arc_as_ref (so_remainder out)), c'))"

definition send_body ::
  "('h, 'q) h3_api \<Rightarrow> stream_id \<Rightarrow> ('h, 'q) h3_connection \<Rightarrow> byte list \<Rightarrow> bool \<Rightarrow> (native_error + nat) \<times> ('h, 'q) h3_connection" where
  "send_body H sid c d fin =
     (case hc_h3 c of
        None \<Rightarrow> (Inl h3_not_initialized, c)
      | Some h3 \<Rightarrow>
          (case h3_send_body_zc H h3 (hc_quiche c) sid (arc_from_vec (vec_of_slice d)) fin of (r, _, h3', q') \<Rightarrow>
             let c' = c\<lparr>hc_h3 := Some h3', hc_quiche := q'\<rparr> in
             (case r of
                Inr written \<Rightarrow> (Inr written, if written < length d then hc_block sid c' else c')
              | Inl H3Done \<Rightarrow> (Inr 0, hc_block sid c')
              | Inl e \<Rightarrow> (Inl (H3 e), c'))))"

definition h3_stream_close :: "'q quiche_api \<Rightarrow> stream_id \<Rightarrow> nat \<Rightarrow> ('h, 'q) h3_connection \<Rightarrow> ('h, 'q) h3_connection" where
  "h3_stream_close Q sid code c =
     (let q1 = q_stream_shutdown Q (hc_quiche c) sid shutdown_read code;
          q2 = q_stream_shutdown Q q1 sid shutdown_write code
      in clear_stream_tracking sid (c\<lparr>hc_quiche := q2\<rparr>))"

definition send_trailers ::
  "('h, 'q) h3_api \<Rightarrow> stream_id \<Rightarrow> h3_header list \<Rightarrow> ('h, 'q) h3_connection \<Rightarrow> (native_error + unit) \<times> ('h, 'q) h3_connection" where
  "send_trailers H sid hs c =
     (case hc_h3 c of
        None \<Rightarrow> (Inl h3_not_initialized, c)
      | Some h3 \<Rightarrow>
          (case h3_send_trailers H h3 (hc_quiche c) sid hs of (r, h3', q') \<Rightarrow>
             let c' = c\<lparr>hc_h3 := Some h3', hc_quiche := q'\<rparr> in
             (case r of
                Inl e \<Rightarrow> (Inl (H3 e), c')
              | Inr _ \<Rightarrow> (Inr (), c'\<lparr>hc_trailer_fin := snd (hs_insert sid (hc_trailer_fin c))\<rparr>))))"

definition h3_session_close_event :: "'q quiche_api \<Rightarrow> ('h, 'q) h3_connection \<Rightarrow> conn_handle \<Rightarrow> js_event" where
  "h3_session_close_event Q c h = close_event Q (hc_quiche c) h"

definition MAX_SERVER_GOAWAY_REQUEST_ID :: nat where "MAX_SERVER_GOAWAY_REQUEST_ID = 2 ^ 62 - 4"

definition goaway_id :: "('h, 'q) h3_connection \<Rightarrow> nat" where
  "goaway_id c =
     (case hc_largest_accepted c of
        None \<Rightarrow> 0 | Some i \<Rightarrow> min (saturating_add i 4) MAX_SERVER_GOAWAY_REQUEST_ID)"

definition send_goaway :: "('h, 'q) h3_api \<Rightarrow> ('h, 'q) h3_connection \<Rightarrow> (native_error + unit) \<times> ('h, 'q) h3_connection" where
  "send_goaway H c =
     (case hc_h3 c of
        None \<Rightarrow> (Inl h3_not_initialized, c)
      | Some h3 \<Rightarrow>
          (case h3_send_goaway H h3 (hc_quiche c) (goaway_id c) of (r, h3', q') \<Rightarrow>
             (map_sum H3 id r, c\<lparr>hc_h3 := Some h3', hc_quiche := q'\<rparr>)))"

definition h3_send_datagram :: "'q quiche_api \<Rightarrow> byte list \<Rightarrow> ('h, 'q) h3_connection \<Rightarrow> (native_error + unit) \<times> ('h, 'q) h3_connection" where
  "h3_send_datagram Q d c =
     (case q_dgram_send Q (hc_quiche c) d of (r, q') \<Rightarrow> (map_sum Quiche id r, c\<lparr>hc_quiche := q'\<rparr>))"

definition send_datagram_chunk :: "'q quiche_api \<Rightarrow> chunk \<Rightarrow> ('h, 'q) h3_connection \<Rightarrow> (native_error + unit) \<times> ('h, 'q) h3_connection" where
  "send_datagram_chunk Q ch c =
     (if q_dgram_queue_full Q (hc_quiche c) then (Inl (Quiche QDone), c)
      else h3_send_datagram Q (arc_as_ref (arc_from_chunk ch)) c)"

definition h3_queue_ping :: "'q quiche_api \<Rightarrow> instant \<Rightarrow> ('h, 'q) h3_connection \<Rightarrow> (native_error + unit) \<times> ('h, 'q) h3_connection" where
  "h3_queue_ping Q now c =
     (if q_is_closed Q (hc_quiche c) \<or> q_is_draining Q (hc_quiche c)
      then (Inl (InvalidState ''connection is closing''), c)
      else case q_send_ack_eliciting Q (hc_quiche c) of
        (Inl e, q') \<Rightarrow> (Inl (Quiche e), c\<lparr>hc_quiche := q'\<rparr>)
      | (Inr _, q') \<Rightarrow>
          (Inr (), c\<lparr>hc_quiche := q', hc_ping_state := ping_queue now (q_stats Q q') (hc_ping_state c)\<rparr>))"

definition h3_poll_ping_acks :: "'q quiche_api \<Rightarrow> instant \<Rightarrow> ('h, 'q) h3_connection \<Rightarrow> nat list \<times> ('h, 'q) h3_connection" where
  "h3_poll_ping_acks Q now c =
     (case ping_complete_acked now (q_stats Q (hc_quiche c)) (hc_ping_state c) of
        (ds, ps) \<Rightarrow> (ds, c\<lparr>hc_ping_state := ps\<rparr>))"

definition h3_update_session_ticket :: "'q quiche_api \<Rightarrow> ('h, 'q) h3_connection \<Rightarrow> byte list option \<times> ('h, 'q) h3_connection" where
  "h3_update_session_ticket Q c =
     (case ticket_update (q_session Q (hc_quiche c)) (hc_session_ticket c) of
        (r, t) \<Rightarrow> (r, c\<lparr>hc_session_ticket := t\<rparr>))"

definition remote_settings :: "('h, 'q) h3_api \<Rightarrow> ('h, 'q) h3_connection \<Rightarrow> (nat \<times> nat) list" where
  "remote_settings H c =
     (case hc_h3 c of None \<Rightarrow> [] | Some h3 \<Rightarrow> (case h3_peer_settings H h3 of None \<Rightarrow> [] | Some s \<Rightarrow> s))"

end
