(* ===== verification/H3_Delivery.thy ===== *)
theory H3_Delivery
  imports H3_Connection
begin

text \<open>
  What polling an HTTP/3 connection does: the body bytes it delivers, the read credit it spends, the
  requests it accepts, and that it returns.
\<close>

subsection \<open>Laws of the HTTP/3 library\<close>

text \<open>
  \<open>got\<close> observes the body bytes the library has handed out on each stream. Its documentation: a
  receive returns data that fits the buffer, or \<^verbatim>\<open>Done\<close> when there is none, so never an empty
  success; and the streams it reports are QUIC variable-length integers.
\<close>

definition h3_recv_laws :: "('h, 'q) h3_api \<Rightarrow> ('h \<Rightarrow> stream_id \<Rightarrow> byte list) \<Rightarrow> bool" where
  "h3_recv_laws H got \<longleftrightarrow>
     (\<forall>h q sid n d h' q'. h3_recv_body H h q sid n = (Inr d, h', q') \<and> 0 < n \<longrightarrow>
        d \<noteq> [] \<and> length d \<le> n \<and> got h' = (got h)(sid := got h sid @ d))
   \<and> (\<forall>h q sid n e h' q'. h3_recv_body H h q sid n = (Inl e, h', q') \<longrightarrow> got h' = got h)
   \<and> (\<forall>h q r h' q'. h3_poll H h q = (r, h', q') \<longrightarrow> got h' = got h)
   \<and> (\<forall>h q sid e h' q'. h3_poll H h q = (Inr (sid, e), h', q') \<longrightarrow> sid < 2 ^ 62)"

lemma h3_recv_lawsD:
  assumes "h3_recv_laws H got"
  shows "h3_recv_body H h q sid n = (Inr d, h', q') \<Longrightarrow> 0 < n \<Longrightarrow>
      d \<noteq> [] \<and> length d \<le> n \<and> got h' = (got h)(sid := got h sid @ d)"
    and "h3_recv_body H h q sid n = (Inl e, h', q') \<Longrightarrow> got h' = got h"
    and "h3_poll H h q = (r, h', q') \<Longrightarrow> got h' = got h"
    and "h3_poll H h q = (Inr (sid, ev), h', q') \<Longrightarrow> sid < 2 ^ 62"
proof (goal_cases)
  case 1
  then show ?case using assms [unfolded h3_recv_laws_def, THEN conjunct1] by blast
next
  case 2
  then show ?case using assms [unfolded h3_recv_laws_def, THEN conjunct2, THEN conjunct1] by blast
next
  case 3
  then show ?case using assms [unfolded h3_recv_laws_def, THEN conjunct2, THEN conjunct2, THEN conjunct1] by blast
next
  case 4
  then show ?case using assms [unfolded h3_recv_laws_def, THEN conjunct2, THEN conjunct2, THEN conjunct2] by blast
qed

subsection \<open>The connection invariant\<close>

definition credit_ok :: "('h, 'q) h3_connection \<Rightarrow> bool" where
  "credit_ok c \<longleftrightarrow> (\<forall>s k. hm_get (hc_read_credit c) s = Some k \<longrightarrow> (\<exists>w. hc_stream_read_window c = Some w \<and> k \<le> w))"

definition h3_inv :: "('h, 'q) h3_connection \<Rightarrow> bool" where
  "h3_inv c \<longleftrightarrow> blocked_inv (hc_blocked c) \<and> distinct (hc_pending_readable c) \<and> distinct (hc_trailer_fin c)
     \<and> credit_ok c \<and> (\<forall>s \<in> set (hc_pending_readable c). s < 2 ^ 62)"

lemma h3_inv_frame [simp]:
  "h3_inv (c\<lparr>hc_quiche := q\<rparr>) = h3_inv c" "h3_inv (c\<lparr>hc_h3 := h\<rparr>) = h3_inv c"
  "h3_inv (c\<lparr>hc_metrics := m\<rparr>) = h3_inv c" "h3_inv (c\<lparr>hc_pending_body := pb\<rparr>) = h3_inv c"
  "h3_inv (c\<lparr>hc_largest_accepted := l\<rparr>) = h3_inv c" "h3_inv (c\<lparr>hc_ping_state := ps\<rparr>) = h3_inv c"
  "h3_inv (c\<lparr>hc_session_ticket := t\<rparr>) = h3_inv c" "h3_inv (c\<lparr>hc_next_request_hint := n\<rparr>) = h3_inv c"
  "h3_inv (c\<lparr>hc_is_established := b\<rparr>) = h3_inv c"
  by (simp_all add: h3_inv_def credit_ok_def)

lemma h3_inv_readable [simp]:
  "h3_inv c \<Longrightarrow> sid < 2 ^ 62 \<Longrightarrow> h3_inv (c\<lparr>hc_pending_readable := snd (hs_insert sid (hc_pending_readable c))\<rparr>)"
  "h3_inv c \<Longrightarrow> h3_inv (c\<lparr>hc_pending_readable := snd (hs_remove sid (hc_pending_readable c))\<rparr>)"
  by (auto simp: h3_inv_def credit_ok_def)

lemma h3_inv_clear [simp]: "h3_inv c \<Longrightarrow> h3_inv (clear_stream_tracking sid c)"
  by (auto simp: h3_inv_def credit_ok_def clear_stream_tracking_def hm_simps split: if_splits)

lemma h3_inv_clear_if_closed [simp]: "h3_inv c \<Longrightarrow> h3_inv (clear_stream_tracking_if_closed Q sid c)"
  by (simp add: clear_stream_tracking_if_closed_def)

lemma h3_inv_foldl:
  assumes "\<And>c sid. h3_inv c \<Longrightarrow> h3_inv (f c sid)" "h3_inv c"
  shows "h3_inv (foldl f c sids)"
  using assms(2) by (induction sids arbitrary: c) (auto simp: assms(1))

subsection \<open>Filling a buffer\<close>

lemma fill_body_spec:
  assumes L: "h3_recv_laws H got" and f: "fill_body H sid h3 pb c = (r, h3', pb', c')"
  shows "\<exists>d q' m. got h3' = (got h3)(sid := got h3 sid @ d) \<and> pb' = pb\<lparr>pb_bytes := pb_bytes pb @ d\<rparr>
    \<and> length d \<le> pb_remaining pb \<and> c' = c\<lparr>hc_quiche := q', hc_read_credit := m\<rparr>
    \<and> map_of m = (map_of (hc_read_credit c))(sid := map_option (\<lambda>k. k - length d) (hm_get (hc_read_credit c) sid))
    \<and> (r = FillStopped \<longleftrightarrow> pb_is_full pb')"
  using L f
proof (induction H sid h3 pb c rule: fill_body.induct [case_names body])
  case (body H sid h3 pb c)
  note L = body.prems(1) and f = body.prems(2)
  show ?case
  proof (cases "pb_is_full pb")
    case True
    with f have "r = FillStopped" "h3' = h3" "pb' = pb" "c' = c"
      by (simp_all add: fill_body.simps [of H sid h3 pb c])
    with True show ?thesis
      by (intro exI [of _ "[]"] exI [of _ "hc_quiche c"] exI [of _ "hc_read_credit c"])
        (simp add: option.map_ident fun_upd_idem)
  next
    case nf: False
    then have pos: "0 < pb_remaining pb" by (simp add: pb_is_full_def pb_remaining_def)
    obtain x h1 q1 where x: "h3_recv_body H h3 (hc_quiche c) sid (pb_remaining pb) = (x, h1, q1)"
      by (cases "h3_recv_body H h3 (hc_quiche c) sid (pb_remaining pb)")
    show ?thesis
    proof (cases x)
      case (Inl e)
      have "got h1 = got h3" by (rule h3_recv_lawsD(2) [OF L x [unfolded Inl]])
      moreover have "r \<noteq> FillStopped" "h3' = h1" "pb' = pb" "c' = c\<lparr>hc_quiche := q1\<rparr>"
        using f nf x Inl by (auto simp: fill_body.simps [of H sid h3 pb c] split: if_splits)
      ultimately show ?thesis using nf
        by (intro exI [of _ "[]"] exI [of _ q1] exI [of _ "hc_read_credit c"])
          (simp add: option.map_ident fun_upd_idem)
    next
      case (Inr d)
      let ?c1 = "spend_credit sid (length d) (c\<lparr>hc_quiche := q1\<rparr>)" and ?pb = "pb\<lparr>pb_bytes := pb_bytes pb @ d\<rparr>"
      have d: "d \<noteq> []" "length d \<le> pb_remaining pb" "got h1 = (got h3)(sid := got h3 sid @ d)"
        using h3_recv_lawsD(1) [OF L x [unfolded Inr] pos] by auto
      have "fill_body H sid h1 ?pb ?c1 = (r, h3', pb', c')"
        using f nf x Inr d(1) by (simp add: fill_body.simps [of H sid h3 pb c] Let_def)
      from body.IH [OF nf x [symmetric] Inr refl refl refl d(1) L this] obtain d' q' m where
        ih: "got h3' = (got h1)(sid := got h1 sid @ d')" "pb' = ?pb\<lparr>pb_bytes := pb_bytes ?pb @ d'\<rparr>"
          "length d' \<le> pb_remaining ?pb" "c' = ?c1\<lparr>hc_quiche := q', hc_read_credit := m\<rparr>"
          "map_of m = (map_of (hc_read_credit ?c1))(sid := map_option (\<lambda>k. k - length d') (hm_get (hc_read_credit ?c1) sid))"
          "r = FillStopped \<longleftrightarrow> pb_is_full pb'" by blast
      have "map_of m = (map_of (hc_read_credit c))(sid := map_option (\<lambda>k. k - length (d @ d')) (hm_get (hc_read_credit c) sid))"
        using ih(5) by (auto simp: spend_credit_def saturating_sub_def update_conv' fun_eq_iff split: option.splits)
      moreover have "c' = c\<lparr>hc_quiche := q', hc_read_credit := m\<rparr>"
        using ih(4) by (simp add: spend_credit_def split: option.splits)
      ultimately show ?thesis using ih d
        by (intro exI [of _ "d @ d'"] exI [of _ q'] exI [of _ m]) (auto simp: pb_remaining_def)
    qed
  qed
qed

subsection \<open>What a poll takes and what it delivers\<close>

text \<open>
  A piece of a poll, from one state of it to the next. The bytes taken from the library are the bytes
  of the events; nothing is left behind in a receive buffer; the budget pays for every event; a
  stream with a credit has it reduced by what was taken, until its FINISHED event; and the largest
  accepted request covers every HEADERS event.
\<close>

definition accepted_in :: "conn_handle \<Rightarrow> stream_id \<Rightarrow> js_event list \<Rightarrow> bool" where
  "accepted_in h s ev \<longleftrightarrow> (\<exists>e \<in> set ev. event_type e = EVENT_HEADERS \<and> ev_conn e = h \<and> ev_stream e = as_i64 s)"

lemma accepted_in_simps [simp]:
  "accepted_in h s [] = False"
  "accepted_in h s (ev @ ev') \<longleftrightarrow> accepted_in h s ev \<or> accepted_in h s ev'"
  "accepted_in h s [ev_error g i c2 r] = False" "accepted_in h s [ev_finished g t] = False"
  "accepted_in h s [ev_reset g t code] = False" "accepted_in h s [ev_goaway g t] = False"
  "accepted_in h s [ev_drain g t] = False" "accepted_in h s [ev_datagram g d] = False"
  "accepted_in h s [ev_headers_event g t hs f] \<longleftrightarrow> g = h \<and> as_i64 t = as_i64 s"
  by (auto simp: accepted_in_def event_defs event_types)

definition covers_request :: "nat option \<Rightarrow> stream_id \<Rightarrow> bool" where
  "covers_request l s \<longleftrightarrow> (\<exists>i. l = Some i \<and> s \<le> i)"

definition takes_stream ::
  "('h \<Rightarrow> stream_id \<Rightarrow> byte list) \<Rightarrow> conn_handle \<Rightarrow> stream_id \<Rightarrow> ('h, 'q) poll_state \<Rightarrow> ('h, 'q) poll_state \<Rightarrow> bool" where
  "takes_stream got h s st st' \<longleftrightarrow> (case (st, st') of ((h3, c, n, ev), (h3', c', n', ev')) \<Rightarrow>
     (\<exists>d. got h3' s = got h3 s @ d \<and> stream_bytes h s ev' = stream_bytes h s ev @ d
        \<and> (ev_finished h s \<in> set ev' \<or> (\<forall>k. hm_get (hc_read_credit c) s = Some k \<longrightarrow>
             (\<exists>k'. hm_get (hc_read_credit c') s = Some k' \<and> k = k' + length d)))))"

definition takes ::
  "('h \<Rightarrow> stream_id \<Rightarrow> byte list) \<Rightarrow> conn_handle \<Rightarrow> ('h, 'q) poll_state \<Rightarrow> ('h, 'q) poll_state \<Rightarrow> bool" where
  "takes got h st st' \<longleftrightarrow> (case (st, st') of ((h3, c, n, ev), (h3', c', n', ev')) \<Rightarrow>
     hc_pending_body c' = [] \<and> n' \<le> n \<and> length ev' + n' \<le> length ev + n \<and> (h3_inv c \<longrightarrow> h3_inv c')
     \<and> (\<forall>s. ev_finished h s \<in> set ev \<longrightarrow> ev_finished h s \<in> set ev')
     \<and> (\<forall>s < 2 ^ 62. accepted_in h s ev' \<longrightarrow> accepted_in h s ev \<or> covers_request (hc_largest_accepted c') s)
     \<and> (\<forall>s. covers_request (hc_largest_accepted c) s \<longrightarrow> covers_request (hc_largest_accepted c') s))
   \<and> (\<forall>s < 2 ^ 62. takes_stream got h s st st')"

lemma takes_accepted:
  assumes "takes got h (h3, c, n, ev) (h3', c', n', ev')"
  shows "s < 2 ^ 62 \<Longrightarrow> accepted_in h s ev' \<Longrightarrow> accepted_in h s ev \<or> covers_request (hc_largest_accepted c') s"
    and "covers_request (hc_largest_accepted c) s \<Longrightarrow> covers_request (hc_largest_accepted c') s"
  using assms by (simp_all add: takes_def)

lemma takes_refl: "hc_pending_body (fst (snd st)) = [] \<Longrightarrow> takes got h st st"
  by (cases st) (simp add: takes_def takes_stream_def)

lemma takes_stream_trans:
  assumes "takes_stream got h s (h0, c0, n0, ev0) (h1, c1, n1, ev1)" "takes_stream got h s (h1, c1, n1, ev1) (h2, c2, n2, ev2)"
    and "ev_finished h s \<in> set ev1 \<longrightarrow> ev_finished h s \<in> set ev2"
  shows "takes_stream got h s (h0, c0, n0, ev0) (h2, c2, n2, ev2)"
proof -
  from assms(1,2) obtain d d' where
    d: "got h1 s = got h0 s @ d" "stream_bytes h s ev1 = stream_bytes h s ev0 @ d"
      "ev_finished h s \<in> set ev1 \<or> (\<forall>k. hm_get (hc_read_credit c0) s = Some k \<longrightarrow>
         (\<exists>k'. hm_get (hc_read_credit c1) s = Some k' \<and> k = k' + length d))" and
    d': "got h2 s = got h1 s @ d'" "stream_bytes h s ev2 = stream_bytes h s ev1 @ d'"
      "ev_finished h s \<in> set ev2 \<or> (\<forall>k. hm_get (hc_read_credit c1) s = Some k \<longrightarrow>
         (\<exists>k'. hm_get (hc_read_credit c2) s = Some k' \<and> k = k' + length d'))"
    unfolding takes_stream_def by auto
  show ?thesis unfolding takes_stream_def prod.case
  proof (intro exI [of _ "d @ d'"] conjI)
    show "ev_finished h s \<in> set ev2 \<or> (\<forall>k. hm_get (hc_read_credit c0) s = Some k \<longrightarrow>
        (\<exists>k'. hm_get (hc_read_credit c2) s = Some k' \<and> k = k' + length (d @ d')))"
      using d(3) d'(3) assms(3) by fastforce
  qed (simp_all add: d d')
qed

lemma takes_trans:
  assumes "takes got h st0 st1" "takes got h st1 st2"
  shows "takes got h st0 st2"
proof -
  obtain h0 c0 n0 ev0 h1 c1 n1 ev1 h2 c2 n2 ev2 where
    st: "st0 = (h0, c0, n0, ev0)" "st1 = (h1, c1, n1, ev1)" "st2 = (h2, c2, n2, ev2)"
    by (cases st0, cases st1, cases st2)
  have "takes_stream got h s st0 st2" if "s < 2 ^ 62" for s
    using assms that unfolding takes_def st by (auto intro: takes_stream_trans)
  with assms show ?thesis unfolding takes_def st by auto
qed

text \<open>A step that takes no bytes.\<close>

lemma takes_idle:
  assumes "got h3' = got h3" "hc_pending_body c' = []" "length new + n' \<le> n" "h3_inv c \<longrightarrow> h3_inv c'"
    and "\<And>s e. e \<in> set new \<Longrightarrow> event_bytes h s e = []"
    and "\<And>s. s < 2 ^ 62 \<Longrightarrow> accepted_in h s new \<Longrightarrow> covers_request (hc_largest_accepted c') s"
    and "\<And>s. covers_request (hc_largest_accepted c) s \<Longrightarrow> covers_request (hc_largest_accepted c') s"
    and "\<And>s k. s < 2 ^ 62 \<Longrightarrow> ev_finished h s \<notin> set new \<Longrightarrow> hm_get (hc_read_credit c) s = Some k \<Longrightarrow>
       hm_get (hc_read_credit c') s = Some k"
  shows "takes got h (h3, c, n, ev) (h3', c', n', ev @ new)"
proof -
  have "stream_bytes h s new = []" for s using assms(5) by (simp add: stream_bytes_def)
  then have "takes_stream got h s (h3, c, n, ev) (h3', c', n', ev @ new)" if "s < 2 ^ 62" for s
    using assms(1) assms(8) [OF that] by (auto simp: takes_stream_def)
  then show ?thesis using assms by (auto simp: takes_def)
qed

subsection \<open>Body events\<close>

definition open_headers :: "js_event list \<Rightarrow> bool" where
  "open_headers ev \<longleftrightarrow> ev \<noteq> [] \<and> event_type (last ev) = EVENT_HEADERS \<and> ev_data (last ev) = None"

lemma coalesce_SomeD:
  assumes "try_coalesce_following_data e d = Some l"
  shows "event_type e = EVENT_HEADERS" "ev_data e = None" "l = e\<lparr>ev_data := ev_data d\<rparr>"
  using assms by (auto simp: try_coalesce_following_data_def split: if_splits)

lemma push_or_coalesce_spec:
  assumes p: "push_or_coalesce e ev = (pushed, ev')" and e: "event_type e = EVENT_DATA" "ev_data e \<noteq> None"
  shows "stream_bytes h s ev' = stream_bytes h s ev @ event_bytes h s e"
    and "length ev' = length ev + (if pushed then 1 else 0)"
    and "accepted_in h s ev' = accepted_in h s ev"
    and "ev_finished h s \<in> set ev \<Longrightarrow> ev_finished h s \<in> set ev'"
    and "\<not> open_headers ev'" and "\<not> pushed \<Longrightarrow> open_headers ev"
proof -
  consider (push) "pushed" "ev' = ev @ [e]"
    | (fold) l front x where "\<not> pushed" "ev = front @ [x]" "try_coalesce_following_data x e = Some l" "ev' = front @ [l]"
  proof (cases ev rule: rev_cases)
    case Nil
    with p that(1) show ?thesis by (simp add: push_or_coalesce_def)
  next
    case (snoc front x)
    with p that show ?thesis by (auto simp: push_or_coalesce_def split: option.splits)
  qed
  then have "stream_bytes h s ev' = stream_bytes h s ev @ event_bytes h s e
    \<and> length ev' = length ev + (if pushed then 1 else 0) \<and> accepted_in h s ev' = accepted_in h s ev
    \<and> (ev_finished h s \<in> set ev \<longrightarrow> ev_finished h s \<in> set ev') \<and> \<not> open_headers ev' \<and> (\<not> pushed \<longrightarrow> open_headers ev)"
  proof cases
    case push
    with e show ?thesis by (auto simp: accepted_in_def open_headers_def event_types)
  next
    case (fold l front x)
    note C = coalesce_SomeD [OF fold(3)] and B = coalesce_bytes [OF fold(3), of h s]
    have "x \<noteq> ev_finished h s" using C(1) by (auto simp: event_defs event_types)
    with fold C B e show ?thesis by (auto simp: accepted_in_def open_headers_def)
  qed
  then show "stream_bytes h s ev' = stream_bytes h s ev @ event_bytes h s e"
    "length ev' = length ev + (if pushed then 1 else 0)" "accepted_in h s ev' = accepted_in h s ev"
    "ev_finished h s \<in> set ev \<Longrightarrow> ev_finished h s \<in> set ev'" "\<not> open_headers ev'" "\<not> pushed \<Longrightarrow> open_headers ev"
    by auto
qed

lemma push_pending_none [simp]:
  "hc_pending_body c = [] \<Longrightarrow> push_pending h sid (h3, c, n, ev) = (h3, c, n, ev)"
  by (simp add: push_pending_def push_pending_body_event_def take_pending_body_event_def)

lemma push_pending_single:
  assumes "pb_bytes pb \<noteq> []" "push_or_coalesce (ev_data_event h sid (pb_bytes pb) False) ev = (pushed, ev')"
  shows "push_pending h sid (h3, c\<lparr>hc_pending_body := [(sid, pb)]\<rparr>, n, ev)
    = (h3, c\<lparr>hc_pending_body := []\<rparr>, if pushed then n - 1 else n, ev')"
  using assms by (simp add: push_pending_def push_pending_body_event_def take_pending_body_event_def)

text \<open>One round of the DATA arm with its push.\<close>

lemma fill_push:
  assumes L: "h3_recv_laws H got" and sid: "sid < 2 ^ 62" and n: "0 < n" and none: "hc_pending_body c = []"
    and k: "0 < credit_of c sid"
    and f: "fill_body H sid h3 (pending_or_new sid (credit_of c sid) c) c = (r, h3', pb, c1)"
    and st: "push_pending h sid (h3', store_pending sid pb c1, n, ev) = (h4, c4, n4, ev4)"
  shows "takes got h (h3, c, n, ev) (h4, c4, n4, ev4)"
    and "r = FillStopped \<Longrightarrow> \<not> open_headers ev4 \<and> (n4 < n \<or> n4 = n \<and> open_headers ev)"
    and "r = FillStopped \<longleftrightarrow> pb_is_full pb"
proof -
  have new: "pending_or_new sid (credit_of c sid) c = \<lparr>pb_bytes = [], pb_target = min H3_RECV_CHUNK (credit_of c sid)\<rparr>"
    by (simp add: pending_or_new_def none)
  from fill_body_spec [OF L f [unfolded new]] obtain d q' m where
    F: "got h3' = (got h3)(sid := got h3 sid @ d)" "pb = \<lparr>pb_bytes = d, pb_target = min H3_RECV_CHUNK (credit_of c sid)\<rparr>"
      "length d \<le> credit_of c sid" "c1 = c\<lparr>hc_quiche := q', hc_read_credit := m\<rparr>"
      "map_of m = (map_of (hc_read_credit c))(sid := map_option (\<lambda>k. k - length d) (hm_get (hc_read_credit c) sid))"
      "r = FillStopped \<longleftrightarrow> pb_is_full pb"
    by (auto simp: pb_remaining_def)
  show "r = FillStopped \<longleftrightarrow> pb_is_full pb" by (rule F(6))
  have inv: "h3_inv c \<longrightarrow> h3_inv c1"
    using F(4,5) by (fastforce simp: h3_inv_def credit_ok_def split: if_splits)
  have spent: "\<exists>k'. hm_get m s = Some k' \<and> k = k' + (if s = sid then length d else 0)"
    if "hm_get (hc_read_credit c) s = Some k" for s k
    using that F(3,5) by (auto simp: credit_of_def)
  have "takes got h (h3, c, n, ev) (h4, c4, n4, ev4)
    \<and> (r = FillStopped \<longrightarrow> \<not> open_headers ev4 \<and> (n4 < n \<or> n4 = n \<and> open_headers ev))"
  proof (cases "d = []")
    case True
    with F st have st': "h4 = h3'" "c4 = c1\<lparr>hc_pending_body := []\<rparr>" "n4 = n" "ev4 = ev @ []"
      by (auto simp: store_pending_def none)
    have "r \<noteq> FillStopped" using F(2,6) True k by (auto simp: pb_is_full_def H3_RECV_CHUNK_def)
    moreover have "takes got h (h3, c, n, ev) (h3', c1\<lparr>hc_pending_body := []\<rparr>, n, ev @ [])"
      using F True inv by (intro takes_idle) (auto simp: option.map_ident accepted_in_def)
    ultimately show ?thesis using st' by simp
  next
    case False
    obtain pushed ev' where p: "push_or_coalesce (ev_data_event h sid d False) ev = (pushed, ev')" by fastforce
    have e: "event_type (ev_data_event h sid d False) = EVENT_DATA" "ev_data (ev_data_event h sid d False) \<noteq> None"
      by (simp_all add: event_defs)
    note P = push_or_coalesce_spec [OF p e]
    have st': "h4 = h3'" "c4 = c1\<lparr>hc_pending_body := []\<rparr>" "n4 = (if pushed then n - 1 else n)" "ev4 = ev'"
      using st False F(2,4) push_pending_single [of pb h sid ev pushed ev' h3' c1 n] p
      by (auto simp: store_pending_def none)
    have "takes_stream got h s (h3, c, n, ev) (h4, c4, n4, ev4)" if s: "s < 2 ^ 62" for s
    proof -
      have "event_bytes h s (ev_data_event h sid d False) = (if s = sid then d else [])"
        using s sid as_i64_inject by auto
      with P(1) [of h s] F(1,4) st' show ?thesis
        by (auto simp: takes_stream_def intro!: exI [of _ "if s = sid then d else []"] dest!: spent)
    qed
    with st' F(4) inv P n show ?thesis by (auto simp: takes_def)
  qed
  then show "takes got h (h3, c, n, ev) (h4, c4, n4, ev4)"
    "r = FillStopped \<Longrightarrow> \<not> open_headers ev4 \<and> (n4 < n \<or> n4 = n \<and> open_headers ev)" by auto
qed

lemma h3_data_loop_takes:
  assumes L: "h3_recv_laws H got" and sid: "sid < 2 ^ 62"
  shows "h3_data_loop H h sid fuel (h3, c, n, ev) = Some st' \<Longrightarrow> hc_pending_body c = [] \<Longrightarrow>
    takes got h (h3, c, n, ev) st'"
proof (induction fuel arbitrary: h3 c n ev)
  case (Suc fuel)
  show ?case
  proof (cases "n = 0 \<or> credit_of c sid = 0")
    case True
    with Suc.prems have "st' = (h3, c\<lparr>hc_pending_readable := snd (hs_insert sid (hc_pending_readable c))\<rparr>, n, ev @ [])" by simp
    moreover have "takes got h (h3, c, n, ev) (h3, c\<lparr>hc_pending_readable := snd (hs_insert sid (hc_pending_readable c))\<rparr>, n, ev @ [])"
      using Suc.prems(2) sid by (intro takes_idle) auto
    ultimately show ?thesis by simp
  next
    case False
    obtain r h3' pb c1 where f: "fill_body H sid h3 (pending_or_new sid (credit_of c sid) c) c = (r, h3', pb, c1)"
      by (cases "fill_body H sid h3 (pending_or_new sid (credit_of c sid) c) c")
    obtain h4 c4 n4 ev4 where st: "push_pending h sid (h3', store_pending sid pb c1, n, ev) = (h4, c4, n4, ev4)"
      by (cases "push_pending h sid (h3', store_pending sid pb c1, n, ev)")
    note P = fill_push [OF L sid _ Suc.prems(2) _ f st]
    have T: "takes got h (h3, c, n, ev) (h4, c4, n4, ev4)" and full: "r = FillStopped \<longleftrightarrow> pb_is_full pb"
      using P False by auto
    have none: "hc_pending_body c4 = []" using T by (simp add: takes_def)
    show ?thesis
    proof (cases r)
      case FillStopped
      with Suc.prems False f st full have "h3_data_loop H h sid fuel (h4, c4, n4, ev4) = Some st'" by (simp add: Let_def)
      from Suc.IH [OF this none] T show ?thesis by (blast intro: takes_trans)
    next
      case FillDrained
      with Suc.prems False f st T show ?thesis by (simp add: Let_def)
    next
      case (FillError msg)
      let ?e = "ev_error h (as_i64 sid) 0 msg"
      have "takes got h (h4, c4, n4, ev4) (h4, c4, n4 - 1, ev4 @ [?e])" if "0 < n4"
        using that none by (intro takes_idle) auto
      with FillError Suc.prems False f st full T show ?thesis
        by (auto simp: Let_def split: if_splits intro: takes_trans)
    qed
  qed
qed simp

lemma h3_data_loop_returns:
  assumes L: "h3_recv_laws H got" and sid: "sid < 2 ^ 62"
  shows "hc_pending_body c = [] \<Longrightarrow> n + (if open_headers ev then 2 else 1) \<le> fuel \<Longrightarrow>
    h3_data_loop H h sid fuel (h3, c, n, ev) \<noteq> None"
proof (induction fuel arbitrary: h3 c n ev)
  case (Suc fuel)
  show ?case
  proof (cases "n = 0 \<or> credit_of c sid = 0")
    case False
    obtain r h3' pb c1 where f: "fill_body H sid h3 (pending_or_new sid (credit_of c sid) c) c = (r, h3', pb, c1)"
      by (cases "fill_body H sid h3 (pending_or_new sid (credit_of c sid) c) c")
    obtain h4 c4 n4 ev4 where st: "push_pending h sid (h3', store_pending sid pb c1, n, ev) = (h4, c4, n4, ev4)"
      by (cases "push_pending h sid (h3', store_pending sid pb c1, n, ev)")
    note P = fill_push [OF L sid _ Suc.prems(1) _ f st]
    show ?thesis
    proof (cases "r = FillStopped")
      case True
      have "hc_pending_body c4 = []" using P(1) False by (simp add: takes_def)
      moreover have "n4 + (if open_headers ev4 then 2 else 1) \<le> fuel"
        using P(2) False True Suc.prems(2) by (auto split: if_splits)
      ultimately have "h3_data_loop H h sid fuel (h4, c4, n4, ev4) \<noteq> None"
        using Suc.IH by blast
      with False f st P(3) True show ?thesis by (simp add: Let_def)
    qed (use False f st in \<open>auto simp: Let_def split: fill_result.splits prod.splits\<close>)
  qed simp
qed (simp split: if_splits)

subsection \<open>The poll loop\<close>

lemma credit_keep:
  "credit_ok c \<Longrightarrow> hc_stream_read_window c = Some w \<Longrightarrow> \<not> hm_contains (hc_read_credit c) sid \<Longrightarrow>
     credit_ok (c\<lparr>hc_read_credit := hm_insert sid w (hc_read_credit c)\<rparr>)"
  by (auto simp: credit_ok_def hm_simps split: if_splits)

lemma on_headers_takes:
  assumes "hc_pending_body c = []" "0 < n" "sid < 2 ^ 62"
  shows "takes got h (h3, c, n, ev) (on_headers H h sid hs m (h3, c, n, ev))"
proof -
  define c1 where "c1 = (case hc_stream_read_window c of None \<Rightarrow> c
    | Some w \<Rightarrow> if hm_contains (hc_read_credit c) sid then c else c\<lparr>hc_read_credit := hm_insert sid w (hc_read_credit c)\<rparr>)"
  let ?l = "Some (case hc_largest_accepted c of None \<Rightarrow> sid | Some i \<Rightarrow> max i sid)"
  let ?e = "ev_headers_event h sid (map (\<lambda>(a, b). (h3_text H a, h3_text H b)) hs) (\<not> m)"
  have eq: "on_headers H h sid hs m (h3, c, n, ev) = (h3, c1\<lparr>hc_largest_accepted := ?l\<rparr>, n - 1, ev @ [?e])"
    by (simp add: on_headers_def assms c1_def Let_def)
  have c1: "hc_pending_body c1 = []" "h3_inv c \<longrightarrow> h3_inv c1"
    "\<And>s k. hm_get (hc_read_credit c) s = Some k \<Longrightarrow> hm_get (hc_read_credit c1) s = Some k"
    using assms(1) credit_keep [of c _ sid]
    by (auto simp: c1_def h3_inv_def hm_simps split: option.splits)
  show ?thesis unfolding eq
  proof (rule takes_idle)
    show "covers_request (hc_largest_accepted (c1\<lparr>hc_largest_accepted := ?l\<rparr>)) s"
      if "s < 2 ^ 62" "accepted_in h s [?e]" for s
      using that assms(3) as_i64_inject by (auto simp: covers_request_def split: option.splits)
    show "covers_request (hc_largest_accepted (c1\<lparr>hc_largest_accepted := ?l\<rparr>)) s"
      if "covers_request (hc_largest_accepted c) s" for s
      using that by (auto simp: covers_request_def)
  qed (use c1 assms(2) in auto)
qed

lemma on_finished_takes:
  assumes "hc_pending_body c = []" "0 < n" "sid < 2 ^ 62"
  shows "takes got h (h3, c, n, ev) (on_finished h sid (h3, c, n, ev))"
proof -
  let ?c = "c\<lparr>hc_read_credit := hm_remove sid (hc_read_credit c),
    hc_pending_readable := snd (hs_remove sid (hc_pending_readable c))\<rparr>"
  have "h3_inv c \<longrightarrow> h3_inv ?c"
    by (auto simp: h3_inv_def credit_ok_def hm_simps split: if_splits)
  then have "takes got h (h3, c, n, ev) (h3, ?c, n - 1, ev @ [ev_finished h sid])"
    using assms by (intro takes_idle) (auto simp: hm_simps)
  then show ?thesis using assms(1) by (simp add: on_finished_def)
qed

lemma push_event_takes:
  assumes "hc_pending_body c = []" "0 < n" "\<And>s. event_bytes h s e = []" "\<And>s. \<not> accepted_in h s [e]"
  shows "takes got h (h3, c, n, ev) (push_event e (h3, c, n, ev))"
  using assms by (auto intro!: takes_idle)

lemma next_event_takes:
  assumes L: "h3_recv_laws H got" and p: "next_h3_event H h3 c = (r, h3', c')" and none: "hc_pending_body c = []"
  shows "takes got h (h3, c, n, ev) (h3', c', n, ev @ [])"
proof -
  have "got h3' = got h3" "hc_pending_body c' = []" "h3_inv c \<longrightarrow> h3_inv c'" "hc_largest_accepted c' = hc_largest_accepted c"
    "hc_read_credit c' = hc_read_credit c"
    using p none h3_recv_lawsD(3) [OF L] by (auto simp: next_h3_event_def split: option.splits prod.splits)
  then show ?thesis by (intro takes_idle) auto
qed

lemma next_event_id:
  assumes "h3_recv_laws H got" "next_h3_event H h3 c = (Inr (sid, e), h3', c')" "h3_inv c"
  shows "sid < 2 ^ 62"
  using assms(2,3) h3_recv_lawsD(4) [OF assms(1)]
  by (auto simp: next_h3_event_def find_Some_iff h3_inv_def split: option.splits prod.splits)

text \<open>One event of the poll loop, all arms.\<close>

definition h3_arm ::
  "('h, 'q) h3_api \<Rightarrow> conn_handle \<Rightarrow> nat \<Rightarrow> stream_id \<Rightarrow> h3_event \<Rightarrow> ('h, 'q) poll_state \<Rightarrow> ('h, 'q) poll_state option" where
  "h3_arm H h dfuel sid e st = (case e of
     H3Headers hs m \<Rightarrow> Some (on_headers H h sid hs m st)
   | H3Data \<Rightarrow> h3_data_loop H h sid dfuel st
   | H3Finished \<Rightarrow> Some (on_finished h sid st)
   | H3Reset code \<Rightarrow> Some (on_reset h sid code st)
   | H3PriorityUpdate \<Rightarrow> Some st
   | H3GoAway \<Rightarrow> Some (push_event (ev_goaway h sid) st))"

lemma h3_arm_takes:
  assumes L: "h3_recv_laws H got" and sid: "sid < 2 ^ 62" and a: "h3_arm H h dfuel sid e (h3, c, n, ev) = Some st'"
    and none: "hc_pending_body c = []" and n: "0 < n"
  shows "takes got h (h3, c, n, ev) st'"
proof (cases e)
  case (H3Headers hs m)
  with a on_headers_takes [OF none n sid] show ?thesis by (auto simp: h3_arm_def)
next
  case H3Data
  with a h3_data_loop_takes [OF L sid _ none] show ?thesis by (simp add: h3_arm_def)
next
  case H3Finished
  with a on_finished_takes [OF none n sid] show ?thesis by (auto simp: h3_arm_def)
next
  case (H3Reset code)
  with a none have "st' = push_event (ev_reset h sid code) (h3, c, n, ev)" by (simp add: h3_arm_def on_reset_def)
  then show ?thesis using push_event_takes [OF none n] by simp
next
  case H3PriorityUpdate
  with a none show ?thesis by (auto simp: h3_arm_def intro: takes_refl)
next
  case H3GoAway
  with a have "st' = push_event (ev_goaway h sid) (h3, c, n, ev)" by (simp add: h3_arm_def)
  then show ?thesis using push_event_takes [OF none n] by simp
qed

text \<open>The loop in terms of its arms.\<close>

lemma h3_poll_loop_arm:
  "h3_poll_loop H h dfuel (Suc fuel) (h3, c, n, ev) rs cs =
     (if n = 0 then Some ((h3, c, n, ev), rs, cs)
      else case next_h3_event H h3 c of
        (Inl e, h3', c') \<Rightarrow>
          Some (if e = H3Done then (h3', c', n, ev)
                else push_event (ev_error h (-1) 0 (h3_error_text H e)) (h3', c', n, ev), rs, cs)
      | (Inr (sid, e), h3', c') \<Rightarrow>
          (case h3_arm H h dfuel sid e (h3', c', n, ev) of
             None \<Rightarrow> None
           | Some st' \<Rightarrow> h3_poll_loop H h dfuel fuel st'
               (case e of H3Reset _ \<Rightarrow> rs @ [sid] | _ \<Rightarrow> rs) (case e of H3Finished \<Rightarrow> cs @ [sid] | _ \<Rightarrow> cs)))"
  by (auto simp: h3_arm_def Let_def split: prod.splits sum.splits h3_event.splits)

lemma h3_poll_loop_takes:
  assumes L: "h3_recv_laws H got"
  shows "h3_poll_loop H h dfuel fuel (h3, c, n, ev) rs cs = Some (st', rs', cs') \<Longrightarrow> hc_pending_body c = [] \<Longrightarrow>
    h3_inv c \<Longrightarrow> takes got h (h3, c, n, ev) st'"
proof (induction fuel arbitrary: h3 c n ev rs cs)
  case (Suc fuel)
  show ?case
  proof (cases "n = 0")
    case True
    with Suc.prems show ?thesis by (auto intro: takes_refl)
  next
    case n: False
    obtain r h1 c1 where e: "next_h3_event H h3 c = (r, h1, c1)" by (cases "next_h3_event H h3 c")
    have T: "takes got h (h3, c, n, ev) (h1, c1, n, ev)"
      using next_event_takes [OF L e Suc.prems(2), of h n ev] by simp
    then have none: "hc_pending_body c1 = []" and inv: "h3_inv c1" using Suc.prems(3) by (auto simp: takes_def)
    show ?thesis
    proof (cases r)
      case (Inl x)
      have "takes got h (h1, c1, n, ev) (push_event (ev_error h (-1) 0 (h3_error_text H x)) (h1, c1, n, ev))"
        using none n by (intro push_event_takes) auto
      with Inl Suc.prems n e T show ?thesis
        by (auto simp: h3_poll_loop_arm simp del: h3_poll_loop.simps push_event.simps intro: takes_trans split: if_splits)
    next
      case (Inr y)
      obtain sid x where y: "y = (sid, x)" by (cases y)
      have sid: "sid < 2 ^ 62" using next_event_id [OF L _ Suc.prems(3)] e Inr y by blast
      obtain st1 rs1 cs1 where a: "h3_arm H h dfuel sid x (h1, c1, n, ev) = Some st1"
          and l: "h3_poll_loop H h dfuel fuel st1 rs1 cs1 = Some (st', rs', cs')"
        using Suc.prems(1) n e Inr y
        by (auto simp: h3_poll_loop_arm simp del: h3_poll_loop.simps split: option.splits)
      obtain h2 c2 n2 ev2 where st1: "st1 = (h2, c2, n2, ev2)" by (cases st1)
      have A: "takes got h (h1, c1, n, ev) (h2, c2, n2, ev2)"
        using h3_arm_takes [OF L sid a none] n st1 by simp
      with inv have "hc_pending_body c2 = []" "h3_inv c2" by (auto simp: takes_def)
      from Suc.IH [OF l [unfolded st1] this] T A show ?thesis by (blast intro: takes_trans)
    qed
  qed
qed simp

subsection \<open>After the loop\<close>

definition wake_event :: "conn_handle \<Rightarrow> js_event \<Rightarrow> bool" where
  "wake_event h e \<longleftrightarrow> (\<exists>s. e = ev_drain h s \<or> (\<exists>code. e = ev_reset h s code) \<or> (\<exists>t. e = ev_error h (as_i64 s) 0 t))"

lemma wake_not_headers: "wake_event h e \<Longrightarrow> event_type e \<noteq> EVENT_HEADERS"
  unfolding wake_event_def by (elim exE disjE) (simp_all add: event_defs event_types)

text \<open>Steps that only drop tracking state.\<close>

definition keeps :: "('h, 'q) h3_connection \<Rightarrow> ('h, 'q) h3_connection \<Rightarrow> bool" where
  "keeps c c' \<longleftrightarrow> hc_h3 c' = hc_h3 c \<and> hc_largest_accepted c' = hc_largest_accepted c \<and> h3_inv c' \<and> hc_pending_body c' = []"

lemma clear_keeps:
  "h3_inv c \<Longrightarrow> hc_pending_body c = [] \<Longrightarrow> keeps c (clear_stream_tracking sid c)"
  by (simp add: keeps_def) (simp add: clear_stream_tracking_def)

lemma foldl_keeps:
  assumes "\<And>c sid. h3_inv c \<Longrightarrow> hc_pending_body c = [] \<Longrightarrow> keeps c (f c sid)"
  shows "h3_inv c \<Longrightarrow> hc_pending_body c = [] \<Longrightarrow> keeps c (foldl f c sids)"
proof (induction sids arbitrary: c)
  case (Cons sid sids)
  from assms [OF Cons.prems] Cons.IH [of "f c sid"] show ?case by (simp add: keeps_def)
qed (simp add: keeps_def)

lemma keeps_trans: "keeps a b \<Longrightarrow> keeps b c \<Longrightarrow> keeps a c"
  by (simp add: keeps_def)

lemma keeps_refl: "h3_inv c \<Longrightarrow> hc_pending_body c = [] \<Longrightarrow> keeps c c"
  by (simp add: keeps_def)

lemma keeps_quiche [simp]:
  "keeps c (c'\<lparr>hc_quiche := q\<rparr>) = keeps c c'" "keeps (c\<lparr>hc_quiche := q\<rparr>) c' = keeps c c'"
  by (simp_all add: keeps_def)

lemma unmark_keeps:
  "h3_inv c \<Longrightarrow> hc_pending_body c = [] \<Longrightarrow> keeps c (c\<lparr>hc_blocked := unmark_blocked sid (hc_blocked c)\<rparr>)"
  by (auto simp: keeps_def h3_inv_def credit_ok_def)

lemma writable_loop_keeps:
  "writable_loop Q h fuel c ev = Some (c', ev') \<Longrightarrow> h3_inv c \<Longrightarrow> hc_pending_body c = [] \<Longrightarrow>
     keeps c c' \<and> (\<exists>new. ev' = ev @ new \<and> (\<forall>e \<in> set new. wake_event h e))"
proof (induction fuel arbitrary: c ev)
  case (Suc fuel)
  show ?case
  proof (cases "q_stream_writable_next Q (hc_quiche c)")
    case None
    with Suc.prems show ?thesis by (auto intro: keeps_refl)
  next
    case (Some y)
    obtain sid q1 where y: "y = (sid, q1)" by (cases y)
    obtain r q2 where r: "q_stream_capacity Q q1 sid = (r, q2)" by fastforce
    let ?c = "c\<lparr>hc_quiche := q2\<rparr>"
    have step: ?thesis if w: "writable_loop Q h fuel c1 (ev @ es) = Some (c', ev')" and k: "keeps ?c c1"
      and es: "\<forall>e \<in> set es. wake_event h e" for c1 es
      using Suc.IH [OF w] k es by (auto simp: keeps_def)
    show ?thesis
    proof (cases "\<exists>code. r = Inl (QStreamStopped code)")
      case True
      then obtain code where code: "r = Inl (QStreamStopped code)" by blast
      show ?thesis
      proof (rule step)
        show "writable_loop Q h fuel (clear_stream_tracking sid ?c) (ev @ [ev_reset h sid code]) = Some (c', ev')"
          using Suc.prems Some y r code by (simp add: Let_def)
        show "keeps ?c (clear_stream_tracking sid ?c)" using Suc.prems by (intro clear_keeps) auto
      qed (auto simp: wake_event_def)
    next
      case other: False
      show ?thesis
      proof (cases "sid \<in> set (blocked_set (hc_blocked c))")
        case True
        show ?thesis
        proof (rule step)
          show "writable_loop Q h fuel (?c\<lparr>hc_blocked := unmark_blocked sid (hc_blocked ?c)\<rparr>) (ev @ [ev_drain h sid]) = Some (c', ev')"
            using Suc.prems Some y r other True
            by (auto simp: Let_def split: sum.splits quiche_error.splits)
          show "keeps ?c (?c\<lparr>hc_blocked := unmark_blocked sid (hc_blocked ?c)\<rparr>)"
            using Suc.prems by (intro unmark_keeps) auto
        qed (auto simp: wake_event_def)
      next
        case False
        show ?thesis
        proof (rule step)
          show "writable_loop Q h fuel ?c (ev @ []) = Some (c', ev')"
            using Suc.prems Some y r other False
            by (auto simp: Let_def split: sum.splits quiche_error.splits)
          show "keeps ?c ?c" using Suc.prems by (intro keeps_refl) auto
        qed simp
      qed
    qed
  qed
qed simp

lemma h3_drain_keeps:
  assumes "h3_poll_drain_events Q h fuel c ev = Some (c', ev')" "h3_inv c" "hc_pending_body c = []"
  shows "keeps c c' \<and> (\<exists>new. ev' = ev @ new \<and> (\<forall>e \<in> set new. wake_event h e))"
proof -
  let ?p = "prune_closed_blocked_streams Q c"
  have P: "keeps c ?p"
    unfolding prune_closed_blocked_streams_def using assms(2,3) by (intro foldl_keeps clear_keeps)
  obtain c1 ev1 q2 b2 where w: "writable_loop Q h fuel ?p ev = Some (c1, ev1)"
    and b: "probe_blocked Q h (length (blocked_queue (hc_blocked c1))) (hc_quiche c1) (hc_blocked c1) ev1 = (q2, b2, ev')"
    and c': "c' = c1\<lparr>hc_quiche := q2, hc_blocked := b2\<rparr>"
    using assms(1) by (auto simp: h3_poll_drain_events_def split: option.splits prod.splits)
  from P have "h3_inv ?p" "hc_pending_body ?p = []" by (auto simp: keeps_def)
  from writable_loop_keeps [OF w this] obtain new where
    W: "keeps ?p c1" "ev1 = ev @ new" "\<forall>e \<in> set new. wake_event h e" by blast
  then have inv: "blocked_inv (hc_blocked c1)" by (simp add: keeps_def h3_inv_def)
  from probe_blocked_spec [OF b inv, of "blocked_queue (hc_blocked c1)" "[]"] obtain woken more where
    B: "blocked_inv b2" "ev' = ev1 @ more" "list_all2 (wakes h) woken more" by auto
  have "\<forall>e \<in> set more. wake_event h e"
    using B(3) by (induction rule: list_all2_induct) (auto simp: wakes_def wake_event_def)
  moreover have "keeps c c'" using P W(1) B(1) c' by (auto simp: keeps_def h3_inv_def credit_ok_def)
  ultimately show ?thesis using W B by auto
qed

lemma poll_datagrams_h3:
  "poll_datagram_events Q h n q ev = (q', ev') \<Longrightarrow>
     \<exists>new. ev' = ev @ new \<and> length new \<le> n \<and> (\<forall>e \<in> set new. \<exists>d. e = ev_datagram h d)"
proof (induction n arbitrary: q ev)
  case (Suc n)
  obtain r q1 where r: "q_dgram_recv Q q = (r, q1)" by fastforce
  show ?case
  proof (cases r)
    case (Inr d)
    with Suc.prems r have "poll_datagram_events Q h n q1 (ev @ [ev_datagram h d]) = (q', ev')" by simp
    from Suc.IH [OF this] show ?thesis by fastforce
  qed (use Suc.prems r in auto)
qed simp

text \<open>The whole poll, in one statement the properties below read off.\<close>

lemma poll_h3_spec:
  assumes L: "h3_recv_laws H got" and inv: "h3_inv c" and none: "hc_pending_body c = []" and h3: "hc_h3 c = Some h3"
    and p: "poll_h3_events H Q h fuel budget c ev = Some (c', ev')"
  obtains h3' c1 app wakeups where "hc_h3 c' = Some h3'" "ev' = app @ wakeups"
    "takes got h (h3, c, budget, ev) (h3', c1, 0, app)" "\<forall>e \<in> set wakeups. wake_event h e"
    "hc_largest_accepted c' = hc_largest_accepted c1" "h3_inv c'" "hc_pending_body c' = []"
proof -
  obtain c1 h1 n ev1 rs cs where T: "takes got h (h3, c, budget, ev) (h1, c1, n, ev1)"
    and rest: "(let c2 = foldl (\<lambda>c sid. clear_stream_tracking sid c) (c1\<lparr>hc_h3 := Some h1\<rparr>) rs;
              c3 = foldl (\<lambda>c sid. clear_stream_tracking_if_closed Q sid c) c2 cs
          in (case poll_datagram_events Q h n (hc_quiche c3) ev1 of
                (q4, ev4) \<Rightarrow> h3_poll_drain_events Q h fuel (c3\<lparr>hc_quiche := q4\<rparr>) ev4)) = Some (c', ev')"
  proof (cases "budget = 0")
    case True
    have same: "c\<lparr>hc_h3 := Some h3\<rparr> = c" using h3 by simp
    show ?thesis
    proof (rule that [of h3 c budget ev "[]" "[]"])
      show "takes got h (h3, c, budget, ev) (h3, c, budget, ev)" using none by (simp add: takes_refl)
    qed (use p True h3 in \<open>simp add: same poll_h3_events_def\<close>)
  next
    case False
    then obtain h1 c1 n ev1 rs cs where l: "h3_poll_loop H h (budget + 2) fuel (h3, c, budget, ev) [] [] = Some ((h1, c1, n, ev1), rs, cs)"
      using p h3 by (auto simp: poll_h3_events_def split: option.splits)
    from h3_poll_loop_takes [OF L l none inv] False p h3 l that [of h1 c1 n ev1 rs cs] show ?thesis
      by (auto simp: poll_h3_events_def)
  qed
  define c2 where "c2 = foldl (\<lambda>c sid. clear_stream_tracking sid c) (c1\<lparr>hc_h3 := Some h1\<rparr>) rs"
  define c3 where "c3 = foldl (\<lambda>c sid. clear_stream_tracking_if_closed Q sid c) c2 cs"
  have c1: "h3_inv c1" "hc_pending_body c1 = []" using T inv by (auto simp: takes_def)
  have K2: "keeps (c1\<lparr>hc_h3 := Some h1\<rparr>) c2"
    unfolding c2_def using c1 by (intro foldl_keeps clear_keeps) auto
  have K3: "keeps c2 c3"
    unfolding c3_def using K2
    by (intro foldl_keeps) (auto simp: clear_stream_tracking_if_closed_def keeps_def clear_keeps [unfolded keeps_def])
  obtain q4 ev4 where d: "poll_datagram_events Q h n (hc_quiche c3) ev1 = (q4, ev4)" by fastforce
  have D: "h3_poll_drain_events Q h fuel (c3\<lparr>hc_quiche := q4\<rparr>) ev4 = Some (c', ev')"
    using rest d by (simp add: c2_def [symmetric] c3_def [symmetric])
  have "h3_inv (c3\<lparr>hc_quiche := q4\<rparr>)" "hc_pending_body (c3\<lparr>hc_quiche := q4\<rparr>) = []" using K3 by (auto simp: keeps_def)
  from h3_drain_keeps [OF D this] obtain wakeups where
    W: "keeps c3 c'" "ev' = ev4 @ wakeups" "\<forall>e \<in> set wakeups. wake_event h e" by auto
  from poll_datagrams_h3 [OF d] obtain new where N: "ev4 = ev1 @ new" "length new \<le> n" "\<forall>e \<in> set new. \<exists>d. e = ev_datagram h d" by blast
  have "event_type e \<noteq> EVENT_HEADERS" if "e \<in> set new" for e
    using N(3) that by (fastforce simp: event_defs event_types)
  then have "\<not> accepted_in h s new" for s by (auto simp: accepted_in_def)
  then have "takes got h (h1, c1, n, ev1) (h1, c1, 0, ev1 @ new)"
    using N c1 by (intro takes_idle) auto
  with T N(1) have "takes got h (h3, c, budget, ev) (h1, c1, 0, ev4)" by (auto intro: takes_trans)
  moreover have "keeps (c1\<lparr>hc_h3 := Some h1\<rparr>) c'" using K2 K3 W(1) by (blast intro: keeps_trans)
  ultimately show ?thesis using that [of h1 ev4 wakeups c1] W(2,3) by (simp add: keeps_def)
qed


lemma goaway_id_gt:
  assumes "covers_request (hc_largest_accepted x) i" "s < i + 4" "s < 2 ^ 62 - 4"
  shows "s < goaway_id x"
proof -
  obtain j where j: "hc_largest_accepted x = Some j" "i \<le> j" using assms(1) by (auto simp: covers_request_def)
  have "(2 :: nat) ^ 62 - 4 \<le> usize_max" by (simp add: usize_max_def)
  with assms(2,3) j(2) have "s < saturating_add j 4" by (simp add: saturating_add_def)
  with j(1) assms(3) show ?thesis by (simp add: goaway_id_def MAX_SERVER_GOAWAY_REQUEST_ID_def)
qed

lemma goaway_id_lessD:
  assumes "s < goaway_id x"
  shows "\<exists>i. covers_request (hc_largest_accepted x) i \<and> s < i + 4"
  using assms by (cases "hc_largest_accepted x") (auto simp: goaway_id_def saturating_add_def covers_request_def)

text \<open>
  C27. A server's GOAWAY rejects no request it has accepted. If every request of the events before a
  poll is below the GOAWAY identifier, then after the poll every request whose HEADERS event has been
  pushed, old or new, is below it (for ids the identifier can exceed).
\<close>

theorem goaway_above_accepted:
  assumes "h3_recv_laws H got" "h3_inv c" "hc_pending_body c = []" "hc_h3 c = Some h3"
    and "poll_h3_events H Q h fuel budget c ev = Some (c', ev')"
    and "\<forall>s < 2 ^ 62 - 4. accepted_in h s ev \<longrightarrow> s < goaway_id c"
  shows "\<forall>s < 2 ^ 62 - 4. accepted_in h s ev' \<longrightarrow> s < goaway_id c'"
proof (intro allI impI)
  fix s :: nat assume s: "s < 2 ^ 62 - 4" and a: "accepted_in h s ev'"
  then have s': "s < 2 ^ 62" by simp
  obtain h3' c1 app wakeups where P: "ev' = app @ wakeups" "takes got h (h3, c, budget, ev) (h3', c1, 0, app)"
    "\<forall>e \<in> set wakeups. wake_event h e" "hc_largest_accepted c' = hc_largest_accepted c1"
    by (rule poll_h3_spec [OF assms(1-5)])
  have "\<not> accepted_in h s wakeups"
    using P(3) wake_not_headers unfolding accepted_in_def by blast
  with a P(1) have "accepted_in h s app" by simp
  from takes_accepted(1) [OF P(2) s' this] show "s < goaway_id c'"
  proof
    assume "accepted_in h s ev"
    with assms(6) s have "s < goaway_id c" by blast
    from goaway_id_lessD [OF this] obtain i where i: "covers_request (hc_largest_accepted c) i" "s < i + 4" by blast
    then have "covers_request (hc_largest_accepted c') i" using takes_accepted(2) [OF P(2)] P(4) by simp
    from goaway_id_gt [OF this i(2) s] show ?thesis .
  next
    assume "covers_request (hc_largest_accepted c1) s"
    with P(4) goaway_id_gt [of c' s s] s show ?thesis by simp
  qed
qed

end
