(* ===== verification/H3_Termination.thy ===== *)
theory H3_Termination
  imports H3_Delivery
begin

text \<open>
  Polling an HTTP/3 connection returns: the loop over the library's events, the rounds of a DATA
  event and the loop over writable streams.
\<close>

text \<open>
  The library reports finitely many events for what it has received: \<open>supply\<close> bounds the events still
  to come, and reading a body adds none. Likewise \<open>writable\<close> bounds the streams still to be reported
  writable, and asking for a stream's capacity adds none.
\<close>

definition h3_supply_laws ::
  "('h, 'q) h3_api \<Rightarrow> 'q quiche_api \<Rightarrow> ('h \<Rightarrow> 'q \<Rightarrow> nat) \<Rightarrow> ('q \<Rightarrow> nat) \<Rightarrow> bool" where
  "h3_supply_laws H Q supply writable \<longleftrightarrow>
     (\<forall>h q x h' q'. h3_poll H h q = (Inr x, h', q') \<longrightarrow> supply h' q' < supply h q)
   \<and> (\<forall>h q sid n r h' q'. h3_recv_body H h q sid n = (r, h', q') \<longrightarrow> supply h' q' \<le> supply h q)
   \<and> (\<forall>q sid q'. q_stream_writable_next Q q = Some (sid, q') \<longrightarrow> writable q' < writable q)
   \<and> (\<forall>q sid r q'. q_stream_capacity Q q sid = (r, q') \<longrightarrow> writable q' \<le> writable q)"

lemma h3_supply_lawsD:
  assumes "h3_supply_laws H Q supply writable"
  shows "h3_poll H h q = (Inr (s, e), h', q') \<Longrightarrow> supply h' q' < supply h q"
    and "h3_recv_body H h q sid n = (r, h', q') \<Longrightarrow> supply h' q' \<le> supply h q"
    and "q_stream_writable_next Q q = Some (sid, q') \<Longrightarrow> writable q' < writable q"
    and "q_stream_capacity Q q sid = (r2, q') \<Longrightarrow> writable q' \<le> writable q"
  using assms by (simp_all add: h3_supply_laws_def)

definition ready_count :: "('h, 'q) h3_connection \<Rightarrow> nat" where
  "ready_count c = length (filter (\<lambda>s. 0 < credit_of c s) (hc_pending_readable c))"

definition poll_work :: "('h \<Rightarrow> 'q \<Rightarrow> nat) \<Rightarrow> 'h \<Rightarrow> ('h, 'q) h3_connection \<Rightarrow> nat" where
  "poll_work supply h3 c = supply h3 (hc_quiche c) + ready_count c"

lemma ready_count_mono:
  assumes "\<And>s. s \<in> set (hc_pending_readable c) \<Longrightarrow> 0 < credit_of c' s \<Longrightarrow> 0 < credit_of c s"
    and "hc_pending_readable c' = filter P (hc_pending_readable c)"
  shows "ready_count c' \<le> ready_count c"
proof -
  have "length (filter A xs) \<le> length (filter B xs)" if "\<And>x. x \<in> set xs \<Longrightarrow> A x \<Longrightarrow> B x" for A B and xs :: "stream_id list"
    using that by (induction xs) (auto simp: le_SucI)
  from this [of "hc_pending_readable c" "\<lambda>s. P s \<and> 0 < credit_of c' s"] assms
  show ?thesis by (auto simp: ready_count_def)
qed

lemma fill_body_work:
  assumes S: "h3_supply_laws H Q supply writable" and f: "fill_body H sid h3 pb c = (r, h3', pb', c')"
  shows "supply h3' (hc_quiche c') \<le> supply h3 (hc_quiche c) \<and> hc_pending_readable c' = hc_pending_readable c
    \<and> hc_pending_body c' = hc_pending_body c \<and> (\<forall>s. 0 < credit_of c' s \<longrightarrow> 0 < credit_of c s)"
  using S f
proof (induction H sid h3 pb c rule: fill_body.induct [case_names body])
  case (body H sid h3 pb c)
  note S = body.prems(1) and f = body.prems(2)
  show ?case
  proof (cases "pb_is_full pb")
    case True
    with f show ?thesis by (simp add: fill_body.simps [of H sid h3 pb c])
  next
    case nf: False
    obtain x h1 q1 where x: "h3_recv_body H h3 (hc_quiche c) sid (pb_remaining pb) = (x, h1, q1)"
      by (cases "h3_recv_body H h3 (hc_quiche c) sid (pb_remaining pb)")
    note le = h3_supply_lawsD(2) [OF S x]
    show ?thesis
    proof (cases x)
      case (Inl e)
      with f nf x le show ?thesis
        by (auto simp: fill_body.simps [of H sid h3 pb c] credit_of_def split: if_splits)
    next
      case (Inr d)
      let ?c1 = "spend_credit sid (length d) (c\<lparr>hc_quiche := q1\<rparr>)" and ?pb = "pb\<lparr>pb_bytes := pb_bytes pb @ d\<rparr>"
      have c1: "hc_quiche ?c1 = q1" "hc_pending_readable ?c1 = hc_pending_readable c" "hc_pending_body ?c1 = hc_pending_body c"
        "\<forall>s. 0 < credit_of ?c1 s \<longrightarrow> 0 < credit_of c s"
        by (auto simp: spend_credit_def credit_of_def saturating_sub_def hm_simps split: option.splits if_splits)
      show ?thesis
      proof (cases "d = []")
        case True
        with f nf x Inr c1 le show ?thesis by (auto simp: fill_body.simps [of H sid h3 pb c] Let_def)
      next
        case False
        then have "fill_body H sid h1 ?pb ?c1 = (r, h3', pb', c')"
          using f nf x Inr by (simp add: fill_body.simps [of H sid h3 pb c] Let_def)
        from body.IH [OF nf x [symmetric] Inr refl refl refl False S this] c1 le show ?thesis by auto
      qed
    qed
  qed
qed

lemma take_pending_frame:
  "snd (take_pending_body_event h sid c) = c\<lparr>hc_pending_body := hm_remove sid (hc_pending_body c)\<rparr>"
proof (cases "hm_get (hc_pending_body c) sid")
  case None
  then have "hm_remove sid (hc_pending_body c) = hc_pending_body c"
    by (simp add: map_of_eq_None_iff delete_id)
  with None show ?thesis by (simp add: take_pending_body_event_def)
qed (simp add: take_pending_body_event_def Let_def)

lemma push_pending_frame:
  "\<exists>n' ev'. push_pending h sid (h3, c, n, ev) = (h3, c\<lparr>hc_pending_body := hm_remove sid (hc_pending_body c)\<rparr>, n', ev')"
proof -
  obtain r c1 where t: "take_pending_body_event h sid c = (r, c1)" by fastforce
  have "c1 = c\<lparr>hc_pending_body := hm_remove sid (hc_pending_body c)\<rparr>"
    using take_pending_frame [of h sid c] t by simp
  with t show ?thesis
    by (cases r) (simp_all add: push_pending_def push_pending_body_event_def split: prod.split)
qed

lemma pending_body_frame [simp]:
  "credit_of (c\<lparr>hc_pending_body := b\<rparr>) = credit_of c" "ready_count (c\<lparr>hc_pending_body := b\<rparr>) = ready_count c"
  "credit_of (c\<lparr>hc_quiche := q\<rparr>) = credit_of c" "ready_count (c\<lparr>hc_quiche := q\<rparr>) = ready_count c"
  by (simp_all add: credit_of_def ready_count_def fun_eq_iff)

lemma h3_data_loop_frame:
  assumes S: "h3_supply_laws H Q supply writable"
  shows "h3_data_loop H h sid fuel (h3, c, n, ev) = Some (h3', c', n', ev') \<Longrightarrow>
    supply h3' (hc_quiche c') \<le> supply h3 (hc_quiche c) \<and> (\<forall>s. 0 < credit_of c' s \<longrightarrow> 0 < credit_of c s)
    \<and> (hc_pending_readable c' = hc_pending_readable c
       \<or> hc_pending_readable c' = snd (hs_insert sid (hc_pending_readable c)) \<and> (n' = 0 \<or> credit_of c' sid = 0))"
proof (induction fuel arbitrary: h3 c n ev)
  case (Suc fuel)
  show ?case
  proof (cases "n = 0 \<or> credit_of c sid = 0")
    case True
    with Suc.prems show ?thesis by (auto simp: credit_of_def)
  next
    case False
    obtain r h1 pb c1 where f: "fill_body H sid h3 (pending_or_new sid (credit_of c sid) c) c = (r, h1, pb, c1)"
      by (cases "fill_body H sid h3 (pending_or_new sid (credit_of c sid) c) c")
    note F = fill_body_work [OF S f]
    obtain b1 where b1: "store_pending sid pb c1 = c1\<lparr>hc_pending_body := b1\<rparr>"
      by (cases "pb_bytes pb = []") (auto simp: store_pending_def)
    obtain b2 n2 e2 where p2: "push_pending h sid (h1, c1\<lparr>hc_pending_body := b1\<rparr>, n, ev) = (h1, c1\<lparr>hc_pending_body := b2\<rparr>, n2, e2)"
      using push_pending_frame [of h sid h1 "c1\<lparr>hc_pending_body := b1\<rparr>" n ev] by auto
    obtain b3 n3 e3 where p3: "push_pending h sid (h1, c1\<lparr>hc_pending_body := b2\<rparr>, n2, e2) = (h1, c1\<lparr>hc_pending_body := b3\<rparr>, n3, e3)"
      using push_pending_frame [of h sid h1 "c1\<lparr>hc_pending_body := b2\<rparr>" n2 e2] by auto
    have near: ?thesis if "h3' = h1" "c' = c1\<lparr>hc_pending_body := b\<rparr>" for b
      using that F by auto
    show ?thesis
    proof (cases "r = FillStopped \<and> pb_is_full pb")
      case True
      with Suc.prems False f b1 p2 have "h3_data_loop H h sid fuel (h1, c1\<lparr>hc_pending_body := b2\<rparr>, n2, e2) = Some (h3', c', n', ev')"
        by (simp add: Let_def)
      from Suc.IH [OF this] F show ?thesis by auto
    next
      case last: False
      show ?thesis
      proof (cases r)
        case FillStopped
        with Suc.prems False f b1 last show ?thesis by (intro near [of b1]) (simp_all add: Let_def)
      next
        case FillDrained
        with Suc.prems False f b1 p2 show ?thesis by (intro near [of b2]) (simp_all add: Let_def)
      next
        case (FillError msg)
        show ?thesis
        proof (cases "pb_is_full pb")
          case True
          with FillError Suc.prems False f b1 p2 p3 show ?thesis
            by (intro near [of b3]) (simp_all add: Let_def split: if_splits)
        next
          case nf: False
          with FillError Suc.prems False f b1 p2 show ?thesis
            by (intro near [of b2]) (simp_all add: Let_def split: if_splits)
        qed
      qed
    qed
  qed
qed simp

lemma length_filter_le_filter:
  assumes "\<And>x. x \<in> set xs \<Longrightarrow> A x \<Longrightarrow> B x"
  shows "length (filter A xs) \<le> length (filter B xs)"
  using assms by (induction xs) (auto simp: le_SucI)

lemma h3_data_loop_work:
  assumes S: "h3_supply_laws H Q supply writable"
    and l: "h3_data_loop H h sid fuel (h3, c, n, ev) = Some (h3', c', n', ev')"
  shows "n' = 0 \<or> poll_work supply h3' c' \<le> poll_work supply h3 c"
proof -
  note F = h3_data_loop_frame [OF S l]
  have le: "length (filter (\<lambda>s. 0 < credit_of c' s) xs) \<le> length (filter (\<lambda>s. 0 < credit_of c s) xs)" for xs
    using F by (intro length_filter_le_filter) blast
  have "ready_count c' \<le> ready_count c" if "n' \<noteq> 0"
  proof (cases "hc_pending_readable c' = hc_pending_readable c")
    case True
    with le show ?thesis by (simp add: ready_count_def)
  next
    case False
    with F that have "hc_pending_readable c' = snd (hs_insert sid (hc_pending_readable c))" "credit_of c' sid = 0" by auto
    with le [of "hc_pending_readable c"] show ?thesis by (auto simp: ready_count_def hs_insert_def)
  qed
  with F show ?thesis unfolding poll_work_def by (meson add_mono)
qed

lemma h3_arm_work:
  assumes S: "h3_supply_laws H Q supply writable" and a: "h3_arm H h dfuel sid e (h3, c, n, ev) = Some (h3', c', n', ev')"
    and none: "hc_pending_body c = []"
  shows "n' = 0 \<or> poll_work supply h3' c' \<le> poll_work supply h3 c"
proof (cases e)
  case H3Data
  with a h3_data_loop_work [OF S] show ?thesis by (simp add: h3_arm_def)
next
  case (H3Headers hs m)
  with a none have "h3' = h3" "hc_quiche c' = hc_quiche c" "hc_pending_readable c' = hc_pending_readable c"
    by (auto simp: h3_arm_def on_headers_def Let_def split: option.splits)
  moreover have "0 < credit_of c s" if "0 < credit_of c' s" for s
    using that a none H3Headers
    by (auto simp: h3_arm_def on_headers_def Let_def credit_of_def hm_simps usize_max_def split: option.splits if_splits)
  ultimately show ?thesis
    by (simp add: poll_work_def ready_count_def length_filter_le_filter)
next
  case H3Finished
  let ?c = "c\<lparr>hc_read_credit := hm_remove sid (hc_read_credit c), hc_pending_readable := removeAll sid (hc_pending_readable c)\<rparr>"
  have "h3' = h3" "c' = ?c" using a none H3Finished by (auto simp: h3_arm_def on_finished_def hs_remove_def)
  moreover have "credit_of ?c s = credit_of c s" if "s \<noteq> sid" for s using that by (simp add: credit_of_def hm_simps)
  ultimately show ?thesis
    by (auto simp: poll_work_def ready_count_def removeAll_filter_not_eq intro!: length_filter_le_filter)
qed (use a none in \<open>auto simp: h3_arm_def on_reset_def\<close>)

lemma next_event_work:
  assumes S: "h3_supply_laws H Q supply writable" and e: "next_h3_event H h3 c = (Inr x, h3', c')"
  shows "poll_work supply h3' c' < poll_work supply h3 c"
proof (cases "find (\<lambda>s. 0 < credit_of c s) (hc_pending_readable c)")
  case None
  obtain sid y where x: "x = (sid, y)" by (cases x)
  from None e x obtain q' where "h3_poll H h3 (hc_quiche c) = (Inr (sid, y), h3', q')" "c' = c\<lparr>hc_quiche := q'\<rparr>"
    by (auto simp: next_h3_event_def split: prod.splits)
  with h3_supply_lawsD(1) [OF S] show ?thesis by (simp add: poll_work_def)
next
  case (Some sid)
  with e have c': "h3' = h3" "c' = c\<lparr>hc_pending_readable := removeAll sid (hc_pending_readable c)\<rparr>"
    by (auto simp: next_h3_event_def hs_remove_def)
  have sid: "sid \<in> set (hc_pending_readable c)" "0 < credit_of c sid"
    using Some by (auto simp: find_Some_iff)
  have "credit_of c' = credit_of c" using c' by (simp add: credit_of_def fun_eq_iff)
  moreover have "length (filter A (removeAll sid xs)) < length (filter A xs)" if "sid \<in> set xs" "A sid" for A xs
    using that
  proof (induction xs)
    case (Cons y ys)
    have "length (filter A (removeAll sid ys)) \<le> length (filter A ys)"
      by (auto simp: removeAll_filter_not_eq intro: length_filter_le_filter)
    with Cons show ?case by auto
  qed simp
  ultimately show ?thesis using c' sid by (simp add: poll_work_def ready_count_def)
qed

lemma h3_arm_returns:
  assumes "h3_recv_laws H got" "sid < 2 ^ 62" "hc_pending_body c = []" "n + 2 \<le> dfuel"
  shows "\<exists>st'. h3_arm H h dfuel sid e (h3, c, n, ev) = Some st'"
  using h3_data_loop_returns [OF assms(1,2,3), of n ev dfuel h h3] assms(4)
  by (cases e) (auto simp: h3_arm_def simp del: split_paired_Ex split: if_splits)

lemma h3_poll_loop_returns:
  assumes L: "h3_recv_laws H got" and S: "h3_supply_laws H Q supply writable"
  shows "hc_pending_body c = [] \<Longrightarrow> h3_inv c \<Longrightarrow> n + 2 \<le> dfuel \<Longrightarrow>
    \<exists>r. \<forall>fuel > poll_work supply h3 c + 1. h3_poll_loop H h dfuel fuel (h3, c, n, ev) rs cs = Some r"
proof (induction "poll_work supply h3 c" arbitrary: h3 c n ev rs cs rule: less_induct)
  case less
  have unroll: "\<exists>r. \<forall>fuel > poll_work supply h3 c + 1. h3_poll_loop H h dfuel fuel (h3, c, n, ev) rs cs = Some r"
    if "\<exists>r. \<forall>fuel > poll_work supply h3 c. h3_poll_loop H h dfuel (Suc fuel) (h3, c, n, ev) rs cs = Some r"
  proof -
    from that obtain r where r: "\<forall>fuel > poll_work supply h3 c. h3_poll_loop H h dfuel (Suc fuel) (h3, c, n, ev) rs cs = Some r" ..
    have "h3_poll_loop H h dfuel fuel (h3, c, n, ev) rs cs = Some r" if "poll_work supply h3 c + 1 < fuel" for fuel
      using that r by (cases fuel) auto
    then show ?thesis by blast
  qed
  show ?case
  proof (rule unroll, cases "n = 0")
    case True
    then show "\<exists>r. \<forall>fuel > poll_work supply h3 c. h3_poll_loop H h dfuel (Suc fuel) (h3, c, n, ev) rs cs = Some r" by auto
  next
    case n: False
    obtain x h1 c1 where e: "next_h3_event H h3 c = (x, h1, c1)" by (cases "next_h3_event H h3 c")
    show "\<exists>r. \<forall>fuel > poll_work supply h3 c. h3_poll_loop H h dfuel (Suc fuel) (h3, c, n, ev) rs cs = Some r"
    proof (cases x)
      case (Inl y)
      with n e show ?thesis by auto
    next
      case (Inr y)
      obtain sid z where y: "y = (sid, z)" by (cases y)
      have T: "takes got h (h3, c, n, ev) (h1, c1, n, ev)"
        using next_event_takes [OF L e less.prems(1), of h n ev] by simp
      have sid: "sid < 2 ^ 62" using next_event_id [OF L _ less.prems(2)] e Inr y by blast
      have c1: "hc_pending_body c1 = []" "h3_inv c1" using T less.prems by (auto simp: takes_def)
      obtain h2 c2 n2 ev2 where a: "h3_arm H h dfuel sid z (h1, c1, n, ev) = Some (h2, c2, n2, ev2)"
        using h3_arm_returns [OF L sid c1(1) less.prems(3)] by (metis prod_cases4)
      let ?rs = "case z of H3Reset _ \<Rightarrow> rs @ [sid] | _ \<Rightarrow> rs" and ?cs = "case z of H3Finished \<Rightarrow> cs @ [sid] | _ \<Rightarrow> cs"
      have step: "h3_poll_loop H h dfuel (Suc fuel) (h3, c, n, ev) rs cs = h3_poll_loop H h dfuel fuel (h2, c2, n2, ev2) ?rs ?cs" for fuel
        using n e Inr y a by (simp add: h3_poll_loop_arm del: h3_poll_loop.simps)
      have w1: "poll_work supply h1 c1 < poll_work supply h3 c"
        using next_event_work [OF S] e Inr by blast
      have T2: "takes got h (h1, c1, n, ev) (h2, c2, n2, ev2)" using h3_arm_takes [OF L sid a c1(1)] n by simp
      show ?thesis
      proof (cases "n2 = 0")
        case True
        have "h3_poll_loop H h dfuel fuel (h2, c2, n2, ev2) ?rs ?cs = Some ((h2, c2, n2, ev2), ?rs, ?cs)" if "0 < fuel" for fuel
          using that True by (cases fuel) auto
        with step show ?thesis by (metis gr_zeroI not_less_zero)
      next
        case False
        with h3_arm_work [OF S a c1(1)] w1 have w2: "poll_work supply h2 c2 < poll_work supply h3 c" by simp
        have "hc_pending_body c2 = []" "h3_inv c2" "n2 + 2 \<le> dfuel" using T2 c1(2) less.prems(3) by (auto simp: takes_def)
        from less.hyps [OF w2 this, of ev2 ?rs ?cs] w2 step show ?thesis by fastforce
      qed
    qed
  qed
qed

lemma writable_loop_returns:
  assumes S: "h3_supply_laws H Q supply writable"
  shows "\<exists>r. \<forall>fuel > writable (hc_quiche c). writable_loop Q h fuel c ev = Some r"
proof (induction "writable (hc_quiche c)" arbitrary: c ev rule: less_induct)
  case less
  show ?case
  proof (cases "q_stream_writable_next Q (hc_quiche c)")
    case None
    have "writable_loop Q h fuel c ev = Some (c, ev)" if "writable (hc_quiche c) < fuel" for fuel
      using that None by (cases fuel) auto
    then show ?thesis by blast
  next
    case (Some y)
    obtain sid q1 where y: "y = (sid, q1)" by (cases y)
    obtain r q2 where r: "q_stream_capacity Q q1 sid = (r, q2)" by fastforce
    have w: "writable q2 < writable (hc_quiche c)"
      using h3_supply_lawsD(3,4) [OF S] Some y r by (metis le_less_trans)
    obtain c2 ev2 where c2: "hc_quiche c2 = q2" and
      step: "\<And>fuel. writable_loop Q h (Suc fuel) c ev = writable_loop Q h fuel c2 ev2"
    proof (cases "\<exists>code. r = Inl (QStreamStopped code)")
      case True
      then obtain code where "r = Inl (QStreamStopped code)" by blast
      with Some y r that [of "clear_stream_tracking sid (c\<lparr>hc_quiche := q2\<rparr>)" "ev @ [ev_reset h sid code]"] show ?thesis
        by (simp add: Let_def clear_stream_tracking_def)
    next
      case False
      let ?c = "c\<lparr>hc_quiche := q2\<rparr>"
      let ?b = "sid \<in> set (blocked_set (hc_blocked c))"
      have "writable_loop Q h (Suc fuel) c ev = writable_loop Q h fuel
          (if ?b then ?c\<lparr>hc_blocked := unmark_blocked sid (hc_blocked ?c)\<rparr> else ?c) (if ?b then ev @ [ev_drain h sid] else ev)" for fuel
        using Some y r False by (cases r) (auto simp: Let_def split: quiche_error.splits)
      then show ?thesis by (intro that) auto
    qed
    from less.hyps [of c2 ev2] w c2 obtain r where R: "\<forall>fuel > writable q2. writable_loop Q h fuel c2 ev2 = Some r" by auto
    have "writable_loop Q h fuel c ev = Some r" if "writable (hc_quiche c) < fuel" for fuel
      using that R step w by (cases fuel) auto
    then show ?thesis by blast
  qed
qed

lemma h3_drain_returns:
  assumes S: "h3_supply_laws H Q supply writable"
  shows "\<exists>need r. \<forall>fuel \<ge> need. h3_poll_drain_events Q h fuel c ev = Some r"
proof -
  let ?p = "prune_closed_blocked_streams Q c"
  obtain r where R: "\<forall>fuel > writable (hc_quiche ?p). writable_loop Q h fuel ?p ev = Some r"
    using writable_loop_returns [OF S] by blast
  obtain c2 ev2 where "r = (c2, ev2)" by (cases r)
  with R have "\<forall>fuel \<ge> Suc (writable (hc_quiche ?p)).
      h3_poll_drain_events Q h fuel c ev = Some (case probe_blocked Q h (length (blocked_queue (hc_blocked c2)))
        (hc_quiche c2) (hc_blocked c2) ev2 of (q3, b3, ev3) \<Rightarrow> (c2\<lparr>hc_quiche := q3, hc_blocked := b3\<rparr>, ev3))"
    by (auto simp: h3_poll_drain_events_def split: prod.splits)
  then show ?thesis by blast
qed

text \<open>
  C17. Polling an HTTP/3 connection returns. If the library has a finite supply of events and of
  writable streams, the loops of a poll end whatever the streams, credits and budget are: from some
  amount of fuel on the poll has a result, and it no longer depends on the fuel.
\<close>

theorem h3_poll_returns:
  assumes L: "h3_recv_laws H got" and S: "h3_supply_laws H Q supply writable"
    and inv: "h3_inv c" and none: "hc_pending_body c = []"
  shows "\<exists>need r. \<forall>fuel \<ge> need. poll_h3_events H Q h fuel budget c ev = Some r"
proof -
  define post where "post = (\<lambda>fuel (c1 :: ('a, 'b) h3_connection) n ev1 rs cs.
     let c2 = foldl (\<lambda>c sid. clear_stream_tracking sid c) c1 rs;
         c3 = foldl (\<lambda>c sid. clear_stream_tracking_if_closed Q sid c) c2 cs
     in (case poll_datagram_events Q h n (hc_quiche c3) ev1 of
           (q4, ev4) \<Rightarrow> h3_poll_drain_events Q h fuel (c3\<lparr>hc_quiche := q4\<rparr>) ev4))"
  have after: "\<exists>need r. \<forall>fuel \<ge> need. post fuel c1 n ev1 rs cs = Some r" for c1 :: "('a, 'b) h3_connection" and n ev1 rs cs
    unfolding post_def Let_def case_prod_beta by (rule h3_drain_returns [OF S])
  show ?thesis
  proof (cases "hc_h3 c = None \<or> budget = 0")
    case True
    then have "poll_h3_events H Q h fuel budget c ev = post fuel c budget ev [] []" for fuel
      by (auto simp: poll_h3_events_def post_def split: option.splits)
    with after show ?thesis by simp
  next
    case False
    then obtain h3 where h3: "hc_h3 c = Some h3" by auto
    from h3_poll_loop_returns [OF L S none inv order_refl [of "budget + 2"]] obtain r where
      R: "\<forall>fuel > poll_work supply h3 c + 1. h3_poll_loop H h (budget + 2) fuel (h3, c, budget, ev) [] [] = Some r" by blast
    obtain h1 c1 n ev1 rs cs where r: "r = ((h1, c1, n, ev1), rs, cs)" by (metis prod.exhaust)
    obtain need r' where N: "\<forall>fuel \<ge> need. post fuel (c1\<lparr>hc_h3 := Some h1\<rparr>) n ev1 rs cs = Some r'" using after by blast
    have "poll_h3_events H Q h fuel budget c ev = Some r'" if "poll_work supply h3 c + 2 + need \<le> fuel" for fuel
    proof -
      have "h3_poll_loop H h (budget + 2) fuel (h3, c, budget, ev) [] [] = Some r" using R that by simp
      moreover have "post fuel (c1\<lparr>hc_h3 := Some h1\<rparr>) n ev1 rs cs = Some r'" using N that by simp
      ultimately show ?thesis using False h3 r by (simp add: poll_h3_events_def post_def)
    qed
    then show ?thesis by blast
  qed
qed

end
