(* ===== verification/H3_Runs.thy ===== *)
theory H3_Runs
  imports H3_Termination
begin

text \<open>
  The send contract of an HTTP/3 connection, the invariant over everything a worker does to one, and
  a scripted library on which the hypotheses of the properties hold.
\<close>

subsection \<open>Sending a body\<close>

text \<open>
  \<open>sent\<close> and \<open>finned\<close> observe the body bytes and the FIN the library has taken on each stream. A body
  send takes a prefix and leaves the rest in the buffer it was lent; the FIN goes with the last byte;
  a refused send takes nothing and leaves the buffer as it was.
\<close>

definition h3_send_laws ::
  "('h, 'q) h3_api \<Rightarrow> 'q quiche_api \<Rightarrow> ('h \<times> 'q \<Rightarrow> stream_id \<Rightarrow> byte list) \<Rightarrow> ('h \<times> 'q \<Rightarrow> stream_id \<Rightarrow> bool) \<Rightarrow> bool" where
  "h3_send_laws H Q sent finned \<longleftrightarrow>
     (\<forall>h q sid buf fin n buf' h' q'. h3_send_body_zc H h q sid buf fin = (Inr n, buf', h', q') \<longrightarrow>
        n \<le> remaining_len buf
        \<and> stream_sends_prefix sent finned sid (take n (arc_as_ref buf)) (fin \<and> n = remaining_len buf) (h, q) (h', q')
        \<and> (arc_inv buf \<longrightarrow> arc_inv buf' \<and> arc_as_ref buf' = drop n (arc_as_ref buf) \<and> remaining_len buf' = remaining_len buf - n))
   \<and> (\<forall>h q sid buf fin e buf' h' q'. h3_send_body_zc H h q sid buf fin = (Inl e, buf', h', q') \<longrightarrow>
        buf' = buf \<and> sent (h', q') = sent (h, q) \<and> finned (h', q') = finned (h, q))
   \<and> (\<forall>h q sid n h' q'. h3_send_fin H h q sid = (Inr n, h', q') \<longrightarrow>
        stream_sends_prefix sent finned sid [] True (h, q) (h', q'))
   \<and> (\<forall>h q sid e h' q'. h3_send_fin H h q sid = (Inl e, h', q') \<longrightarrow>
        sent (h', q') = sent (h, q) \<and> finned (h', q') = finned (h, q))
   \<and> (\<forall>h q sid r q'. q_stream_capacity Q q sid = (r, q') \<longrightarrow>
        sent (h, q') = sent (h, q) \<and> finned (h, q') = finned (h, q))"

lemma h3_send_lawsD:
  assumes "h3_send_laws H Q sent finned"
  shows "h3_send_body_zc H h q sid buf fin = (Inr n, buf', h', q') \<Longrightarrow> n \<le> remaining_len buf
        \<and> stream_sends_prefix sent finned sid (take n (arc_as_ref buf)) (fin \<and> n = remaining_len buf) (h, q) (h', q')
        \<and> (arc_inv buf \<longrightarrow> arc_inv buf' \<and> arc_as_ref buf' = drop n (arc_as_ref buf) \<and> remaining_len buf' = remaining_len buf - n)"
    and "h3_send_body_zc H h q sid buf fin = (Inl e, buf', h', q') \<Longrightarrow>
        buf' = buf \<and> sent (h', q') = sent (h, q) \<and> finned (h', q') = finned (h, q)"
    and "h3_send_fin H h q sid = (Inr n, h', q') \<Longrightarrow> stream_sends_prefix sent finned sid [] True (h, q) (h', q')"
    and "h3_send_fin H h q sid = (Inl e, h', q') \<Longrightarrow> sent (h', q') = sent (h, q) \<and> finned (h', q') = finned (h, q)"
    and "q_stream_capacity Q q sid = (r, q') \<Longrightarrow> sent (h, q') = sent (h, q) \<and> finned (h, q') = finned (h, q)"
proof (goal_cases)
  case 1
  then show ?case using assms [unfolded h3_send_laws_def, THEN conjunct1] by blast
next
  case 2
  then show ?case using assms [unfolded h3_send_laws_def, THEN conjunct2, THEN conjunct1] by blast
next
  case 3
  then show ?case using assms [unfolded h3_send_laws_def, THEN conjunct2, THEN conjunct2, THEN conjunct1] by blast
next
  case 4
  then show ?case
    using assms [unfolded h3_send_laws_def, THEN conjunct2, THEN conjunct2, THEN conjunct2, THEN conjunct1] by blast
next
  case 5
  then show ?case
    using assms [unfolded h3_send_laws_def, THEN conjunct2, THEN conjunct2, THEN conjunct2, THEN conjunct2] by blast
qed

text \<open>What a connection has sent on a stream; sending trailers is a FIN.\<close>

definition h3_sent :: "('h \<times> 'q \<Rightarrow> stream_id \<Rightarrow> byte list) \<Rightarrow> stream_id \<Rightarrow> ('h, 'q) h3_connection \<Rightarrow> byte list" where
  "h3_sent sent sid c = (case hc_h3 c of None \<Rightarrow> [] | Some h \<Rightarrow> sent (h, hc_quiche c) sid)"

definition h3_finned :: "('h \<times> 'q \<Rightarrow> stream_id \<Rightarrow> bool) \<Rightarrow> stream_id \<Rightarrow> ('h, 'q) h3_connection \<Rightarrow> bool" where
  "h3_finned finned sid c \<longleftrightarrow> sid \<in> set (hc_trailer_fin c) \<or> (\<exists>h. hc_h3 c = Some h \<and> finned (h, hc_quiche c) sid)"

definition h3_reported ::
  "('h \<times> 'q \<Rightarrow> stream_id \<Rightarrow> byte list) \<Rightarrow> ('h \<times> 'q \<Rightarrow> stream_id \<Rightarrow> bool) \<Rightarrow> stream_id
     \<Rightarrow> ('h, 'q) h3_connection \<Rightarrow> arc_buf \<Rightarrow> bool \<Rightarrow> send_outcome \<Rightarrow> ('h, 'q) h3_connection \<Rightarrow> bool" where
  "h3_reported sent finned sid c buf fin out c' \<longleftrightarrow>
     h3_sent sent sid c' = h3_sent sent sid c @ take (so_written out) (arc_as_ref buf)
     \<and> (h3_finned finned sid c' \<longleftrightarrow> h3_finned finned sid c \<or> so_fin_accepted out) \<and> (so_fin_accepted out \<longrightarrow> fin)
     \<and> (case so_remainder out of
          None \<Rightarrow> remaining_len buf \<le> so_written out
        | Some r \<Rightarrow> so_written out \<le> remaining_len buf \<and> \<not> so_fin_accepted out
            \<and> (arc_inv buf \<longrightarrow> arc_inv r \<and> arc_as_ref r = drop (so_written out) (arc_as_ref buf)
                 \<and> remaining_len r = remaining_len buf - so_written out))"

lemma hc_block_simps [simp]:
  "hc_h3 (hc_block sid c) = hc_h3 c" "hc_quiche (hc_block sid c) = hc_quiche c"
  "hc_trailer_fin (hc_block sid c) = hc_trailer_fin c"
  by (simp_all add: hc_block_def)

lemma h3_reported_block [simp]:
  "h3_reported sent finned sid c buf fin out (hc_block sid c') = h3_reported sent finned sid c buf fin out c'"
  by (simp add: h3_reported_def h3_sent_def h3_finned_def cong: option.case_cong)

lemma send_body_fin_reported:
  assumes L: "h3_send_laws H Q sent finned" and h: "hc_h3 c = Some h" and z: "remaining_len buf = 0"
    and s: "send_body_fin H h sid c buf = (Inr out, c')"
  shows "h3_reported sent finned sid c buf True out c'"
proof -
  obtain r h' q' where r: "h3_send_fin H h (hc_quiche c) sid = (r, h', q')"
    by (cases "h3_send_fin H h (hc_quiche c) sid")
  note z' = z remaining_len_zero [OF z]
  show ?thesis
  proof (cases r)
    case (Inl e)
    with h3_send_lawsD(4) [OF L r [unfolded Inl]] r s z' h show ?thesis
      by (cases e) (auto simp: send_body_fin_def h3_reported_def h3_sent_def h3_finned_def Let_def)
  next
    case (Inr n)
    with h3_send_lawsD(3) [OF L r [unfolded Inr]] r s z' h show ?thesis
      by (auto simp: send_body_fin_def h3_reported_def h3_sent_def h3_finned_def Let_def stream_sends_prefix_def)
  qed
qed

lemma send_body_data_reported:
  assumes L: "h3_send_laws H Q sent finned" and h: "hc_h3 c = Some h"
    and s: "send_body_data H h sid c buf fin = (Inr out, c')"
  shows "h3_reported sent finned sid c buf fin out c'"
proof -
  obtain r b h' q' where r: "h3_send_body_zc H h (hc_quiche c) sid buf fin = (r, b, h', q')"
    by (cases "h3_send_body_zc H h (hc_quiche c) sid buf fin")
  show ?thesis
  proof (cases r)
    case (Inl e)
    with h3_send_lawsD(2) [OF L r [unfolded Inl]] r s h show ?thesis
      by (cases e) (auto simp: send_body_data_def h3_reported_def h3_sent_def h3_finned_def Let_def)
  next
    case (Inr n)
    from h3_send_lawsD(1) [OF L r [unfolded Inr]] r Inr s h arc_as_ref_le [of buf] show ?thesis
      by (cases "n < remaining_len buf")
        (auto simp: send_body_data_def h3_reported_def h3_sent_def h3_finned_def Let_def stream_sends_prefix_def)
  qed
qed

lemma send_body_reported:
  assumes L: "h3_send_laws H Q sent finned" and s: "send_body_arcbuf H Q sid c buf fin = (Inr out, c')"
  shows "h3_reported sent finned sid c buf fin out c'"
proof -
  obtain h where h: "hc_h3 c = Some h" using s by (cases "hc_h3 c") (auto simp: send_body_arcbuf_def)
  show ?thesis
  proof (cases "remaining_len buf = 0 \<and> fin \<and> sid \<in> set (hc_trailer_fin c)")
    case True
    with s h remaining_len_zero [of buf] show ?thesis
      by (auto simp: send_body_arcbuf_def h3_reported_def h3_finned_def)
  next
    case nt: False
    show ?thesis
    proof (cases "0 < remaining_len buf \<or> fin")
      case False
      with s h remaining_len_zero [of buf] show ?thesis
        by (auto simp: send_body_arcbuf_def h3_reported_def)
    next
      case some: True
      obtain r q1 where r: "q_stream_capacity Q (hc_quiche c) sid = (r, q1)" by fastforce
      obtain cap where cap: "r = Inr cap" using s h nt some r by (cases r) (auto simp: send_body_arcbuf_def Let_def)
      note same = h3_send_lawsD(5) [OF L r, of h]
      let ?c = "c\<lparr>hc_quiche := q1\<rparr>"
      have up: "h3_reported sent finned sid c buf fin out c'" if "h3_reported sent finned sid ?c buf fin out c'"
        using that same h by (simp add: h3_reported_def h3_sent_def h3_finned_def)
      show ?thesis
      proof (cases "cap < body_required (remaining_len buf)")
        case True
        with s h nt some r cap same show ?thesis
          by (auto simp: send_body_arcbuf_def Let_def h3_reported_def h3_sent_def h3_finned_def)
      next
        case enough: False
        show ?thesis
        proof (cases "remaining_len buf = 0")
          case True
          with s h nt some r cap enough have "send_body_fin H h sid ?c buf = (Inr out, c')" "fin"
            by (auto simp: send_body_arcbuf_def Let_def)
          with send_body_fin_reported [OF L _ True, of ?c h sid out c'] h show ?thesis by (intro up) simp
        next
          case False
          with s h nt some r cap enough have "send_body_data H h sid ?c buf fin = (Inr out, c')"
            by (auto simp: send_body_arcbuf_def Let_def)
          with send_body_data_reported [OF L _ this] h show ?thesis by (intro up) simp
        qed
      qed
    qed
  qed
qed

lemma h3_stream_sender:
  assumes "h3_send_laws H Q sent finned"
  shows "stream_sender (send_body_arcbuf H Q sid) (h3_sent sent sid) (h3_finned finned sid)"
proof
  fix c buf fin out c' r
  assume s: "send_body_arcbuf H Q sid c buf fin = (Inr out, c')"
  note R = send_body_reported [OF assms s, unfolded h3_reported_def]
  show "so_remainder out = None \<Longrightarrow> remaining_len buf \<le> so_written out" using R by simp
  show "so_remainder out = Some r \<Longrightarrow> arc_inv buf \<Longrightarrow> arc_inv r \<and> so_written out \<le> remaining_len buf
      \<and> arc_as_ref r = drop (so_written out) (arc_as_ref buf)
      \<and> remaining_len r = remaining_len buf - so_written out \<and> \<not> so_fin_accepted out"
    using R by simp
  show "so_fin_accepted out \<Longrightarrow> fin" using R by simp
  show "h3_sent sent sid c' = h3_sent sent sid c @ take (so_written out) (arc_as_ref buf)" using R by simp
  show "h3_finned finned sid c' = (h3_finned finned sid c \<or> so_fin_accepted out)" using R by simp
qed

subsection \<open>Runs of a connection\<close>

text \<open>
  Everything a worker does to a connection. The read window is set before the first credit is given
  and never changed afterwards.
\<close>

inductive h3_step :: "('h, 'q) h3_api \<Rightarrow> 'q quiche_api \<Rightarrow> ('h, 'q) h3_connection \<Rightarrow> ('h, 'q) h3_connection \<Rightarrow> bool"
  for H Q where
  window: "hc_stream_read_window c = None \<or> hc_stream_read_window c = Some w \<Longrightarrow>
    h3_step H Q c (c\<lparr>hc_stream_read_window := Some w\<rparr>)"
| recv: "h3_step H Q c (snd (h3_recv Q c buf))"
| send: "h3_step H Q c (snd (h3_send Q c n))"
| init: "h3_step H Q c (snd (init_h3 H now c))"
| credit: "h3_step H Q c (add_read_credit sid n c)"
| poll: "poll_h3_events H Q h fuel budget c ev = Some (c', ev') \<Longrightarrow> h3_step H Q c c'"
| drain: "h3_poll_drain_events Q h fuel c ev = Some (c', ev') \<Longrightarrow> h3_step H Q c c'"
| response: "h3_step H Q c (snd (send_response H sid hs fin c))"
| request: "h3_step H Q c (snd (send_request H hs fin c))"
| body: "h3_step H Q c (snd (send_body_arcbuf H Q sid c buf fin))"
| body_slice: "h3_step H Q c (snd (send_body H sid c d fin))"
| trailers: "h3_step H Q c (snd (send_trailers H sid hs c))"
| close: "h3_step H Q c (h3_stream_close Q sid code c)"
| goaway: "h3_step H Q c (snd (send_goaway H c))"
| datagram: "h3_step H Q c (snd (send_datagram_chunk Q ch c))"
| datagram_slice: "h3_step H Q c (snd (h3_send_datagram Q d c))"
| ping: "h3_step H Q c (snd (h3_queue_ping Q now c))"
| ping_acks: "h3_step H Q c (snd (h3_poll_ping_acks Q now c))"
| ticket: "h3_step H Q c (snd (h3_update_session_ticket Q c))"

inductive h3_reach :: "('h, 'q) h3_api \<Rightarrow> 'q quiche_api \<Rightarrow> ('h, 'q) h3_connection \<Rightarrow> bool" for H Q where
  new: "h3_reach H Q (h3_connection_new q cid now qcap qblocked)"
| step: "h3_reach H Q c \<Longrightarrow> h3_step H Q c c' \<Longrightarrow> h3_reach H Q c'"

definition h3_ok :: "('h, 'q) h3_connection \<Rightarrow> bool" where
  "h3_ok c \<longleftrightarrow> h3_inv c \<and> hc_pending_body c = []"

lemma h3_ok_frame [simp]:
  "h3_ok (c\<lparr>hc_quiche := q\<rparr>) = h3_ok c" "h3_ok (c\<lparr>hc_h3 := h\<rparr>) = h3_ok c"
  "h3_ok (c\<lparr>hc_metrics := m\<rparr>) = h3_ok c"
  "h3_ok (c\<lparr>hc_largest_accepted := l\<rparr>) = h3_ok c" "h3_ok (c\<lparr>hc_ping_state := ps\<rparr>) = h3_ok c"
  "h3_ok (c\<lparr>hc_session_ticket := t\<rparr>) = h3_ok c" "h3_ok (c\<lparr>hc_next_request_hint := n\<rparr>) = h3_ok c"
  "h3_ok (c\<lparr>hc_is_established := b\<rparr>) = h3_ok c"
  by (simp_all add: h3_ok_def)

lemma h3_ok_block [simp]: "h3_ok c \<Longrightarrow> h3_ok (hc_block sid c)"
  by (auto simp: h3_ok_def h3_inv_def credit_ok_def hc_block_def)

lemma h3_ok_clear [simp]: "h3_ok c \<Longrightarrow> h3_ok (clear_stream_tracking sid c)"
  using clear_keeps [of c sid] by (simp add: h3_ok_def keeps_def)

lemma h3_ok_trailer: "h3_ok c \<Longrightarrow> h3_ok (c\<lparr>hc_trailer_fin := snd (hs_insert sid (hc_trailer_fin c))\<rparr>)"
  by (auto simp: h3_ok_def h3_inv_def credit_ok_def)

lemma h3_ok_credit: "h3_ok c \<Longrightarrow> h3_ok (add_read_credit sid n c)"
  by (auto simp: h3_ok_def h3_inv_def credit_ok_def add_read_credit_def hm_simps split: option.splits if_splits)

lemma h3_ok_window:
  assumes "hc_stream_read_window c = None \<or> hc_stream_read_window c = Some w" "h3_ok c"
  shows "h3_ok (c\<lparr>hc_stream_read_window := Some w\<rparr>)"
  using assms by (fastforce simp: h3_ok_def h3_inv_def credit_ok_def)

lemma h3_ok_poll:
  assumes L: "h3_recv_laws H got" and p: "poll_h3_events H Q h fuel budget c ev = Some (c', ev')" and ok: "h3_ok c"
  shows "h3_ok c'"
proof (cases "hc_h3 c")
  case None
  obtain q4 ev4 where d: "poll_datagram_events Q h budget (hc_quiche c) ev = (q4, ev4)" by fastforce
  with p None have "h3_poll_drain_events Q h fuel (c\<lparr>hc_quiche := q4\<rparr>) ev4 = Some (c', ev')"
    by (simp add: poll_h3_events_def)
  from h3_drain_keeps [OF this] ok show ?thesis by (simp add: h3_ok_def keeps_def)
next
  case (Some h3)
  from ok have "h3_inv c" "hc_pending_body c = []" by (simp_all add: h3_ok_def)
  from poll_h3_spec [OF L this Some p] show ?thesis by (simp add: h3_ok_def) metis
qed

lemma h3_ok_send_body: "h3_ok c \<Longrightarrow> h3_ok (snd (send_body_arcbuf H Q sid c buf fin))"
  by (auto simp: send_body_arcbuf_def send_body_fin_def send_body_data_def Let_def
      split: option.splits prod.splits sum.splits h3_error.splits)

lemma h3_ok_step:
  assumes L: "h3_recv_laws H got"
  shows "h3_step H Q c c' \<Longrightarrow> h3_ok c \<Longrightarrow> h3_ok c'"
proof (induction rule: h3_step.induct)
  case (poll h fuel budget c ev c' ev')
  then show ?case using h3_ok_poll [OF L] by blast
next
  case (drain h fuel c ev c' ev')
  from h3_drain_keeps [OF drain.hyps] drain.prems show ?case by (simp add: h3_ok_def keeps_def)
next
  case (trailers c sid hs)
  then show ?case
    by (auto simp: send_trailers_def Let_def h3_ok_trailer dest: h3_ok_trailer [of c sid] split: option.splits prod.splits sum.splits)
       (simp add: h3_ok_def h3_inv_def credit_ok_def)
next
  case (close c sid code)
  then show ?case by (simp add: h3_stream_close_def Let_def)
next
  case (body c sid buf fin)
  then show ?case by (rule h3_ok_send_body)
qed (auto simp: h3_ok_window h3_ok_credit h3_recv_def h3_send_def init_h3_def send_response_def send_request_def
      send_body_def send_goaway_def send_datagram_chunk_def h3_send_datagram_def h3_queue_ping_def
      h3_poll_ping_acks_def h3_update_session_ticket_def Let_def
      split: option.splits prod.splits sum.splits h3_error.splits)

text \<open>
  C18. Every state an HTTP/3 connection can reach is well formed: each blocked stream is queued
  exactly once, no stream waits for credit or has its trailer FIN recorded twice, no read credit is
  above the read window (and there is none without a window), and no received body byte is left
  behind in a buffer between operations.
\<close>

theorem h3_connection_invariant:
  assumes L: "h3_recv_laws H got" and r: "h3_reach H Q c"
  shows "blocked_inv (hc_blocked c) \<and> distinct (hc_pending_readable c) \<and> distinct (hc_trailer_fin c)
    \<and> (\<forall>s k. hm_get (hc_read_credit c) s = Some k \<longrightarrow> (\<exists>w. hc_stream_read_window c = Some w \<and> k \<le> w))
    \<and> hc_pending_body c = []"
proof -
  from r have "h3_ok c"
  proof induction
    case (new q cid now qcap qblocked)
    show ?case by (simp add: h3_ok_def h3_inv_def credit_ok_def h3_connection_new_def)
  qed (use h3_ok_step [OF L] in blast)
  then show ?thesis by (simp add: h3_ok_def h3_inv_def credit_ok_def)
qed

subsection \<open>A scripted library\<close>

text \<open>An HTTP/3 layer over the loopback transport that reports a fixed list of events.\<close>

record script =
  sc_events :: "(stream_id \<times> h3_event) list"
  sc_in :: "stream_id \<Rightarrow> byte list"
  sc_got :: "stream_id \<Rightarrow> byte list"

definition sc_poll :: "script \<Rightarrow> loopback \<Rightarrow> (h3_error + stream_id \<times> h3_event) \<times> script \<times> loopback" where
  "sc_poll s q = (case sc_events s of
     [] \<Rightarrow> (Inl H3Done, s, q)
   | (sid, e) # es \<Rightarrow> if sid < 2 ^ 62 then (Inr (sid, e), s\<lparr>sc_events := es\<rparr>, q) else (Inl (H3Other 0), s, q))"

definition sc_recv :: "script \<Rightarrow> loopback \<Rightarrow> stream_id \<Rightarrow> nat \<Rightarrow> (h3_error + byte list) \<times> script \<times> loopback" where
  "sc_recv s q sid n =
     (let d = take n (sc_in s sid) in
      if d = [] then (Inl H3Done, s, q)
      else (Inr d, s\<lparr>sc_in := (sc_in s)(sid := drop n (sc_in s sid)), sc_got := (sc_got s)(sid := sc_got s sid @ d)\<rparr>, q))"

definition sc_send :: "script \<Rightarrow> loopback \<Rightarrow> stream_id \<Rightarrow> arc_buf \<Rightarrow> bool \<Rightarrow> (h3_error + nat) \<times> arc_buf \<times> script \<times> loopback" where
  "sc_send s q sid buf fin =
     (let n = min (remaining_len buf) (lb_credit q) in
      case arc_split_at buf n of
        None \<Rightarrow> (Inl H3Done, buf, s, q)
      | Some (_, r) \<Rightarrow> if n = 0 then (Inl H3Done, buf, s, q)
          else (Inr n, r, s, lb_take q sid (take n (arc_as_ref buf)) (fin \<and> n = remaining_len buf)))"

definition sample_script :: script where
  "sample_script = \<lparr>sc_events = [(0, H3Headers [] True), (0, H3Data), (4, H3Headers [] False)],
     sc_in = (\<lambda>_. [])(0 := [7, 8, 9, 10, 11]), sc_got = (\<lambda>_. [])\<rparr>"

definition scripted_api :: "(script, loopback) h3_api" where
  "scripted_api =
     \<lparr>h3_with_transport = (\<lambda>_ _ q. (Inr sample_script, q)), h3_poll = sc_poll, h3_recv_body = sc_recv,
      h3_send_response = (\<lambda>s q _ _ _. (Inr (), s, q)), h3_send_request = (\<lambda>s q _ _. (Inr 0, s, q)),
      h3_send_fin = (\<lambda>s q sid. (Inr 0, s, lb_take q sid [] True)), h3_send_body_zc = sc_send,
      h3_send_trailers = (\<lambda>s q _ _. (Inr (), s, q)), h3_send_goaway = (\<lambda>s q _. (Inr (), s, q)),
      h3_peer_settings = (\<lambda>_. None), h3_error_text = (\<lambda>_. ''error''), h3_text = (\<lambda>_. [])\<rparr>"

lemma scripted_recv_laws: "h3_recv_laws scripted_api sc_got"
  by (auto simp: h3_recv_laws_def scripted_api_def sc_poll_def sc_recv_def Let_def split: list.splits if_splits)

lemma scripted_supply_laws: "h3_supply_laws scripted_api loopback_api (\<lambda>s q. length (sc_events s)) (\<lambda>_. 0)"
  by (auto simp: h3_supply_laws_def scripted_api_def loopback_api_def sc_poll_def sc_recv_def Let_def split: list.splits if_splits)

lemma sc_send_cases:
  assumes "sc_send s q sid buf fin = (r, buf', s', q')"
  shows "(\<exists>a n. r = Inr n \<and> arc_split_at buf n = Some (a, buf') \<and> n \<le> remaining_len buf \<and> s' = s
      \<and> q' = lb_take q sid (take n (arc_as_ref buf)) (fin \<and> n = remaining_len buf))
    \<or> (r = Inl H3Done \<and> buf' = buf \<and> s' = s \<and> q' = q)"
proof -
  define n where "n = min (remaining_len buf) (lb_credit q)"
  have "n \<le> remaining_len buf" by (simp add: n_def)
  with assms show ?thesis
    by (auto simp: sc_send_def Let_def n_def [symmetric] split: option.splits if_splits) blast+
qed

lemma scripted_send_laws:
  "h3_send_laws scripted_api loopback_api (\<lambda>(s, q). lb_sent q) (\<lambda>(s, q). lb_fin q)"
proof -
  have [simp]: "h3_send_body_zc scripted_api = sc_send"
    "h3_send_fin scripted_api = (\<lambda>s q sid. (Inr 0, s, lb_take q sid [] True))" by (simp_all add: scripted_api_def)
  show ?thesis
    unfolding h3_send_laws_def
  proof (intro conjI allI impI, goal_cases)
    case (1 h q sid buf fin n buf' h' q')
    then show ?case using sc_send_cases [OF 1 [simplified]] by auto
  next
    case (2 h q sid buf fin n buf' h' q')
    then show ?case using sc_send_cases [OF 2 [simplified]] lb_take_prefix
      by (auto simp: stream_sends_prefix_def lb_take_def)
  next
    case (3 h q sid buf fin n buf' h' q')
    then show ?case using sc_send_cases [OF 3(1) [simplified]] split_rest by auto
  next
    case (4 h q sid buf fin n buf' h' q')
    then show ?case using sc_send_cases [OF 4(1) [simplified]] split_rest by auto
  next
    case (5 h q sid buf fin n buf' h' q')
    then show ?case using sc_send_cases [OF 5(1) [simplified]] split_rest by auto
  next
    case (6 h q sid buf fin e buf' h' q')
    then show ?case using sc_send_cases [OF 6 [simplified]] by auto
  next
    case (7 h q sid buf fin e buf' h' q')
    then show ?case using sc_send_cases [OF 7 [simplified]] by auto
  next
    case (8 h q sid buf fin e buf' h' q')
    then show ?case using sc_send_cases [OF 8 [simplified]] by auto
  qed (auto simp: stream_sends_prefix_def lb_take_def)
qed

definition sample_h3 :: "(script, loopback) h3_connection" where
  "sample_h3 = (h3_connection_new lb_empty [] 0 None None)
     \<lparr>hc_h3 := Some sample_script, hc_stream_read_window := Some 4\<rparr>"

lemma sample_h3_simps:
  "h3_inv sample_h3" "hc_pending_body sample_h3 = []" "hc_h3 sample_h3 = Some sample_script"
  "hc_read_credit sample_h3 = []" "sc_got sample_script s = []"
  by (simp_all add: sample_h3_def h3_connection_new_def h3_inv_def credit_ok_def sample_script_def)

text \<open>Four bytes of the request body fit the read window; the fifth waits for credit.\<close>

lemmas sample_defs = scripted_api_def sc_poll_def sc_recv_def sample_script_def sample_h3_def h3_connection_new_def
  lb_empty_def loopback_api_def blocked_new_def

lemma sample_poll:
  "map_option (\<lambda>(c, ev). (map (\<lambda>e. (event_type e, ev_conn e, ev_stream e, ev_data e)) ev, hc_read_credit c, hc_pending_readable c))
     (poll_h3_events scripted_api loopback_api 1 (Suc (Suc (Suc (Suc (Suc 0))))) (Suc (Suc 0)) sample_h3 [])
   = Some ([(EVENT_HEADERS, 1, 0, Some [7, 8, 9, 10]), (EVENT_HEADERS, 1, 4, None)], [(0, 0), (4, 4)], [0])"
  by (simp add: sample_defs poll_h3_events_def next_h3_event_def on_headers_def fill_body.simps pb_is_full_def
      pb_remaining_def pending_or_new_def credit_of_def spend_credit_def store_pending_def push_pending_def
      push_pending_body_event_def take_pending_body_event_def push_or_coalesce_def Let_def hs_insert_def hs_remove_def
      try_coalesce_following_data_def event_defs event_types H3_RECV_CHUNK_def saturating_sub_def
      h3_poll_drain_events_def prune_closed_blocked_streams_def as_i64_def)

lemma sample_poll_result:
  obtains c' ev' where "poll_h3_events scripted_api loopback_api 1 (Suc (Suc (Suc (Suc (Suc 0))))) (Suc (Suc 0)) sample_h3 [] = Some (c', ev')"
    "map (\<lambda>e. (event_type e, ev_conn e, ev_stream e, ev_data e)) ev' = [(EVENT_HEADERS, 1, 0, Some [7, 8, 9, 10]), (EVENT_HEADERS, 1, 4, None)]"
  using sample_poll by (cases "poll_h3_events scripted_api loopback_api 1 (Suc (Suc (Suc (Suc (Suc 0))))) (Suc (Suc 0)) sample_h3 []") auto


theorem goaway_above_accepted_witness:
  "\<exists>c' ev'. poll_h3_events scripted_api loopback_api 1 (Suc (Suc (Suc (Suc (Suc 0))))) (Suc (Suc 0)) sample_h3 [] = Some (c', ev')
     \<and> accepted_in 1 4 ev' \<and> 4 < goaway_id c'"
proof -
  obtain c' ev' where p: "poll_h3_events scripted_api loopback_api 1 (Suc (Suc (Suc (Suc (Suc 0))))) (Suc (Suc 0)) sample_h3 [] = Some (c', ev')"
    and ev: "map (\<lambda>e. (event_type e, ev_conn e, ev_stream e, ev_data e)) ev' = [(EVENT_HEADERS, 1, 0, Some [7, 8, 9, 10]), (EVENT_HEADERS, 1, 4, None)]"
    by (rule sample_poll_result)
  have a: "\<forall>s < 2 ^ 62 - 4. accepted_in 1 s ev' \<longrightarrow> s < goaway_id c'"
    by (rule goaway_above_accepted [OF scripted_recv_laws sample_h3_simps(1-3) p]) simp
  have "accepted_in 1 4 ev'" using ev by (auto simp: accepted_in_def as_i64_def)
  with a p show ?thesis by auto
qed

theorem h3_poll_returns_witness:
  "\<exists>need r. \<forall>fuel \<ge> need. poll_h3_events scripted_api loopback_api 1 fuel 8 sample_h3 [] = Some r"
  by (rule h3_poll_returns [OF scripted_recv_laws scripted_supply_laws sample_h3_simps(1,2)])

theorem h3_connection_invariant_witness:
  "\<exists>c :: (script, loopback) h3_connection. h3_reach scripted_api loopback_api c \<and> hc_h3 c = Some sample_script
     \<and> hc_stream_read_window c = Some 4 \<and> blocked_inv (hc_blocked c)"
proof -
  let ?c0 = "h3_connection_new lb_empty [] 0 None None :: (script, loopback) h3_connection"
  let ?c1 = "?c0\<lparr>hc_stream_read_window := Some 4\<rparr>"
  have "h3_reach scripted_api loopback_api ?c1"
    by (rule h3_reach.step [OF h3_reach.new h3_step.window]) (simp add: h3_connection_new_def)
  then have r: "h3_reach scripted_api loopback_api (snd (init_h3 scripted_api 0 ?c1))"
    by (rule h3_reach.step) (rule h3_step.init)
  have "blocked_inv (hc_blocked (snd (init_h3 scripted_api 0 ?c1)))"
    using h3_connection_invariant [OF scripted_recv_laws r] by blast
  with r show ?thesis
    by (intro exI [of _ "snd (init_h3 scripted_api 0 ?c1)"]) (simp add: init_h3_def h3_connection_new_def scripted_api_def)
qed

end
