(* ===== verification/Worker_Pending.thy ===== *)
theory Worker_Pending
  imports H3_Runs Connection_Map
begin

text \<open>
  The writes a worker holds for streams that could not take them at once, for both protocols:
  \<^verbatim>\<open>worker/pending.rs\<close>, \<^verbatim>\<open>quic_worker/pending.rs\<close> and the helpers of \<^verbatim>\<open>worker.rs\<close> and
  \<^verbatim>\<open>quic_worker.rs\<close> around them. Keys are pairs of a worker-local connection handle and a stream, or
  just a stream in a client. Telemetry is left out.
\<close>

type_synonym pending_key = "conn_handle \<times> stream_id"

definition insert_pending_write :: "'k \<Rightarrow> pending_write \<Rightarrow> ('k, pending_write) hashmap \<Rightarrow> ('k, pending_write) hashmap" where
  "insert_pending_write k pw pending = hm_insert k pw pending"

definition remove_pending_write :: "'k \<Rightarrow> ('k, pending_write) hashmap \<Rightarrow> nat \<times> ('k, pending_write) hashmap" where
  "remove_pending_write k pending =
     (case hm_get pending k of
        None \<Rightarrow> (0, pending) | Some pw \<Rightarrow> (queued_units pw, hm_remove k pending))"

subsection \<open>Responses whose headers are blocked\<close>

type_synonym header_list = "(byte list \<times> byte list) list"

record pending_response =
  pr_headers :: header_list
  pr_headers_sent :: bool
  pr_headers_fin :: bool
  pr_body :: "pending_write option"

definition headers_only :: "header_list \<Rightarrow> bool \<Rightarrow> pending_response" where
  "headers_only hs fin = \<lparr>pr_headers = hs, pr_headers_sent = False, pr_headers_fin = fin, pr_body = None\<rparr>"

definition with_body :: "header_list \<Rightarrow> chunk \<Rightarrow> bool \<Rightarrow> pending_response" where
  "with_body hs body fin =
     \<lparr>pr_headers = hs, pr_headers_sent = False, pr_headers_fin = False,
      pr_body = Some (pending_write_new (arc_from_chunk body) fin)\<rparr>"

definition push_and_fin :: "pending_write \<Rightarrow> chunk \<Rightarrow> bool \<Rightarrow> pending_write" where
  "push_and_fin pw ch fin = (let pw' = snd (push_chunk pw ch) in if fin then set_fin pw' else pw')"

definition push_body_chunk :: "pending_response \<Rightarrow> chunk \<Rightarrow> bool \<Rightarrow> pending_response" where
  "push_body_chunk r ch fin =
     (case pr_body r of
        Some pw \<Rightarrow> r\<lparr>pr_body := Some (push_and_fin pw ch fin)\<rparr>
      | None \<Rightarrow> r\<lparr>pr_body := Some (pending_write_new (arc_from_chunk ch) fin), pr_headers_fin := False\<rparr>)"

definition pr_queued_units :: "pending_response \<Rightarrow> nat" where
  "pr_queued_units r = (case pr_body r of None \<Rightarrow> 0 | Some pw \<Rightarrow> queued_units pw)"

definition insert_pending_response ::
  "'k \<Rightarrow> pending_response \<Rightarrow> ('k, pending_response) hashmap \<Rightarrow> ('k, pending_response) hashmap" where
  "insert_pending_response k r pending = hm_insert k r pending"

definition remove_pending_response :: "'k \<Rightarrow> ('k, pending_response) hashmap \<Rightarrow> nat \<times> ('k, pending_response) hashmap" where
  "remove_pending_response k pending =
     (case hm_get pending k of
        None \<Rightarrow> (0, pending) | Some r \<Rightarrow> (pr_queued_units r, hm_remove k pending))"

definition is_h3_stream_blocked :: "native_error \<Rightarrow> bool" where
  "is_h3_stream_blocked e \<longleftrightarrow> e = H3 H3StreamBlocked \<or> e = H3 H3Done"

subsection \<open>Flushing\<close>

definition flush_one_h3_pending_write ::
  "('h, 'q) h3_api \<Rightarrow> 'q quiche_api \<Rightarrow> stream_id \<Rightarrow> ('h, 'q) h3_connection \<Rightarrow> pending_write
     \<Rightarrow> (native_error + flush_outcome) \<times> pending_write \<times> ('h, 'q) h3_connection" where
  "flush_one_h3_pending_write H Q sid c pw = flush_pending_write_with_progress (send_body_arcbuf H Q sid) c pw"

definition flush_one_quic_pending_write ::
  "'q quiche_api \<Rightarrow> stream_id \<Rightarrow> 'q quic_connection \<Rightarrow> pending_write
     \<Rightarrow> (native_error + flush_outcome) \<times> pending_write \<times> 'q quic_connection" where
  "flush_one_quic_pending_write Q sid c pw = flush_pending_write_with_progress (stream_send_arcbuf Q sid) c pw"

definition flush_one_h3_pending_response ::
  "('h, 'q) h3_api \<Rightarrow> 'q quiche_api \<Rightarrow> stream_id \<Rightarrow> ('h, 'q) h3_connection \<Rightarrow> pending_response
     \<Rightarrow> (native_error + flush_outcome) \<times> pending_response \<times> ('h, 'q) h3_connection" where
  "flush_one_h3_pending_response H Q sid c r =
     (case (if pr_headers_sent r then (Inr (), c)
            else send_response H sid (pr_headers r) (pr_headers_fin r \<and> pr_body r = None) c) of
        (Inl e, c1) \<Rightarrow>
          if is_h3_stream_blocked e then (Inr \<lparr>fo_done = False, fo_released_units = 0\<rparr>, r, c1)
          else (Inl e, r, c1)
      | (Inr _, c1) \<Rightarrow>
          let r1 = r\<lparr>pr_headers_sent := True\<rparr> in
          (case pr_body r1 of
             None \<Rightarrow> (Inr \<lparr>fo_done = True, fo_released_units = 0\<rparr>, r1, c1)
           | Some pw \<Rightarrow>
               (case flush_one_h3_pending_write H Q sid c1 pw of
                  (Inl e, pw', c2) \<Rightarrow> (Inl e, r1\<lparr>pr_body := Some pw'\<rparr>, c2)
                | (Inr out, pw', c2) \<Rightarrow>
                    (Inr out, r1\<lparr>pr_body := (if fo_done out then None else Some pw')\<rparr>, c2))))"

text \<open>
  One entry of a \<^verbatim>\<open>retain\<close> over the pending writes: it is dropped with all its units, finished, or
  kept. A failed flush drops it too, whatever it had sent before.
\<close>

datatype entry_outcome = EntryDropped | EntryDone nat | EntryKept nat pending_write

definition entry_of :: "(native_error + flush_outcome) \<times> pending_write \<times> 'c \<Rightarrow> entry_outcome \<times> 'c" where
  "entry_of r = (case r of
     (Inl e, pw', c') \<Rightarrow> (EntryDropped, c')
   | (Inr out, pw', c') \<Rightarrow>
       (if fo_done out then EntryDone (fo_released_units out) else EntryKept (fo_released_units out) pw', c'))"

record 'k flush_events =
  fe_drained :: "'k list"
  fe_released_units :: nat

fun retain_flush ::
  "('k \<Rightarrow> pending_write \<Rightarrow> 's \<Rightarrow> entry_outcome \<times> 's) \<Rightarrow> ('k, pending_write) hashmap \<Rightarrow> 's
     \<Rightarrow> 'k flush_events \<times> ('k, pending_write) hashmap \<times> 's" where
  "retain_flush f [] s = (\<lparr>fe_drained = [], fe_released_units = 0\<rparr>, [], s)"
| "retain_flush f ((k, pw) # es) s =
     (case f k pw s of (out, s1) \<Rightarrow>
        (case retain_flush f es s1 of (fe, kept, s2) \<Rightarrow>
           (case out of
              EntryDropped \<Rightarrow> (fe\<lparr>fe_released_units := queued_units pw + fe_released_units fe\<rparr>, kept, s2)
            | EntryDone u \<Rightarrow>
                (\<lparr>fe_drained = k # fe_drained fe, fe_released_units = u + fe_released_units fe\<rparr>, kept, s2)
            | EntryKept u pw' \<Rightarrow> (fe\<lparr>fe_released_units := u + fe_released_units fe\<rparr>, (k, pw') # kept, s2))))"

definition flush_h3_entry ::
  "('h, 'q) h3_api \<Rightarrow> 'q quiche_api \<Rightarrow> pending_key \<Rightarrow> pending_write
     \<Rightarrow> ('h, 'q) h3_connection connection_map \<Rightarrow> entry_outcome \<times> ('h, 'q) h3_connection connection_map" where
  "flush_h3_entry H Q k pw m =
     (case cm_get m (unat (fst k)) of
        None \<Rightarrow> (EntryDropped, m)
      | Some c \<Rightarrow>
          if q_stream_closed Q (hc_quiche c) (snd k) then (EntryDropped, m)
          else case entry_of (flush_one_h3_pending_write H Q (snd k) c pw) of
            (out, c') \<Rightarrow> (out, cm_put m (unat (fst k)) c'))"

definition flush_pending_writes where
  "flush_pending_writes H Q m pending = retain_flush (flush_h3_entry H Q) pending m"

definition flush_client_h3_entry ::
  "('h, 'q) h3_api \<Rightarrow> 'q quiche_api \<Rightarrow> stream_id \<Rightarrow> pending_write \<Rightarrow> ('h, 'q) h3_connection
     \<Rightarrow> entry_outcome \<times> ('h, 'q) h3_connection" where
  "flush_client_h3_entry H Q sid pw c =
     (if q_stream_closed Q (hc_quiche c) sid then (EntryDropped, c)
      else entry_of (flush_one_h3_pending_write H Q sid c pw))"

definition flush_client_pending_writes where
  "flush_client_pending_writes H Q c pending = retain_flush (flush_client_h3_entry H Q) pending c"

definition flush_quic_entry ::
  "'q quiche_api \<Rightarrow> pending_key \<Rightarrow> pending_write \<Rightarrow> 'q quic_connection connection_map
     \<Rightarrow> entry_outcome \<times> 'q quic_connection connection_map" where
  "flush_quic_entry Q k pw m =
     (case cm_get m (unat (fst k)) of
        None \<Rightarrow> (EntryDropped, m)
      | Some c \<Rightarrow> (case entry_of (flush_one_quic_pending_write Q (snd k) c pw) of
            (out, c') \<Rightarrow> (out, cm_put m (unat (fst k)) c')))"

definition flush_quic_pending_writes where
  "flush_quic_pending_writes Q m pending = retain_flush (flush_quic_entry Q) pending m"

definition flush_quic_client_pending_writes where
  "flush_quic_client_pending_writes Q c pending =
     retain_flush (\<lambda>sid pw c. entry_of (flush_one_quic_pending_write Q sid c pw)) pending c"

subsection \<open>What a sweep of the pending writes does\<close>

text \<open>
  \<open>sent\<close> and \<open>finned\<close> observe what the transports of a state have taken under a key. An entry that is
  done has everything taken, its FIN included; a kept one has a prefix taken and keeps the rest; the
  units released are exactly those no longer held; and other keys are not touched.
\<close>

definition entry_laws ::
  "('k \<Rightarrow> pending_write \<Rightarrow> 's \<Rightarrow> entry_outcome \<times> 's) \<Rightarrow> ('s \<Rightarrow> 'k \<Rightarrow> byte list) \<Rightarrow> ('s \<Rightarrow> 'k \<Rightarrow> bool) \<Rightarrow> bool" where
  "entry_laws f sent finned \<longleftrightarrow> (\<forall>k pw s out s'. f k pw s = (out, s') \<and> pw_inv pw \<longrightarrow>
     (case out of
        EntryDropped \<Rightarrow> True
      | EntryDone u \<Rightarrow> u = queued_units pw \<and> sent s' k = sent s k @ pw_bytes pw \<and> (finned s' k \<longleftrightarrow> finned s k \<or> pw_fin pw)
      | EntryKept u pw' \<Rightarrow> u + queued_units pw' = queued_units pw \<and> pw_inv pw' \<and> pw_fin pw' = pw_fin pw
          \<and> sent s' k @ pw_bytes pw' = sent s k @ pw_bytes pw \<and> finned s' k = finned s k)
     \<and> (\<forall>k2. k2 \<noteq> k \<longrightarrow> sent s' k2 = sent s k2 \<and> finned s' k2 = finned s k2))"

lemma entry_lawsD:
  assumes "entry_laws f sent finned" "f k pw s = (out, s')" "pw_inv pw"
  shows "out = EntryDone u \<Longrightarrow> u = queued_units pw \<and> sent s' k = sent s k @ pw_bytes pw \<and> (finned s' k \<longleftrightarrow> finned s k \<or> pw_fin pw)"
    and "out = EntryKept u pw' \<Longrightarrow> u + queued_units pw' = queued_units pw \<and> pw_inv pw' \<and> pw_fin pw' = pw_fin pw
          \<and> sent s' k @ pw_bytes pw' = sent s k @ pw_bytes pw \<and> finned s' k = finned s k"
    and "k2 \<noteq> k \<Longrightarrow> sent s' k2 = sent s k2 \<and> finned s' k2 = finned s k2"
  using assms(1) [unfolded entry_laws_def, rule_format, of k pw s out s'] assms(2,3) by (auto split: entry_outcome.splits)

lemma retain_flush_units:
  assumes L: "entry_laws f sent finned"
  shows "retain_flush f es s = (fe, kept, s') \<Longrightarrow> \<forall>(k, pw) \<in> set es. pw_inv pw \<Longrightarrow>
    fe_released_units fe + hm_sum queued_units kept = hm_sum queued_units es \<and> (\<forall>(k, pw) \<in> set kept. pw_inv pw)
    \<and> fst ` set kept \<union> set (fe_drained fe) \<subseteq> fst ` set es \<and> (hm_wf es \<longrightarrow> hm_wf kept)"
proof (induction es arbitrary: s s' fe kept)
  case (Cons e es)
  obtain k pw where e: "e = (k, pw)" by (cases e)
  obtain out s1 where f: "f k pw s = (out, s1)" by fastforce
  obtain fe1 kept1 s2 where r: "retain_flush f es s1 = (fe1, kept1, s2)" by (cases "retain_flush f es s1")
  from Cons.IH [OF r] Cons.prems(2) e have ih: "fe_released_units fe1 + hm_sum queued_units kept1 = hm_sum queued_units es"
    "\<forall>(k, pw) \<in> set kept1. pw_inv pw" "fst ` set kept1 \<union> set (fe_drained fe1) \<subseteq> fst ` set es" "hm_wf es \<longrightarrow> hm_wf kept1" by auto
  have inv: "pw_inv pw" using Cons.prems(2) e by auto
  note D = entry_lawsD [OF L f inv]
  have wf: "hm_wf (e # es) \<Longrightarrow> hm_wf kept1 \<and> k \<notin> fst ` set kept1"
    using ih(3,4) e by (auto simp: hm_wf_def)
  show ?case
  proof (cases out)
    case EntryDropped
    with Cons.prems(1) e f r have "fe = fe1\<lparr>fe_released_units := queued_units pw + fe_released_units fe1\<rparr>" "kept = kept1" by simp_all
    with ih e wf show ?thesis by auto
  next
    case (EntryDone u)
    with Cons.prems(1) e f r have "fe = \<lparr>fe_drained = k # fe_drained fe1, fe_released_units = u + fe_released_units fe1\<rparr>" "kept = kept1"
      by simp_all
    with ih e wf D(1) [OF EntryDone] show ?thesis by auto
  next
    case (EntryKept u pw')
    with Cons.prems(1) e f r have eq: "fe = fe1\<lparr>fe_released_units := u + fe_released_units fe1\<rparr>" "kept = (k, pw') # kept1" by simp_all
    have "hm_wf (e # es) \<longrightarrow> hm_wf kept" using wf eq by (auto simp: hm_wf_def)
    with eq ih e D(2) [OF EntryKept] show ?thesis by auto
  qed
qed simp

lemma retain_flush_frame:
  assumes L: "entry_laws f sent finned"
  shows "retain_flush f es s = (fe, kept, s') \<Longrightarrow> \<forall>(k, pw) \<in> set es. pw_inv pw \<Longrightarrow> k2 \<notin> fst ` set es \<Longrightarrow>
    sent s' k2 = sent s k2 \<and> finned s' k2 = finned s k2"
proof (induction es arbitrary: s s' fe kept)
  case (Cons e es)
  obtain k pw where e: "e = (k, pw)" by (cases e)
  obtain out s1 where f: "f k pw s = (out, s1)" by fastforce
  obtain fe1 kept1 s2 where r: "retain_flush f es s1 = (fe1, kept1, s2)" by (cases "retain_flush f es s1")
  have "s' = s2" using Cons.prems(1) e f r by (auto split: entry_outcome.splits)
  moreover have "pw_inv pw" "k2 \<noteq> k" using Cons.prems e by auto
  ultimately show ?case using Cons.IH [OF r] Cons.prems e entry_lawsD(3) [OF L f] by auto
qed simp

lemma retain_flush_bytes:
  assumes L: "entry_laws f sent finned"
  shows "retain_flush f es s = (fe, kept, s') \<Longrightarrow> \<forall>(k, pw) \<in> set es. pw_inv pw \<Longrightarrow> hm_wf es \<Longrightarrow> hm_get es k = Some pw \<Longrightarrow>
    (\<forall>pw'. hm_get kept k = Some pw' \<longrightarrow> pw_fin pw' = pw_fin pw \<and> sent s' k @ pw_bytes pw' = sent s k @ pw_bytes pw)
    \<and> (k \<in> set (fe_drained fe) \<longrightarrow> sent s' k = sent s k @ pw_bytes pw \<and> (finned s' k \<longleftrightarrow> finned s k \<or> pw_fin pw))"
proof (induction es arbitrary: s s' fe kept)
  case (Cons e es)
  obtain k1 pw1 where e: "e = (k1, pw1)" by (cases e)
  obtain out s1 where f: "f k1 pw1 s = (out, s1)" by fastforce
  obtain fe1 kept1 s2 where r: "retain_flush f es s1 = (fe1, kept1, s2)" by (cases "retain_flush f es s1")
  have s': "s' = s2" using Cons.prems(1) e f r by (auto split: entry_outcome.splits)
  have inv: "pw_inv pw1" "\<forall>(k, pw) \<in> set es. pw_inv pw" and wf: "hm_wf es" and k1: "k1 \<notin> fst ` set es"
    using Cons.prems e by (auto simp: hm_wf_def)
  from retain_flush_units [OF L r inv(2)] have sub: "fst ` set kept1 \<union> set (fe_drained fe1) \<subseteq> fst ` set es" by blast
  show ?case
  proof (cases "k = k1")
    case True
    have same: "sent s2 k1 = sent s1 k1" "finned s2 k1 = finned s1 k1" using retain_flush_frame [OF L r inv(2) k1] by auto
    have none: "hm_get kept1 k1 = None" "k1 \<notin> set (fe_drained fe1)" using sub k1 by (auto simp: map_of_eq_None_iff)
    have pw: "pw = pw1" using Cons.prems(4) e True by simp
    show ?thesis
    proof (cases out)
      case EntryDropped
      with Cons.prems(1) e f r none True show ?thesis by auto
    next
      case (EntryDone u)
      with Cons.prems(1) e f r none True same pw s' entry_lawsD(1) [OF L f inv(1)] show ?thesis by auto
    next
      case (EntryKept u pw')
      with Cons.prems(1) e f r none True same pw s' entry_lawsD(2) [OF L f inv(1)] show ?thesis by auto
    qed
  next
    case False
    have "hm_get es k = Some pw" using Cons.prems(4) e False by simp
    from Cons.IH [OF r inv(2) wf this] entry_lawsD(3) [OF L f inv(1) False] False Cons.prems(1) e f r s' show ?thesis
      by (auto split: entry_outcome.splits)
  qed
qed simp

subsection \<open>The entries of both protocols\<close>

lemma flush_loop_keeps:
  assumes "\<And>q buf fin r q'. send q buf fin = (r, q') \<Longrightarrow> P q \<Longrightarrow> P q'"
  shows "flush_loop send q fin released cs = (r, cs', q') \<Longrightarrow> P q \<Longrightarrow> P q'"
proof (induction cs arbitrary: q released)
  case Nil
  obtain x q1 where "send q (arc_from_vec vec_new) True = (x, q1)" by fastforce
  with Nil assms [OF this] show ?case by (auto simp: Let_def split: sum.splits option.splits if_splits)
next
  case (Cons b cs)
  obtain x q1 where x: "send q b (fin \<and> cs = []) = (x, q1)" by fastforce
  from assms [OF x Cons.prems(2)] have "P q1" .
  with Cons x show ?case by (auto simp: Let_def split: sum.splits option.splits if_splits)
qed

lemma flush_progress_keeps:
  assumes "\<And>q buf fin r q'. send q buf fin = (r, q') \<Longrightarrow> P q \<Longrightarrow> P q'"
    and "flush_pending_write_with_progress send q pw = (r, pw', q')" "P q"
  shows "P q'"
proof -
  obtain cs' where l: "flush_loop send q (pw_fin pw) 0 (pw_chunks pw) = (r, cs', q')"
    using assms(2) by (auto simp: flush_pending_write_with_progress_def split: prod.splits)
  show ?thesis by (rule flush_loop_keeps [where P = P, OF _ l assms(3)]) (rule assms(1))
qed

lemma flush_progress_frame:
  assumes "\<And>q buf fin r q'. send q buf fin = (r, q') \<Longrightarrow> P q' = P q"
    and "flush_pending_write_with_progress send q pw = (r, pw', q')"
  shows "P q' = P q"
  using flush_progress_keeps [where P = "\<lambda>x. P x = P q", OF _ assms(2)] assms(1) by simp

text \<open>An entry over one stream's sender satisfies the laws, if the sender leaves other streams alone.\<close>

lemma sender_entry_laws:
  assumes S: "\<And>k. stream_sender (send k) (\<lambda>q. sent q k) (\<lambda>q. finned q k)"
    and F: "\<And>k k2 q buf fin r q'. send k q buf fin = (r, q') \<Longrightarrow> k2 \<noteq> k \<Longrightarrow> sent q' k2 = sent q k2 \<and> finned q' k2 = finned q k2"
  shows "entry_laws (\<lambda>k pw q. entry_of (flush_pending_write_with_progress (send k) q pw)) sent finned"
  unfolding entry_laws_def
proof (intro allI impI, elim conjE)
  fix k pw q out q'
  assume e: "entry_of (flush_pending_write_with_progress (send k) q pw) = (out, q')" and inv: "pw_inv pw"
  obtain r pw1 q1 where p: "flush_pending_write_with_progress (send k) q pw = (r, pw1, q1)"
    by (cases "flush_pending_write_with_progress (send k) q pw")
  have own: "case out of EntryDropped \<Rightarrow> True
      | EntryDone u \<Rightarrow> u = queued_units pw \<and> sent q' k = sent q k @ pw_bytes pw \<and> (finned q' k \<longleftrightarrow> finned q k \<or> pw_fin pw)
      | EntryKept u pw' \<Rightarrow> u + queued_units pw' = queued_units pw \<and> pw_inv pw' \<and> pw_fin pw' = pw_fin pw
          \<and> sent q' k @ pw_bytes pw' = sent q k @ pw_bytes pw \<and> finned q' k = finned q k"
  proof (cases r)
    case (Inl x)
    with e p show ?thesis by (simp add: entry_of_def)
  next
    case (Inr o1)
    note sp = stream_sender.flush_spec [OF S p [unfolded Inr] inv]
    show ?thesis
    proof (cases "fo_done o1")
      case True
      then have "pw_bytes pw1 = []" using sp(5) by (simp add: pw_bytes_def)
      with True e p Inr sp show ?thesis by (auto simp: entry_of_def)
    next
      case False
      with e p Inr sp show ?thesis by (auto simp: entry_of_def)
    qed
  qed
  have "q' = q1" using e p by (auto simp: entry_of_def split: sum.splits)
  then have "sent q' k2 = sent q k2 \<and> finned q' k2 = finned q k2" if "k2 \<noteq> k" for k2
    using flush_progress_frame [where P = "\<lambda>q. (sent q k2, finned q k2)", OF _ p] F [OF _ that] by simp
  with own show "(case out of EntryDropped \<Rightarrow> True
      | EntryDone u \<Rightarrow> u = queued_units pw \<and> sent q' k = sent q k @ pw_bytes pw \<and> (finned q' k \<longleftrightarrow> finned q k \<or> pw_fin pw)
      | EntryKept u pw' \<Rightarrow> u + queued_units pw' = queued_units pw \<and> pw_inv pw' \<and> pw_fin pw' = pw_fin pw
          \<and> sent q' k @ pw_bytes pw' = sent q k @ pw_bytes pw \<and> finned q' k = finned q k)
      \<and> (\<forall>k2. k2 \<noteq> k \<longrightarrow> sent q' k2 = sent q k2 \<and> finned q' k2 = finned q k2)" by blast
qed

lemma quic_send_frame:
  assumes L: "quiche_send_laws Q sent finned" and s: "stream_send_arcbuf Q sid c buf fin = (r, c')" and t: "t \<noteq> sid"
  shows "sent (qc_quiche c') t = sent (qc_quiche c) t \<and> finned (qc_quiche c') t = finned (qc_quiche c) t"
proof (cases r)
  case (Inr out)
  from stream_send_reported [OF L s [unfolded Inr]] t show ?thesis
    by (simp add: send_reported_def stream_sends_prefix_def)
next
  case (Inl e)
  have zc: "sent (qc_quiche c2) t = sent (qc_quiche c1) t \<and> finned (qc_quiche c2) t = finned (qc_quiche c1) t"
    if "send_zc Q sid c1 buf fin = (Inl e, c2)" for c1 c2
  proof -
    obtain x q' where x: "q_stream_send_zc Q (qc_quiche c1) sid buf fin = (x, q')" by fastforce
    with that obtain y where "x = Inl y" "qc_quiche c2 = q'"
      by (cases x) (auto simp: send_zc_def Let_def split: prod.splits quiche_error.splits)
    with quiche_send_lawsD(3) [OF L] x show ?thesis by simp
  qed
  have fin: "sent (qc_quiche c') t = sent (qc_quiche c) t \<and> finned (qc_quiche c') t = finned (qc_quiche c) t"
    if "send_fin_only Q sid c buf = (Inl e, c')"
  proof -
    obtain x q' where x: "q_stream_send Q (qc_quiche c) sid [] True = (x, q')" by fastforce
    with that obtain y where "x = Inl y" "qc_quiche c' = q'"
      by (cases x) (auto simp: send_fin_only_def split: quiche_error.splits)
    with quiche_send_lawsD(5) [OF L] x show ?thesis by simp
  qed
  obtain x q1 where x: "q_stream_capacity Q (qc_quiche c) sid = (x, q1)" by fastforce
  note same = quiche_send_lawsD(6) [OF L x]
  show ?thesis
    using s Inl fin zc [of c c'] zc [of "c\<lparr>qc_quiche := q1\<rparr>" c'] x same
    by (auto simp: stream_send_arcbuf_def split: if_splits sum.splits)
qed

lemma h3_send_frame:
  assumes L: "h3_send_laws H Q sent finned" and s: "send_body_arcbuf H Q sid c buf fin = (r, c')" and t: "t \<noteq> sid"
  shows "h3_sent sent t c' = h3_sent sent t c \<and> h3_finned finned t c' = h3_finned finned t c"
proof (cases "hc_h3 c")
  case None
  with s show ?thesis by (simp add: send_body_arcbuf_def)
next
  case (Some h)
  have fin: "h3_sent sent t c2 = h3_sent sent t c1 \<and> h3_finned finned t c2 = h3_finned finned t c1"
    if "send_body_fin H h sid c1 buf = (r2, c2)" "hc_h3 c1 = Some h" for c1 c2 r2
  proof -
    obtain x h' q' where x: "h3_send_fin H h (hc_quiche c1) sid = (x, h', q')" by (cases "h3_send_fin H h (hc_quiche c1) sid")
    then have "hc_h3 c2 = Some h'" "hc_quiche c2 = q'" "hc_trailer_fin c2 = hc_trailer_fin c1"
      using that by (auto simp: send_body_fin_def Let_def split: sum.splits h3_error.splits)
    moreover have "sent (h', q') t = sent (h, hc_quiche c1) t \<and> finned (h', q') t = finned (h, hc_quiche c1) t"
      using h3_send_lawsD(3,4) [OF L] x t by (cases x) (auto simp: stream_sends_prefix_def)
    ultimately show ?thesis using that(2) by (simp add: h3_sent_def h3_finned_def)
  qed
  have data: "h3_sent sent t c2 = h3_sent sent t c1 \<and> h3_finned finned t c2 = h3_finned finned t c1"
    if "send_body_data H h sid c1 buf fin = (r2, c2)" "hc_h3 c1 = Some h" for c1 c2 r2
  proof -
    obtain x b h' q' where x: "h3_send_body_zc H h (hc_quiche c1) sid buf fin = (x, b, h', q')"
      by (cases "h3_send_body_zc H h (hc_quiche c1) sid buf fin")
    then have "hc_h3 c2 = Some h'" "hc_quiche c2 = q'" "hc_trailer_fin c2 = hc_trailer_fin c1"
      using that by (auto simp: send_body_data_def Let_def split: sum.splits h3_error.splits if_splits)
    moreover have "sent (h', q') t = sent (h, hc_quiche c1) t \<and> finned (h', q') t = finned (h, hc_quiche c1) t"
    proof (cases x)
      case (Inl e)
      from h3_send_lawsD(2) [OF L x [unfolded Inl]] show ?thesis by simp
    next
      case (Inr n)
      from h3_send_lawsD(1) [OF L x [unfolded Inr]] t show ?thesis by (simp add: stream_sends_prefix_def)
    qed
    ultimately show ?thesis using that(2) by (simp add: h3_sent_def h3_finned_def)
  qed
  obtain x q1 where x: "q_stream_capacity Q (hc_quiche c) sid = (x, q1)" by fastforce
  note same = h3_send_lawsD(5) [OF L x, of h]
  let ?c = "c\<lparr>hc_quiche := q1\<rparr>"
  have c1: "h3_sent sent t ?c = h3_sent sent t c" "h3_finned finned t ?c = h3_finned finned t c"
    using same Some by (simp_all add: h3_sent_def h3_finned_def)
  have blk: "h3_sent sent t (hc_block sid ?c) = h3_sent sent t ?c" "h3_finned finned t (hc_block sid ?c) = h3_finned finned t ?c"
    using Some by (simp_all add: h3_sent_def h3_finned_def)
  show ?thesis
    using s Some x fin [of ?c r c'] data [of ?c r c'] c1 blk
    by (auto simp: send_body_arcbuf_def Let_def split: if_splits sum.splits)
qed

definition map_obs :: "('c \<Rightarrow> stream_id \<Rightarrow> 'x) \<Rightarrow> 'x \<Rightarrow> 'c connection_map \<Rightarrow> pending_key \<Rightarrow> 'x" where
  "map_obs obs none m k = (case cm_get m (unat (fst k)) of None \<Rightarrow> none | Some c \<Rightarrow> obs c (snd k))"

lemma cm_put_same: "cm_get m h = Some c \<Longrightarrow> cm_put m h c = m"
proof -
  have "AList.update h c s = s" if "map_of s h = Some c" for s :: "(nat \<times> 'a) list"
    using that by (induction s) (auto split: if_splits)
  then show "cm_get m h = Some c \<Longrightarrow> ?thesis" by (simp add: cm_put_def cm_get_def)
qed

lemma map_obs_put:
  "cm_get m (unat (fst k)) = Some c \<Longrightarrow> map_obs obs d (cm_put m (unat (fst k)) c') k2
     = (if fst k2 = fst k then obs c' (snd k2) else map_obs obs d m k2)"
  by (auto simp: map_obs_def cm_put_get unsigned_word_eqI)

lemma map_entry_laws:
  assumes L: "entry_laws f sent finned"
    and g: "\<And>k pw m. g k pw m = (case cm_get m (unat (fst k)) of
        None \<Rightarrow> (EntryDropped, m)
      | Some c \<Rightarrow> (case f (snd k) pw c of (out, c') \<Rightarrow> (out, cm_put m (unat (fst k)) c')))"
  shows "entry_laws g (map_obs sent []) (map_obs finned False)"
  unfolding entry_laws_def
proof (intro allI impI, elim conjE)
  fix k pw m out m'
  assume e: "g k pw m = (out, m')" and inv: "pw_inv pw"
  let ?goal = "\<lambda>out m'. (case out of EntryDropped \<Rightarrow> True
      | EntryDone u \<Rightarrow> u = queued_units pw \<and> map_obs sent [] m' k = map_obs sent [] m k @ pw_bytes pw
          \<and> (map_obs finned False m' k \<longleftrightarrow> map_obs finned False m k \<or> pw_fin pw)
      | EntryKept u pw' \<Rightarrow> u + queued_units pw' = queued_units pw \<and> pw_inv pw' \<and> pw_fin pw' = pw_fin pw
          \<and> map_obs sent [] m' k @ pw_bytes pw' = map_obs sent [] m k @ pw_bytes pw
          \<and> map_obs finned False m' k = map_obs finned False m k)
      \<and> (\<forall>k2. k2 \<noteq> k \<longrightarrow> map_obs sent [] m' k2 = map_obs sent [] m k2 \<and> map_obs finned False m' k2 = map_obs finned False m k2)"
  show "?goal out m'"
  proof (cases "cm_get m (unat (fst k))")
    case None
    with e g [of k pw m] have "out = EntryDropped" "m' = m" by simp_all
    then show ?thesis by simp
  next
    case (Some c)
    obtain out1 c' where f1: "f (snd k) pw c = (out1, c')" by fastforce
    with e g [of k pw m] Some have f: "f (snd k) pw c = (out, c')" and m': "m' = cm_put m (unat (fst k)) c'" by simp_all
    note D = entry_lawsD [OF L f inv]
    have own: "map_obs sent [] m k = sent c (snd k)" "map_obs finned False m k = finned c (snd k)"
      using Some by (simp_all add: map_obs_def)
    have other: "map_obs sent [] m' k2 = map_obs sent [] m k2 \<and> map_obs finned False m' k2 = map_obs finned False m k2" if "k2 \<noteq> k" for k2
    proof (cases "fst k2 = fst k")
      case True
      then have "snd k2 \<noteq> snd k" using that by (cases k, cases k2) simp
      with D(3) [of "snd k2"] True Some show ?thesis by (simp add: m' map_obs_put [OF Some]) (simp add: map_obs_def)
    qed (simp add: m' map_obs_put [OF Some])
    have now: "map_obs sent [] m' k = sent c' (snd k)" "map_obs finned False m' k = finned c' (snd k)"
      by (simp_all add: m' map_obs_put [OF Some])
    show ?thesis
    proof (cases out)
      case EntryDropped
      with other show ?thesis by simp
    next
      case (EntryDone u)
      with D(1) [OF EntryDone] own now other show ?thesis by simp
    next
      case (EntryKept u pw')
      with D(2) [OF EntryKept] own now other show ?thesis by simp
    qed
  qed
qed

lemma quic_entry_laws:
  assumes "quiche_send_laws Q sent finned"
  shows "entry_laws (flush_quic_entry Q) (map_obs (\<lambda>c. sent (qc_quiche c)) []) (map_obs (\<lambda>c. finned (qc_quiche c)) False)"
proof (rule map_entry_laws [OF sender_entry_laws [where send = "stream_send_arcbuf Q"]])
  fix sid show "stream_sender (stream_send_arcbuf Q sid) (\<lambda>c. sent (qc_quiche c) sid) (\<lambda>c. finned (qc_quiche c) sid)"
    by (rule quic_stream_sender [OF assms])
next
  fix k k2 q buf fin r q'
  assume "stream_send_arcbuf Q k q buf fin = (r, q')" "k2 \<noteq> k"
  then show "sent (qc_quiche q') k2 = sent (qc_quiche q) k2 \<and> finned (qc_quiche q') k2 = finned (qc_quiche q) k2"
    by (rule quic_send_frame [OF assms])
qed (unfold flush_quic_entry_def flush_one_quic_pending_write_def, rule refl)

lemma client_entry_laws:
  assumes "h3_send_laws H Q sent finned"
  shows "entry_laws (flush_client_h3_entry H Q) (\<lambda>c sid. h3_sent sent sid c) (\<lambda>c sid. h3_finned finned sid c)"
proof -
  have "entry_laws (\<lambda>k pw q. entry_of (flush_pending_write_with_progress (send_body_arcbuf H Q k) q pw))
      (\<lambda>c sid. h3_sent sent sid c) (\<lambda>c sid. h3_finned finned sid c)"
    by (rule sender_entry_laws [OF h3_stream_sender [OF assms] h3_send_frame [OF assms]])
  then show ?thesis
    unfolding entry_laws_def flush_client_h3_entry_def flush_one_h3_pending_write_def
    by (simp split: if_splits)
qed

lemma h3_entry_laws:
  assumes "h3_send_laws H Q sent finned"
  shows "entry_laws (flush_h3_entry H Q) (map_obs (\<lambda>c sid. h3_sent sent sid c) []) (map_obs (\<lambda>c sid. h3_finned finned sid c) False)"
  by (rule map_entry_laws [OF client_entry_laws [OF assms]])
    (simp add: flush_h3_entry_def flush_client_h3_entry_def cm_put_same split: option.splits)

text \<open>What both protocols' sweeps share, over the laws of an entry.\<close>

definition sweep_conserves ::
  "('s \<Rightarrow> 'k \<Rightarrow> byte list) \<Rightarrow> ('s \<Rightarrow> 'k \<Rightarrow> bool) \<Rightarrow> ('k, pending_write) hashmap \<Rightarrow> 's
     \<Rightarrow> 'k flush_events \<Rightarrow> ('k, pending_write) hashmap \<Rightarrow> 's \<Rightarrow> bool" where
  "sweep_conserves took ended pending m fe kept m' \<longleftrightarrow>
     fe_released_units fe + hm_sum queued_units kept = hm_sum queued_units pending
     \<and> hm_wf kept \<and> (\<forall>(k, pw) \<in> set kept. pw_inv pw)
     \<and> (\<forall>k pw. hm_get pending k = Some pw \<longrightarrow>
         (\<forall>pw'. hm_get kept k = Some pw' \<longrightarrow> pw_fin pw' = pw_fin pw \<and> took m' k @ pw_bytes pw' = took m k @ pw_bytes pw)
         \<and> (k \<in> set (fe_drained fe) \<longrightarrow> took m' k = took m k @ pw_bytes pw \<and> (ended m' k \<longleftrightarrow> ended m k \<or> pw_fin pw)))
     \<and> (\<forall>k. hm_get pending k = None \<longrightarrow> took m' k = took m k \<and> ended m' k = ended m k)"

lemma retain_flush_conserves:
  assumes E: "entry_laws f took ended" and wf: "hm_wf pending" and inv: "\<forall>(k, pw) \<in> set pending. pw_inv pw"
    and r: "retain_flush f pending m = (fe, kept, m')"
  shows "sweep_conserves took ended pending m fe kept m'"
  unfolding sweep_conserves_def
proof (intro conjI)
  show "\<forall>k pw. hm_get pending k = Some pw \<longrightarrow>
      (\<forall>pw'. hm_get kept k = Some pw' \<longrightarrow> pw_fin pw' = pw_fin pw \<and> took m' k @ pw_bytes pw' = took m k @ pw_bytes pw)
      \<and> (k \<in> set (fe_drained fe) \<longrightarrow> took m' k = took m k @ pw_bytes pw \<and> (ended m' k \<longleftrightarrow> ended m k \<or> pw_fin pw))"
    by (intro allI impI) (rule retain_flush_bytes [OF E r inv wf])
  show "\<forall>k. hm_get pending k = None \<longrightarrow> took m' k = took m k \<and> ended m' k = ended m k"
    using retain_flush_frame [OF E r inv] by (simp add: map_of_eq_None_iff)
qed (use retain_flush_units [OF E r inv] wf in simp_all)


definition sample_workers :: "(script, loopback) h3_connection connection_map" where
  "sample_workers = \<lparr>by_dcid = [([1], 0)], connections = [(0, sample_h3\<lparr>hc_quiche := lb_empty\<lparr>lb_credit := 6\<rparr>\<rparr>)],
     token_key = [], max_connections = 2, cm_cid_encoding = Random, cm_scid_source = scid_source_new []\<rparr>"

definition sample_pending :: "(pending_key, pending_write) hashmap" where
  "sample_pending = [((0, 0), pending_write_new (arc_from_vec (vec_of_slice [1, 2, 3, 4, 5, 6, 7, 8])) True),
     ((9, 4), pending_write_new (arc_from_vec (vec_of_slice [1, 2])) False)]"

lemma sample_pending_inv: "hm_wf sample_pending" "\<forall>(k, pw) \<in> set sample_pending. pw_inv pw"
  by (simp_all add: sample_pending_def hm_wf_def pw_inv_new)

lemmas sample_flush_defs = flush_pending_writes_def flush_quic_pending_writes_def flush_h3_entry_def flush_quic_entry_def
  flush_one_h3_pending_write_def flush_one_quic_pending_write_def flush_pending_write_with_progress_def entry_of_def

lemma sample_flush:
  "(let (fe, kept, m') = flush_pending_writes scripted_api loopback_api sample_workers sample_pending
    in (fe, map (\<lambda>(k, pw). (k, pw_bytes pw, pw_fin pw)) kept))
   = (\<lparr>fe_drained = [], fe_released_units = 8\<rparr>, [((0, 0), [7, 8], True)])"
  by (simp add: sample_flush_defs sample_workers_def sample_pending_def cm_get_def cm_put_def pending_write_new_def
      send_body_arcbuf_def send_body_data_def sample_defs sc_send_def lb_take_def body_required_def Let_def
      arc_from_vec_def vec_of_slice_def arc_split_at_def remaining_len_def queued_units_def pw_snapshot_def
      snapshot_queued_units_def outbound_payload_units_def released_units_for_send_def data_frame_length_bytes_def
      queued_bytes_def pw_bytes_def arc_as_ref_def accepted_outbound_payload_units_def)


end
