(* ===== verification/H3_Server.thy ===== *)
theory H3_Server
  imports Worker_Pending Server_Sharding Gso
begin

text \<open>
  The HTTP/3 server worker: \<^verbatim>\<open>H3ServerHandler\<close> of \<^verbatim>\<open>worker.rs\<close> with its command dispatch, packet
  routing, timers, event collection, sends, pending-write sweep and reaping. The clock, the random
  generator, HMAC, the slab's choice of a key and quiche are arguments. A loop that depends on quiche
  for its end takes fuel and yields \<^const>\<open>None\<close> when it runs out. Telemetry, qlog files and the reuse
  of packet buffers are left out; \<^verbatim>\<open>conn_send_buffers\<close> is never filled. The cap on a batch of sends
  that only the wasm32 target has is left out too.
\<close>

unbundle bit_operations_syntax

subsection \<open>State\<close>

text \<open>What the server takes from quiche beyond a connection, from HMAC, the slab and the platform.\<close>

record quiche_header =
  hdr_initial :: bool
  hdr_version :: "32 word"
  hdr_dcid :: "byte list"
  hdr_scid :: "byte list"
  hdr_token :: "byte list option"

record ('h, 'q) server_lib =
  sl_h3 :: "('h, 'q) h3_api"
  sl_quiche :: "'q quiche_api"
  sl_header :: "byte list \<Rightarrow> quiche_header option"
  sl_accept :: "byte list \<Rightarrow> byte list option \<Rightarrow> socket_addr \<Rightarrow> socket_addr \<Rightarrow> quiche_error + 'q"
  sl_retry :: "byte list \<Rightarrow> byte list \<Rightarrow> byte list \<Rightarrow> byte list \<Rightarrow> 32 word \<Rightarrow> byte list option"
  sl_hmac :: hmac_fn
  sl_vacant :: "nat list \<Rightarrow> nat"
  sl_ip_text :: "socket_addr \<Rightarrow> string"
  sl_path_stats :: "'q \<Rightarrow> (nat \<times> nat \<times> nat) option"
  sl_qlog_path :: "('h, 'q) h3_connection \<Rightarrow> string option"

record ('h, 'q) h3_server =
  hs_map :: "('h, 'q) h3_connection connection_map"
  hs_timers :: timer_heap
  hs_writes :: "(pending_key, pending_write) hashmap"
  hs_responses :: "(pending_key, pending_response) hashmap"
  hs_closes :: "(conn_handle, 32 word \<times> string \<times> instant) hashmap"
  hs_disable_retry :: bool
  hs_stream_read_window :: "nat option"
  hs_require_client_cert :: bool
  hs_qpack :: "nat option \<times> nat option"
  hs_last_expired :: "nat list"
  hs_offset :: conn_handle
  hs_admission :: outbound_admission

text \<open>The configuration fields the server reads.\<close>

record http3_config =
  cfg_disable_retry :: bool
  cfg_stream_read_window :: "nat option"
  cfg_require_client_cert :: bool
  cfg_qpack :: "nat option \<times> nat option"
  cfg_max_connections :: nat
  cfg_cid_encoding :: cid_encoding

definition from_parts ::
  "http3_config \<Rightarrow> ('h, 'q) h3_connection connection_map \<Rightarrow> conn_handle \<Rightarrow> outbound_admission \<Rightarrow> ('h, 'q) h3_server" where
  "from_parts cfg m offset adm =
     \<lparr>hs_map = m, hs_timers = timer_heap_new, hs_writes = [], hs_responses = [], hs_closes = [],
      hs_disable_retry = cfg_disable_retry cfg, hs_stream_read_window = cfg_stream_read_window cfg,
      hs_require_client_cert = cfg_require_client_cert cfg, hs_qpack = cfg_qpack cfg, hs_last_expired = [],
      hs_offset = offset, hs_admission = adm\<rparr>"

definition h3_server_new :: "byte list \<Rightarrow> http3_config \<Rightarrow> 32 word \<Rightarrow> outbound_admission \<Rightarrow> ('h, 'q) h3_server" where
  "h3_server_new rng cfg worker adm =
     from_parts cfg (with_max_connections_and_cid rng (cfg_max_connections cfg) (cfg_cid_encoding cfg))
       (handle_offset worker) adm"

definition h3_server_new_direct :: "byte list \<Rightarrow> http3_config \<Rightarrow> outbound_admission \<Rightarrow> ('h, 'q) h3_server" where
  "h3_server_new_direct key cfg adm =
     from_parts cfg (with_key_bytes (cfg_max_connections cfg) (cfg_cid_encoding cfg) key) 0 adm"

abbreviation event_handle :: "('h, 'q) h3_server \<Rightarrow> nat \<Rightarrow> conn_handle" where
  "event_handle s handle \<equiv> hs_offset s OR word_of_nat handle"

subsection \<open>Helpers\<close>

definition as_u64 :: "int \<Rightarrow> nat" where
  "as_u64 i = nat (i mod 2 ^ 64)"

definition suppress_pending_drains :: "conn_handle \<Rightarrow> (stream_id \<Rightarrow> bool) \<Rightarrow> js_event list \<Rightarrow> js_event list" where
  "suppress_pending_drains h has_pending batch =
     filter (\<lambda>e. event_type e \<noteq> EVENT_DRAIN \<or> ev_conn e \<noteq> h \<or> \<not> has_pending (as_u64 (ev_stream e))) batch"

definition H3_INTERNAL_ERROR :: nat where "H3_INTERNAL_ERROR = 0x0102"

definition emit_h3_send_error_and_reset ::
  "('h, 'q) h3_api \<Rightarrow> 'q quiche_api \<Rightarrow> ('h, 'q) h3_connection \<Rightarrow> js_event list \<Rightarrow> conn_handle \<Rightarrow> stream_id
     \<Rightarrow> string \<Rightarrow> native_error \<Rightarrow> ('h, 'q) h3_connection \<times> js_event list" where
  "emit_h3_send_error_and_reset H Q c batch h sid ctx e =
     (h3_stream_close Q sid H3_INTERNAL_ERROR c,
      batch @ [ev_error h (as_i64 sid) 0 (ctx @ '' failed: '' @ native_error_text (q_error_text Q) (h3_error_text H) e)])"

definition release_outbound_admission ::
  "nat \<Rightarrow> ('h, 'q) h3_server \<Rightarrow> js_event list \<Rightarrow> ('h, 'q) h3_server \<times> js_event list" where
  "release_outbound_admission units s batch =
     (case Admission.release (hs_admission s) units of (ready, adm) \<Rightarrow>
        (s\<lparr>hs_admission := adm\<rparr>, if ready then batch @ [ev_write_ready 0] else batch))"

abbreviation put_conn :: "nat \<Rightarrow> ('h, 'q) h3_connection \<Rightarrow> ('h, 'q) h3_server \<Rightarrow> ('h, 'q) h3_server" where
  "put_conn handle c s \<equiv> s\<lparr>hs_map := cm_put (hs_map s) handle c\<rparr>"

definition has_pending :: "('h, 'q) h3_server \<Rightarrow> nat \<Rightarrow> stream_id \<Rightarrow> bool" where
  "has_pending s handle sid \<longleftrightarrow>
     hm_contains (hs_writes s) (word_of_nat handle, sid) \<or> hm_contains (hs_responses s) (word_of_nat handle, sid)"

definition soonest_deadline :: "('h, 'q) h3_server \<Rightarrow> instant option \<times> ('h, 'q) h3_server" where
  "soonest_deadline s =
     (case next_deadline (hs_timers s) of (td, t) \<Rightarrow>
        let ds = map (\<lambda>(_, _, _, d). d) (hs_closes s);
            cd = (if ds = [] then None else Some (Min (set ds)))
        in (case (td, cd) of (Some a, Some b) \<Rightarrow> Some (min a b) | (Some a, None) \<Rightarrow> Some a | (None, b) \<Rightarrow> b,
            s\<lparr>hs_timers := t\<rparr>))"

definition is_idle :: "('h, 'q) h3_server \<Rightarrow> bool" where
  "is_idle s \<longleftrightarrow> cm_is_empty (hs_map s) \<and> hs_closes s = []"

definition connection_is_closed :: "'q quiche_api \<Rightarrow> ('h, 'q) h3_server \<Rightarrow> conn_handle \<Rightarrow> bool" where
  "connection_is_closed Q s h =
     (case cm_get (hs_map s) (unat h) of None \<Rightarrow> True | Some c \<Rightarrow> q_is_closed Q (hc_quiche c))"

definition shutdown_conn :: "'q quiche_api \<Rightarrow> ('h, 'q) h3_connection connection_map \<Rightarrow> nat \<Rightarrow> ('h, 'q) h3_connection connection_map" where
  "shutdown_conn Q m handle =
     (case cm_get m handle of
        None \<Rightarrow> m
      | Some c \<Rightarrow>
          if \<not> q_is_closed Q (hc_quiche c) \<and> \<not> q_is_draining Q (hc_quiche c)
          then cm_put m handle (c\<lparr>hc_quiche := q_close Q (hc_quiche c) True 0 ''server shutdown''\<rparr>) else m)"

definition shutdown_all_connections :: "'q quiche_api \<Rightarrow> ('h, 'q) h3_server \<Rightarrow> ('h, 'q) h3_server" where
  "shutdown_all_connections Q s = s\<lparr>hs_map := foldl (shutdown_conn Q) (hs_map s) (fill_handles (hs_map s))\<rparr>"

subsection \<open>Polling\<close>

definition poll_connection ::
  "('h, 'q) server_lib \<Rightarrow> instant \<Rightarrow> nat \<Rightarrow> nat \<Rightarrow> ('h, 'q) h3_server \<Rightarrow> nat \<Rightarrow> ('h, 'q) h3_connection \<Rightarrow> js_event list
     \<Rightarrow> (('h, 'q) h3_connection \<times> js_event list) option" where
  "poll_connection L now fuel budget s handle c batch =
     (case poll_h3_events (sl_h3 L) (sl_quiche L) (event_handle s handle) fuel budget c batch of
        None \<Rightarrow> None
      | Some (c1, b1) \<Rightarrow>
          let b2 = suppress_pending_drains (event_handle s handle) (has_pending s handle) b1 in
          (case h3_poll_ping_acks (sl_quiche L) now c1 of
             (ds, c2) \<Rightarrow> Some (c2, b2 @ map (ev_ping_ack (event_handle s handle)) ds)))"

fun collect_loop ::
  "('h, 'q) server_lib \<Rightarrow> instant \<Rightarrow> nat \<Rightarrow> nat \<Rightarrow> nat \<Rightarrow> nat list \<Rightarrow> ('h, 'q) h3_server \<Rightarrow> js_event list
     \<Rightarrow> (('h, 'q) h3_server \<times> js_event list) option" where
  "collect_loop L now fuel budget remaining [] s batch = Some (s, batch)"
| "collect_loop L now fuel budget remaining (handle # hs) s batch =
     (if remaining = 0 then Some (s, batch)
      else case cm_get (hs_map s) handle of
        None \<Rightarrow> collect_loop L now fuel budget remaining hs s batch
      | Some c \<Rightarrow>
          (case poll_connection L now fuel remaining s handle c batch of
             None \<Rightarrow> None
           | Some (c', b') \<Rightarrow>
               collect_loop L now fuel budget (saturating_sub budget (length b')) hs (put_conn handle c' s) b'))"

definition collect_app_events ::
  "('h, 'q) server_lib \<Rightarrow> instant \<Rightarrow> nat \<Rightarrow> nat \<Rightarrow> ('h, 'q) h3_server \<Rightarrow> js_event list
     \<Rightarrow> (('h, 'q) h3_server \<times> js_event list) option" where
  "collect_app_events L now fuel budget s batch =
     (if budget = 0 then Some (s, batch)
      else collect_loop L now fuel budget budget (fill_handles (hs_map s)) s batch)"

fun drain_loop ::
  "('h, 'q) server_lib \<Rightarrow> nat \<Rightarrow> nat list \<Rightarrow> ('h, 'q) h3_server \<Rightarrow> js_event list
     \<Rightarrow> (('h, 'q) h3_server \<times> js_event list) option" where
  "drain_loop L fuel [] s batch = Some (s, batch)"
| "drain_loop L fuel (handle # hs) s batch =
     (if handle \<in> set (hs_last_expired s) then drain_loop L fuel hs s batch
      else case cm_get (hs_map s) handle of
        None \<Rightarrow> drain_loop L fuel hs s batch
      | Some c \<Rightarrow>
          if blocked_set (hc_blocked c) = [] then drain_loop L fuel hs s batch
          else case h3_poll_drain_events (sl_quiche L) (event_handle s handle) fuel c batch of
            None \<Rightarrow> None
          | Some (c', b') \<Rightarrow>
              drain_loop L fuel hs (put_conn handle c' s)
                (suppress_pending_drains (event_handle s handle) (has_pending s handle) b'))"

definition collect_drain_events where
  "collect_drain_events L fuel s batch = drain_loop L fuel (fill_handles (hs_map s)) s batch"

subsection \<open>Timers\<close>

fun expire_loop ::
  "('h, 'q) server_lib \<Rightarrow> instant \<Rightarrow> nat \<Rightarrow> nat \<Rightarrow> nat list \<Rightarrow> ('h, 'q) h3_server \<Rightarrow> js_event list
     \<Rightarrow> (('h, 'q) h3_server \<times> js_event list) option" where
  "expire_loop L now fuel budget [] s batch = Some (s, batch)"
| "expire_loop L now fuel budget (handle # hs) s batch =
     (case cm_get (hs_map s) handle of
        None \<Rightarrow> expire_loop L now fuel budget hs s batch
      | Some c0 \<Rightarrow>
          let c = c0\<lparr>hc_quiche := q_on_timeout (sl_quiche L) (hc_quiche c0)\<rparr> in
          if q_is_closed (sl_quiche L) (hc_quiche c)
          then expire_loop L now fuel budget hs (put_conn handle c s)
                 (batch @ [h3_session_close_event (sl_quiche L) c (event_handle s handle)])
          else (case poll_connection L now fuel budget s handle c batch of
                  None \<Rightarrow> None
                | Some (c', b') \<Rightarrow>
                    expire_loop L now fuel budget hs
                      ((put_conn handle c' s)\<lparr>hs_timers := set_deadline (hs_timers s) handle
                         (map_option (\<lambda>t. now + t) (q_timeout (sl_quiche L) (hc_quiche c')))\<rparr>) b'))"

fun close_due ::
  "'q quiche_api \<Rightarrow> conn_handle list \<Rightarrow> ('h, 'q) h3_server \<Rightarrow> ('h, 'q) h3_server" where
  "close_due Q [] s = s"
| "close_due Q (h # hs) s =
     (case hm_get (hs_closes s) h of
        None \<Rightarrow> close_due Q hs s
      | Some (code, reason, _) \<Rightarrow>
          let s1 = s\<lparr>hs_closes := hm_remove h (hs_closes s)\<rparr> in
          close_due Q hs
            (case cm_get (hs_map s1) (unat h) of
               None \<Rightarrow> s1
             | Some c \<Rightarrow> put_conn (unat h) (c\<lparr>hc_quiche := q_close Q (hc_quiche c) True (unat code) reason\<rparr>) s1))"

definition expire_timers ::
  "('h, 'q) server_lib \<Rightarrow> instant \<Rightarrow> nat \<Rightarrow> nat \<Rightarrow> ('h, 'q) h3_server \<Rightarrow> js_event list
     \<Rightarrow> (('h, 'q) h3_server \<times> js_event list) option" where
  "expire_timers L now fuel budget s batch =
     (case pop_expired (hs_timers s) now of (expired, t) \<Rightarrow>
        let ex = remdups (sort expired) in
        (case expire_loop L now fuel budget ex (s\<lparr>hs_timers := t, hs_last_expired := ex\<rparr>) batch of
           None \<Rightarrow> None
         | Some (s1, b1) \<Rightarrow>
             let due = map fst (filter (\<lambda>(_, _, _, d). d \<le> now) (hs_closes s1))
             in Some (close_due (sl_quiche L) due s1, b1)))"

subsection \<open>Sending datagrams\<close>

definition mtu_of :: "nat \<Rightarrow> 16 word option" where
  "mtu_of n = (if n < 2 ^ 16 then Some (word_of_nat n) else None)"

definition TX_BUFFER_LEN :: nat where "TX_BUFFER_LEN = 65535"

text \<open>One pass over the connections; the flags are \<^verbatim>\<open>done\<close>, and a packet buffer is its filled part.\<close>

fun send_pass ::
  "'q quiche_api \<Rightarrow> (nat \<times> bool) list \<Rightarrow> ('h, 'q) h3_connection connection_map \<Rightarrow> tx_datagram list
     \<Rightarrow> (nat \<times> bool) list \<times> ('h, 'q) h3_connection connection_map \<times> tx_datagram list" where
  "send_pass Q [] m out = ([], m, out)"
| "send_pass Q ((handle, don) # hs) m out =
     (if don then (case send_pass Q hs m out of (fs, m', out') \<Rightarrow> ((handle, don) # fs, m', out'))
      else case cm_get m handle of
        None \<Rightarrow> (case send_pass Q hs m out of (fs, m', out') \<Rightarrow> ((handle, True) # fs, m', out'))
      | Some c \<Rightarrow>
          (case h3_send Q c TX_BUFFER_LEN of
             (Inl _, c') \<Rightarrow>
               (case send_pass Q hs (cm_put m handle c') out of (fs, m', out') \<Rightarrow> ((handle, True) # fs, m', out'))
           | (Inr (pkt, to), c') \<Rightarrow>
               (case send_pass Q hs (cm_put m handle c')
                       (out @ [\<lparr>tx_data = pkt, tx_payload_len = length pkt, tx_to = to,
                                tx_max_segment_size = mtu_of (q_max_udp Q (hc_quiche c'))\<rparr>]) of
                  (fs, m', out') \<Rightarrow> ((handle, False) # fs, m', out'))))"

fun send_rounds ::
  "'q quiche_api \<Rightarrow> nat \<Rightarrow> (nat \<times> bool) list \<Rightarrow> ('h, 'q) h3_connection connection_map \<Rightarrow> tx_datagram list
     \<Rightarrow> (('h, 'q) h3_connection connection_map \<times> tx_datagram list) option" where
  "send_rounds Q fuel hs m out =
     (if \<forall>(_, don) \<in> set hs. don then Some (m, out)
      else case fuel of
        0 \<Rightarrow> None
      | Suc fuel' \<Rightarrow> (case send_pass Q hs m out of (hs', m', out') \<Rightarrow> send_rounds Q fuel' hs' m' out'))"

declare send_rounds.simps [simp del]

definition rearm :: "'q quiche_api \<Rightarrow> instant \<Rightarrow> ('h, 'q) h3_connection connection_map \<Rightarrow> timer_heap \<Rightarrow> nat \<Rightarrow> timer_heap" where
  "rearm Q now m t handle =
     set_deadline t handle (case cm_get m handle of
       None \<Rightarrow> None | Some c \<Rightarrow> map_option (\<lambda>d. now + d) (q_timeout Q (hc_quiche c)))"

definition flush_all_sends ::
  "'q quiche_api \<Rightarrow> instant \<Rightarrow> nat \<Rightarrow> ('h, 'q) h3_server \<Rightarrow> tx_datagram list \<Rightarrow> (('h, 'q) h3_server \<times> tx_datagram list) option" where
  "flush_all_sends Q now fuel s out =
     (let hs = fill_handles (hs_map s) in
      if hs = [] then Some (s, out)
      else case send_rounds Q fuel (map (\<lambda>h. (h, False)) hs) (hs_map s) out of
        None \<Rightarrow> None
      | Some (m, out') \<Rightarrow> Some (s\<lparr>hs_map := m, hs_timers := foldl (rearm Q now m) (hs_timers s) hs\<rparr>, out'))"

subsection \<open>Flushing pending responses and writes\<close>

definition flush_response ::
  "('h, 'q) server_lib \<Rightarrow> pending_key \<Rightarrow> ('h, 'q) h3_server \<Rightarrow> js_event list \<Rightarrow> ('h, 'q) h3_server \<times> js_event list" where
  "flush_response L key s batch =
     (case hm_get (hs_responses s) key of
        None \<Rightarrow> (s, batch)
      | Some r \<Rightarrow>
          let before_units = pr_queued_units r;
              eh = hs_offset s OR fst key;
              s1 = s\<lparr>hs_responses := hm_remove key (hs_responses s)\<rparr>
          in (case cm_get (hs_map s1) (unat (fst key)) of
                None \<Rightarrow> release_outbound_admission before_units s1 batch
              | Some c \<Rightarrow>
                  if q_stream_closed (sl_quiche L) (hc_quiche c) (snd key)
                  then release_outbound_admission before_units s1 batch
                  else (case flush_one_h3_pending_response (sl_h3 L) (sl_quiche L) (snd key) c r of
                    (Inl e, r', c') \<Rightarrow>
                      (case release_outbound_admission before_units s1 batch of (s2, b2) \<Rightarrow>
                         (case emit_h3_send_error_and_reset (sl_h3 L) (sl_quiche L) c' b2 eh (snd key)
                                 ''pending response flush'' e of
                            (c'', b3) \<Rightarrow> (put_conn (unat (fst key)) c'' s2, b3)))
                  | (Inr out, r', c') \<Rightarrow>
                      (case release_outbound_admission (fo_released_units out) (put_conn (unat (fst key)) c' s1) batch of
                         (s2, b2) \<Rightarrow>
                           if fo_done out then (s2, b2 @ [ev_drain eh (snd key)])
                           else (s2\<lparr>hs_responses := hm_insert key r' (hs_responses s2)\<rparr>, b2)))))"

fun flush_responses ::
  "('h, 'q) server_lib \<Rightarrow> pending_key list \<Rightarrow> ('h, 'q) h3_server \<Rightarrow> js_event list \<Rightarrow> ('h, 'q) h3_server \<times> js_event list" where
  "flush_responses L [] s batch = (s, batch)"
| "flush_responses L (k # ks) s batch =
     (case flush_response L k s batch of (s', b') \<Rightarrow> flush_responses L ks s' b')"

definition flush_all_pending_writes ::
  "('h, 'q) server_lib \<Rightarrow> ('h, 'q) h3_server \<Rightarrow> js_event list \<Rightarrow> ('h, 'q) h3_server \<times> js_event list" where
  "flush_all_pending_writes L s batch =
     (case flush_responses L (map fst (hs_responses s)) s batch of (s1, b1) \<Rightarrow>
        (case flush_pending_writes (sl_h3 L) (sl_quiche L) (hs_map s1) (hs_writes s1) of (fe, kept, m) \<Rightarrow>
           (case release_outbound_admission (fe_released_units fe) (s1\<lparr>hs_map := m, hs_writes := kept\<rparr>) b1 of
              (s2, b2) \<Rightarrow> (s2, b2 @ map (\<lambda>(h, sid). ev_drain (hs_offset s OR h) sid) (fe_drained fe)))))"

subsection \<open>Reaping closed connections\<close>

definition of_conn :: "nat \<Rightarrow> (pending_key, 'v) hashmap \<Rightarrow> (pending_key, 'v) hashmap" where
  "of_conn handle m = filter (\<lambda>((ch, _), _). unat ch = handle) m"

definition not_of_conn :: "nat \<Rightarrow> (pending_key, 'v) hashmap \<Rightarrow> (pending_key, 'v) hashmap" where
  "not_of_conn handle m = filter (\<lambda>((ch, _), _). unat ch \<noteq> handle) m"

definition abandoned_streams :: "nat \<Rightarrow> ('h, 'q) h3_server \<Rightarrow> stream_id list" where
  "abandoned_streams handle s =
     remdups (sort (map (snd \<circ> fst) (of_conn handle (hs_writes s)) @ map (snd \<circ> fst) (of_conn handle (hs_responses s))))"

definition reap_one ::
  "'q quiche_api \<Rightarrow> nat \<times> ('h, 'q) h3_connection \<Rightarrow> ('h, 'q) h3_server \<Rightarrow> js_event list \<Rightarrow> ('h, 'q) h3_server \<times> js_event list" where
  "reap_one Q hc s batch =
     (case hc of (handle, c) \<Rightarrow>
        let eh = event_handle s handle;
            b1 = batch @ map (\<lambda>sid. ev_reset eh sid 0) (abandoned_streams handle s);
            removed_units = hm_sum queued_units (of_conn handle (hs_writes s))
              + hm_sum pr_queued_units (of_conn handle (hs_responses s));
            s1 = s\<lparr>hs_timers := remove_connection (hs_timers s) handle, hs_closes := hm_remove (word_of_nat handle) (hs_closes s),
                   hs_writes := not_of_conn handle (hs_writes s), hs_responses := not_of_conn handle (hs_responses s)\<rparr>
        in (case release_outbound_admission removed_units s1 b1 of (s2, b2) \<Rightarrow>
              (s2, if handle \<in> set (hs_last_expired s) then b2 else b2 @ [h3_session_close_event Q c eh])))"

fun reap_each ::
  "'q quiche_api \<Rightarrow> (nat \<times> ('h, 'q) h3_connection) list \<Rightarrow> ('h, 'q) h3_server \<Rightarrow> js_event list \<Rightarrow> ('h, 'q) h3_server \<times> js_event list" where
  "reap_each Q [] s batch = (s, batch)"
| "reap_each Q (hc # hcs) s batch = (case reap_one Q hc s batch of (s', b') \<Rightarrow> reap_each Q hcs s' b')"

definition reap_closed_connections ::
  "'q quiche_api \<Rightarrow> ('h, 'q) h3_server \<Rightarrow> js_event list \<Rightarrow> ('h, 'q) h3_server \<times> js_event list" where
  "reap_closed_connections Q s batch =
     (case drain_closed (\<lambda>c. q_is_closed Q (hc_quiche c)) (hs_map s) of (closed, m) \<Rightarrow>
        (case reap_each Q closed (s\<lparr>hs_map := m\<rparr>) batch of (s', b') \<Rightarrow> (s'\<lparr>hs_last_expired := []\<rparr>, b')))"

definition emit_session_close_for_all_active :: "('h, 'q) h3_server \<Rightarrow> js_event list \<Rightarrow> js_event list" where
  "emit_session_close_for_all_active s batch =
     batch @ map (\<lambda>handle. ev_session_close (event_handle s handle)) (fill_handles (hs_map s))"

subsection \<open>Packets\<close>

definition port_of :: "socket_addr \<Rightarrow> 16 word" where
  "port_of a = (case a of V4 _ p \<Rightarrow> p | V6 _ p \<Rightarrow> p)"

definition h3_accept ::
  "('h, 'q) server_lib \<Rightarrow> instant \<Rightarrow> ('h, 'q) h3_server \<Rightarrow> byte list \<Rightarrow> byte list option \<Rightarrow> socket_addr \<Rightarrow> socket_addr
     \<Rightarrow> quiche_error + ('h, 'q) h3_connection" where
  "h3_accept L now s scid odcid local peer =
     (case sl_accept L scid odcid local peer of
        Inl e \<Rightarrow> Inl e
      | Inr q \<Rightarrow> Inr (h3_connection_new q scid now (fst (hs_qpack s)) (snd (hs_qpack s))))"

definition accept_session ::
  "('h, 'q) server_lib \<Rightarrow> instant \<Rightarrow> byte list \<Rightarrow> byte list option \<Rightarrow> byte list \<Rightarrow> socket_addr \<Rightarrow> socket_addr
     \<Rightarrow> ('h, 'q) h3_server \<Rightarrow> js_event list \<Rightarrow> nat option \<times> ('h, 'q) h3_server \<times> js_event list" where
  "accept_session L now scid odcid alias peer local s batch =
     (case accept_new (sl_vacant L) (h3_accept L now s) (hs_map s) scid odcid peer local of
        (Inl _, m) \<Rightarrow> (None, s\<lparr>hs_map := m\<rparr>, batch)
      | (Inr h, m) \<Rightarrow>
          (Some h, s\<lparr>hs_map := add_dcid m h alias\<rparr>,
           batch @ [ev_new_session (event_handle s h) (sl_ip_text L peer) (port_of peer) []]))"

text \<open>
  The connection a packet is for, if any: routed by its id, accepted, or answered with a Retry. The
  native and the direct-call entry differ in how a fresh id is made, which is \<open>gen\<close>.
\<close>

definition route_or_accept ::
  "('h, 'q) server_lib \<Rightarrow> instant \<Rightarrow> 64 word
     \<Rightarrow> (('h, 'q) h3_connection connection_map \<Rightarrow> (native_error + byte list) \<times> ('h, 'q) h3_connection connection_map)
     \<Rightarrow> quiche_header \<Rightarrow> socket_addr \<Rightarrow> socket_addr \<Rightarrow> ('h, 'q) h3_server \<Rightarrow> tx_datagram list \<Rightarrow> js_event list
     \<Rightarrow> nat option \<times> ('h, 'q) h3_server \<times> tx_datagram list \<times> js_event list" where
  "route_or_accept L now secs gen hdr peer local s outbound batch =
     (case route_packet (hs_map s) (hdr_dcid hdr) of
        Some handle \<Rightarrow> (Some handle, s, outbound, batch)
      | None \<Rightarrow>
          if \<not> hdr_initial hdr then (None, s, outbound, batch)
          else if hs_disable_retry s then
            (case gen (hs_map s) of
               (Inl _, m) \<Rightarrow> (None, s\<lparr>hs_map := m\<rparr>, outbound, batch)
             | (Inr scid, m) \<Rightarrow>
                 (case accept_session L now scid None (hdr_dcid hdr) peer local (s\<lparr>hs_map := m\<rparr>) batch of
                    (h, s', b') \<Rightarrow> (h, s', outbound, b')))
          else case (case hdr_token hdr of None \<Rightarrow> None | Some t \<Rightarrow> if t = [] then None else Some t) of
            Some token \<Rightarrow>
              (case cm_validate_token (sl_hmac L) (hs_map s) secs token peer of
                 None \<Rightarrow> (None, s, outbound, batch)
               | Some odcid \<Rightarrow>
                   (case accept_session L now (hdr_dcid hdr) (Some odcid) odcid peer local s batch of
                      (h, s', b') \<Rightarrow> (h, s', outbound, b')))
          | None \<Rightarrow>
              (case gen (hs_map s) of
                 (Inl _, m) \<Rightarrow> (None, s\<lparr>hs_map := m\<rparr>, outbound, batch)
               | (Inr scid, m) \<Rightarrow>
                   let token = cm_mint_token (sl_hmac L) m secs peer (hdr_dcid hdr) in
                   (None, s\<lparr>hs_map := m\<rparr>,
                    (case sl_retry L (hdr_scid hdr) (hdr_dcid hdr) scid token (hdr_version hdr) of
                       None \<Rightarrow> outbound
                     | Some pkt \<Rightarrow> outbound @ [\<lparr>tx_data = pkt, tx_payload_len = length pkt, tx_to = peer,
                                                tx_max_segment_size = None\<rparr>]),
                    batch)))"

fun retired_loop :: "'q quiche_api \<Rightarrow> nat \<Rightarrow> 'q \<Rightarrow> (byte list list \<times> 'q) option" where
  "retired_loop Q fuel q =
     (case q_retired_scid_next Q q of
        None \<Rightarrow> Some ([], q)
      | Some (scid, q') \<Rightarrow>
          (case fuel of
             0 \<Rightarrow> None
           | Suc fuel' \<Rightarrow> map_option (\<lambda>(ss, q''). (scid # ss, q'')) (retired_loop Q fuel' q')))"

declare retired_loop.simps [simp del]

definition handshake ::
  "('h, 'q) server_lib \<Rightarrow> instant \<Rightarrow> bool \<Rightarrow> conn_handle \<Rightarrow> ('h, 'q) h3_connection \<Rightarrow> js_event list
     \<Rightarrow> ('h, 'q) h3_connection \<times> js_event list" where
  "handshake L now require_cert eh c batch =
     (let Q = sl_quiche L;
          c1 = (if (q_is_established Q (hc_quiche c) \<or> q_is_in_early_data Q (hc_quiche c)) \<and> \<not> hc_is_established c
                then snd (init_h3 (sl_h3 L) now c) else c)
      in if q_is_established Q (hc_quiche c1) \<and> \<not> hc_handshake_complete_emitted c1 then
           if require_cert \<and> q_peer_cert Q (hc_quiche c1) = None
           then (c1\<lparr>hc_quiche := q_close Q (hc_quiche c1) False 0x0100 ''client certificate required''\<rparr>, batch)
           else (c1\<lparr>hc_handshake_complete_emitted := True\<rparr>, batch @ [ev_handshake_complete eh])
         else (c1, batch))"

definition receive_packet ::
  "('h, 'q) server_lib \<Rightarrow> instant \<Rightarrow> nat \<Rightarrow> nat \<Rightarrow> bool \<Rightarrow> byte list \<Rightarrow> nat \<Rightarrow> ('h, 'q) h3_server \<Rightarrow> js_event list
     \<Rightarrow> (bool \<times> ('h, 'q) h3_server \<times> js_event list) option" where
  "receive_packet L now fuel budget require_cert buf handle s batch =
     (let Q = sl_quiche L; eh = event_handle s handle in
      case cm_get (hs_map s) handle of
        None \<Rightarrow> Some (False, s, batch)
      | Some c0 \<Rightarrow>
          (case h3_recv Q (c0\<lparr>hc_stream_read_window := hs_stream_read_window s\<rparr>) buf of
             (Inl _, c1) \<Rightarrow> Some (False, put_conn handle c1 s, batch)
           | (Inr _, c1) \<Rightarrow>
               (case handshake L now require_cert eh c1 batch of (c2, b2) \<Rightarrow>
                  let scid = q_source_id Q (hc_quiche c2);
                      needs_update = (scid \<noteq> hc_conn_id c2);
                      c3 = (if needs_update then c2\<lparr>hc_conn_id := scid\<rparr> else c2)
                  in (case poll_connection L now fuel budget s handle c3 b2 of
                        None \<Rightarrow> None
                      | Some (c4, b4) \<Rightarrow>
                          (case retired_loop Q fuel (hc_quiche c4) of
                             None \<Rightarrow> None
                           | Some (retired, q5) \<Rightarrow>
                               let c5 = c4\<lparr>hc_quiche := q5\<rparr>;
                                   m1 = cm_put (hs_map s) handle c5;
                                   m2 = (if needs_update then add_dcid m1 handle scid else m1);
                                   m3 = foldl remove_dcid m2 retired
                               in Some (True, s\<lparr>hs_map := m3\<rparr>, b4))))))"

text \<open>The timer is set from the timeout read before the connection ids are updated.\<close>

definition arm_after_packet :: "'q quiche_api \<Rightarrow> instant \<Rightarrow> nat \<Rightarrow> nat option \<Rightarrow> ('h, 'q) h3_server \<Rightarrow> ('h, 'q) h3_server" where
  "arm_after_packet Q now handle timeout s =
     s\<lparr>hs_timers := set_deadline (hs_timers s) handle (map_option (\<lambda>t. now + t) timeout)\<rparr>"

definition conn_timeout :: "'q quiche_api \<Rightarrow> ('h, 'q) h3_server \<Rightarrow> nat \<Rightarrow> nat option" where
  "conn_timeout Q s handle = (case cm_get (hs_map s) handle of None \<Rightarrow> None | Some c \<Rightarrow> q_timeout Q (hc_quiche c))"

definition process_inbound_packet ::
  "('h, 'q) server_lib \<Rightarrow> instant \<Rightarrow> 64 word \<Rightarrow> nat \<Rightarrow> nat \<Rightarrow> byte list \<Rightarrow> socket_addr \<Rightarrow> socket_addr
     \<Rightarrow> ('h, 'q) h3_server \<Rightarrow> tx_datagram list \<Rightarrow> js_event list
     \<Rightarrow> (('h, 'q) h3_server \<times> tx_datagram list \<times> js_event list) option" where
  "process_inbound_packet L now secs fuel budget buf peer local s outbound batch =
     (case sl_header L buf of
        None \<Rightarrow> Some (s, outbound, batch)
      | Some hdr \<Rightarrow>
          (case route_or_accept L now secs (generate_scid_direct (sl_hmac L)) hdr peer local s outbound batch of
             (None, s1, out1, b1) \<Rightarrow> Some (s1, out1, b1)
           | (Some handle, s1, out1, b1) \<Rightarrow>
               (case receive_packet L now fuel budget (hs_require_client_cert s1) buf handle s1 b1 of
                  None \<Rightarrow> None
                | Some (received, s2, b2) \<Rightarrow>
                    Some (if received then arm_after_packet (sl_quiche L) now handle (conn_timeout (sl_quiche L) s2 handle) s2
                          else s2, out1, b2))))"

text \<open>Each turn of the loop draws an id and a reset token; \<open>rng\<close> lists the draws.\<close>

fun top_up_server_scids ::
  "'q quiche_api \<Rightarrow> (byte list option \<times> byte list option) list \<Rightarrow> nat \<Rightarrow> ('h, 'q) h3_connection connection_map
     \<Rightarrow> ('h, 'q) h3_connection connection_map option" where
  "top_up_server_scids Q rng handle m =
     (case cm_get m handle of
        None \<Rightarrow> Some m
      | Some c \<Rightarrow>
          if \<not> (q_is_established Q (hc_quiche c) \<and> 0 < q_scids_left Q (hc_quiche c)) then Some m
          else case rng of
            [] \<Rightarrow> None
          | (r, t) # rng' \<Rightarrow>
              (case cm_generate_scid m r of
                 Inl _ \<Rightarrow> Some m
               | Inr scid \<Rightarrow>
                   (case t of
                      None \<Rightarrow> Some m
                    | Some token \<Rightarrow>
                        (case q_new_scid Q (hc_quiche c) scid token of (added, q') \<Rightarrow>
                           let m1 = cm_put m handle (c\<lparr>hc_quiche := q'\<rparr>) in
                           if added then top_up_server_scids Q rng' handle (add_dcid m1 handle scid) else Some m1))))"

declare top_up_server_scids.simps [simp del]

definition process_packet ::
  "('h, 'q) server_lib \<Rightarrow> instant \<Rightarrow> 64 word \<Rightarrow> nat \<Rightarrow> byte list option \<Rightarrow> (byte list option \<times> byte list option) list
     \<Rightarrow> nat \<Rightarrow> byte list \<Rightarrow> socket_addr \<Rightarrow> socket_addr \<Rightarrow> ('h, 'q) h3_server \<Rightarrow> tx_datagram list \<Rightarrow> js_event list
     \<Rightarrow> (('h, 'q) h3_server \<times> tx_datagram list \<times> js_event list) option" where
  "process_packet L now secs fuel rng rngs budget buf peer local s outbound batch =
     (case sl_header L buf of
        None \<Rightarrow> Some (s, outbound, batch)
      | Some hdr \<Rightarrow>
          (case route_or_accept L now secs (\<lambda>m. (cm_generate_scid m rng, m)) hdr peer local s outbound batch of
             (None, s1, out1, b1) \<Rightarrow> Some (s1, out1, b1)
           | (Some handle, s1, out1, b1) \<Rightarrow>
               (case receive_packet L now fuel budget False buf handle s1 b1 of
                  None \<Rightarrow> None
                | Some (received, s2, b2) \<Rightarrow>
                    if \<not> received then Some (s2, out1, b2)
                    else (case top_up_server_scids (sl_quiche L) rngs handle (hs_map s2) of
                            None \<Rightarrow> None
                          | Some m \<Rightarrow>
                              Some (arm_after_packet (sl_quiche L) now handle (conn_timeout (sl_quiche L) s2 handle)
                                      (s2\<lparr>hs_map := m\<rparr>), out1, b2)))))"

subsection \<open>Commands\<close>

datatype worker_command =
    SendResponseHeaders conn_handle stream_id header_list bool
  | SendResponse conn_handle stream_id header_list chunk bool
  | StreamSend conn_handle stream_id chunk bool
  | StreamReadCredit conn_handle stream_id nat
  | StreamClose conn_handle stream_id "32 word"
  | SendTrailers conn_handle stream_id header_list
  | CloseSession conn_handle "32 word" string
  | SendDatagram conn_handle chunk
  | GetSessionMetrics conn_handle
  | GetRemoteSettings conn_handle
  | GetQlogPath conn_handle
  | PingSession conn_handle
  | Shutdown

text \<open>What is sent back on a command's reply channel.\<close>

datatype worker_reply =
    NoReply
  | BoolReply bool
  | MetricsReply "js_session_metrics option"
  | SettingsReply "(nat \<times> nat) list"
  | PathReply "string option"

fun worker_command_outbound_bytes :: "worker_command \<Rightarrow> nat" where
  "worker_command_outbound_bytes (SendResponse h sid hs body fin) = outbound_payload_units (chunk_remaining_len body) fin"
| "worker_command_outbound_bytes (StreamSend h sid ch fin) = outbound_payload_units (chunk_remaining_len ch) fin"
| "worker_command_outbound_bytes (SendDatagram h d) = chunk_remaining_len d"
| "worker_command_outbound_bytes _ = 0"

definition snapshot_metrics :: "('h, 'q) server_lib \<Rightarrow> ('h, 'q) h3_connection \<Rightarrow> js_session_metrics" where
  "snapshot_metrics L c =
     (let ps = sl_path_stats L (hc_quiche c) in
      \<lparr>m_packets_in = word_of_nat (packets_in (hc_metrics c)), m_packets_out = word_of_nat (packets_out (hc_metrics c)),
       m_bytes_in = as_i64 (bytes_in (hc_metrics c)), m_bytes_out = as_i64 (bytes_out (hc_metrics c)),
       m_handshake_time_ms = (case handshake_complete_at (hc_metrics c) of None \<Rightarrow> 0 | Some t \<Rightarrow> t - hc_created_at c),
       m_rtt_ms = (case ps of None \<Rightarrow> 0 | Some (rtt, _, _) \<Rightarrow> rtt),
       m_cwnd = as_i64 (case ps of None \<Rightarrow> 0 | Some (_, cwnd, _) \<Rightarrow> cwnd),
       m_pmtu = as_i64 (case ps of None \<Rightarrow> 0 | Some (_, _, pmtu) \<Rightarrow> pmtu), m_datagram_queue_depth = 0\<rparr>)"

text \<open>The send of a body chunk on a connection with nothing queued for the stream: the units the
  connection took are released, the rest is held.\<close>

definition send_chunk_now ::
  "('h, 'q) server_lib \<Rightarrow> conn_handle \<Rightarrow> stream_id \<Rightarrow> chunk \<Rightarrow> bool \<Rightarrow> nat \<Rightarrow> ('h, 'q) h3_connection \<Rightarrow> ('h, 'q) h3_server
     \<Rightarrow> js_event list \<Rightarrow> ('h, 'q) h3_server \<times> js_event list" where
  "send_chunk_now L h sid ch fin outbound_units c s batch =
     (let H = sl_h3 L; Q = sl_quiche L; eh = hs_offset s OR h in
      case send_body_chunk H Q sid c ch fin of
        (Inr out, c') \<Rightarrow>
          (case release_outbound_admission
                  (accepted_outbound_payload_units (chunk_remaining_len ch) fin (so_written out) (so_fin_accepted out))
                  (put_conn (unat h) c' s) batch of
             (s1, b1) \<Rightarrow>
               (case so_remainder out of
                  None \<Rightarrow> (s1, b1)
                | Some r \<Rightarrow>
                    (s1\<lparr>hs_writes := insert_pending_write (h, sid) (pending_write_new r fin) (hs_writes s1)\<rparr>,
                     b1 @ [ev_stream_blocked eh sid])))
      | (Inl e, c') \<Rightarrow>
          (case release_outbound_admission outbound_units s batch of (s1, b1) \<Rightarrow>
             (case emit_h3_send_error_and_reset H Q c' b1 eh sid ''stream send'' e of
                (c'', b2) \<Rightarrow> (put_conn (unat h) c'' s1, b2))))"

definition do_send_response_headers ::
  "('h, 'q) server_lib \<Rightarrow> conn_handle \<Rightarrow> stream_id \<Rightarrow> header_list \<Rightarrow> bool \<Rightarrow> ('h, 'q) h3_server \<Rightarrow> js_event list
     \<Rightarrow> ('h, 'q) h3_server \<times> js_event list" where
  "do_send_response_headers L h sid hdrs fin s batch =
     (let eh = hs_offset s OR h in
      case cm_get (hs_map s) (unat h) of
        None \<Rightarrow> (s, batch)
      | Some c \<Rightarrow>
          (case send_response (sl_h3 L) sid hdrs fin c of
             (Inr _, c') \<Rightarrow> (put_conn (unat h) c' s, batch)
           | (Inl e, c') \<Rightarrow>
               if is_h3_stream_blocked e
               then ((put_conn (unat h) c' s)\<lparr>hs_responses := insert_pending_response (h, sid) (headers_only hdrs fin) (hs_responses s)\<rparr>,
                     batch @ [ev_stream_blocked eh sid])
               else (case emit_h3_send_error_and_reset (sl_h3 L) (sl_quiche L) c' batch eh sid ''send_response_headers'' e of
                       (c'', b') \<Rightarrow> (put_conn (unat h) c'' s, b'))))"

definition do_send_response ::
  "('h, 'q) server_lib \<Rightarrow> conn_handle \<Rightarrow> stream_id \<Rightarrow> header_list \<Rightarrow> chunk \<Rightarrow> bool \<Rightarrow> ('h, 'q) h3_server \<Rightarrow> js_event list
     \<Rightarrow> ('h, 'q) h3_server \<times> js_event list" where
  "do_send_response L h sid hdrs body fin s batch =
     (let eh = hs_offset s OR h; outbound_units = outbound_payload_units (chunk_remaining_len body) fin in
      case cm_get (hs_map s) (unat h) of
        None \<Rightarrow> release_outbound_admission outbound_units s batch
      | Some c \<Rightarrow>
          (case send_response (sl_h3 L) sid hdrs False c of
             (Inl e, c') \<Rightarrow>
               if is_h3_stream_blocked e
               then ((put_conn (unat h) c' s)\<lparr>hs_responses := insert_pending_response (h, sid) (with_body hdrs body fin) (hs_responses s)\<rparr>,
                     batch @ [ev_stream_blocked eh sid])
               else (case release_outbound_admission outbound_units s batch of (s1, b1) \<Rightarrow>
                       (case emit_h3_send_error_and_reset (sl_h3 L) (sl_quiche L) c' b1 eh sid ''send_response'' e of
                          (c'', b2) \<Rightarrow> (put_conn (unat h) c'' s1, b2)))
           | (Inr _, c') \<Rightarrow> send_chunk_now L h sid body fin outbound_units c' s batch))"

definition do_stream_send ::
  "('h, 'q) server_lib \<Rightarrow> conn_handle \<Rightarrow> stream_id \<Rightarrow> chunk \<Rightarrow> bool \<Rightarrow> ('h, 'q) h3_server \<Rightarrow> js_event list
     \<Rightarrow> ('h, 'q) h3_server \<times> js_event list" where
  "do_stream_send L h sid ch fin s batch =
     (let outbound_units = outbound_payload_units (chunk_remaining_len ch) fin in
      case hm_get (hs_responses s) (h, sid) of
        Some r \<Rightarrow> (s\<lparr>hs_responses := hm_insert (h, sid) (push_body_chunk r ch fin) (hs_responses s)\<rparr>, batch)
      | None \<Rightarrow>
          (case hm_get (hs_writes s) (h, sid) of
             Some pw \<Rightarrow> (s\<lparr>hs_writes := hm_insert (h, sid) (push_and_fin pw ch fin) (hs_writes s)\<rparr>, batch)
           | None \<Rightarrow>
               (case cm_get (hs_map s) (unat h) of
                  Some c \<Rightarrow> send_chunk_now L h sid ch fin outbound_units c s batch
                | None \<Rightarrow> release_outbound_admission outbound_units s batch)))"

definition stream_read_credit :: "conn_handle \<Rightarrow> stream_id \<Rightarrow> nat \<Rightarrow> ('h, 'q) h3_server \<Rightarrow> ('h, 'q) h3_server" where
  "stream_read_credit h sid bytes s =
     (case cm_get (hs_map s) (unat h) of None \<Rightarrow> s | Some c \<Rightarrow> put_conn (unat h) (add_read_credit sid bytes c) s)"

definition do_stream_close ::
  "'q quiche_api \<Rightarrow> conn_handle \<Rightarrow> stream_id \<Rightarrow> 32 word \<Rightarrow> ('h, 'q) h3_server \<Rightarrow> js_event list \<Rightarrow> ('h, 'q) h3_server \<times> js_event list" where
  "do_stream_close Q h sid code s batch =
     (case cm_get (hs_map s) (unat h) of
        None \<Rightarrow> (s, batch)
      | Some c \<Rightarrow>
          let s1 = put_conn (unat h) (h3_stream_close Q sid (unat code) c) s in
          (case remove_pending_response (h, sid) (hs_responses s1) of (u1, rs) \<Rightarrow>
             (case remove_pending_write (h, sid) (hs_writes s1) of (u2, ws) \<Rightarrow>
                (case release_outbound_admission (u1 + u2) (s1\<lparr>hs_responses := rs, hs_writes := ws\<rparr>) batch of
                   (s2, b2) \<Rightarrow> (s2, if 0 < u1 + u2 then b2 @ [ev_reset h sid (unat code)] else b2)))))"

definition close_connection ::
  "('h, 'q) server_lib \<Rightarrow> instant \<Rightarrow> conn_handle \<Rightarrow> 32 word \<Rightarrow> string \<Rightarrow> ('h, 'q) h3_server \<Rightarrow> ('h, 'q) h3_server" where
  "close_connection L now h code reason s =
     (case cm_get (hs_map s) (unat h) of
        None \<Rightarrow> s
      | Some c \<Rightarrow>
          (case send_goaway (sl_h3 L) c of
             (Inr _, c') \<Rightarrow> (put_conn (unat h) c' s)\<lparr>hs_closes := hm_insert h (code, reason, now + 25) (hs_closes s)\<rparr>
           | (Inl _, c') \<Rightarrow>
               put_conn (unat h) (c'\<lparr>hc_quiche := q_close (sl_quiche L) (hc_quiche c') True (unat code) reason\<rparr>) s))"

text \<open>A call on one connection whose only answer is whether it succeeded.\<close>

definition on_conn ::
  "conn_handle \<Rightarrow> (('h, 'q) h3_connection \<Rightarrow> (native_error + unit) \<times> ('h, 'q) h3_connection) \<Rightarrow> ('h, 'q) h3_server
     \<Rightarrow> bool \<times> ('h, 'q) h3_server" where
  "on_conn h f s =
     (case cm_get (hs_map s) (unat h) of
        None \<Rightarrow> (False, s)
      | Some c \<Rightarrow> (case f c of (r, c') \<Rightarrow> (r = Inr (), put_conn (unat h) c' s)))"

text \<open>The result says whether the worker is to stop.\<close>

fun dispatch_command ::
  "('h, 'q) server_lib \<Rightarrow> instant \<Rightarrow> worker_command \<Rightarrow> ('h, 'q) h3_server \<Rightarrow> js_event list
     \<Rightarrow> bool \<times> worker_reply \<times> ('h, 'q) h3_server \<times> js_event list" where
  "dispatch_command L now Shutdown s batch = (True, NoReply, shutdown_all_connections (sl_quiche L) s, batch)"
| "dispatch_command L now (SendResponseHeaders h sid hdrs fin) s batch =
     (False, NoReply, do_send_response_headers L h sid hdrs fin s batch)"
| "dispatch_command L now (SendResponse h sid hdrs body fin) s batch =
     (False, NoReply, do_send_response L h sid hdrs body fin s batch)"
| "dispatch_command L now (StreamSend h sid ch fin) s batch = (False, NoReply, do_stream_send L h sid ch fin s batch)"
| "dispatch_command L now (StreamReadCredit h sid bytes) s batch = (False, NoReply, stream_read_credit h sid bytes s, batch)"
| "dispatch_command L now (StreamClose h sid code) s batch =
     (False, NoReply, do_stream_close (sl_quiche L) h sid code s batch)"
| "dispatch_command L now (SendTrailers h sid hdrs) s batch =
     (False, NoReply, snd (on_conn h (send_trailers (sl_h3 L) sid hdrs) s), batch)"
| "dispatch_command L now (CloseSession h code reason) s batch =
     (False, NoReply, close_connection L now h code reason s, batch)"
| "dispatch_command L now (SendDatagram h d) s batch =
     (case on_conn h (send_datagram_chunk (sl_quiche L) d) s of (ok, s1) \<Rightarrow>
        (False, BoolReply ok, release_outbound_admission (chunk_remaining_len d) s1 batch))"
| "dispatch_command L now (GetSessionMetrics h) s batch =
     (False, MetricsReply (map_option (snapshot_metrics L) (cm_get (hs_map s) (unat h))), s, batch)"
| "dispatch_command L now (GetRemoteSettings h) s batch =
     (False, SettingsReply (case cm_get (hs_map s) (unat h) of None \<Rightarrow> [] | Some c \<Rightarrow> remote_settings (sl_h3 L) c), s, batch)"
| "dispatch_command L now (GetQlogPath h) s batch =
     (False, PathReply (case cm_get (hs_map s) (unat h) of None \<Rightarrow> None | Some c \<Rightarrow> sl_qlog_path L c), s, batch)"
| "dispatch_command L now (PingSession h) s batch =
     (case on_conn h (h3_queue_ping (sl_quiche L) now) s of (ok, s1) \<Rightarrow> (False, BoolReply ok, s1, batch))"

subsection \<open>Direct calls\<close>

text \<open>The direct-call forms of the sends return the units that were released instead of releasing
  them. Errors are the texts the source returns.\<close>

definition hs_send_response_headers ::
  "('h, 'q) server_lib \<Rightarrow> conn_handle \<Rightarrow> stream_id \<Rightarrow> header_list \<Rightarrow> bool \<Rightarrow> ('h, 'q) h3_server \<Rightarrow> js_event list
     \<Rightarrow> (string + unit) \<times> ('h, 'q) h3_server \<times> js_event list" where
  "hs_send_response_headers L h sid hdrs fin s batch =
     (let eh = hs_offset s OR h; txt = native_error_text (q_error_text (sl_quiche L)) (h3_error_text (sl_h3 L)) in
      case cm_get (hs_map s) (unat h) of
        None \<Rightarrow> (Inl (''no such connection: '' @ show_nat (unat h)), s, batch)
      | Some c \<Rightarrow>
          (case send_response (sl_h3 L) sid hdrs fin c of
             (Inr _, c') \<Rightarrow> (Inr (), put_conn (unat h) c' s, batch)
           | (Inl e, c') \<Rightarrow>
               if is_h3_stream_blocked e
               then (Inl (''send_response_headers failed: StreamBlocked ('' @ txt e @ '')''),
                     (put_conn (unat h) c' s)\<lparr>hs_responses := insert_pending_response (h, sid) (headers_only hdrs fin) (hs_responses s)\<rparr>,
                     batch @ [ev_stream_blocked eh sid])
               else (case emit_h3_send_error_and_reset (sl_h3 L) (sl_quiche L) c' batch eh sid ''send_response_headers'' e of
                       (c'', b') \<Rightarrow> (Inl (''send_response_headers failed: '' @ txt e), put_conn (unat h) c'' s, b'))))"

definition queue_stream_send ::
  "('h, 'q) server_lib \<Rightarrow> conn_handle \<Rightarrow> stream_id \<Rightarrow> chunk \<Rightarrow> bool \<Rightarrow> ('h, 'q) h3_server \<Rightarrow> js_event list
     \<Rightarrow> nat \<times> ('h, 'q) h3_server \<times> js_event list" where
  "queue_stream_send L h sid ch fin s batch =
     (let H = sl_h3 L; Q = sl_quiche L; eh = hs_offset s OR h in
      case hm_get (hs_responses s) (h, sid) of
        Some r \<Rightarrow> (0, s\<lparr>hs_responses := hm_insert (h, sid) (push_body_chunk r ch fin) (hs_responses s)\<rparr>, batch)
      | None \<Rightarrow>
          (case hm_get (hs_writes s) (h, sid) of
             Some pw \<Rightarrow> (0, s\<lparr>hs_writes := hm_insert (h, sid) (push_and_fin pw ch fin) (hs_writes s)\<rparr>, batch)
           | None \<Rightarrow>
               (case cm_get (hs_map s) (unat h) of
                  None \<Rightarrow> (0, s, batch)
                | Some c \<Rightarrow>
                    (case send_body_chunk H Q sid c ch fin of
                       (Inr out, c') \<Rightarrow>
                         let s1 = put_conn (unat h) c' s;
                             released = accepted_outbound_payload_units (chunk_remaining_len ch) fin
                               (so_written out) (so_fin_accepted out)
                         in (case so_remainder out of
                               None \<Rightarrow> (released, s1, batch)
                             | Some r \<Rightarrow>
                                 (released, s1\<lparr>hs_writes := insert_pending_write (h, sid) (pending_write_new r fin) (hs_writes s1)\<rparr>,
                                  batch @ [ev_stream_blocked eh sid]))
                     | (Inl e, c') \<Rightarrow>
                         (case emit_h3_send_error_and_reset H Q c' batch eh sid ''stream send'' e of
                            (c'', b') \<Rightarrow>
                              (outbound_payload_units (chunk_remaining_len ch) fin, put_conn (unat h) c'' s, b'))))))"

definition has_pending_stream_write :: "conn_handle \<Rightarrow> stream_id \<Rightarrow> ('h, 'q) h3_server \<Rightarrow> bool" where
  "has_pending_stream_write h sid s \<longleftrightarrow> hm_contains (hs_writes s) (h, sid) \<or> hm_contains (hs_responses s) (h, sid)"

definition hs_send_trailers ::
  "('h, 'q) server_lib \<Rightarrow> conn_handle \<Rightarrow> stream_id \<Rightarrow> header_list \<Rightarrow> ('h, 'q) h3_server \<Rightarrow> (string + unit) \<times> ('h, 'q) h3_server" where
  "hs_send_trailers L h sid hdrs s =
     (case cm_get (hs_map s) (unat h) of
        None \<Rightarrow> (Inl (''no such connection: '' @ show_nat (unat h)), s)
      | Some c \<Rightarrow>
          (case send_trailers (sl_h3 L) sid hdrs c of (r, c') \<Rightarrow>
             (map_sum (\<lambda>e. ''send_trailers failed: ''
                 @ native_error_text (q_error_text (sl_quiche L)) (h3_error_text (sl_h3 L)) e) id r,
              put_conn (unat h) c' s)))"

definition close_stream ::
  "'q quiche_api \<Rightarrow> conn_handle \<Rightarrow> stream_id \<Rightarrow> 32 word \<Rightarrow> ('h, 'q) h3_server \<Rightarrow> js_event list
     \<Rightarrow> nat \<times> ('h, 'q) h3_server \<times> js_event list" where
  "close_stream Q h sid code s batch =
     (case cm_get (hs_map s) (unat h) of
        None \<Rightarrow> (0, s, batch)
      | Some c \<Rightarrow>
          let s1 = put_conn (unat h) (h3_stream_close Q sid (unat code) c) s in
          (case remove_pending_response (h, sid) (hs_responses s1) of (u1, rs) \<Rightarrow>
             (case remove_pending_write (h, sid) (hs_writes s1) of (u2, ws) \<Rightarrow>
                (u1 + u2, s1\<lparr>hs_responses := rs, hs_writes := ws\<rparr>,
                 if 0 < u1 + u2 then batch @ [ev_reset (hs_offset s OR h) sid (unat code)] else batch))))"

definition hs_send_datagram :: "'q quiche_api \<Rightarrow> conn_handle \<Rightarrow> chunk \<Rightarrow> ('h, 'q) h3_server \<Rightarrow> bool \<times> ('h, 'q) h3_server" where
  "hs_send_datagram Q h d s = on_conn h (send_datagram_chunk Q d) s"

definition hs_ping :: "'q quiche_api \<Rightarrow> instant \<Rightarrow> conn_handle \<Rightarrow> ('h, 'q) h3_server \<Rightarrow> bool \<times> ('h, 'q) h3_server" where
  "hs_ping Q now h s = on_conn h (h3_queue_ping Q now) s"

end
