(* ===== verification/Worker_System.thy ===== *)
theory Worker_System
  imports Worker_Pending
begin

text \<open>
  What the four protocol workers have in common. A worker is reached through a command channel and
  shares an admission window with its writers: a writer admits the units of a command, queues it, and
  whatever the worker does not hold it releases. The locale states what a worker promises of one
  command and of its background work; the exactness of the window over every run follows once.
\<close>

subsection \<open>Connection maps whose connections satisfy a predicate\<close>

definition conns_all :: "('c \<Rightarrow> bool) \<Rightarrow> 'c connection_map \<Rightarrow> bool" where
  "conns_all P m \<longleftrightarrow> cm_inv m \<and> (\<forall>h c. cm_get m h = Some c \<longrightarrow> P c)"

lemma conns_all_get: "conns_all P m \<Longrightarrow> cm_get m h = Some c \<Longrightarrow> P c"
  by (simp add: conns_all_def)

lemma conns_all_put: "conns_all P m \<Longrightarrow> P c \<Longrightarrow> conns_all P (cm_put m h c)"
  by (auto simp: conns_all_def cm_inv_put cm_put_get split: if_splits)

lemma conns_all_add: "conns_all P m \<Longrightarrow> conns_all P (add_dcid m h d)"
  by (simp add: conns_all_def cm_inv_add_dcid) (simp add: add_dcid_def cm_get_def)

lemma conns_all_remove_dcid: "conns_all P m \<Longrightarrow> conns_all P (remove_dcid m d)"
  by (simp add: conns_all_def cm_inv_remove_dcid) (simp add: remove_dcid_def cm_get_def)

lemma conns_all_foldl: "(\<And>m x. conns_all P m \<Longrightarrow> conns_all P (f m x)) \<Longrightarrow> conns_all P m \<Longrightarrow> conns_all P (foldl f m xs)"
  by (induction xs arbitrary: m) auto

lemma conns_all_new: "conns_all P (with_key_bytes n enc key)"
  by (simp add: conns_all_def) (simp add: with_key_bytes_def cm_get_def)

lemma conns_all_generate: "conns_all P m \<Longrightarrow> generate_scid_direct hmac m = (r, m') \<Longrightarrow> conns_all P m'"
  using cm_inv_generate [of m hmac]
  by (auto simp: conns_all_def generate_scid_direct_def cm_get_def split: prod.splits)

lemma conns_all_accept:
  assumes "conns_all P m" "accept_new vacant accept m scid odcid peer local = (r, m')"
    and vac: "\<And>ks. vacant ks \<notin> set ks" and new: "\<And>c. accept scid odcid local peer = Inr c \<Longrightarrow> P c"
  shows "conns_all P m'"
proof -
  have "cm_inv m'" using cm_inv_accept [OF _ assms(2) vac] assms(1) by (simp add: conns_all_def)
  moreover have "P c" if "cm_get m' h = Some c" for h c
  proof (cases "max_connections m \<le> length (connections m) \<or> isl (accept scid odcid local peer)")
    case True
    with assms(2) have "m' = m" by (auto simp: accept_new_def split: if_splits sum.splits)
    with that assms(1) show ?thesis by (simp add: conns_all_def)
  next
    case False
    then obtain conn where c: "accept scid odcid local peer = Inr conn" by (cases "accept scid odcid local peer") auto
    obtain handle conns where ins: "slab_insert vacant conn (connections m) = (handle, conns)" by fastforce
    from False c ins assms(2) have "connections m' = conns" by (auto simp: accept_new_def)
    then show ?thesis
      using slab_insert_get [OF ins vac] that assms(1) new [OF c] by (auto simp: conns_all_def cm_get_def split: if_splits)
  qed
  ultimately show ?thesis by (simp add: conns_all_def)
qed

lemma conns_all_drain:
  assumes "conns_all P m" "drain_closed p m = (out, m')"
  shows "conns_all P m'"
proof -
  let ?closed = "map fst (filter (\<lambda>(_, conn). p conn) (connections m))"
  have inv: "cm_inv m" using assms(1) by (simp add: conns_all_def)
  have "m' = foldl (\<lambda>m h. snd (cm_remove m h)) m ?closed"
    using assms(2) remove_each_map [of m ?closed] by (simp add: drain_closed_def)
  with h3_map.remove_list_inv [OF inv, of ?closed] h3_map.remove_list_get [OF inv, of ?closed] assms(1)
  show ?thesis by (simp add: conns_all_def split: if_splits)
qed

subsection \<open>Units of the pending tables\<close>

text \<open>The units of an entry that an insertion replaces; they are nowhere released.\<close>

definition units_at :: "('v \<Rightarrow> nat) \<Rightarrow> ('k, 'v) hashmap \<Rightarrow> 'k \<Rightarrow> nat" where
  "units_at f m k = (case hm_get m k of None \<Rightarrow> 0 | Some v \<Rightarrow> f v)"

lemma units_insert: "hm_wf m \<Longrightarrow> hm_sum f (hm_insert k v m) + units_at f m k = f v + hm_sum f m"
  using hm_sum_insert [of m f k v] by (simp add: units_at_def split: option.splits)

lemma units_remove: "hm_wf m \<Longrightarrow> hm_sum f (hm_remove k m) + units_at f m k = hm_sum f m"
  using hm_sum_remove [of m f k] by (simp add: units_at_def split: option.splits)

lemma remove_write_units:
  "remove_pending_write k ws = (units_at queued_units ws k, hm_remove k ws)"
  using delete_id [of k ws]
  by (simp add: remove_pending_write_def units_at_def map_of_eq_None_iff [symmetric] split: option.splits)

lemma push_and_fin_units:
  "queued_units (push_and_fin pw ch fin) = outbound_payload_units (queued_bytes pw + chunk_remaining_len ch) (pw_fin pw \<or> fin)"
  by (simp add: queued_units_alt push_and_fin_def Let_def set_fin_def queued_bytes_def push_chunk_def arc_from_chunk_len)

lemma push_and_fin_le: "queued_units (push_and_fin pw ch fin) \<le> queued_units pw + outbound_payload_units (chunk_remaining_len ch) fin"
  unfolding push_and_fin_units by (auto simp: queued_units_alt outbound_payload_units_def)

lemma push_and_fin_inv: "pw_inv pw \<Longrightarrow> chunk_inv ch \<Longrightarrow> pw_inv (push_and_fin pw ch fin)"
  by (simp add: push_and_fin_def Let_def pw_inv_push)

definition writes_typed :: "('k, pending_write) hashmap \<Rightarrow> bool" where
  "writes_typed ws \<longleftrightarrow> hm_wf ws \<and> (\<forall>(k, pw) \<in> set ws. pw_inv pw)"

lemma writes_typed_wf: "writes_typed ws \<Longrightarrow> hm_wf ws"
  by (simp add: writes_typed_def)

lemma writes_typed_get: "writes_typed ws \<Longrightarrow> hm_get ws k = Some pw \<Longrightarrow> pw_inv pw"
  by (auto simp: writes_typed_def dest: map_of_SomeD)

lemma writes_typed_alt: "writes_typed ws \<longleftrightarrow> hm_wf ws \<and> (\<forall>k pw. hm_get ws k = Some pw \<longrightarrow> pw_inv pw)"
  by (auto simp: writes_typed_def hm_wf_def dest: map_of_SomeD)

lemma writes_typed_insert: "writes_typed ws \<Longrightarrow> pw_inv pw \<Longrightarrow> writes_typed (hm_insert k pw ws)"
  by (auto simp: writes_typed_alt hm_simps split: if_splits)

lemma writes_typed_remove: "writes_typed ws \<Longrightarrow> writes_typed (hm_remove k ws)"
  by (auto simp: writes_typed_alt hm_simps split: if_splits)

lemma writes_typed_filter: "writes_typed ws \<Longrightarrow> writes_typed (filter P ws)"
  by (auto simp: writes_typed_def hm_wf_def distinct_map_filter)

subsection \<open>A worker and its channel\<close>

text \<open>
  The interface of a worker: how it handles a command and its background work as relations on its
  state, the units of a command, the units a command loses, and where the window is. The units lost so
  far are a ghost of the system, which no code reads. A writer admits a command before it queues it; a
  refused one leaves only the window's pressure mark.
\<close>

record ('s, 'c) worker_iface =
  wi_dispatch :: "'c \<Rightarrow> 's \<Rightarrow> 's \<Rightarrow> bool"
  wi_background :: "'s \<Rightarrow> 's \<Rightarrow> bool"
  wi_units :: "'c \<Rightarrow> nat"
  wi_ok :: "'c \<Rightarrow> bool"
  wi_lost :: "'c \<Rightarrow> 's \<Rightarrow> nat"
  wi_window :: "'s \<Rightarrow> outbound_admission"
  wi_set_window :: "outbound_admission \<Rightarrow> 's \<Rightarrow> 's"

record ('s, 'c) worker_system =
  ws_server :: 's
  ws_channel :: "'c list"
  ws_lost :: nat

abbreviation with_server :: "('s, 'c) worker_system \<Rightarrow> 's \<Rightarrow> ('s, 'c) worker_system" where
  "with_server w s \<equiv> w\<lparr>ws_server := s\<rparr>"

inductive system_step :: "('s, 'c) worker_iface \<Rightarrow> ('s, 'c) worker_system \<Rightarrow> ('s, 'c) worker_system \<Rightarrow> bool" for W where
  submit: "try_admit (wi_window W (ws_server w)) (wi_units W cmd) = (True, adm) \<Longrightarrow> wi_ok W cmd \<Longrightarrow>
    system_step W w (w\<lparr>ws_server := wi_set_window W adm (ws_server w), ws_channel := ws_channel w @ [cmd]\<rparr>)"
| refused: "try_admit (wi_window W (ws_server w)) n = (False, adm) \<Longrightarrow>
    system_step W w (with_server w (wi_set_window W adm (ws_server w)))"
| command: "ws_channel w = cmd # rest \<Longrightarrow> wi_dispatch W cmd (ws_server w) s' \<Longrightarrow>
    system_step W w (w\<lparr>ws_server := s', ws_channel := rest, ws_lost := ws_lost w + wi_lost W cmd (ws_server w)\<rparr>)"
| background: "wi_background W (ws_server w) s' \<Longrightarrow> system_step W w (with_server w s')"

inductive system_reach :: "('s, 'c) worker_iface \<Rightarrow> ('s \<Rightarrow> bool) \<Rightarrow> ('s, 'c) worker_system \<Rightarrow> bool" for W init where
  start: "init s \<Longrightarrow> system_reach W init \<lparr>ws_server = s, ws_channel = [], ws_lost = 0\<rparr>"
| step: "system_reach W init w \<Longrightarrow> system_step W w w' \<Longrightarrow> system_reach W init w'"

definition channel_units :: "('c \<Rightarrow> nat) \<Rightarrow> 'c list \<Rightarrow> nat" where
  "channel_units u cmds = sum_list (map u cmds)"

lemma channel_units_simps [simp]:
  "channel_units u [] = 0" "channel_units u (c # cs) = u c + channel_units u cs"
  "channel_units u (cs @ ds) = channel_units u cs + channel_units u ds"
  by (simp_all add: channel_units_def)

text \<open>An operation that is handed \<open>u\<close> units: what it does not release it holds, except for \<open>leak\<close> of
  them. The premise says that the window counts what the worker has.\<close>

definition balanced :: "nat \<Rightarrow> nat \<Rightarrow> nat \<Rightarrow> nat \<Rightarrow> nat \<Rightarrow> nat \<Rightarrow> bool" where
  "balanced u leak window held window' held' \<longleftrightarrow> (held + u \<le> window \<longrightarrow> window' + held + u = window + held' + leak)"

lemma balanced_then: "balanced u l a b a1 b1 \<Longrightarrow> balanced v k a1 b1 a2 b2 \<Longrightarrow> balanced (u + v) (l + k) a b a2 b2"
  unfolding balanced_def by linarith

lemma try_admit_queued:
  "try_admit a n = (True, adm) \<Longrightarrow> queued adm = queued a + n" "try_admit a n = (False, adm) \<Longrightarrow> queued adm = queued a"
  by (auto simp: try_admit_def admit_next_def Let_def split: if_splits admit_outcome.splits option.splits)

lemma release_leaves: "Admission.release a n = (r, adm) \<Longrightarrow> queued adm = queued a - n"
  by (auto simp: Admission.release_def Let_def release_next_def saturating_sub_def split: if_splits)

locale command_worker =
  fixes W :: "('s, 'c) worker_iface" and init typed :: "'s \<Rightarrow> bool" and held :: "'s \<Rightarrow> nat"
  assumes dispatch_settles: "wi_ok W cmd \<Longrightarrow> typed s \<Longrightarrow> wi_dispatch W cmd s s' \<Longrightarrow>
      typed s' \<and> balanced (wi_units W cmd) (wi_lost W cmd s) (queued (wi_window W s)) (held s) (queued (wi_window W s')) (held s')"
    and background_settles: "typed s \<Longrightarrow> wi_background W s s' \<Longrightarrow>
      typed s' \<and> balanced 0 0 (queued (wi_window W s)) (held s) (queued (wi_window W s')) (held s')"
    and window_frame: "typed (wi_set_window W a s) = typed s" "held (wi_set_window W a s) = held s"
      "wi_window W (wi_set_window W a s) = a"
    and fresh: "init s \<Longrightarrow> typed s \<and> queued (wi_window W s) = 0 \<and> held s = 0"
begin

definition system_inv :: "('s, 'c) worker_system \<Rightarrow> bool" where
  "system_inv w \<longleftrightarrow> typed (ws_server w) \<and> (\<forall>cmd \<in> set (ws_channel w). wi_ok W cmd)
     \<and> queued (wi_window W (ws_server w)) = held (ws_server w) + channel_units (wi_units W) (ws_channel w) + ws_lost w"

lemma step_inv: "system_step W w w' \<Longrightarrow> system_inv w \<Longrightarrow> system_inv w'"
proof (induction rule: system_step.induct)
  case (submit w cmd adm)
  then show ?case using try_admit_queued(1) [OF submit.hyps(1)] window_frame by (auto simp: system_inv_def)
next
  case (refused w n adm)
  then show ?case using try_admit_queued(2) [OF refused.hyps] window_frame by (auto simp: system_inv_def)
next
  case (command w cmd rest s')
  then have "wi_ok W cmd" "typed (ws_server w)" by (simp_all add: system_inv_def)
  from dispatch_settles [OF this command.hyps(2)] command show ?case by (auto simp: system_inv_def balanced_def)
next
  case (background w s')
  then have "typed (ws_server w)" by (simp add: system_inv_def)
  from background_settles [OF this background.hyps] background.prems show ?case by (auto simp: system_inv_def balanced_def)
qed

lemma reach_inv: "system_reach W init w \<Longrightarrow> system_inv w"
proof (induction rule: system_reach.induct)
  case (start s)
  from fresh [OF this] show ?case by (simp add: system_inv_def)
qed (use step_inv in blast)

lemma reach_typed: "system_reach W init w \<Longrightarrow> typed (ws_server w)"
  using reach_inv [of w] by (simp add: system_inv_def)

lemma reach_exact:
  "system_reach W init w \<Longrightarrow>
     queued (wi_window W (ws_server w)) = channel_units (wi_units W) (ws_channel w) + held (ws_server w) + ws_lost w"
  using reach_inv [of w] by (simp add: system_inv_def)

end

end
