(* ===== verification/H3_Server_Types.thy ===== *)
theory H3_Server_Types
  imports H3_Server Worker_System
begin

text \<open>
  The well-formedness of an HTTP/3 server worker and that every operation keeps it: the connection
  map, the timers, the pending writes and responses, and every connection the map holds.
\<close>

subsection \<open>The read window of a connection\<close>

text \<open>Only a packet sets the window of a connection; polling and sending leave it alone.\<close>

named_theorems window_simps

abbreviation win :: "('h, 'q) h3_connection \<Rightarrow> nat option" where
  "win c \<equiv> hc_stream_read_window c"

abbreviation st_win :: "('h, 'q) poll_state \<Rightarrow> nat option" where
  "st_win st \<equiv> win (fst (snd st))"

lemma win_basic [window_simps]:
  "win (spend_credit sid n c) = win c" "win (store_pending sid pb c) = win c"
  "win (clear_stream_tracking sid c) = win c" "win (clear_stream_tracking_if_closed Q sid c) = win c"
  "win (add_read_credit sid n c) = win c" "win (hc_block sid c) = win c" "win (h3_stream_close Q sid code c) = win c"
  by (auto simp: spend_credit_def store_pending_def clear_stream_tracking_def clear_stream_tracking_if_closed_def
      add_read_credit_def hc_block_def h3_stream_close_def Let_def split: option.splits)

lemma win_push [window_simps]: "st_win (push_pending h sid st) = st_win st" "st_win (push_event e st) = st_win st"
  by (cases st; auto simp: push_pending_def push_pending_body_event_def take_pending_body_event_def Let_def
      split: option.splits prod.splits)+

lemma win_on [window_simps]:
  "st_win (on_headers H h sid hs m st) = st_win st" "st_win (on_finished h sid st) = st_win st"
  "st_win (on_reset h sid code st) = st_win st"
proof -
  obtain h3 c n ev where p: "push_pending h sid st = (h3, c, n, ev)" by (metis prod_cases4)
  then have "win c = st_win st" using win_push(1) [of h sid st] by simp
  with p show "st_win (on_headers H h sid hs m st) = st_win st"
    by (auto simp: on_headers_def Let_def split: option.splits)
  show "st_win (on_finished h sid st) = st_win st"
    by (cases st) (simp add: on_finished_def window_simps)
qed (simp add: on_reset_def window_simps)

lemma win_fill: "fill_body H sid h3 pb c = (r, h3', pb', c') \<Longrightarrow> win c' = win c"
proof (induction H sid h3 pb c arbitrary: r h3' pb' c' rule: fill_body.induct)
  case (1 H sid h3 pb c)
  note eq = "1.prems" [unfolded fill_body.simps [of H sid h3 pb c]]
  obtain x h1 q1 where x: "h3_recv_body H h3 (hc_quiche c) sid (pb_remaining pb) = (x, h1, q1)"
    by (cases "h3_recv_body H h3 (hc_quiche c) sid (pb_remaining pb)")
  show ?case
  proof (cases "pb_is_full pb")
    case True
    with eq show ?thesis by simp
  next
    case False
    show ?thesis
    proof (cases x)
      case (Inl e)
      with eq False x show ?thesis by auto
    next
      case (Inr d)
      let ?c = "spend_credit sid (length d) (c\<lparr>hc_quiche := q1\<rparr>)"
      have w: "win ?c = win c" by (simp add: window_simps)
      show ?thesis
      proof (cases "d = []")
        case True
        with eq False x Inr w show ?thesis by (auto simp: Let_def)
      next
        case nonempty: False
        with eq False x Inr have "fill_body H sid h1 (pb\<lparr>pb_bytes := pb_bytes pb @ d\<rparr>) ?c = (r, h3', pb', c')"
          by (simp add: Let_def)
        from "1.IH" [OF False x [symmetric] Inr refl refl refl nonempty this] w show ?thesis by simp
      qed
    qed
  qed
qed

lemma win_data: "h3_data_loop H h sid fuel st = Some st' \<Longrightarrow> st_win st' = st_win st"
proof (induction fuel arbitrary: st)
  case (Suc fuel)
  obtain h3 c n ev where st: "st = (h3, c, n, ev)" by (metis prod_cases4)
  show ?case
  proof (cases "n = 0 \<or> credit_of c sid = 0")
    case True
    with Suc.prems st show ?thesis by auto
  next
    case False
    obtain r h1 pb c1 where f: "fill_body H sid h3 (pending_or_new sid (credit_of c sid) c) c = (r, h1, pb, c1)"
      by (metis prod_cases4)
    define st2 where "st2 = (if pb_is_full pb \<or> r = FillDrained then push_pending h sid (h1, store_pending sid pb c1, n, ev)
      else (h1, store_pending sid pb c1, n, ev))"
    have w: "st_win st2 = win c" using win_fill [OF f] by (simp add: st2_def window_simps)
    obtain h4 c4 n4 ev4 where p: "push_pending h sid st2 = (h4, c4, n4, ev4)" by (metis prod_cases4)
    have w4: "win c4 = win c" using win_push(1) [of h sid st2] p w by simp
    have eq: "h3_data_loop H h sid (Suc fuel) st = (case r of
        FillError msg \<Rightarrow> Some (if 0 < n4 then push_event (ev_error h (as_i64 sid) 0 msg) (h4, c4, n4, ev4) else (h4, c4, n4, ev4))
      | FillDrained \<Rightarrow> Some st2
      | FillStopped \<Rightarrow> if pb_is_full pb then h3_data_loop H h sid fuel st2 else Some st2)"
      by (simp only: st h3_data_loop.simps f prod.case Let_def st2_def [symmetric] p False if_False)
    show ?thesis
    proof (cases r)
      case FillStopped
      with Suc.prems eq Suc.IH [of st2] w st show ?thesis by (auto split: if_splits)
    qed (use Suc.prems eq w w4 st in \<open>auto split: if_splits\<close>)
  qed
qed simp

lemma win_poll_loop: "h3_poll_loop H h dfuel fuel st rs cs = Some (st', rs', cs') \<Longrightarrow> st_win st' = st_win st"
proof (induction fuel arbitrary: st rs cs)
  case (Suc fuel)
  obtain h3 c n ev where st: "st = (h3, c, n, ev)" by (metis prod_cases4)
  show ?case
  proof (cases "n = 0")
    case False
    obtain x h1 c1 where x: "next_h3_event H h3 c = (x, h1, c1)" by (cases "next_h3_event H h3 c")
    then have w: "win c1 = win c" by (auto simp: next_h3_event_def split: option.splits prod.splits)
    show ?thesis
    proof (cases x)
      case (Inl e)
      with Suc.prems st False x w show ?thesis by (auto split: if_splits)
    next
      case (Inr y)
      obtain sid e where y: "y = (sid, e)" by (cases y)
      show ?thesis
      proof (cases e)
        case H3Data
        with Suc.prems st False x Inr y obtain st1 where d: "h3_data_loop H h sid dfuel (h1, c1, n, ev) = Some st1"
          and r: "h3_poll_loop H h dfuel fuel st1 rs cs = Some (st', rs', cs')" by (auto split: option.splits)
        from win_data [OF d] Suc.IH [OF r] w st show ?thesis by simp
      qed (use Suc.prems st False x Inr y w in \<open>auto simp: window_simps dest!: Suc.IH\<close>)
    qed
  qed (use Suc.prems st in auto)
qed simp

lemma win_foldl: "(\<And>c x. win (f c x) = win c) \<Longrightarrow> win (foldl f c xs) = win c"
  by (induction xs arbitrary: c) auto

lemma win_writable: "writable_loop Q h fuel c ev = Some (c', ev') \<Longrightarrow> win c' = win c"
proof (induction fuel arbitrary: c ev)
  case (Suc fuel)
  then show ?case
    by (auto simp: Let_def window_simps split: option.splits prod.splits sum.splits quiche_error.splits if_splits dest!: Suc.IH)
qed simp

lemma win_drain: "h3_poll_drain_events Q h fuel c ev = Some (c', ev') \<Longrightarrow> win c' = win c"
  by (auto simp: h3_poll_drain_events_def prune_closed_blocked_streams_def win_foldl window_simps
      split: option.splits prod.splits dest!: win_writable)

lemma win_poll:
  assumes "poll_h3_events H Q h fuel budget c ev = Some (c', ev')"
  shows "win c' = win c"
proof -
  obtain c1 n ev1 rs cs where
    p: "(case hc_h3 c of
              None \<Rightarrow> Some (c, budget, ev, [], [])
            | Some h3 \<Rightarrow>
                if budget = 0 then Some (c, budget, ev, [], [])
                else map_option (\<lambda>((h3', c', n, ev'), rs, cs). (c'\<lparr>hc_h3 := Some h3'\<rparr>, n, ev', rs, cs))
                       (h3_poll_loop H h (budget + 2) fuel (h3, c, budget, ev) [] [])) = Some (c1, n, ev1, rs, cs)"
    and rest: "(let c2 = foldl (\<lambda>c sid. clear_stream_tracking sid c) c1 rs;
              c3 = foldl (\<lambda>c sid. clear_stream_tracking_if_closed Q sid c) c2 cs
          in (case poll_datagram_events Q h n (hc_quiche c3) ev1 of
                (q4, ev4) \<Rightarrow> h3_poll_drain_events Q h fuel (c3\<lparr>hc_quiche := q4\<rparr>) ev4)) = Some (c', ev')"
    using assms by (auto simp: poll_h3_events_def split: option.splits)
  have "win c1 = win c" using p by (auto split: option.splits if_splits dest!: win_poll_loop)
  moreover have "win c' = win c1" using rest
    by (auto simp: Let_def win_foldl window_simps split: prod.splits dest!: win_drain)
  ultimately show ?thesis by simp
qed

subsection \<open>Connections\<close>

definition conn_typed :: "nat option \<Rightarrow> ('h, 'q) h3_connection \<Rightarrow> bool" where
  "conn_typed w c \<longleftrightarrow> h3_ok c \<and> (win c = None \<or> win c = w)"

lemma conn_typed_step:
  assumes "h3_recv_laws H got" "h3_step H Q c c'" "win c' = win c" "conn_typed w c"
  shows "conn_typed w c'"
  using h3_ok_step [OF assms(1,2)] assms(3,4) by (simp add: conn_typed_def)

lemma conn_typed_fields [simp]:
  "conn_typed w (c\<lparr>hc_quiche := q\<rparr>) = conn_typed w c"
  "conn_typed w (c\<lparr>hc_conn_id := i\<rparr>) = conn_typed w c"
  "conn_typed w (c\<lparr>hc_handshake_complete_emitted := b\<rparr>) = conn_typed w c"
  by (simp_all add: conn_typed_def h3_ok_def h3_inv_def credit_ok_def)

lemma conn_typed_new: "conn_typed w (h3_connection_new q cid now a b)"
  by (simp add: conn_typed_def h3_ok_def h3_inv_def credit_ok_def h3_connection_new_def)

lemma conn_typed_window:
  assumes "conn_typed w c"
  shows "conn_typed w (c\<lparr>hc_stream_read_window := w\<rparr>)"
proof (cases w)
  case None
  with assms have "win c = None" by (auto simp: conn_typed_def)
  with None assms have "c\<lparr>hc_stream_read_window := w\<rparr> = c" by simp
  with assms show ?thesis by simp
next
  case (Some n)
  with assms h3_ok_window [of c n] show ?thesis by (auto simp: conn_typed_def)
qed

lemma win_send [window_simps]:
  "win (snd (h3_recv Q c buf)) = win c" "win (snd (h3_send Q c n)) = win c" "win (snd (init_h3 H now c)) = win c"
  "win (snd (send_response H sid hs fin c)) = win c" "win (snd (send_trailers H sid hs c)) = win c"
  "win (snd (send_goaway H c)) = win c" "win (snd (send_datagram_chunk Q ch c)) = win c"
  "win (snd (h3_queue_ping Q now c)) = win c" "win (snd (h3_poll_ping_acks Q now c)) = win c"
  by (auto simp: h3_recv_def h3_send_def init_h3_def send_response_def send_trailers_def send_goaway_def
      send_datagram_chunk_def h3_send_datagram_def h3_queue_ping_def h3_poll_ping_acks_def Let_def
      split: option.splits prod.splits sum.splits)

lemma win_send_body [window_simps]: "win (snd (send_body_arcbuf H Q sid c buf fin)) = win c"
  by (auto simp: send_body_arcbuf_def send_body_fin_def send_body_data_def Let_def window_simps
      split: option.splits prod.splits sum.splits h3_error.splits)

text \<open>The operations of a connection that the worker uses, on its own.\<close>

lemma conn_typed_ops:
  assumes L: "h3_recv_laws H got" and t: "conn_typed w c"
  shows "h3_recv Q c buf = (r1, c1) \<Longrightarrow> conn_typed w c1"
    and "h3_send Q c n = (r2, c2) \<Longrightarrow> conn_typed w c2"
    and "init_h3 H now c = (r3, c3) \<Longrightarrow> conn_typed w c3"
    and "send_response H sid hs fin c = (r3, c4) \<Longrightarrow> conn_typed w c4"
    and "send_trailers H sid hs c = (r3, c5) \<Longrightarrow> conn_typed w c5"
    and "send_goaway H c = (r3, c6) \<Longrightarrow> conn_typed w c6"
    and "send_datagram_chunk Q ch c = (r3, c7) \<Longrightarrow> conn_typed w c7"
    and "h3_queue_ping Q now c = (r3, c8) \<Longrightarrow> conn_typed w c8"
    and "h3_poll_ping_acks Q now c = (ds, c9) \<Longrightarrow> conn_typed w c9"
    and "send_body_arcbuf H Q sid c ab fin = (r4, c10) \<Longrightarrow> conn_typed w c10"
    and "conn_typed w (add_read_credit sid n c)"
    and "conn_typed w (h3_stream_close Q sid code c)"
    and "poll_h3_events H Q h fuel budget c ev = Some (c11, ev') \<Longrightarrow> conn_typed w c11"
    and "h3_poll_drain_events Q h fuel c ev = Some (c12, ev') \<Longrightarrow> conn_typed w c12"
  using conn_typed_step [OF L h3_step.recv [where buf = buf] _ t] conn_typed_step [OF L h3_step.send [where n = n] _ t]
    conn_typed_step [OF L h3_step.init [where now = now] _ t]
    conn_typed_step [OF L h3_step.response [where sid = sid and hs = hs and fin = fin] _ t]
    conn_typed_step [OF L h3_step.trailers [where sid = sid and hs = hs] _ t] conn_typed_step [OF L h3_step.goaway _ t]
    conn_typed_step [OF L h3_step.datagram [where ch = ch] _ t] conn_typed_step [OF L h3_step.ping [where now = now] _ t]
    conn_typed_step [OF L h3_step.ping_acks [where now = now] _ t]
    conn_typed_step [OF L h3_step.body [where sid = sid and buf = ab and fin = fin] _ t]
    conn_typed_step [OF L h3_step.credit [where sid = sid and n = n] _ t]
    conn_typed_step [OF L h3_step.close [where sid = sid and code = code] _ t]
    conn_typed_step [OF L h3_step.poll win_poll t] conn_typed_step [OF L h3_step.drain win_drain t]
  by (auto simp: window_simps dest!: arg_cong [where f = snd])

subsection \<open>The connection map\<close>

definition map_typed :: "nat option \<Rightarrow> ('h, 'q) h3_connection connection_map \<Rightarrow> bool" where
  "map_typed w m \<longleftrightarrow> conns_all (conn_typed w) m"

lemmas map_typed_get = conns_all_get [of "conn_typed w", folded map_typed_def] for w
lemmas map_typed_put = conns_all_put [of "conn_typed w", folded map_typed_def] for w
lemmas map_typed_add = conns_all_add [of "conn_typed w", folded map_typed_def] for w
lemmas map_typed_remove_dcid = conns_all_remove_dcid [of "conn_typed w", folded map_typed_def] for w
lemmas map_typed_foldl = conns_all_foldl [of "conn_typed w", folded map_typed_def] for w
lemmas map_typed_new = conns_all_new [of "conn_typed w", folded map_typed_def] for w
lemmas map_typed_generate = conns_all_generate [of "conn_typed w", folded map_typed_def] for w
lemmas map_typed_drain = conns_all_drain [of "conn_typed w", folded map_typed_def] for w

lemma map_typed_accept:
  assumes "map_typed w m" "accept_new vacant (h3_accept L now s) m scid odcid peer local = (r, m')"
    and vac: "\<And>ks. vacant ks \<notin> set ks"
  shows "map_typed w m'"
  unfolding map_typed_def
  by (rule conns_all_accept [OF assms(1) [unfolded map_typed_def] assms(2) vac])
    (auto simp: h3_accept_def conn_typed_new split: sum.splits)

subsection \<open>The server\<close>

definition pending_typed :: "(pending_key, pending_write) hashmap \<Rightarrow> (pending_key, pending_response) hashmap \<Rightarrow> bool" where
  "pending_typed ws rs \<longleftrightarrow> hm_wf ws \<and> (\<forall>k pw. hm_get ws k = Some pw \<longrightarrow> pw_inv pw)
     \<and> hm_wf rs \<and> (\<forall>k r pw. hm_get rs k = Some r \<and> pr_body r = Some pw \<longrightarrow> pw_inv pw)"

definition server_typed :: "('h, 'q) h3_server \<Rightarrow> bool" where
  "server_typed s \<longleftrightarrow> map_typed (hs_stream_read_window s) (hs_map s) \<and> timer_inv (hs_timers s)
     \<and> pending_typed (hs_writes s) (hs_responses s) \<and> hm_wf (hs_closes s)"

text \<open>The units the worker holds, and what an operation that is handed \<open>u\<close> more of them does with them:
  what it does not release it holds, except for \<open>leak\<close> of them.\<close>

definition held :: "('h, 'q) h3_server \<Rightarrow> nat" where
  "held s = hm_sum queued_units (hs_writes s) + hm_sum pr_queued_units (hs_responses s)"

definition balance :: "nat \<Rightarrow> nat \<Rightarrow> ('h, 'q) h3_server \<Rightarrow> ('h, 'q) h3_server \<Rightarrow> bool" where
  "balance u leak s s' \<longleftrightarrow> (held s + u \<le> queued (hs_admission s) \<longrightarrow>
     queued (hs_admission s') + held s + u = queued (hs_admission s) + held s' + leak)"

definition lib_laws ::
  "('h, 'q) server_lib \<Rightarrow> ('h \<Rightarrow> stream_id \<Rightarrow> byte list) \<Rightarrow> ('h \<times> 'q \<Rightarrow> stream_id \<Rightarrow> byte list)
     \<Rightarrow> ('h \<times> 'q \<Rightarrow> stream_id \<Rightarrow> bool) \<Rightarrow> bool" where
  "lib_laws L got sent finned \<longleftrightarrow> h3_recv_laws (sl_h3 L) got \<and> h3_send_laws (sl_h3 L) (sl_quiche L) sent finned
     \<and> (\<forall>ks. sl_vacant L ks \<notin> set ks)"

lemma lib_lawsD:
  assumes "lib_laws L got sent finned"
  shows "h3_recv_laws (sl_h3 L) got" "h3_send_laws (sl_h3 L) (sl_quiche L) sent finned" "sl_vacant L ks \<notin> set ks"
  using assms by (simp_all add: lib_laws_def)

text \<open>Operations that only work on connections, ids and timers.\<close>

definition quiet :: "('h, 'q) h3_server \<Rightarrow> ('h, 'q) h3_server \<Rightarrow> bool" where
  "quiet s s' \<longleftrightarrow> (server_typed s \<longrightarrow> server_typed s') \<and> hs_writes s' = hs_writes s \<and> hs_responses s' = hs_responses s
     \<and> hs_admission s' = hs_admission s \<and> hs_stream_read_window s' = hs_stream_read_window s \<and> hs_offset s' = hs_offset s"

lemma quiet_refl [simp]: "quiet s s"
  by (simp add: quiet_def)

lemma quiet_trans [trans]: "quiet s s1 \<Longrightarrow> quiet s1 s2 \<Longrightarrow> quiet s s2"
  by (simp add: quiet_def)

lemma quiet_balance: "quiet s s' \<Longrightarrow> balance 0 0 s s'"
  by (simp add: quiet_def balance_def held_def)

lemma quiet_put:
  assumes "server_typed s \<Longrightarrow> conn_typed (hs_stream_read_window s) c"
  shows "quiet s (put_conn h c s)"
  using assms by (auto simp: quiet_def server_typed_def map_typed_put)

lemma quiet_map:
  assumes "map_typed (hs_stream_read_window s) (hs_map s) \<Longrightarrow> map_typed (hs_stream_read_window s) m"
  shows "quiet s (s\<lparr>hs_map := m\<rparr>)"
  using assms by (auto simp: quiet_def server_typed_def)

lemma quiet_timers: "(timer_inv (hs_timers s) \<Longrightarrow> timer_inv t) \<Longrightarrow> quiet s (s\<lparr>hs_timers := t\<rparr>)"
  by (auto simp: quiet_def server_typed_def)

lemma quiet_expired [simp]: "quiet s (s\<lparr>hs_last_expired := ex\<rparr>)"
  by (simp add: quiet_def server_typed_def)

lemma server_typed_get: "server_typed s \<Longrightarrow> cm_get (hs_map s) h = Some c \<Longrightarrow> conn_typed (hs_stream_read_window s) c"
  by (auto simp: server_typed_def dest: map_typed_get)

end
