(* ===== verification/H3_Server_Quiet.thy ===== *)
theory H3_Server_Quiet
  imports H3_Server_Types
begin

text \<open>
  The operations of an HTTP/3 server worker that leave the pending writes, the pending responses and
  the admission window alone: collecting events, timers, packets and sends. They keep the worker well
  formed.
\<close>

subsection \<open>Polling\<close>

lemma quiet_poll:
  assumes L: "lib_laws L got sent finned" and g: "cm_get (hs_map s) h = Some c0"
    and c: "server_typed s \<Longrightarrow> conn_typed (hs_stream_read_window s) c"
    and p: "poll_connection L now fuel budget s h c b = Some (c', b')"
  shows "quiet s (put_conn h c' s)"
proof (rule quiet_put)
  assume "server_typed s"
  obtain c1 b1 where p1: "poll_h3_events (sl_h3 L) (sl_quiche L) (event_handle s h) fuel budget c b = Some (c1, b1)"
    and c': "snd (h3_poll_ping_acks (sl_quiche L) now c1) = c'"
    using p by (auto simp: poll_connection_def Let_def split: option.splits prod.splits)
  from conn_typed_ops(13) [OF lib_lawsD(1) [OF L] c [OF \<open>server_typed s\<close>] p1]
  have "conn_typed (hs_stream_read_window s) c1" .
  from conn_typed_ops(9) [OF lib_lawsD(1) [OF L] this, of "sl_quiche L" now] c'
  show "conn_typed (hs_stream_read_window s) c'" by (metis prod.collapse)
qed

lemma quiet_collect:
  assumes L: "lib_laws L got sent finned"
  shows "collect_loop L now fuel budget remaining hs s b = Some (s', b') \<Longrightarrow> quiet s s'"
proof (induction hs arbitrary: remaining s b)
  case (Cons h hs)
  show ?case
  proof (cases "remaining = 0")
    case False
    show ?thesis
    proof (cases "cm_get (hs_map s) h")
      case None
      with Cons False show ?thesis by simp
    next
      case (Some c)
      obtain c1 b1 where p: "poll_connection L now fuel remaining s h c b = Some (c1, b1)"
        and r: "collect_loop L now fuel budget (saturating_sub budget (length b1)) hs (put_conn h c1 s) b1 = Some (s', b')"
        using Cons.prems False Some by (auto split: option.splits)
      have "quiet s (put_conn h c1 s)"
        by (rule quiet_poll [OF L Some _ p]) (rule server_typed_get [OF _ Some])
      then show ?thesis using Cons.IH [OF r] by (rule quiet_trans)
    qed
  qed (use Cons.prems in simp)
qed simp

lemma quiet_drain:
  assumes L: "lib_laws L got sent finned"
  shows "drain_loop L fuel hs s b = Some (s', b') \<Longrightarrow> quiet s s'"
proof (induction hs arbitrary: s b)
  case (Cons h hs)
  show ?case
  proof (cases "h \<in> set (hs_last_expired s)")
    case False
    show ?thesis
    proof (cases "cm_get (hs_map s) h")
      case None
      with Cons False show ?thesis by simp
    next
      case (Some c)
      show ?thesis
      proof (cases "blocked_set (hc_blocked c) = []")
        case False
        obtain c1 b1 where p: "h3_poll_drain_events (sl_quiche L) (event_handle s h) fuel c b = Some (c1, b1)"
          and r: "drain_loop L fuel hs (put_conn h c1 s)
            (suppress_pending_drains (event_handle s h) (has_pending s h) b1) = Some (s', b')"
          using Cons.prems \<open>h \<notin> _\<close> Some False by (auto split: option.splits)
        have "quiet s (put_conn h c1 s)"
          by (rule quiet_put, rule conn_typed_ops(14) [OF lib_lawsD(1) [OF L] server_typed_get [OF _ Some] p])
        then show ?thesis using Cons.IH [OF r] by (rule quiet_trans)
      qed (use Cons \<open>h \<notin> _\<close> Some in simp)
    qed
  qed (use Cons in simp)
qed simp

lemma quiet_app: "lib_laws L got sent finned \<Longrightarrow> collect_app_events L now fuel budget s b = Some (s', b') \<Longrightarrow> quiet s s'"
  by (auto simp: collect_app_events_def split: if_splits intro: quiet_collect)

lemma quiet_expire_loop:
  assumes L: "lib_laws L got sent finned"
  shows "expire_loop L now fuel budget hs s b = Some (s', b') \<Longrightarrow> quiet s s'"
proof (induction hs arbitrary: s b)
  case (Cons h hs)
  show ?case
  proof (cases "cm_get (hs_map s) h")
    case None
    with Cons show ?thesis by simp
  next
    case (Some c0)
    define c where "c = c0\<lparr>hc_quiche := q_on_timeout (sl_quiche L) (hc_quiche c0)\<rparr>"
    have t: "server_typed s \<Longrightarrow> conn_typed (hs_stream_read_window s) c"
      using server_typed_get [OF _ Some] by (simp add: c_def)
    show ?thesis
    proof (cases "q_is_closed (sl_quiche L) (hc_quiche c)")
      case True
      with Cons.prems Some have "expire_loop L now fuel budget hs (put_conn h c s)
          (b @ [h3_session_close_event (sl_quiche L) c (event_handle s h)]) = Some (s', b')"
        by (simp add: Let_def c_def)
      from quiet_put [OF t] Cons.IH [OF this] show ?thesis by (rule quiet_trans)
    next
      case False
      obtain c1 b1 where p: "poll_connection L now fuel budget s h c b = Some (c1, b1)"
        and r: "expire_loop L now fuel budget hs ((put_conn h c1 s)\<lparr>hs_timers := set_deadline (hs_timers s) h
             (map_option (\<lambda>t. now + t) (q_timeout (sl_quiche L) (hc_quiche c1)))\<rparr>) b1 = Some (s', b')"
        using Cons.prems Some False by (auto simp: Let_def c_def split: option.splits)
      have "quiet s (put_conn h c1 s)" by (rule quiet_poll [OF L Some t p])
      also have "quiet (put_conn h c1 s) ((put_conn h c1 s)\<lparr>hs_timers := set_deadline (hs_timers s) h
             (map_option (\<lambda>t. now + t) (q_timeout (sl_quiche L) (hc_quiche c1)))\<rparr>)"
        by (rule quiet_timers) (simp add: set_deadline_inv)
      finally show ?thesis using Cons.IH [OF r] by (rule quiet_trans)
    qed
  qed
qed simp

lemma quiet_close_due: "quiet s (close_due Q hs s)"
proof (induction hs arbitrary: s)
  case (Cons h hs)
  show ?case
  proof (cases "hm_get (hs_closes s) h")
    case None
    with Cons show ?thesis by simp
  next
    case (Some x)
    obtain code reason d where x: "x = (code, reason, d)" by (cases x)
    define s1 where "s1 = s\<lparr>hs_closes := hm_remove h (hs_closes s)\<rparr>"
    define s2 where "s2 = (case cm_get (hs_map s1) (unat h) of None \<Rightarrow> s1
      | Some c \<Rightarrow> put_conn (unat h) (c\<lparr>hc_quiche := q_close Q (hc_quiche c) True (unat code) reason\<rparr>) s1)"
    have "quiet s s1" by (simp add: s1_def quiet_def server_typed_def)
    also have "quiet s1 s2"
      using server_typed_get [of s1 "unat h"] by (auto simp: s2_def intro!: quiet_put split: option.splits)
    also have "quiet s2 (close_due Q hs s2)" by (rule Cons.IH)
    finally have "quiet s (close_due Q hs s2)" .
    moreover have "close_due Q (h # hs) s = close_due Q hs s2"
      unfolding s2_def s1_def using Some x by (simp add: Let_def)
    ultimately show ?thesis by simp
  qed
qed simp

lemma quiet_timers_step:
  assumes L: "lib_laws L got sent finned" and e: "expire_timers L now fuel budget s b = Some (s', b')"
  shows "quiet s s'"
proof -
  obtain expired t where p: "pop_expired (hs_timers s) now = (expired, t)" by fastforce
  let ?ex = "remdups (sort expired)"
  obtain s1 b1 where l: "expire_loop L now fuel budget ?ex (s\<lparr>hs_timers := t, hs_last_expired := ?ex\<rparr>) b = Some (s1, b1)"
    and s': "s' = close_due (sl_quiche L) (map fst (filter (\<lambda>(_, _, _, d). d \<le> now) (hs_closes s1))) s1"
    using e p by (auto simp: expire_timers_def Let_def split: option.splits)
  have "quiet s (s\<lparr>hs_timers := t\<rparr>)" by (rule quiet_timers) (rule pop_expired_spec(3) [OF _ p])
  also have "quiet (s\<lparr>hs_timers := t\<rparr>) (s\<lparr>hs_timers := t, hs_last_expired := ?ex\<rparr>)" by (rule quiet_expired)
  also have "quiet (s\<lparr>hs_timers := t, hs_last_expired := ?ex\<rparr>) s1" by (rule quiet_expire_loop [OF L l])
  also have "quiet s1 s'" unfolding s' by (rule quiet_close_due)
  finally show ?thesis .
qed

lemma map_typed_send_pass:
  fixes H :: "('h, 'q) h3_api" and m :: "('h, 'q) h3_connection connection_map"
  assumes L: "h3_recv_laws H got"
  shows "send_pass Q hs m out = (hs', m', out') \<Longrightarrow> map_typed w m \<Longrightarrow> map_typed w m'"
proof (induction hs arbitrary: m out hs' m' out')
  case (Cons x hs)
  obtain h d where x: "x = (h, d)" by (cases x)
  show ?case
  proof (cases "d \<or> cm_get m h = None")
    case True
    then obtain hs1 o1 where "send_pass Q hs m out = (hs1, m', o1)"
      using Cons.prems(1) x by (cases d) (auto split: prod.splits)
    with Cons show ?thesis by blast
  next
    case False
    then obtain c where c: "cm_get m h = Some c" by auto
    obtain r c1 where s: "h3_send Q c TX_BUFFER_LEN = (r, c1)" by fastforce
    have "map_typed w (cm_put m h c1)"
      by (rule map_typed_put [OF Cons.prems(2) conn_typed_ops(2) [OF L map_typed_get [OF Cons.prems(2) c] s]])
    moreover obtain hs1 out1 o2 where "send_pass Q hs (cm_put m h c1) out1 = (hs1, m', o2)"
      using Cons.prems(1) x False c s by (auto split: sum.splits prod.splits)
    ultimately show ?thesis using Cons.IH by blast
  qed
qed auto

lemma map_typed_send_rounds:
  fixes H :: "('h, 'q) h3_api" and m :: "('h, 'q) h3_connection connection_map"
  assumes L: "h3_recv_laws H got"
  shows "send_rounds Q fuel hs m out = Some (m', out') \<Longrightarrow> map_typed w m \<Longrightarrow> map_typed w m'"
proof (induction fuel arbitrary: hs m out)
  case 0
  then show ?case by (auto simp: send_rounds.simps [of Q 0] split: if_splits)
next
  case (Suc fuel)
  obtain hs1 m1 out1 where p: "send_pass Q hs m out = (hs1, m1, out1)" by (cases "send_pass Q hs m out")
  show ?case
  proof (cases "\<forall>(_, don) \<in> set hs. don")
    case False
    with Suc.prems(1) p have "send_rounds Q fuel hs1 m1 out1 = Some (m', out')"
      by (simp add: send_rounds.simps [of Q "Suc fuel"])
    from Suc.IH [OF this map_typed_send_pass [OF L p Suc.prems(2)]] show ?thesis .
  qed (use Suc.prems in \<open>simp add: send_rounds.simps [of Q "Suc fuel"]\<close>)
qed

lemma timer_foldl: "timer_inv t \<Longrightarrow> timer_inv (foldl (rearm Q now m) t hs)"
  by (induction hs arbitrary: t) (simp_all add: rearm_def set_deadline_inv)

lemma quiet_sends:
  fixes L :: "('h, 'q) server_lib" and s :: "('h, 'q) h3_server"
  assumes L: "lib_laws L got sent finned" and e: "flush_all_sends Q now fuel s out = Some (s', out')"
  shows "quiet s s'"
proof (cases "fill_handles (hs_map s) = []")
  case False
  then obtain m where r: "send_rounds Q fuel (map (\<lambda>h. (h, False)) (fill_handles (hs_map s))) (hs_map s) out = Some (m, out')"
    and s': "s' = s\<lparr>hs_map := m, hs_timers := foldl (rearm Q now m) (hs_timers s) (fill_handles (hs_map s))\<rparr>"
    using e by (auto simp: flush_all_sends_def Let_def split: option.splits)
  have "quiet s (s\<lparr>hs_map := m\<rparr>)" by (rule quiet_map) (rule map_typed_send_rounds [OF lib_lawsD(1) [OF L] r])
  also have "quiet (s\<lparr>hs_map := m\<rparr>) s'" unfolding s' by (rule quiet_timers) (simp add: timer_foldl)
  finally show ?thesis .
qed (use e in \<open>simp add: flush_all_sends_def\<close>)

lemma quiet_accept:
  assumes L: "lib_laws L got sent finned"
    and a: "accept_session L now scid odcid alias peer local s b = (h, s', b')"
  shows "quiet s s'"
proof -
  obtain r m where m: "accept_new (sl_vacant L) (h3_accept L now s) (hs_map s) scid odcid peer local = (r, m)" by fastforce
  have q: "quiet s (s\<lparr>hs_map := m\<rparr>)"
    by (rule quiet_map) (rule map_typed_accept [OF _ m lib_lawsD(3) [OF L]])
  show ?thesis
  proof (cases r)
    case (Inr x)
    with a m have s': "s' = s\<lparr>hs_map := add_dcid m x alias\<rparr>" by (simp add: accept_session_def)
    have "quiet (s\<lparr>hs_map := m\<rparr>) ((s\<lparr>hs_map := m\<rparr>)\<lparr>hs_map := add_dcid m x alias\<rparr>)"
      by (rule quiet_map) (simp add: map_typed_add)
    with q show ?thesis unfolding s' by (simp add: quiet_trans)
  qed (use a m q in \<open>simp add: accept_session_def\<close>)
qed

lemma quiet_route:
  assumes L: "lib_laws L got sent finned"
    and gen: "\<And>r m. gen (hs_map s) = (r, m) \<Longrightarrow> map_typed (hs_stream_read_window s) (hs_map s) \<Longrightarrow> map_typed (hs_stream_read_window s) m"
    and a: "route_or_accept L now secs gen hdr peer local s out b = (h, s', out', b')"
  shows "quiet s s'"
proof -
  obtain r m where m: "gen (hs_map s) = (r, m)" by fastforce
  have q: "quiet s (s\<lparr>hs_map := m\<rparr>)" by (rule quiet_map) (rule gen [OF m])
  consider (same) "s' = s" | (made) "s' = s\<lparr>hs_map := m\<rparr>"
    | (fresh) scid dcid b1 h1 where "accept_session L now scid None dcid peer local (s\<lparr>hs_map := m\<rparr>) b = (h1, s', b1)"
    | (token) scid od dcid b1 h1 where "accept_session L now scid od dcid peer local s b = (h1, s', b1)"
    using a m unfolding route_or_accept_def
    by (auto simp: Let_def split: option.splits if_splits sum.splits prod.splits)
  then show ?thesis
  proof cases
    case fresh
    from q quiet_accept [OF L this] show ?thesis by (rule quiet_trans)
  next
    case token
    from quiet_accept [OF L this] show ?thesis .
  qed (use q in simp_all)
qed

lemma handshake_typed:
  assumes L: "h3_recv_laws (sl_h3 L) got" and h: "handshake L now cert eh c b = (c', b')" and t: "conn_typed w c"
  shows "conn_typed w c'"
proof -
  obtain r c1 where i: "init_h3 (sl_h3 L) now c = (r, c1)" by fastforce
  from conn_typed_ops(3) [OF L t i] t h i show ?thesis
    by (auto simp: handshake_def Let_def split: if_splits)
qed

lemma quiet_receive:
  assumes L: "lib_laws L got sent finned" and r: "receive_packet L now fuel budget cert buf h s b = Some (ok, s', b')"
  shows "quiet s s'"
proof (cases "cm_get (hs_map s) h")
  case None
  with r show ?thesis by (simp add: receive_packet_def)
next
  case (Some c0)
  let ?w = "hs_stream_read_window s" and ?Q = "sl_quiche L"
  note R = lib_lawsD(1) [OF L]
  obtain x c1 where rc: "h3_recv ?Q (c0\<lparr>hc_stream_read_window := ?w\<rparr>) buf = (x, c1)" by fastforce
  have t1: "server_typed s \<Longrightarrow> conn_typed ?w c1"
    by (rule conn_typed_ops(1) [OF R conn_typed_window [OF server_typed_get [OF _ Some]] rc])
  show ?thesis
  proof (cases x)
    case (Inl e)
    with r Some rc have "s' = put_conn h c1 s" by (simp add: receive_packet_def Let_def)
    with quiet_put [OF t1] show ?thesis by simp
  next
    case (Inr n)
    obtain c2 b2 where h2: "handshake L now cert (event_handle s h) c1 b = (c2, b2)" by fastforce
    define scid where "scid = q_source_id ?Q (hc_quiche c2)"
    define c3 where "c3 = (if scid \<noteq> hc_conn_id c2 then c2\<lparr>hc_conn_id := scid\<rparr> else c2)"
    have t3: "server_typed s \<Longrightarrow> conn_typed ?w c3"
      using handshake_typed [OF R h2 t1] by (simp add: c3_def)
    obtain c4 b4 retired q5 where p: "poll_connection L now fuel budget s h c3 b2 = Some (c4, b4)"
      and rt: "retired_loop ?Q fuel (hc_quiche c4) = Some (retired, q5)"
      and s': "s' = s\<lparr>hs_map := foldl remove_dcid (if scid \<noteq> hc_conn_id c2
          then add_dcid (cm_put (hs_map s) h (c4\<lparr>hc_quiche := q5\<rparr>)) h scid else cm_put (hs_map s) h (c4\<lparr>hc_quiche := q5\<rparr>)) retired\<rparr>"
      using r Some rc Inr h2 unfolding receive_packet_def
      by (auto simp: Let_def scid_def c3_def split: option.splits if_splits)
    have t4: "server_typed s \<Longrightarrow> conn_typed ?w c4"
    proof -
      assume "server_typed s"
      obtain c5 b5 where p5: "poll_h3_events (sl_h3 L) ?Q (event_handle s h) fuel budget c3 b2 = Some (c5, b5)"
        and c4: "h3_poll_ping_acks ?Q now c5 = (fst (h3_poll_ping_acks ?Q now c5), c4)"
        using p by (auto simp: poll_connection_def Let_def split: option.splits prod.splits)
      show ?thesis by (rule conn_typed_ops(9) [OF R conn_typed_ops(13) [OF R t3 [OF \<open>server_typed s\<close>] p5] c4])
    qed
    show ?thesis
    proof (cases "server_typed s")
      case True
      then have "map_typed ?w (hs_map s')"
        unfolding s' using t4 map_typed_put [of ?w "hs_map s" "c4\<lparr>hc_quiche := q5\<rparr>" h]
        by (simp add: map_typed_foldl map_typed_remove_dcid map_typed_add server_typed_def)
      with True show ?thesis by (simp add: s' quiet_def server_typed_def)
    qed (simp add: s' quiet_def)
  qed
qed

lemma quiet_arm: "quiet s (arm_after_packet Q now h t s)"
  unfolding arm_after_packet_def by (rule quiet_timers) (simp add: set_deadline_inv)

lemma quiet_inbound:
  assumes L: "lib_laws L got sent finned"
    and r: "process_inbound_packet L now secs fuel budget buf peer local s out b = Some (s', out', b')"
  shows "quiet s s'"
proof (cases "sl_header L buf")
  case None
  with r show ?thesis by (simp add: process_inbound_packet_def)
next
  case (Some hdr)
  obtain ho s1 out1 b1 where a: "route_or_accept L now secs (generate_scid_direct (sl_hmac L)) hdr peer local s out b = (ho, s1, out1, b1)"
    by (metis prod_cases4)
  have q: "quiet s s1" by (rule quiet_route [OF L _ a]) (rule map_typed_generate)
  show ?thesis
  proof (cases ho)
    case None
    with r Some a q show ?thesis by (simp add: process_inbound_packet_def)
  next
    case h: (Some h)
    obtain ok s2 b2 where rp: "receive_packet L now fuel budget (hs_require_client_cert s1) buf h s1 b1 = Some (ok, s2, b2)"
      and s': "s' = (if ok then arm_after_packet (sl_quiche L) now h (conn_timeout (sl_quiche L) s2 h) s2 else s2)"
      using r Some a h by (auto simp: process_inbound_packet_def split: option.splits)
    from q quiet_receive [OF L rp] have "quiet s s2" by (rule quiet_trans)
    then show ?thesis unfolding s' by (simp add: quiet_trans [OF _ quiet_arm])
  qed
qed

lemma map_typed_top_up: "top_up_server_scids Q rng h m = Some m' \<Longrightarrow> map_typed w m \<Longrightarrow> map_typed w m'"
proof (induction rng arbitrary: m)
  case Nil
  then show ?case by (auto simp: top_up_server_scids.simps [of Q "[]"] split: option.splits if_splits)
next
  case (Cons x rng)
  obtain r t where x: "x = (r, t)" by (cases x)
  show ?case
  proof (cases "cm_get m h")
    case None
    with Cons.prems show ?thesis by (simp add: top_up_server_scids.simps [of Q "x # rng"])
  next
    case (Some c)
    show ?thesis
    proof (cases "(q_is_established Q (hc_quiche c) \<and> 0 < q_scids_left Q (hc_quiche c)) \<and> \<not> isl (cm_generate_scid m r) \<and> t \<noteq> None")
      case False
      with Some x Cons.prems have "m' = m"
        by (auto simp: top_up_server_scids.simps [of Q "(r, t) # rng"] split: if_splits sum.splits)
      with Cons.prems(2) show ?thesis by simp
    next
      case True
      then obtain scid token where g: "cm_generate_scid m r = Inr scid" "t = Some token" by (cases "cm_generate_scid m r") auto
      obtain added q where n: "q_new_scid Q (hc_quiche c) scid token = (added, q)" by fastforce
      define m1 where "m1 = cm_put m h (c\<lparr>hc_quiche := q\<rparr>)"
      have m1: "map_typed w m1"
        unfolding m1_def by (rule map_typed_put [OF Cons.prems(2)]) (simp add: map_typed_get [OF Cons.prems(2) Some])
      from Cons.prems(1) Some x True g n have "(if added then top_up_server_scids Q rng h (add_dcid m1 h scid) else Some m1) = Some m'"
        by (simp add: top_up_server_scids.simps [of Q "(r, Some token) # rng"] m1_def Let_def split: if_splits)
      with m1 Cons.IH [OF _ map_typed_add [OF m1]] show ?thesis by (auto split: if_splits)
    qed
  qed
qed

lemma quiet_packet:
  assumes L: "lib_laws L got sent finned"
    and r: "process_packet L now secs fuel rng rngs budget buf peer local s out b = Some (s', out', b')"
  shows "quiet s s'"
proof (cases "sl_header L buf")
  case None
  with r show ?thesis by (simp add: process_packet_def)
next
  case (Some hdr)
  obtain ho s1 out1 b1 where a: "route_or_accept L now secs (\<lambda>m. (cm_generate_scid m rng, m)) hdr peer local s out b = (ho, s1, out1, b1)"
    by (cases "route_or_accept L now secs (\<lambda>m. (cm_generate_scid m rng, m)) hdr peer local s out b")
  have q: "quiet s s1" by (rule quiet_route [OF L _ a]) auto
  show ?thesis
  proof (cases ho)
    case None
    with r Some a q show ?thesis by (simp add: process_packet_def)
  next
    case h: (Some h)
    have "receive_packet L now fuel budget False buf h s1 b1 \<noteq> None"
    proof
      assume "receive_packet L now fuel budget False buf h s1 b1 = None"
      with r Some a h show False by (simp add: process_packet_def)
    qed
    then obtain ok s2 b2 where rp: "receive_packet L now fuel budget False buf h s1 b1 = Some (ok, s2, b2)"
      by (metis option.exhaust prod_cases3)
    from q quiet_receive [OF L rp] have q2: "quiet s s2" by (rule quiet_trans)
    show ?thesis
    proof (cases ok)
      case True
      then obtain m where t: "top_up_server_scids (sl_quiche L) rngs h (hs_map s2) = Some m"
        and s': "s' = arm_after_packet (sl_quiche L) now h (conn_timeout (sl_quiche L) s2 h) (s2\<lparr>hs_map := m\<rparr>)"
        using r Some a h rp by (cases "top_up_server_scids (sl_quiche L) rngs h (hs_map s2)") (simp_all add: process_packet_def)
      have "quiet s2 (s2\<lparr>hs_map := m\<rparr>)" by (rule quiet_map) (rule map_typed_top_up [OF t])
      with q2 have "quiet s (s2\<lparr>hs_map := m\<rparr>)" by (rule quiet_trans)
      then show ?thesis unfolding s' using quiet_arm by (rule quiet_trans)
    next
      case False
      with r Some a h rp have "s' = s2" by (simp add: process_packet_def)
      with q2 show ?thesis by simp
    qed
  qed
qed

end
