(* ===== verification/H3_Server_Runs.thy ===== *)
theory H3_Server_Runs
  imports H3_Server_Quiet
begin

text \<open>
  Runs of an HTTP/3 server worker with its JavaScript side. A writer admits the units of a command to
  the window and queues it; the worker takes commands, packets and timers, collects events, sends,
  flushes and reaps in any order. Every state is well formed, and the window counts exactly the units
  that are queued, held or lost.
\<close>

subsection \<open>Commands\<close>

definition settles :: "nat \<Rightarrow> nat \<Rightarrow> ('h, 'q) h3_server \<Rightarrow> ('h, 'q) h3_server \<Rightarrow> bool" where
  "settles u leak s s' \<longleftrightarrow> (server_typed s \<longrightarrow> server_typed s' \<and> balance u leak s s')"

lemma settles_quiet: "quiet s s' \<Longrightarrow> settles 0 0 s s'"
  using quiet_balance [of s s'] by (simp add: settles_def) (simp add: quiet_def)

lemma release_spec:
  assumes "release_outbound_admission n s b = (s1, b1)"
  shows "s1 = s\<lparr>hs_admission := hs_admission s1\<rparr>" "queued (hs_admission s1) = queued (hs_admission s) - n"
  using assms by (auto simp: release_outbound_admission_def Admission.release_def Let_def release_next_def saturating_sub_def
      split: prod.splits if_splits)

lemma release_frame [simp]:
  assumes "release_outbound_admission n s b = (s1, b1)"
  shows "hs_map s1 = hs_map s" "hs_writes s1 = hs_writes s" "hs_responses s1 = hs_responses s"
    "server_typed s1 = server_typed s" "held s1 = held s" "hs_offset s1 = hs_offset s"
    "hs_stream_read_window s1 = hs_stream_read_window s" "hs_last_expired s1 = hs_last_expired s"
  using release_spec(1) [OF assms] by (auto simp: server_typed_def held_def elim!: ssubst)

lemma settles_release:
  assumes "quiet s s1" "release_outbound_admission u s1 b = (s2, b2)"
  shows "settles u 0 s s2"
  using assms(1) release_spec [OF assms(2)] release_frame [OF assms(2)]
  by (auto simp: settles_def quiet_def balance_def held_def)

lemma settles_release_put:
  assumes "release_outbound_admission u s b = (s1, b1)" "server_typed s \<Longrightarrow> conn_typed (hs_stream_read_window s) c"
  shows "settles u 0 s (put_conn h c s1)"
proof -
  have "settles u 0 s s1" by (rule settles_release [OF quiet_refl assms(1)])
  moreover have "quiet s1 (put_conn h c s1)" by (rule quiet_put) (use assms in simp)
  ultimately show ?thesis by (auto simp: settles_def quiet_def balance_def held_def)
qed

lemma pending_typed_write: "pending_typed ws rs \<Longrightarrow> pw_inv pw \<Longrightarrow> pending_typed (hm_insert k pw ws) rs"
  by (auto simp: pending_typed_def hm_simps split: if_splits)

lemma pending_typed_response:
  "pending_typed ws rs \<Longrightarrow> (\<And>pw. pr_body r = Some pw \<Longrightarrow> pw_inv pw) \<Longrightarrow> pending_typed ws (hm_insert k r rs)"
  by (auto simp: pending_typed_def hm_simps split: if_splits)

lemma pending_typed_remove: "pending_typed ws rs \<Longrightarrow> pending_typed (hm_remove k ws) (hm_remove k2 rs)"
  by (auto simp: pending_typed_def hm_simps split: if_splits)

text \<open>What the send of one chunk does with the chunk's units.\<close>

lemma send_chunk_units:
  assumes L: "h3_send_laws H Q sent finned" and ch: "chunk_inv ch"
    and s: "send_body_chunk H Q sid c ch fin = (Inr out, c')"
  defines "u \<equiv> outbound_payload_units (chunk_remaining_len ch) fin"
    and "got \<equiv> accepted_outbound_payload_units (chunk_remaining_len ch) fin (so_written out) (so_fin_accepted out)"
  shows "so_remainder out = None \<Longrightarrow> got = u"
    and "so_remainder out = Some r \<Longrightarrow> arc_inv r \<and> got + queued_units (pending_write_new r fin) = u"
proof -
  let ?b = "arc_from_chunk ch"
  have s': "send_body_arcbuf H Q sid c ?b fin = (Inr out, c')" using s by (simp add: send_body_chunk_def)
  note R = send_body_reported [OF L s', unfolded h3_reported_def]
  have len: "remaining_len ?b = chunk_remaining_len ch" by (rule arc_from_chunk_len)
  show "got = u" if n: "so_remainder out = None"
  proof -
    have "fin \<Longrightarrow> so_fin_accepted out"
      using s' n by (auto simp: send_body_arcbuf_def send_body_fin_def send_body_data_def Let_def
          split: option.splits prod.splits sum.splits h3_error.splits if_splits)
    with R n len show ?thesis by (auto simp: got_def u_def accepted_outbound_payload_units_def outbound_payload_units_def)
  qed
  show "arc_inv r \<and> got + queued_units (pending_write_new r fin) = u" if n: "so_remainder out = Some r"
  proof -
    from R n len have w: "so_written out \<le> chunk_remaining_len ch" "\<not> so_fin_accepted out"
      and r: "arc_inv r" "remaining_len r = chunk_remaining_len ch - so_written out"
      using arc_inv_from_chunk [OF ch] by auto
    have "queued_units (pending_write_new r fin) = outbound_payload_units (chunk_remaining_len ch - so_written out) (fin \<and> \<not> so_fin_accepted out)"
      using r w by (simp add: queued_units_alt) (simp add: pending_write_new_def)
    with accepted_plus_rest [of "so_written out" "chunk_remaining_len ch" "so_fin_accepted out" fin] w r(1)
    show ?thesis by (simp add: got_def u_def)
  qed
qed

text \<open>
  What a command loses. A chunk appended to a held write, or to the body of a held response, was
  admitted with a unit of its own for a FIN that the entry does not count again. A held entry that is
  replaced takes its units with it.
\<close>

definition write_leak ::
  "('h, 'q) server_lib \<Rightarrow> conn_handle \<Rightarrow> stream_id \<Rightarrow> chunk \<Rightarrow> bool \<Rightarrow> ('h, 'q) h3_connection \<Rightarrow> ('h, 'q) h3_server \<Rightarrow> nat" where
  "write_leak L h sid ch fin c s =
     (case fst (send_body_chunk (sl_h3 L) (sl_quiche L) sid c ch fin) of
        Inl _ \<Rightarrow> 0
      | Inr out \<Rightarrow> if so_remainder out = None then 0 else units_at queued_units (hs_writes s) (h, sid))"

fun dispatch_leak :: "('h, 'q) server_lib \<Rightarrow> worker_command \<Rightarrow> ('h, 'q) h3_server \<Rightarrow> nat" where
  "dispatch_leak L (SendResponseHeaders h sid hdrs fin) s =
     (case cm_get (hs_map s) (unat h) of
        None \<Rightarrow> 0
      | Some c \<Rightarrow> (case fst (send_response (sl_h3 L) sid hdrs fin c) of
          Inr _ \<Rightarrow> 0 | Inl e \<Rightarrow> if is_h3_stream_blocked e then units_at pr_queued_units (hs_responses s) (h, sid) else 0))"
| "dispatch_leak L (SendResponse h sid hdrs body fin) s =
     (case cm_get (hs_map s) (unat h) of
        None \<Rightarrow> 0
      | Some c \<Rightarrow> (case send_response (sl_h3 L) sid hdrs False c of
          (Inr _, c') \<Rightarrow> write_leak L h sid body fin c' s
        | (Inl e, c') \<Rightarrow> if is_h3_stream_blocked e then units_at pr_queued_units (hs_responses s) (h, sid) else 0))"
| "dispatch_leak L (StreamSend h sid ch fin) s =
     (case hm_get (hs_responses s) (h, sid) of
        Some r \<Rightarrow> pr_queued_units r + outbound_payload_units (chunk_remaining_len ch) fin - pr_queued_units (push_body_chunk r ch fin)
      | None \<Rightarrow> (case hm_get (hs_writes s) (h, sid) of
          Some pw \<Rightarrow> queued_units pw + outbound_payload_units (chunk_remaining_len ch) fin - queued_units (push_and_fin pw ch fin)
        | None \<Rightarrow> 0))"
| "dispatch_leak L _ s = 0"

lemma push_body_le:
  "pr_queued_units (push_body_chunk r ch fin) \<le> pr_queued_units r + outbound_payload_units (chunk_remaining_len ch) fin"
  using push_and_fin_le
  by (auto simp: push_body_chunk_def pr_queued_units_def queued_units_alt arc_from_chunk_len split: option.splits)
    (auto simp: pending_write_new_def)

lemma push_body_inv:
  assumes "\<And>pw. pr_body r = Some pw \<Longrightarrow> pw_inv pw" "chunk_inv ch" "pr_body (push_body_chunk r ch fin) = Some pw"
  shows "pw_inv pw"
  using assms by (auto simp: push_body_chunk_def push_and_fin_inv pw_inv_new arc_inv_from_chunk split: option.splits)

lemma server_typed_writes: "server_typed s \<Longrightarrow> pending_typed ws (hs_responses s) \<Longrightarrow> server_typed (s\<lparr>hs_writes := ws\<rparr>)"
  and server_typed_responses: "server_typed s \<Longrightarrow> pending_typed (hs_writes s) rs \<Longrightarrow> server_typed (s\<lparr>hs_responses := rs\<rparr>)"
  and server_typed_pending: "server_typed s \<Longrightarrow> pending_typed (hs_writes s) (hs_responses s)"
  by (simp_all add: server_typed_def)

lemma wf_writes: "server_typed s \<Longrightarrow> hm_wf (hs_writes s)"
  and wf_responses: "server_typed s \<Longrightarrow> hm_wf (hs_responses s)"
  by (simp_all add: server_typed_def pending_typed_def)

lemma settles_write:
  assumes pw: "server_typed s \<Longrightarrow> pw_inv pw"
    and units: "queued_units pw + leak = units_at queued_units (hs_writes s) k + u"
  shows "settles u leak s (s\<lparr>hs_writes := hm_insert k pw (hs_writes s)\<rparr>)"
proof -
  have "server_typed (s\<lparr>hs_writes := hm_insert k pw (hs_writes s)\<rparr>)" if "server_typed s"
    by (rule server_typed_writes [OF that pending_typed_write [OF server_typed_pending [OF that] pw [OF that]]])
  then show ?thesis
    using units_insert [OF wf_writes, of s queued_units k pw] units by (auto simp: settles_def balance_def held_def)
qed

lemma settles_response:
  assumes r: "\<And>pw. server_typed s \<Longrightarrow> pr_body r = Some pw \<Longrightarrow> pw_inv pw"
    and units: "pr_queued_units r + leak = units_at pr_queued_units (hs_responses s) k + u"
  shows "settles u leak s (s\<lparr>hs_responses := hm_insert k r (hs_responses s)\<rparr>)"
proof -
  have "server_typed (s\<lparr>hs_responses := hm_insert k r (hs_responses s)\<rparr>)" if "server_typed s"
    by (rule server_typed_responses [OF that pending_typed_response [OF server_typed_pending [OF that] r [OF that]]])
  then show ?thesis
    using units_insert [OF wf_responses, of s pr_queued_units k r] units by (auto simp: settles_def balance_def held_def)
qed

lemma settles_after_quiet: "quiet s s1 \<Longrightarrow> settles u leak s1 s2 \<Longrightarrow> settles u leak s s2"
  by (auto simp: settles_def quiet_def balance_def held_def)

lemma settles_then:
  assumes "settles u leak s s1" "settles v leak2 s1 s2"
  shows "settles (u + v) (leak + leak2) s s2"
proof -
  have "balance (u + v) (leak + leak2) s s2" if "balance u leak s s1" "balance v leak2 s1 s2"
    using that unfolding balance_def by linarith
  with assms show ?thesis by (simp add: settles_def)
qed

lemma emit_typed:
  assumes L: "h3_recv_laws H got" and "conn_typed w c" "emit_h3_send_error_and_reset H Q c b eh sid ctx e = (c', b')"
  shows "conn_typed w c'"
  using assms(3) conn_typed_ops(12) [OF L assms(2)] by (auto simp: emit_h3_send_error_and_reset_def)

lemma settles_send_chunk:
  assumes L: "lib_laws L got sent finned" and ch: "chunk_inv ch"
    and c: "server_typed s \<Longrightarrow> conn_typed (hs_stream_read_window s) c"
    and r: "send_chunk_now L h sid ch fin (outbound_payload_units (chunk_remaining_len ch) fin) c s b = (s', b')"
  shows "settles (outbound_payload_units (chunk_remaining_len ch) fin) (write_leak L h sid ch fin c s) s s'"
proof -
  let ?u = "outbound_payload_units (chunk_remaining_len ch) fin"
  let ?H = "sl_h3 L" and ?Q = "sl_quiche L"
  obtain x c' where x: "send_body_chunk ?H ?Q sid c ch fin = (x, c')" by fastforce
  have c': "server_typed s \<Longrightarrow> conn_typed (hs_stream_read_window s) c'"
    by (rule conn_typed_ops(10) [OF lib_lawsD(1) [OF L] c x [unfolded send_body_chunk_def]])
  show ?thesis
  proof (cases x)
    case (Inl e)
    obtain s1 b1 where rel: "release_outbound_admission ?u s b = (s1, b1)" by fastforce
    obtain c2 b2 where em: "emit_h3_send_error_and_reset ?H ?Q c' b1 (hs_offset s OR h) sid ''stream send'' e = (c2, b2)" by fastforce
    from r x Inl rel em have "s' = put_conn (unat h) c2 s1" by (simp add: send_chunk_now_def Let_def)
    moreover have "server_typed s \<Longrightarrow> conn_typed (hs_stream_read_window s) c2"
      by (rule emit_typed [OF lib_lawsD(1) [OF L] c' em])
    ultimately show ?thesis using settles_release_put [OF rel] x Inl by (simp add: write_leak_def)
  next
    case (Inr out)
    let ?got = "accepted_outbound_payload_units (chunk_remaining_len ch) fin (so_written out) (so_fin_accepted out)"
    note U = send_chunk_units [OF lib_lawsD(2) [OF L] ch x [unfolded Inr]]
    obtain s1 b1 where rel: "release_outbound_admission ?got (put_conn (unat h) c' s) b = (s1, b1)" by fastforce
    have q: "quiet s (put_conn (unat h) c' s)" by (rule quiet_put [OF c'])
    have S1: "settles ?got 0 s s1" by (rule settles_release [OF q rel])
    show ?thesis
    proof (cases "so_remainder out")
      case None
      with r x Inr rel have "s' = s1" by (simp add: send_chunk_now_def Let_def)
      with S1 U(1) [OF None] x Inr None show ?thesis by (simp add: write_leak_def)
    next
      case (Some rem)
      let ?pw = "pending_write_new rem fin"
      have s': "s' = s1\<lparr>hs_writes := hm_insert (h, sid) ?pw (hs_writes s1)\<rparr>"
        using r x Inr rel Some by (simp add: send_chunk_now_def Let_def insert_pending_write_def)
      have "settles (queued_units ?pw) (units_at queued_units (hs_writes s1) (h, sid)) s1 s'"
        unfolding s' using U(2) [OF Some] by (intro settles_write) (simp_all add: pw_inv_new)
      moreover have "held s1 = held s" "hs_writes s1 = hs_writes s"
        using release_frame [OF rel] by (simp_all add: held_def)
      ultimately show ?thesis
        using settles_then [OF S1, of "queued_units ?pw"] U(2) [OF Some] x Inr Some by (simp add: write_leak_def)
    qed
  qed
qed

lemma settles_response_headers:
  assumes L: "lib_laws L got sent finned" and r: "do_send_response_headers L h sid hdrs fin s b = (s', b')"
  shows "settles 0 (dispatch_leak L (SendResponseHeaders h sid hdrs fin) s) s s'"
proof (cases "cm_get (hs_map s) (unat h)")
  case None
  with r show ?thesis by (simp add: do_send_response_headers_def settles_quiet)
next
  case (Some c)
  note R = lib_lawsD(1) [OF L]
  obtain x c' where x: "send_response (sl_h3 L) sid hdrs fin c = (x, c')" by fastforce
  have c': "server_typed s \<Longrightarrow> conn_typed (hs_stream_read_window s) c'"
    by (rule conn_typed_ops(4) [OF R server_typed_get [OF _ Some] x])
  note q = quiet_put [OF c', of "unat h"]
  show ?thesis
  proof (cases x)
    case (Inr y)
    with r Some x q show ?thesis by (simp add: do_send_response_headers_def Let_def settles_quiet)
  next
    case (Inl e)
    show ?thesis
    proof (cases "is_h3_stream_blocked e")
      case True
      let ?s = "put_conn (unat h) c' s"
      have s': "s' = ?s\<lparr>hs_responses := hm_insert (h, sid) (headers_only hdrs fin) (hs_responses ?s)\<rparr>"
        using r Some x Inl True by (simp add: do_send_response_headers_def Let_def insert_pending_response_def)
      have "settles 0 (units_at pr_queued_units (hs_responses ?s) (h, sid)) ?s s'"
        unfolding s' by (rule settles_response) (simp_all add: headers_only_def pr_queued_units_def)
      from settles_after_quiet [OF q this] show ?thesis using Some x Inl True by simp
    next
      case False
      obtain c2 b2 where em: "emit_h3_send_error_and_reset (sl_h3 L) (sl_quiche L) c' b (hs_offset s OR h) sid
          ''send_response_headers'' e = (c2, b2)" by fastforce
      have "quiet s (put_conn (unat h) c2 s)" by (rule quiet_put) (rule emit_typed [OF R c' em])
      moreover have "s' = put_conn (unat h) c2 s"
        using r Some x Inl False em by (simp add: do_send_response_headers_def Let_def)
      ultimately show ?thesis using Some x Inl False by (simp add: settles_quiet)
    qed
  qed
qed

lemma settles_send_response:
  assumes L: "lib_laws L got sent finned" and ch: "chunk_inv body" and r: "do_send_response L h sid hdrs body fin s b = (s', b')"
  shows "settles (worker_command_outbound_bytes (SendResponse h sid hdrs body fin)) (dispatch_leak L (SendResponse h sid hdrs body fin) s) s s'"
proof (cases "cm_get (hs_map s) (unat h)")
  case None
  with r show ?thesis by (simp add: do_send_response_def settles_release [OF quiet_refl])
next
  case (Some c)
  let ?u = "outbound_payload_units (chunk_remaining_len body) fin"
  note R = lib_lawsD(1) [OF L]
  obtain x c' where x: "send_response (sl_h3 L) sid hdrs False c = (x, c')" by fastforce
  have c': "server_typed s \<Longrightarrow> conn_typed (hs_stream_read_window s) c'"
    by (rule conn_typed_ops(4) [OF R server_typed_get [OF _ Some] x])
  show ?thesis
  proof (cases x)
    case (Inr y)
    with r Some x have "send_chunk_now L h sid body fin ?u c' s b = (s', b')"
      by (simp add: do_send_response_def Let_def)
    from settles_send_chunk [OF L ch c' this] show ?thesis using Some x Inr by simp
  next
    case (Inl e)
    show ?thesis
    proof (cases "is_h3_stream_blocked e")
      case True
      let ?s = "put_conn (unat h) c' s"
      have s': "s' = ?s\<lparr>hs_responses := hm_insert (h, sid) (with_body hdrs body fin) (hs_responses ?s)\<rparr>"
        using r Some x Inl True by (simp add: do_send_response_def Let_def insert_pending_response_def)
      have "settles ?u (units_at pr_queued_units (hs_responses ?s) (h, sid)) ?s s'"
        unfolding s'
      proof (rule settles_response)
        show "pw_inv pw" if "pr_body (with_body hdrs body fin) = Some pw" for pw
          using that by (auto simp: with_body_def pw_inv_new arc_inv_from_chunk [OF ch])
        show "pr_queued_units (with_body hdrs body fin) + units_at pr_queued_units (hs_responses ?s) (h, sid)
            = units_at pr_queued_units (hs_responses ?s) (h, sid) + ?u"
          by (simp add: with_body_def pr_queued_units_def queued_units_alt arc_from_chunk_len) (simp add: pending_write_new_def)
      qed
      from settles_after_quiet [OF quiet_put [OF c'] this] show ?thesis using Some x Inl True by simp
    next
      case False
      obtain s1 b1 where rel: "release_outbound_admission ?u s b = (s1, b1)" by fastforce
      obtain c2 b2 where em: "emit_h3_send_error_and_reset (sl_h3 L) (sl_quiche L) c' b1 (hs_offset s OR h) sid
          ''send_response'' e = (c2, b2)" by fastforce
      have "s' = put_conn (unat h) c2 s1"
        using r Some x Inl False rel em by (simp add: do_send_response_def Let_def)
      with settles_release_put [OF rel emit_typed [OF R c' em]] show ?thesis using Some x Inl False by simp
    qed
  qed
qed

lemma settles_stream_send:
  assumes L: "lib_laws L got sent finned" and ch: "chunk_inv ch" and r: "do_stream_send L h sid ch fin s b = (s', b')"
  shows "settles (worker_command_outbound_bytes (StreamSend h sid ch fin)) (dispatch_leak L (StreamSend h sid ch fin) s) s s'"
proof (cases "hm_get (hs_responses s) (h, sid)")
  case (Some x)
  have s': "s' = s\<lparr>hs_responses := hm_insert (h, sid) (push_body_chunk x ch fin) (hs_responses s)\<rparr>"
    using r Some by (simp add: do_stream_send_def Let_def)
  have inv: "pw_inv pw" if "server_typed s" "pr_body (push_body_chunk x ch fin) = Some pw" for pw
    using server_typed_pending [OF that(1)] Some push_body_inv [OF _ ch that(2)] by (auto simp: pending_typed_def)
  show ?thesis unfolding s'
    by (rule settles_response [OF inv]) (use Some push_body_le [of x ch fin] in \<open>simp_all add: units_at_def\<close>)
next
  case none: None
  show ?thesis
  proof (cases "hm_get (hs_writes s) (h, sid)")
    case (Some pw)
    have s': "s' = s\<lparr>hs_writes := hm_insert (h, sid) (push_and_fin pw ch fin) (hs_writes s)\<rparr>"
      using r none Some by (simp add: do_stream_send_def Let_def)
    have inv: "pw_inv (push_and_fin pw ch fin)" if "server_typed s"
      using server_typed_pending [OF that] Some push_and_fin_inv [OF _ ch] by (auto simp: pending_typed_def)
    show ?thesis unfolding s'
      by (rule settles_write [OF inv]) (use none Some push_and_fin_le [of pw ch fin] in \<open>simp_all add: units_at_def\<close>)
  next
    case none2: None
    show ?thesis
    proof (cases "cm_get (hs_map s) (unat h)")
      case None
      with r none none2 show ?thesis by (simp add: do_stream_send_def settles_release [OF quiet_refl])
    next
      case (Some c)
      with r none none2 have "send_chunk_now L h sid ch fin (outbound_payload_units (chunk_remaining_len ch) fin) c s b = (s', b')"
        by (simp add: do_stream_send_def Let_def)
      from settles_send_chunk [OF L ch server_typed_get [OF _ Some] this] none none2 show ?thesis
        by (simp add: write_leak_def units_at_def split: sum.splits if_splits)
    qed
  qed
qed

lemma settles_stream_close:
  fixes L :: "('h, 'q) server_lib" and s :: "('h, 'q) h3_server"
  assumes L: "lib_laws L got sent finned" and r: "do_stream_close (sl_quiche L) h sid code s b = (s', b')"
  shows "settles 0 0 s s'"
proof (cases "cm_get (hs_map s) (unat h)")
  case None
  with r show ?thesis by (simp add: do_stream_close_def settles_quiet)
next
  case (Some c)
  define s1 where "s1 = put_conn (unat h) (h3_stream_close (sl_quiche L) sid (unat code) c) s"
  define s2 where "s2 = s1\<lparr>hs_responses := hm_remove (h, sid) (hs_responses s1), hs_writes := hm_remove (h, sid) (hs_writes s1)\<rparr>"
  let ?u = "units_at pr_queued_units (hs_responses s) (h, sid) + units_at queued_units (hs_writes s) (h, sid)"
  have rm: "remove_pending_response (h, sid) (hs_responses s) = (units_at pr_queued_units (hs_responses s) (h, sid), hm_remove (h, sid) (hs_responses s))"
    "remove_pending_write (h, sid) (hs_writes s) = (units_at queued_units (hs_writes s) (h, sid), hm_remove (h, sid) (hs_writes s))"
    using delete_id [of "(h, sid)" "hs_responses s"] delete_id [of "(h, sid)" "hs_writes s"]
    by (simp_all add: remove_pending_response_def remove_pending_write_def units_at_def map_of_eq_None_iff [symmetric] split: option.splits)
  obtain s3 b3 where rel: "release_outbound_admission ?u s2 b = (s3, b3)" by fastforce
  have s': "s' = s3" using r Some rm rel by (simp add: do_stream_close_def Let_def s1_def s2_def)
  have q: "quiet s s1" unfolding s1_def
    by (rule quiet_put) (rule conn_typed_ops(12) [OF lib_lawsD(1) [OF L] server_typed_get [OF _ Some]])
  have fr: "hs_writes s1 = hs_writes s" "hs_responses s1 = hs_responses s" "hs_admission s1 = hs_admission s"
    by (simp_all add: s1_def)
  have "settles 0 0 s1 s3"
    unfolding settles_def
  proof (intro impI conjI)
    assume t: "server_typed s1"
    show "server_typed s3"
      using t release_frame(4) [OF rel] pending_typed_remove [OF server_typed_pending [OF t]]
      by (simp add: s2_def server_typed_def)
    have "held s2 + ?u = held s1"
      using units_remove [OF wf_writes [OF t], of queued_units "(h, sid)"] units_remove [OF wf_responses [OF t], of pr_queued_units "(h, sid)"]
      by (simp add: s2_def held_def fr)
    moreover have "hs_admission s2 = hs_admission s1" by (simp add: s2_def)
    ultimately show "balance 0 0 s1 s3"
      using release_spec(2) [OF rel] release_frame(5) [OF rel] by (auto simp: balance_def)
  qed
  from settles_after_quiet [OF q this] s' show ?thesis by simp
qed

lemma quiet_on_conn:
  assumes "on_conn h f s = (ok, s')" "\<And>c r c'. f c = (r, c') \<Longrightarrow> conn_typed (hs_stream_read_window s) c \<Longrightarrow> conn_typed (hs_stream_read_window s) c'"
  shows "quiet s s'"
proof (cases "cm_get (hs_map s) (unat h)")
  case (Some c)
  obtain r c' where f: "f c = (r, c')" by fastforce
  have "quiet s (put_conn (unat h) c' s)" by (rule quiet_put) (rule assms(2) [OF f server_typed_get [OF _ Some]])
  with assms(1) Some f show ?thesis by (simp add: on_conn_def)
qed (use assms(1) in \<open>simp add: on_conn_def\<close>)

lemma quiet_credit:
  fixes L :: "('h, 'q) server_lib" and s :: "('h, 'q) h3_server"
  assumes L: "lib_laws L got sent finned"
  shows "quiet s (stream_read_credit h sid bytes s)"
proof (cases "cm_get (hs_map s) (unat h)")
  case (Some c)
  have "quiet s (put_conn (unat h) (add_read_credit sid bytes c) s)"
    by (rule quiet_put) (rule conn_typed_ops(11) [OF lib_lawsD(1) [OF L] server_typed_get [OF _ Some]])
  with Some show ?thesis by (simp add: stream_read_credit_def)
qed (simp add: stream_read_credit_def)

lemma quiet_close:
  assumes L: "lib_laws L got sent finned"
  shows "quiet s (close_connection L now h code reason s)"
proof (cases "cm_get (hs_map s) (unat h)")
  case (Some c)
  obtain r c' where g: "send_goaway (sl_h3 L) c = (r, c')" by fastforce
  have c': "server_typed s \<Longrightarrow> conn_typed (hs_stream_read_window s) c'"
    by (rule conn_typed_ops(6) [OF lib_lawsD(1) [OF L] server_typed_get [OF _ Some] g])
  show ?thesis
  proof (cases r)
    case (Inl e)
    with Some g quiet_put [of s "c'\<lparr>hc_quiche := q_close (sl_quiche L) (hc_quiche c') True (unat code) reason\<rparr>" "unat h"] c'
    show ?thesis by (simp add: close_connection_def)
  next
    case (Inr y)
    have "quiet s (put_conn (unat h) c' s)" by (rule quiet_put [OF c'])
    then show ?thesis using Some g Inr by (auto simp: close_connection_def quiet_def server_typed_def)
  qed
qed (simp add: close_connection_def)

lemma quiet_shutdown: "quiet s (shutdown_all_connections Q s)"
  unfolding shutdown_all_connections_def
proof (rule quiet_map, rule map_typed_foldl)
  fix m :: "('a, 'b) h3_connection connection_map" and h
  assume m: "map_typed (hs_stream_read_window s) m"
  show "map_typed (hs_stream_read_window s) (shutdown_conn Q m h)"
    using map_typed_put [OF m] map_typed_get [OF m] m by (auto simp: shutdown_conn_def split: option.splits)
qed

definition cmd_ok :: "worker_command \<Rightarrow> bool" where
  "cmd_ok cmd = (case cmd of SendResponse _ _ _ body _ \<Rightarrow> chunk_inv body | StreamSend _ _ ch _ \<Rightarrow> chunk_inv ch
     | SendDatagram _ d \<Rightarrow> chunk_inv d | _ \<Rightarrow> True)"

lemma settles_dispatch:
  assumes L: "lib_laws L got sent finned" and ok: "cmd_ok cmd"
    and r: "dispatch_command L now cmd s b = (stop, reply, s', b')"
  shows "settles (worker_command_outbound_bytes cmd) (dispatch_leak L cmd s) s s'"
proof (cases cmd)
  case (SendResponseHeaders h sid hdrs fin)
  with r have "do_send_response_headers L h sid hdrs fin s b = (s', b')" by simp
  from settles_response_headers [OF L this] SendResponseHeaders show ?thesis by simp
next
  case (SendResponse h sid hdrs body fin)
  with r ok have "do_send_response L h sid hdrs body fin s b = (s', b')" "chunk_inv body" by (simp_all add: cmd_ok_def)
  from settles_send_response [OF L this(2,1)] SendResponse show ?thesis by simp
next
  case (StreamSend h sid ch fin)
  with r ok have "do_stream_send L h sid ch fin s b = (s', b')" "chunk_inv ch" by (simp_all add: cmd_ok_def)
  from settles_stream_send [OF L this(2,1)] StreamSend show ?thesis by simp
next
  case (StreamClose h sid code)
  with r have "do_stream_close (sl_quiche L) h sid code s b = (s', b')" by simp
  from settles_stream_close [OF L this] StreamClose show ?thesis by simp
next
  case (SendTrailers h sid hdrs)
  obtain o1 s1 where o1: "on_conn h (send_trailers (sl_h3 L) sid hdrs) s = (o1, s1)" by fastforce
  have "quiet s s1" by (rule quiet_on_conn [OF o1]) (rule conn_typed_ops(5) [OF lib_lawsD(1) [OF L]])
  with r SendTrailers o1 show ?thesis by (simp add: settles_quiet)
next
  case (SendDatagram h d)
  obtain o1 s1 where o1: "on_conn h (send_datagram_chunk (sl_quiche L) d) s = (o1, s1)" by fastforce
  have "quiet s s1" by (rule quiet_on_conn [OF o1]) (rule conn_typed_ops(7) [OF lib_lawsD(1) [OF L]])
  moreover have "release_outbound_admission (chunk_remaining_len d) s1 b = (s', b')" using r SendDatagram o1 by simp
  ultimately show ?thesis using settles_release SendDatagram by simp
next
  case (PingSession h)
  obtain o1 s1 where o1: "on_conn h (h3_queue_ping (sl_quiche L) now) s = (o1, s1)" by fastforce
  have "quiet s s1" by (rule quiet_on_conn [OF o1]) (rule conn_typed_ops(8) [OF lib_lawsD(1) [OF L]])
  with r PingSession o1 show ?thesis by (simp add: settles_quiet)
qed (use r quiet_credit [OF L] quiet_close [OF L] quiet_shutdown in \<open>auto intro!: settles_quiet\<close>)

subsection \<open>Flushing and reaping\<close>

lemma response_flush_units:
  assumes L: "lib_laws L got sent finned"
    and f: "flush_one_h3_pending_response (sl_h3 L) (sl_quiche L) sid c r = (x, r', c')"
    and t: "conn_typed w c" and inv: "\<forall>pw. pr_body r = Some pw \<longrightarrow> pw_inv pw"
  shows "conn_typed w c'"
    and "x = Inr out \<Longrightarrow> \<not> fo_done out \<Longrightarrow> pr_body r' = Some pw \<Longrightarrow> pw_inv pw"
    and "x = Inr out \<Longrightarrow> fo_released_units out + (if fo_done out then 0 else pr_queued_units r') = pr_queued_units r"
proof -
  let ?H = "sl_h3 L" and ?Q = "sl_quiche L"
  note R = lib_lawsD(1) [OF L]
  obtain y c1 where y: "(if pr_headers_sent r then (Inr (), c)
      else send_response ?H sid (pr_headers r) (pr_headers_fin r \<and> pr_body r = None) c) = (y, c1)" by fastforce
  have c1: "conn_typed w c1" using y t conn_typed_ops(4) [OF R t] by (auto split: if_splits)
  note eq = f [unfolded flush_one_h3_pending_response_def y prod.case]
  have "conn_typed w c' \<and> (x = Inr out \<longrightarrow> (\<not> fo_done out \<longrightarrow> pr_body r' = Some pw \<longrightarrow> pw_inv pw)
      \<and> fo_released_units out + (if fo_done out then 0 else pr_queued_units r') = pr_queued_units r)" for out pw
  proof (cases y)
    case (Inl e)
    with eq c1 inv show ?thesis by (auto simp: pr_queued_units_def split: if_splits)
  next
    case (Inr z)
    show ?thesis
    proof (cases "pr_body r")
      case None
      with eq Inr c1 show ?thesis by (auto simp: Let_def pr_queued_units_def)
    next
      case (Some pw0)
      obtain x0 pw1 c2 where p: "flush_one_h3_pending_write ?H ?Q sid c1 pw0 = (x0, pw1, c2)"
        by (cases "flush_one_h3_pending_write ?H ?Q sid c1 pw0")
      note p' = p [unfolded flush_one_h3_pending_write_def]
      have c2: "conn_typed w c2"
        by (rule flush_progress_keeps [where P = "conn_typed w", OF _ p' c1]) (rule conn_typed_ops(10) [OF R])
      show ?thesis
      proof (cases x0)
        case (Inl e)
        with eq Inr Some p c2 show ?thesis by (auto simp: Let_def)
      next
        case x0: (Inr o1)
        note sp = stream_sender.flush_spec [OF h3_stream_sender [OF lib_lawsD(2) [OF L]] p' [unfolded x0] inv [rule_format, OF Some]]
        from eq Inr Some p x0 have "x = Inr o1" "c' = c2" "pr_body r' = (if fo_done o1 then None else Some pw1)" by (auto simp: Let_def)
        with c2 sp(1,3) Some show ?thesis by (auto simp: pr_queued_units_def)
      qed
    qed
  qed
  then show "conn_typed w c'" "x = Inr out \<Longrightarrow> \<not> fo_done out \<Longrightarrow> pr_body r' = Some pw \<Longrightarrow> pw_inv pw"
    "x = Inr out \<Longrightarrow> fo_released_units out + (if fo_done out then 0 else pr_queued_units r') = pr_queued_units r"
    by blast+
qed

lemma settles_flush_response:
  assumes L: "lib_laws L got sent finned" and f: "flush_response L key s b = (s', b')"
  shows "settles 0 0 s s'"
proof (cases "hm_get (hs_responses s) key")
  case None
  with f show ?thesis by (simp add: flush_response_def settles_quiet)
next
  case (Some r)
  let ?u = "pr_queued_units r" and ?Q = "sl_quiche L" and ?H = "sl_h3 L" and ?h = "unat (fst key)"
  define s1 where "s1 = s\<lparr>hs_responses := hm_remove key (hs_responses s)\<rparr>"
  have m: "hs_map s1 = hs_map s" "hs_stream_read_window s1 = hs_stream_read_window s" "hs_offset s1 = hs_offset s" by (simp_all add: s1_def)
  have t1: "server_typed s1" if "server_typed s"
    using that by (auto simp: s1_def server_typed_def pending_typed_def hm_simps split: if_splits)
  have h1: "held s1 + ?u = held s" if "server_typed s"
    using units_remove [OF wf_responses [OF that], of pr_queued_units key] Some by (simp add: s1_def held_def units_at_def)
  have taken: "settles 0 0 s s2" if "settles ?u 0 s1 s2" for s2
    using that t1 h1 by (auto simp: settles_def balance_def s1_def)
  show ?thesis
  proof (cases "cm_get (hs_map s) ?h")
    case None
    with f Some m have "release_outbound_admission ?u s1 b = (s', b')" by (simp add: flush_response_def Let_def s1_def)
    from taken [OF settles_release [OF quiet_refl this]] show ?thesis .
  next
    case c: (Some c)
    have tc: "server_typed s1 \<Longrightarrow> conn_typed (hs_stream_read_window s1) c" by (rule server_typed_get [where h = ?h]) (simp_all add: m c)
    show ?thesis
    proof (cases "q_stream_closed ?Q (hc_quiche c) (snd key)")
      case True
      with f Some c m have "release_outbound_admission ?u s1 b = (s', b')" by (simp add: flush_response_def Let_def s1_def)
      from taken [OF settles_release [OF quiet_refl this]] show ?thesis .
    next
      case False
      obtain x r' c' where x: "flush_one_h3_pending_response ?H ?Q (snd key) c r = (x, r', c')"
        by (cases "flush_one_h3_pending_response ?H ?Q (snd key) c r")
      have inv: "\<forall>pw. pr_body r = Some pw \<longrightarrow> pw_inv pw" if "server_typed s"
        using server_typed_pending [OF that] Some unfolding pending_typed_def by blast
      show ?thesis
      proof (cases "server_typed s")
        case ts: True
        note F = response_flush_units [OF L x tc [OF t1 [OF ts]] inv [OF ts]]
        show ?thesis
        proof (cases x)
          case (Inl e)
          obtain s2 b2 where rel: "release_outbound_admission ?u s1 b = (s2, b2)" by fastforce
          obtain c2 b3 where em: "emit_h3_send_error_and_reset ?H ?Q c' b2 (hs_offset s OR fst key) (snd key)
              ''pending response flush'' e = (c2, b3)" by fastforce
          have "s' = put_conn ?h c2 s2"
            using f Some c False x Inl rel em m by (simp add: flush_response_def Let_def s1_def)
          moreover have "settles ?u 0 s1 (put_conn ?h c2 s2)"
            by (rule settles_release_put [OF rel]) (rule emit_typed [OF lib_lawsD(1) [OF L] F(1) em])
          ultimately show ?thesis using taken by simp
        next
          case (Inr out)
          obtain s2 b2 where rel: "release_outbound_admission (fo_released_units out) (put_conn ?h c' s1) b = (s2, b2)" by fastforce
          have S: "settles (fo_released_units out) 0 s1 s2" by (rule settles_release [OF quiet_put [OF F(1)] rel])
          have s': "s' = (if fo_done out then s2 else s2\<lparr>hs_responses := hm_insert key r' (hs_responses s2)\<rparr>)"
            using f Some c False x Inr rel m by (auto simp: flush_response_def Let_def s1_def)
          show ?thesis
          proof (cases "fo_done out")
            case True
            with S F(3) [OF Inr] s' show ?thesis by (intro taken) simp
          next
            case nd: False
            have "units_at pr_queued_units (hs_responses s2) key = 0"
              using release_frame(3) [OF rel] by (simp add: s1_def units_at_def hm_simps)
            then have "settles (pr_queued_units r') 0 s2 s'"
              using s' nd F(2) [OF Inr nd] by (simp add: settles_response)
            from settles_then [OF S this] F(3) [OF Inr] nd show ?thesis by (intro taken) simp
          qed
        qed
      qed (simp add: settles_def)
    qed
  qed
qed

lemma settles_trans: "settles 0 0 s s1 \<Longrightarrow> settles 0 0 s1 s2 \<Longrightarrow> settles 0 0 s s2"
  using settles_then [of 0 0 s s1 0 0 s2] by simp

lemma settles_flush_responses:
  assumes L: "lib_laws L got sent finned"
  shows "flush_responses L ks s b = (s', b') \<Longrightarrow> settles 0 0 s s'"
proof (induction ks arbitrary: s b)
  case (Cons k ks)
  obtain s1 b1 where f: "flush_response L k s b = (s1, b1)" by fastforce
  with Cons.prems have "flush_responses L ks s1 b1 = (s', b')" by simp
  from settles_trans [OF settles_flush_response [OF L f] Cons.IH [OF this]] show ?case .
qed (simp add: settles_quiet)

lemma retain_flush_keeps:
  assumes "\<And>k pw m out m'. f k pw m = (out, m') \<Longrightarrow> P m \<Longrightarrow> P m'"
  shows "retain_flush f es m = (fe, kept, m') \<Longrightarrow> P m \<Longrightarrow> P m'"
proof (induction es arbitrary: m fe kept m')
  case (Cons e es)
  obtain k pw where e: "e = (k, pw)" by (cases e)
  obtain out m1 where f: "f k pw m = (out, m1)" by fastforce
  obtain fe1 kept1 m2 where r: "retain_flush f es m1 = (fe1, kept1, m2)" by (cases "retain_flush f es m1")
  have "m' = m2" using Cons.prems(1) e f r by (auto split: entry_outcome.splits)
  with Cons.IH [OF r] assms [OF f Cons.prems(2)] show ?case by simp
qed simp

lemma map_typed_entry:
  assumes L: "h3_recv_laws H got" and f: "flush_h3_entry H Q k pw m = (out, m')" and t: "map_typed w m"
  shows "map_typed w m'"
proof (cases "cm_get m (unat (fst k))")
  case (Some c)
  obtain x pw1 c1 where x: "flush_one_h3_pending_write H Q (snd k) c pw = (x, pw1, c1)"
    by (cases "flush_one_h3_pending_write H Q (snd k) c pw")
  have "conn_typed w c1"
    by (rule flush_progress_keeps [where P = "conn_typed w", OF _ x [unfolded flush_one_h3_pending_write_def] map_typed_get [OF t Some]])
      (rule conn_typed_ops(10) [OF L])
  with map_typed_put [OF t this] f Some x t show ?thesis
    by (auto simp: flush_h3_entry_def entry_of_def split: if_splits sum.splits)
qed (use f t in \<open>simp add: flush_h3_entry_def\<close>)

lemma pending_typed_list: "pending_typed ws rs \<longleftrightarrow> hm_wf ws \<and> (\<forall>(k, pw) \<in> set ws. pw_inv pw)
    \<and> hm_wf rs \<and> (\<forall>k r pw. hm_get rs k = Some r \<and> pr_body r = Some pw \<longrightarrow> pw_inv pw)"
proof -
  have "(\<forall>k pw. hm_get ws k = Some pw \<longrightarrow> pw_inv pw) \<longleftrightarrow> (\<forall>(k, pw) \<in> set ws. pw_inv pw)" if "hm_wf ws"
    using that by (auto simp: hm_wf_def)
  then show ?thesis by (auto simp: pending_typed_def)
qed

lemma settles_flush_all:
  assumes L: "lib_laws L got sent finned" and f: "flush_all_pending_writes L s b = (s', b')"
  shows "settles 0 0 s s'"
proof -
  obtain s1 b1 where r: "flush_responses L (map fst (hs_responses s)) s b = (s1, b1)" by fastforce
  obtain fe kept m where w: "retain_flush (flush_h3_entry (sl_h3 L) (sl_quiche L)) (hs_writes s1) (hs_map s1) = (fe, kept, m)"
    by (cases "retain_flush (flush_h3_entry (sl_h3 L) (sl_quiche L)) (hs_writes s1) (hs_map s1)")
  define s2 where "s2 = s1\<lparr>hs_map := m, hs_writes := kept\<rparr>"
  obtain s3 b3 where rel: "release_outbound_admission (fe_released_units fe) s2 b1 = (s3, b3)" by fastforce
  have s': "s' = s3"
    using f r w rel by (simp add: flush_all_pending_writes_def flush_pending_writes_def s2_def)
  have "settles 0 0 s1 s3"
    unfolding settles_def
  proof (intro impI conjI)
    assume t: "server_typed s1"
    then have ws: "hm_wf (hs_writes s1)" "\<forall>(k, pw) \<in> set (hs_writes s1). pw_inv pw"
      by (simp_all add: server_typed_def pending_typed_list)
    note U = retain_flush_units [OF h3_entry_laws [OF lib_lawsD(2) [OF L]] w ws(2)]
    have "map_typed (hs_stream_read_window s1) m"
      by (rule retain_flush_keeps [where P = "map_typed (hs_stream_read_window s1)", OF _ w])
        (use map_typed_entry [OF lib_lawsD(1) [OF L]] t in \<open>auto simp: server_typed_def\<close>)
    with U ws t show "server_typed s3"
      using release_frame(4) [OF rel] by (simp add: s2_def server_typed_def pending_typed_list)
    have "held s2 + fe_released_units fe = held s1" using U by (simp add: s2_def held_def)
    moreover have "hs_admission s2 = hs_admission s1" by (simp add: s2_def)
    ultimately show "balance 0 0 s1 s3"
      using release_spec(2) [OF rel] release_frame(5) [OF rel] by (auto simp: balance_def)
  qed
  from settles_trans [OF settles_flush_responses [OF L r] this] s' show ?thesis by simp
qed

lemma filter_map_get: "hm_get (filter (\<lambda>((ch, _), _). P ch) m) k = (if P (fst k) then hm_get m k else None)"
  by (induction m) (auto split: if_splits)

lemma settles_reap_one:
  fixes Q :: "'q quiche_api" and s :: "('h, 'q) h3_server"
  assumes "reap_one Q hc s b = (s', b')"
  shows "settles 0 0 s s'"
proof -
  obtain h c where hc: "hc = (h, c)" by (cases hc)
  let ?u = "hm_sum queued_units (of_conn h (hs_writes s)) + hm_sum pr_queued_units (of_conn h (hs_responses s))"
  define s1 where "s1 = s\<lparr>hs_timers := remove_connection (hs_timers s) h, hs_closes := hm_remove (word_of_nat h) (hs_closes s),
    hs_writes := not_of_conn h (hs_writes s), hs_responses := not_of_conn h (hs_responses s)\<rparr>"
  let ?b = "b @ map (\<lambda>sid. ev_reset (event_handle s h) sid 0) (abandoned_streams h s)"
  obtain s2 b2 where rel: "release_outbound_admission ?u s1 ?b = (s2, b2)" by fastforce
  have s': "s' = s2" using assms hc rel by (simp add: reap_one_def Let_def s1_def split: if_splits)
  have split: "hm_sum f (of_conn h m) + hm_sum f (not_of_conn h m) = hm_sum f m"
    for f :: "'v \<Rightarrow> nat" and m :: "(pending_key, 'v) hashmap"
    using hm_sum_filter_split [of f "\<lambda>k. unat (fst k) = h" m] by (simp add: of_conn_def not_of_conn_def case_prod_unfold)
  have "held s1 + ?u = held s"
    using split [of queued_units "hs_writes s"] split [of pr_queued_units "hs_responses s"] by (simp add: s1_def held_def)
  moreover have "hs_admission s1 = hs_admission s" by (simp add: s1_def)
  moreover have "server_typed s1" if "server_typed s"
    using that by (auto simp: s1_def server_typed_def remove_connection_inv pending_typed_def not_of_conn_def filter_map_get split: if_splits)
  ultimately show ?thesis
    using s' release_spec(2) [OF rel] release_frame(4,5) [OF rel] by (auto simp: settles_def balance_def)
qed

lemma settles_reap_each: "reap_each Q hcs s b = (s', b') \<Longrightarrow> settles 0 0 s s'"
proof (induction hcs arbitrary: s b)
  case (Cons hc hcs)
  obtain s1 b1 where f: "reap_one Q hc s b = (s1, b1)" by fastforce
  with Cons.prems have "reap_each Q hcs s1 b1 = (s', b')" by simp
  from settles_trans [OF settles_reap_one [OF f] Cons.IH [OF this]] show ?case .
qed (simp add: settles_quiet)

lemma settles_reap:
  assumes "reap_closed_connections Q s b = (s', b')"
  shows "settles 0 0 s s'"
proof -
  obtain closed m where d: "drain_closed (\<lambda>c. q_is_closed Q (hc_quiche c)) (hs_map s) = (closed, m)" by fastforce
  obtain s1 b1 where e: "reap_each Q closed (s\<lparr>hs_map := m\<rparr>) b = (s1, b1)" by fastforce
  have s': "s' = s1\<lparr>hs_last_expired := []\<rparr>" using assms d e by (simp add: reap_closed_connections_def)
  have "quiet s (s\<lparr>hs_map := m\<rparr>)" by (rule quiet_map) (rule map_typed_drain [OF _ d])
  then have "settles 0 0 s s1" by (rule settles_after_quiet) (rule settles_reap_each [OF e])
  from settles_trans [OF this settles_quiet [OF quiet_expired]] s' show ?thesis by simp
qed

subsection \<open>Runs\<close>

text \<open>Everything the worker does besides its commands.\<close>

inductive h3_background :: "('h, 'q) server_lib \<Rightarrow> ('h, 'q) h3_server \<Rightarrow> ('h, 'q) h3_server \<Rightarrow> bool" for L where
  packet: "process_packet L now secs fuel rng rngs budget buf peer local s out b = Some (s', out', b') \<Longrightarrow> h3_background L s s'"
| timers: "expire_timers L now fuel budget s b = Some (s', b') \<Longrightarrow> h3_background L s s'"
| events: "collect_app_events L now fuel budget s b = Some (s', b') \<Longrightarrow> h3_background L s s'"
| drains: "collect_drain_events L fuel s b = Some (s', b') \<Longrightarrow> h3_background L s s'"
| sends: "flush_all_sends (sl_quiche L) now fuel s out = Some (s', out') \<Longrightarrow> h3_background L s s'"
| flush: "flush_all_pending_writes L s b = (s', b') \<Longrightarrow> h3_background L s s'"
| reap: "reap_closed_connections (sl_quiche L) s b = (s', b') \<Longrightarrow> h3_background L s s'"
| deadline: "soonest_deadline s = (d, s') \<Longrightarrow> h3_background L s s'"

definition h3_iface :: "('h, 'q) server_lib \<Rightarrow> (('h, 'q) h3_server, worker_command) worker_iface" where
  "h3_iface L =
     \<lparr>wi_dispatch = (\<lambda>cmd s s'. \<exists>now b stop reply b'. dispatch_command L now cmd s b = (stop, reply, s', b')),
      wi_background = h3_background L, wi_units = worker_command_outbound_bytes, wi_ok = cmd_ok, wi_lost = dispatch_leak L,
      wi_window = hs_admission, wi_set_window = (\<lambda>a s. s\<lparr>hs_admission := a\<rparr>)\<rparr>"

definition h3_fresh :: "('h, 'q) h3_server \<Rightarrow> bool" where
  "h3_fresh s \<longleftrightarrow> (\<exists>rng cfg worker high low. s = h3_server_new rng cfg worker (outbound_admission_new high low))"

abbreviation server_reach :: "('h, 'q) server_lib \<Rightarrow> (('h, 'q) h3_server, worker_command) worker_system \<Rightarrow> bool" where
  "server_reach L \<equiv> system_reach (h3_iface L) h3_fresh"

lemma h3_iface_simps [simp]:
  "wi_background (h3_iface L) = h3_background L" "wi_units (h3_iface L) = worker_command_outbound_bytes"
  "wi_ok (h3_iface L) = cmd_ok" "wi_lost (h3_iface L) = dispatch_leak L" "wi_window (h3_iface L) = hs_admission"
  "wi_set_window (h3_iface L) a s = s\<lparr>hs_admission := a\<rparr>"
  "wi_dispatch (h3_iface L) cmd s s' \<longleftrightarrow> (\<exists>now b stop reply b'. dispatch_command L now cmd s b = (stop, reply, s', b'))"
  by (simp_all add: h3_iface_def)

lemma quiet_deadline: "soonest_deadline s = (d, s') \<Longrightarrow> quiet s s'"
  using next_deadline_inv [of "hs_timers s"]
  by (auto simp: soonest_deadline_def Let_def quiet_def server_typed_def split: prod.splits)

lemma settles_background:
  assumes L: "lib_laws L got sent finned" and s: "h3_background L s s'"
  shows "settles 0 0 s s'"
  using s
proof cases
  case packet
  from settles_quiet [OF quiet_packet [OF L packet]] show ?thesis .
next
  case timers
  from settles_quiet [OF quiet_timers_step [OF L timers]] show ?thesis .
next
  case events
  from settles_quiet [OF quiet_app [OF L events]] show ?thesis .
next
  case drains
  from settles_quiet [OF quiet_drain [OF L drains [unfolded collect_drain_events_def]]] show ?thesis .
next
  case sends
  from settles_quiet [OF quiet_sends [OF L sends]] show ?thesis .
next
  case flush
  from settles_flush_all [OF L flush] show ?thesis .
next
  case reap
  from settles_reap [OF reap] show ?thesis .
next
  case deadline
  from settles_quiet [OF quiet_deadline [OF deadline]] show ?thesis .
qed

text \<open>The laws of the library are part of what a well-formed worker is.\<close>

definition lib_ok :: "('h, 'q) server_lib \<Rightarrow> bool" where
  "lib_ok L \<longleftrightarrow> (\<exists>got sent finned. lib_laws L got sent finned)"

lemma balanced_balance: "balanced u leak (queued (hs_admission s)) (held s) (queued (hs_admission s')) (held s') = balance u leak s s'"
  by (simp add: balanced_def balance_def)

lemma server_typed_window [simp]:
  "server_typed (s\<lparr>hs_admission := a\<rparr>) = server_typed s" "held (s\<lparr>hs_admission := a\<rparr>) = held s"
  by (simp_all add: server_typed_def held_def)

lemma h3_fresh_typed: "h3_fresh s \<Longrightarrow> server_typed s \<and> queued (hs_admission s) = 0 \<and> held s = 0"
  by (auto simp: h3_fresh_def server_typed_def held_def h3_server_new_def from_parts_def with_max_connections_and_cid_def
      map_typed_new pending_typed_def outbound_admission_new_def Let_def)

lemma h3_dispatch_settles:
  assumes "cmd_ok cmd" "lib_ok L" "server_typed s" "wi_dispatch (h3_iface L) cmd s s'"
  shows "server_typed s' \<and> balance (worker_command_outbound_bytes cmd) (dispatch_leak L cmd s) s s'"
proof -
  from assms(2) obtain got sent finned where L: "lib_laws L got sent finned" unfolding lib_ok_def by blast
  from assms(4) obtain now b stop reply b' where d: "dispatch_command L now cmd s b = (stop, reply, s', b')" by auto
  from settles_dispatch [OF L assms(1) d] assms(3) show ?thesis unfolding settles_def by blast
qed

lemma h3_background_settles:
  assumes "lib_ok L" "server_typed s" "h3_background L s s'"
  shows "server_typed s' \<and> balance 0 0 s s'"
proof -
  from assms(1) obtain got sent finned where L: "lib_laws L got sent finned" unfolding lib_ok_def by blast
  from settles_background [OF L assms(3)] assms(2) show ?thesis unfolding settles_def by blast
qed

interpretation h3_worker: command_worker "h3_iface L" "\<lambda>s. lib_ok L \<and> h3_fresh s" "\<lambda>s. lib_ok L \<and> server_typed s" held
proof (unfold_locales, goal_cases)
  case (1 cmd s s')
  from 1(1) have "cmd_ok cmd" by simp
  from h3_dispatch_settles [OF this _ _ 1(3)] 1(2) show ?case
    unfolding h3_iface_simps(2,4,5) balanced_balance by blast
next
  case (2 s s')
  from 2(2) have "h3_background L s s'" by simp
  from h3_background_settles [OF _ _ this] 2(1) show ?case unfolding h3_iface_simps(5) balanced_balance by blast
next
  case (6 s)
  then show ?case using h3_fresh_typed [of s] by simp
qed simp_all

lemma server_reach_worker:
  assumes "lib_laws L got sent finned"
  shows "server_reach L w \<longleftrightarrow> system_reach (h3_iface L) (\<lambda>s. lib_ok L \<and> h3_fresh s) w"
proof -
  have "lib_ok L" using assms unfolding lib_ok_def by blast
  then show ?thesis by simp
qed

end
