(* ===== verification/H3_Server_Props.thy ===== *)
theory H3_Server_Props
  imports H3_Server_Runs Server_Sharding
begin

text \<open>
  What holds of every run of an HTTP/3 server worker, what its reaping and its commands do, and a run
  of a small server that shows the hypotheses can hold.
\<close>

subsection \<open>Every state of a run\<close>

text \<open>
  C3. Every state a server worker can reach is well typed. Each connection id routes to a live
  connection; the timers' heap covers its table; no stream has two pending writes or two pending
  responses, and every buffer they hold lies within its allocation; and each connection has the read
  window the server was configured with or none yet, no read credit above it, its blocked streams
  queued once each and no body byte left behind.
\<close>

theorem h3_server_well_typed:
  assumes L: "lib_laws L got sent finned" and r: "server_reach L w"
  defines "s \<equiv> ws_server w"
  shows "(\<forall>d h. route_packet (hs_map s) d = Some h \<longrightarrow> cm_get (hs_map s) h \<noteq> None)
    \<and> timer_inv (hs_timers s) \<and> hm_wf (hs_writes s) \<and> hm_wf (hs_responses s) \<and> hm_wf (hs_closes s)
    \<and> (\<forall>k pw. hm_get (hs_writes s) k = Some pw \<longrightarrow> (\<forall>b \<in> set (pw_chunks pw). arc_inv b))
    \<and> (\<forall>k x pw. hm_get (hs_responses s) k = Some x \<and> pr_body x = Some pw \<longrightarrow> (\<forall>b \<in> set (pw_chunks pw). arc_inv b))
    \<and> (\<forall>h c. cm_get (hs_map s) h = Some c \<longrightarrow>
        (hc_stream_read_window c = None \<or> hc_stream_read_window c = hs_stream_read_window s)
        \<and> (\<forall>sid k. hm_get (hc_read_credit c) sid = Some k \<longrightarrow> (\<exists>n. hc_stream_read_window c = Some n \<and> k \<le> n))
        \<and> blocked_inv (hc_blocked c) \<and> hc_pending_body c = [])"
proof -
  have t: "server_typed s" using h3_worker.reach_typed r unfolding server_reach_worker [OF L] s_def by blast
  have m: "cm_inv (hs_map s)" and c: "\<And>h c. cm_get (hs_map s) h = Some c \<Longrightarrow> conn_typed (hs_stream_read_window s) c"
    using t by (simp_all add: server_typed_def map_typed_def conns_all_def)
  have p: "pending_typed (hs_writes s) (hs_responses s)" by (rule server_typed_pending [OF t])
  have b: "pw_inv pw \<Longrightarrow> \<forall>b \<in> set (pw_chunks pw). arc_inv b" for pw by (simp add: pw_inv_def chunks_inv_def)
  show ?thesis
  proof (intro conjI allI impI)
    fix d h assume "route_packet (hs_map s) d = Some h"
    then show "cm_get (hs_map s) h \<noteq> None" using h3_map.routed_live [OF m] by blast
  next
    fix k pw assume "hm_get (hs_writes s) k = Some pw"
    then show "\<forall>b \<in> set (pw_chunks pw). arc_inv b" using p b unfolding pending_typed_def by blast
  next
    fix k x pw assume "hm_get (hs_responses s) k = Some x \<and> pr_body x = Some pw"
    then show "\<forall>b \<in> set (pw_chunks pw). arc_inv b" using p b unfolding pending_typed_def by blast
  next
    fix h c sid k assume "cm_get (hs_map s) h = Some c" "hm_get (hc_read_credit c) sid = Some k"
    then show "\<exists>n. hc_stream_read_window c = Some n \<and> k \<le> n"
      using c [of h] by (simp add: conn_typed_def h3_ok_def h3_inv_def credit_ok_def)
  qed (use t p c in \<open>simp_all add: server_typed_def pending_typed_def conn_typed_def h3_ok_def h3_inv_def\<close>)
qed

text \<open>
  C1. The admission window of a worker is exact. At every moment of every run, whatever the
  interleaving of writers and worker, the units the window counts are those of the commands still
  queued, plus those of the writes and responses the worker holds, plus those lost by the commands
  that lose some. In particular no release ever takes the units of another stream.
\<close>

theorem h3_server_admission_exact:
  assumes L: "lib_laws L got sent finned" and r: "server_reach L w"
  shows "queued (hs_admission (ws_server w))
    = channel_units worker_command_outbound_bytes (ws_channel w) + hm_sum queued_units (hs_writes (ws_server w))
      + hm_sum pr_queued_units (hs_responses (ws_server w)) + ws_lost w"
  using h3_worker.reach_exact r unfolding server_reach_worker [OF L] by (fastforce simp: held_def)

text \<open>
  C37. A FIN sent after a blocked write is lost to the window. When the stream already has a held
  write with bytes in it, the empty chunk with a FIN that ends the stream was admitted with one unit,
  but the worker then holds no more units than before and releases none, so that unit stays counted
  for the life of the worker.
\<close>

theorem fin_unit_lost:
  assumes "hm_get (hs_responses s) (h, sid) = None" "hm_get (hs_writes s) (h, sid) = Some pw" "0 < queued_bytes pw"
    and "chunk_remaining_len ch = 0" "hm_wf (hs_writes s)"
    and "dispatch_command L now (StreamSend h sid ch True) s b = (stop, reply, s', b')"
  shows "worker_command_outbound_bytes (StreamSend h sid ch True) = 1 \<and> b' = b
    \<and> hs_admission s' = hs_admission s
    \<and> hm_sum queued_units (hs_writes s') = hm_sum queued_units (hs_writes s) \<and> hs_responses s' = hs_responses s"
proof -
  let ?pw = "push_and_fin pw ch True"
  have s': "s' = s\<lparr>hs_writes := hm_insert (h, sid) ?pw (hs_writes s)\<rparr>" and b': "b' = b"
    using assms(1,2,6) by (simp_all add: do_stream_send_def Let_def)
  have "queued_units ?pw = queued_units pw"
    unfolding push_and_fin_units using assms(3,4) by (simp add: queued_units_alt outbound_payload_units_def)
  with units_insert [OF assms(5), of queued_units "(h, sid)" ?pw] assms(2)
  have "hm_sum queued_units (hs_writes s') = hm_sum queued_units (hs_writes s)" by (simp add: s' units_at_def)
  then show ?thesis using b' assms(4) by (simp add: s' outbound_payload_units_def)
qed

subsection \<open>Reaping\<close>

definition holds :: "('h, 'q) h3_server \<Rightarrow> pending_key \<Rightarrow> bool" where
  "holds s k \<longleftrightarrow> hm_get (hs_writes s) k \<noteq> None \<or> hm_get (hs_responses s) k \<noteq> None"

lemma of_conn_streams:
  "sid \<in> set (map (snd \<circ> fst) (of_conn h m)) \<longleftrightarrow> (\<exists>k. unat (fst k) = h \<and> snd k = sid \<and> hm_get m k \<noteq> None)"
proof -
  have keys: "hm_get m k \<noteq> None \<longleftrightarrow> k \<in> fst ` set m" for k by (simp add: map_of_eq_None_iff)
  have "set (map (snd \<circ> fst) (of_conn h m)) = snd ` {k \<in> fst ` set m. unat (fst k) = h}"
    by (auto simp: of_conn_def image_iff case_prod_unfold) blast+
  moreover have "sid \<in> snd ` {k \<in> fst ` set m. unat (fst k) = h} \<longleftrightarrow> (\<exists>k. unat (fst k) = h \<and> snd k = sid \<and> k \<in> fst ` set m)"
    by blast
  ultimately show ?thesis unfolding keys by (simp only:)
qed

lemma abandoned_holds: "sid \<in> set (abandoned_streams h s) \<longleftrightarrow> (\<exists>k. unat (fst k) = h \<and> snd k = sid \<and> holds s k)"
proof -
  have "set (abandoned_streams h s) = set (map (snd \<circ> fst) (of_conn h (hs_writes s)))
      \<union> set (map (snd \<circ> fst) (of_conn h (hs_responses s)))"
    unfolding abandoned_streams_def set_remdups set_sort set_append ..
  then show ?thesis
    unfolding holds_def by (simp only: Un_iff of_conn_streams conj_disj_distribL ex_disj_distrib)
qed

text \<open>The events and the pending entries after one connection, and after all of them.\<close>

lemma release_events: "release_outbound_admission u s b = (s1, b1) \<Longrightarrow> b1 = b \<or> b1 = b @ [ev_write_ready 0]"
  by (cases "Admission.release (hs_admission s) u") (simp add: release_outbound_admission_def split: if_splits)

definition dead_only :: "nat set \<Rightarrow> ('h, 'q) h3_server \<Rightarrow> ('h, 'q) h3_server \<Rightarrow> bool" where
  "dead_only hs s s' \<longleftrightarrow> hs_writes s' = filter (\<lambda>e. unat (fst (fst e)) \<notin> hs) (hs_writes s)
     \<and> hs_responses s' = filter (\<lambda>e. unat (fst (fst e)) \<notin> hs) (hs_responses s)
     \<and> hs_offset s' = hs_offset s \<and> hs_last_expired s' = hs_last_expired s"

definition reap_events :: "'q quiche_api \<Rightarrow> (nat \<times> ('h, 'q) h3_connection) set \<Rightarrow> ('h, 'q) h3_server \<Rightarrow> js_event list \<Rightarrow> bool" where
  "reap_events Q hcs s ev \<longleftrightarrow>
     (\<forall>k. unat (fst k) \<in> fst ` hcs \<and> holds s k \<longrightarrow> ev_reset (hs_offset s OR fst k) (snd k) 0 \<in> set ev)
   \<and> (\<forall>(h, c) \<in> hcs. h \<notin> set (hs_last_expired s) \<longrightarrow> h3_session_close_event Q c (event_handle s h) \<in> set ev)
   \<and> (\<forall>e \<in> set ev. event_type e = EVENT_RESET \<longrightarrow>
        (\<exists>k. unat (fst k) \<in> fst ` hcs \<and> holds s k \<and> e = ev_reset (hs_offset s OR fst k) (snd k) 0))"

lemma close_not_reset: "event_type (h3_session_close_event Q c h) \<noteq> EVENT_RESET" "event_type (ev_write_ready h) \<noteq> EVENT_RESET"
  by (auto simp: h3_session_close_event_def close_event_def event_defs event_types split: option.splits)

lemma reap_one_events:
  assumes r: "reap_one Q (h, c) s b = (s', b')"
  shows "dead_only {h} s s' \<and> (\<exists>ev. b' = b @ ev \<and> reap_events Q {(h, c)} s ev)"
proof -
  let ?u = "hm_sum queued_units (of_conn h (hs_writes s)) + hm_sum pr_queued_units (of_conn h (hs_responses s))"
  define s1 where "s1 = s\<lparr>hs_timers := remove_connection (hs_timers s) h, hs_closes := hm_remove (word_of_nat h) (hs_closes s),
    hs_writes := not_of_conn h (hs_writes s), hs_responses := not_of_conn h (hs_responses s)\<rparr>"
  define rs where "rs = map (\<lambda>sid. ev_reset (event_handle s h) sid 0) (abandoned_streams h s)"
  define cl where "cl = (if h \<in> set (hs_last_expired s) then [] else [h3_session_close_event Q c (event_handle s h)])"
  obtain s2 b2 where rel: "release_outbound_admission ?u s1 (b @ rs) = (s2, b2)" by fastforce
  have s': "s' = s2" and b': "b' = b2 @ cl" using r rel by (auto simp: reap_one_def Let_def s1_def rs_def cl_def)
  obtain wr where b2: "b2 = (b @ rs) @ wr" and wr: "wr = [] \<or> wr = [ev_write_ready 0]" using release_events [OF rel] by auto
  have key: "h = unat (fst k) \<Longrightarrow> event_handle s h = hs_offset s OR fst k" for k :: pending_key by simp
  have "reap_events Q {(h, c)} s (rs @ wr @ cl)"
    unfolding reap_events_def
  proof (intro conjI allI ballI impI)
    fix k :: pending_key assume "unat (fst k) \<in> fst ` {(h, c)} \<and> holds s k"
    then show "ev_reset (hs_offset s OR fst k) (snd k) 0 \<in> set (rs @ wr @ cl)"
      using abandoned_holds [of "snd k" h s] key [of k] by (auto simp: rs_def image_iff)
  next
    fix e assume "e \<in> set (rs @ wr @ cl)" "event_type e = EVENT_RESET"
    then have "e \<in> set rs" using wr close_not_reset by (auto simp: cl_def split: if_splits)
    then show "\<exists>k. unat (fst k) \<in> fst ` {(h, c)} \<and> holds s k \<and> e = ev_reset (hs_offset s OR fst k) (snd k) 0"
      using abandoned_holds [of _ h s] key by (auto simp: rs_def) blast
  qed (auto simp: cl_def)
  moreover have "dead_only {h} s s'"
    using release_frame [OF rel] by (simp add: s' dead_only_def s1_def not_of_conn_def case_prod_unfold)
  ultimately show ?thesis using b' b2 by auto
qed

lemma reap_each_events:
  "reap_each Q hcs s b = (s', b') \<Longrightarrow>
     dead_only (fst ` set hcs) s s' \<and> (\<exists>ev. b' = b @ ev \<and> reap_events Q (set hcs) s ev)"
proof (induction hcs arbitrary: s b)
  case Nil
  then show ?case by (simp add: dead_only_def reap_events_def)
next
  case (Cons hc hcs)
  obtain h c where hc: "hc = (h, c)" by (cases hc)
  obtain s1 b1 where f: "reap_one Q hc s b = (s1, b1)" by fastforce
  with Cons.prems have r: "reap_each Q hcs s1 b1 = (s', b')" by simp
  obtain ev1 where one: "dead_only {h} s s1" "b1 = b @ ev1" "reap_events Q {(h, c)} s ev1"
    using reap_one_events [OF f [unfolded hc]] by auto
  obtain ev2 where rest: "dead_only (fst ` set hcs) s1 s'" "b' = b1 @ ev2" "reap_events Q (set hcs) s1 ev2"
    using Cons.IH [OF r] by auto
  have hold: "holds s1 k \<longleftrightarrow> holds s k \<and> unat (fst k) \<noteq> h" for k
    using one(1) by (auto simp: dead_only_def holds_def filter_map_get [where P = "\<lambda>ch. unat ch \<noteq> h", unfolded case_prod_unfold])
  have eqs: "hs_offset s1 = hs_offset s" "hs_last_expired s1 = hs_last_expired s" using one(1) by (simp_all add: dead_only_def)
  have "dead_only (fst ` set (hc # hcs)) s s'"
    using one(1) rest(1) by (simp add: dead_only_def hc)
  moreover have "reap_events Q (set (hc # hcs)) s (ev1 @ ev2)"
    using one(3) rest(3) unfolding reap_events_def hold eqs hc by (auto 0 3)
  ultimately show ?case using one(2) rest(2) by auto
qed

lemma drain_closed_out:
  assumes "cm_inv m" "drain_closed p m = (out, m')"
  shows "set out = {(h, c). cm_get m h = Some c \<and> p c}"
proof -
  let ?closed = "map fst (filter (\<lambda>(_, conn). p conn) (connections m))"
  have "distinct ?closed"
    using assms(1) by (intro distinct_map_filter) (simp add: cm_inv_def slab_wf_distinct)
  then have "set out = {(h, c). h \<in> set ?closed \<and> cm_get m h = Some c}"
    using remove_each_out [OF assms(1), of ?closed] assms(2) by (simp add: drain_closed_def)
  then show ?thesis unfolding closed_handles [OF assms(1), of _ p] by auto
qed

text \<open>
  C7. Reaping leaves no writer waiting. Every stream of a closed connection for which the worker still
  holds a write or a response gets a reset event under the connection's own handle, and no other stream
  gets one; the connection's closing is reported unless a timer already did; exactly the entries of
  closed connections are dropped and exactly their units are released.
\<close>

theorem reap_resets_abandoned:
  assumes t: "server_typed s" and q: "hm_sum queued_units (hs_writes s) + hm_sum pr_queued_units (hs_responses s) \<le> queued (hs_admission s)"
    and r: "reap_closed_connections Q s b = (s', b')"
  defines "dead \<equiv> \<lambda>h. \<exists>c. cm_get (hs_map s) h = Some c \<and> q_is_closed Q (hc_quiche c)"
  shows "(\<exists>ev. b' = b @ ev
      \<and> (\<forall>h sid. dead (unat h) \<and> holds s (h, sid) \<longrightarrow> ev_reset (hs_offset s OR h) sid 0 \<in> set ev)
      \<and> (\<forall>e \<in> set ev. event_type e = EVENT_RESET \<longrightarrow>
           (\<exists>h sid. dead (unat h) \<and> holds s (h, sid) \<and> e = ev_reset (hs_offset s OR h) sid 0))
      \<and> (\<forall>h c. cm_get (hs_map s) h = Some c \<and> q_is_closed Q (hc_quiche c) \<and> h \<notin> set (hs_last_expired s) \<longrightarrow>
           h3_session_close_event Q c (hs_offset s OR word_of_nat h) \<in> set ev))
    \<and> hs_writes s' = filter (\<lambda>((h, _), _). \<not> dead (unat h)) (hs_writes s)
    \<and> hs_responses s' = filter (\<lambda>((h, _), _). \<not> dead (unat h)) (hs_responses s)
    \<and> queued (hs_admission s') + hm_sum queued_units (hs_writes s) + hm_sum pr_queued_units (hs_responses s)
      = queued (hs_admission s) + hm_sum queued_units (hs_writes s') + hm_sum pr_queued_units (hs_responses s')"
proof -
  have m: "cm_inv (hs_map s)" using t by (simp add: server_typed_def map_typed_def conns_all_def)
  obtain closed m' where d: "drain_closed (\<lambda>c. q_is_closed Q (hc_quiche c)) (hs_map s) = (closed, m')" by fastforce
  obtain s1 b1 where e: "reap_each Q closed (s\<lparr>hs_map := m'\<rparr>) b = (s1, b1)" by fastforce
  have s': "s' = s1\<lparr>hs_last_expired := []\<rparr>" and b': "b' = b1" using r d e by (simp_all add: reap_closed_connections_def)
  note out = drain_closed_out [OF m d]
  have fsts: "fst ` set closed = {h. dead h}" unfolding out by (force simp: dead_def)
  obtain ev where D: "dead_only {h. dead h} s s1" and ev: "b1 = b @ ev" "reap_events Q (set closed) s ev"
    using reap_each_events [OF e] fsts by (auto simp: dead_only_def reap_events_def holds_def)
  have bal: "queued (hs_admission s') + held s = queued (hs_admission s) + held s'"
    using settles_reap [OF r] t q by (simp add: settles_def balance_def held_def)
  have "\<exists>h sid. dead (unat h) \<and> holds s (h, sid) \<and> x = ev_reset (hs_offset s OR h) sid 0"
    if "x \<in> set ev" "event_type x = EVENT_RESET" for x
    using ev(2) that fsts unfolding reap_events_def by (metis mem_Collect_eq prod.collapse)
  then show ?thesis
    using ev fsts D bal unfolding reap_events_def out b'
    by (auto simp: s' dead_only_def held_def case_prod_unfold)
qed

subsection \<open>Closing a stream\<close>

text \<open>
  C38. A stream closed by command is reported under the wrong connection. When the worker still holds
  data for the stream, the reset that the command reports carries the worker's local handle, without
  the worker's number; in every worker but the first, that is a handle of the first worker. The
  direct call for the same operation reports the handle the connection was announced under.
\<close>

theorem stream_close_wrong_handle:
  assumes "cm_get (hs_map s) (unat h) = Some c" "hm_get (hs_writes s) (h, sid) = Some pw" "0 < queued_units pw"
    and "hs_offset s = handle_offset v" "unat v < 4096" "v \<noteq> 0" "unat h < 2 ^ 20"
    and "dispatch_command L now (StreamClose h sid code) s b = (stop, reply, s1, b1)"
    and "close_stream (sl_quiche L) h sid code s b = (u, s2, b2)"
  shows "last b1 = ev_reset h sid (unat code) \<and> worker_index (ev_conn (last b1)) = 0
    \<and> last b2 = ev_reset (hs_offset s OR h) sid (unat code) \<and> worker_index (ev_conn (last b2)) = unat v"
proof -
  obtain s3 b3 where rel: "release_outbound_admission (fst (remove_pending_response (h, sid) (hs_responses s)) + queued_units pw)
      ((put_conn (unat h) (h3_stream_close (sl_quiche L) sid (unat code) c) s)
        \<lparr>hs_responses := snd (remove_pending_response (h, sid) (hs_responses s)), hs_writes := hm_remove (h, sid) (hs_writes s)\<rparr>) b = (s3, b3)"
    by fastforce
  have "do_stream_close (sl_quiche L) h sid code s b = (s3, b3 @ [ev_reset h sid (unat code)])"
    using assms(1-3) rel by (simp add: do_stream_close_def Let_def remove_pending_write_def case_prod_unfold)
  then have b1: "last b1 = ev_reset h sid (unat code)" using assms(8) by auto
  have b2: "last b2 = ev_reset (hs_offset s OR h) sid (unat code)"
    using assms(1-3,9) by (auto simp: close_stream_def Let_def remove_pending_write_def case_prod_unfold)
  have c: "ev_conn (ev_reset x sid (unat code)) = x" for x by (simp add: event_defs)
  have "worker_index (handle_offset v OR h) = unat v" "worker_index h = 0"
    using compose_handle(1) [OF assms(5,7)] worker_index_local [OF assms(7)] by simp_all
  then show ?thesis using b1 b2 c assms(4) by simp
qed

subsection \<open>A small server\<close>

text \<open>
  A server on the loopback transport, as worker 3: a packet opens a connection, and a write of three
  bytes is held because the transport has no credit.
\<close>

definition sample_lib :: "(script, loopback) server_lib" where
  "sample_lib =
     \<lparr>sl_h3 = scripted_api, sl_quiche = loopback_api,
      sl_header = (\<lambda>_. Some \<lparr>hdr_initial = True, hdr_version = 1, hdr_dcid = [5], hdr_scid = [6], hdr_token = None\<rparr>),
      sl_accept = (\<lambda>_ _ _ _. Inr lb_empty), sl_retry = (\<lambda>_ _ _ _ _. None), sl_hmac = (\<lambda>_ _. []),
      sl_vacant = fresh_key, sl_ip_text = (\<lambda>_. ''127.0.0.1''), sl_path_stats = (\<lambda>_. None), sl_qlog_path = (\<lambda>_. None)\<rparr>"

lemma sample_lib_laws: "lib_laws sample_lib sc_got (\<lambda>(s, q). lb_sent q) (\<lambda>(s, q). lb_fin q)"
  using scripted_recv_laws scripted_send_laws fresh_key_vacant by (simp add: lib_laws_def sample_lib_def)

definition sample_config :: http3_config where
  "sample_config = \<lparr>cfg_disable_retry = True, cfg_stream_read_window = Some 4, cfg_require_client_cert = False,
     cfg_qpack = (None, None), cfg_max_connections = 2, cfg_cid_encoding = Random\<rparr>"

definition sample_start :: "(script, loopback) h3_server" where
  "sample_start = h3_server_new [1, 2, 3] sample_config 3 (outbound_admission_new 8 4)"


lemma sample_lib_simps [simp]:
  "sl_h3 sample_lib = scripted_api" "sl_quiche sample_lib = loopback_api" "sl_vacant sample_lib = fresh_key"
  "sl_header sample_lib buf = Some \<lparr>hdr_initial = True, hdr_version = 1, hdr_dcid = [5], hdr_scid = [6], hdr_token = None\<rparr>"
  "sl_accept sample_lib a b c d = Inr lb_empty" "sl_ip_text sample_lib p = ''127.0.0.1''"
  by (simp_all add: sample_lib_def)

definition sample_accepted :: "(script, loopback) h3_server" where
  "sample_accepted = sample_start\<lparr>hs_map := (hs_map sample_start)
     \<lparr>by_dcid := [([9], 1), ([5], 1)], connections := [(1, h3_connection_new lb_empty [9] 0 None None)]\<rparr>\<rparr>"

lemma sample_accepted_simps [simp]:
  "connections (hs_map sample_accepted) = [(1, h3_connection_new lb_empty [9] 0 None None)]"
  "hs_stream_read_window sample_accepted = Some 4" "hs_offset sample_accepted = handle_offset 3"
  "hs_writes sample_accepted = []" "hs_responses sample_accepted = []" "hs_admission sample_accepted = outbound_admission_new 8 4"
  by (simp_all add: sample_accepted_def sample_start_def h3_server_new_def from_parts_def sample_config_def)

lemma sample_accepts:
  "route_or_accept sample_lib 0 0 (\<lambda>m. (cm_generate_scid m (Some [9]), m))
     \<lparr>hdr_initial = True, hdr_version = 1, hdr_dcid = [5], hdr_scid = [6], hdr_token = None\<rparr> (V4 1 2) (V4 3 4) sample_start [] []
   = (Some 1, sample_accepted, [], [ev_new_session (handle_offset 3 OR 1) ''127.0.0.1'' 2 []])"
  by (simp add: sample_accepted_def route_or_accept_def sample_start_def h3_server_new_def from_parts_def
      sample_config_def with_max_connections_and_cid_def with_key_bytes_def route_packet_def cm_generate_scid_def
      generate_scid_def accept_session_def accept_new_def h3_accept_def slab_insert_def fresh_key_def add_dcid_def
      apply_encoding_def port_of_def Let_def)

definition sample_state :: "(script, loopback) h3_server \<Rightarrow> bool" where
  "sample_state s \<longleftrightarrow> map fst (connections (hs_map s)) = [1]
     \<and> (case cm_get (hs_map s) 1 of None \<Rightarrow> False | Some c \<Rightarrow> hc_h3 c = Some sample_script \<and> hc_quiche c = lb_empty)
     \<and> hs_responses s = [] \<and> hs_offset s = handle_offset 3"


lemma sample_poll_none:
  assumes "hc_blocked c = blocked_new"
  obtains c' b' where "poll_connection sample_lib 0 1 0 s h c b = Some (c', b')" "hc_h3 c' = hc_h3 c" "hc_quiche c' = hc_quiche c"
proof -
  obtain ds ps where p: "ping_complete_acked 0 (q_stats loopback_api (hc_quiche c)) (hc_ping_state c) = (ds, ps)" by fastforce
  have "case poll_connection sample_lib 0 1 0 s h c b of None \<Rightarrow> False | Some (c', b') \<Rightarrow> hc_h3 c' = hc_h3 c \<and> hc_quiche c' = hc_quiche c"
    using assms p
    by (auto simp: poll_connection_def poll_h3_events_def h3_poll_drain_events_def prune_closed_blocked_streams_def
       h3_poll_ping_acks_def poll_datagram_events.simps loopback_api_def blocked_new_def Let_def split: option.splits)
  then show ?thesis using that by (auto split: option.splits)
qed

lemma sample_packet:
  obtains s1 out1 b1 where "process_packet sample_lib 0 0 1 (Some [9]) [] 0 [1] (V4 1 2) (V4 3 4) sample_start [] [] = Some (s1, out1, b1)"
    "sample_state s1" "hs_writes s1 = []" "hs_admission s1 = outbound_admission_new 8 4"
proof -
  have rl: "retired_loop loopback_api n q = Some ([], q)" for n q by (simp add: retired_loop.simps loopback_api_def)
  have tu: "top_up_server_scids loopback_api rng h m = Some m" for rng h and m :: "(script, loopback) h3_connection connection_map"
    by (simp add: top_up_server_scids.simps loopback_api_def split: option.splits)
  let ?c = "h3_connection_new lb_empty [9] 0 None None :: (script, loopback) h3_connection"
  let ?b = "[ev_new_session (handle_offset 3 OR 1) ''127.0.0.1'' 2 []]"
  obtain c1 where r: "h3_recv loopback_api (?c\<lparr>hc_stream_read_window := Some 4\<rparr>) [1] = (Inr 1, c1)"
    and c1: "hc_h3 c1 = None" "hc_quiche c1 = lb_empty" "hc_blocked c1 = blocked_new" "\<not> hc_is_established c1"
    by (simp add: h3_recv_def loopback_api_def h3_connection_new_def)
  obtain c2 b2 where h: "handshake sample_lib 0 False (handle_offset 3 OR 1) c1 ?b = (c2, b2)" by fastforce
  then have c2: "hc_h3 c2 = Some sample_script" "hc_quiche c2 = lb_empty" "hc_blocked c2 = blocked_new"
    using c1 by (auto simp: handshake_def init_h3_def loopback_api_def scripted_api_def Let_def split: if_splits)
  define c3 where "c3 = (if [] \<noteq> hc_conn_id c2 then c2\<lparr>hc_conn_id := []\<rparr> else c2)"
  have c3: "hc_h3 c3 = Some sample_script" "hc_quiche c3 = lb_empty" "hc_blocked c3 = blocked_new" using c2 by (simp_all add: c3_def)
  obtain c4 b4 where p: "poll_connection sample_lib 0 1 0 sample_accepted 1 c3 b2 = Some (c4, b4)" 
     and c4: "hc_h3 c4 = Some sample_script" "hc_quiche c4 = lb_empty" using sample_poll_none [OF c3(3), of sample_accepted 1 b2] c3 by metis
  have src: "q_source_id loopback_api q = []" for q by (simp add: loopback_api_def)
  define m where "m = (let m1 = cm_put (hs_map sample_accepted) 1 c4 in if [] \<noteq> hc_conn_id c2 then add_dcid m1 1 [] else m1)"
  have "c4\<lparr>hc_quiche := hc_quiche c4\<rparr> = c4" by simp
  then have "receive_packet sample_lib 0 1 0 False [1] 1 sample_accepted ?b = Some (True, sample_accepted\<lparr>hs_map := m\<rparr>, b4)"
    using r h p by (simp add: receive_packet_def cm_get_def rl Let_def c3_def src m_def del: One_nat_def)
  moreover have "sample_state (sample_accepted\<lparr>hs_map := m\<rparr>)"
    using c4 by (simp add: sample_state_def m_def Let_def cm_put_def cm_get_def add_dcid_def)
  ultimately show ?thesis using that
    by (simp add: process_packet_def sample_accepts tu arm_after_packet_def sample_state_def del: One_nat_def)
qed

definition sample_chunk :: chunk where
  "sample_chunk = chunk_unpooled (vec_of_slice [1, 2, 3])"

lemma sample_chunk_simps [simp]: "chunk_inv sample_chunk" "chunk_remaining_len sample_chunk = 3"
  "remaining_len (arc_from_chunk sample_chunk) = 3"
  by (simp_all add: sample_chunk_def chunk_unpooled_def chunk_inv_def chunk_remaining_len_def arc_from_chunk_len vec_of_slice_def)

text \<open>The transport has no credit, so the write is held.\<close>

lemma sample_blocked:
  assumes s: "sample_state s" "hs_writes s = []"
  obtains s' b' where "dispatch_command sample_lib 0 (StreamSend 1 0 sample_chunk False) s b = (False, NoReply, s', b')"
    "sample_state s'" "hs_writes s' = [((1, 0), pending_write_new (arc_from_chunk sample_chunk) False)]"
    "hs_admission s' = hs_admission s"
proof -
  obtain c where c: "cm_get (hs_map s) 1 = Some c" "hc_h3 c = Some sample_script" "hc_quiche c = lb_empty"
    using s(1) by (auto simp: sample_state_def split: option.splits)
  let ?out = "send_out 0 False (Some (arc_from_chunk sample_chunk))"
  have lb: "lb_credit lb_empty = 0" "q_stream_capacity loopback_api q 0 = (Inr (lb_credit q), q)" for q
    by (simp_all add: lb_empty_def loopback_api_def)
  have same: "c\<lparr>hc_quiche := lb_empty\<rparr> = c" using c by simp
  have snd: "send_body_chunk scripted_api loopback_api 0 c sample_chunk False = (Inr ?out, hc_block 0 c)"
    using c by (simp add: send_body_chunk_def send_body_arcbuf_def lb same body_required_def)
  define s1 where "s1 = s\<lparr>hs_map := cm_put (hs_map s) 1 (hc_block 0 c)\<rparr>"
  have st: "sample_state s1"
    using s(1) c by (auto simp: s1_def sample_state_def hc_block_def cm_put_get) (simp add: cm_put_def slab_put_keys)
  have eqs: "hs_writes s1 = []" "hs_admission s1 = hs_admission s" by (simp_all add: s1_def s)
  have acc: "accepted_outbound_payload_units 3 False 0 False = 0" by (simp add: accepted_outbound_payload_units_def)
  have rel: "release_outbound_admission 0 s1 b = (s1, b)"
    by (simp add: release_outbound_admission_def Admission.release_def)
  have "send_chunk_now sample_lib 1 0 sample_chunk False 3 c s b
      = (s1\<lparr>hs_writes := [((1, 0), pending_write_new (arc_from_chunk sample_chunk) False)]\<rparr>, b @ [ev_stream_blocked (hs_offset s OR 1) 0])"
    by (simp add: send_chunk_now_def snd Let_def acc s1_def [symmetric, unfolded One_nat_def] rel eqs insert_pending_write_def)
  then have "dispatch_command sample_lib 0 (StreamSend 1 0 sample_chunk False) s b = 
    (False, NoReply, s1\<lparr>hs_writes := [((1, 0), pending_write_new (arc_from_chunk sample_chunk) False)]\<rparr>, b @ [ev_stream_blocked (hs_offset s OR 1) 0])"
    using s c(1) by (simp add: do_stream_send_def sample_state_def Let_def outbound_payload_units_def)
  then show ?thesis by (rule that) (use st eqs in \<open>simp_all add: sample_state_def\<close>)
qed

definition sample_pw :: pending_write where
  "sample_pw = pending_write_new (arc_from_chunk sample_chunk) False"

lemma sample_pw_simps [simp]: "queued_bytes sample_pw = 3" "queued_units sample_pw = 3"
  by (simp_all add: sample_pw_def pending_write_new_def queued_bytes_def queued_units_alt outbound_payload_units_def)

lemma sample_run:
  obtains s :: "(script, loopback) h3_server" where
    "server_reach sample_lib \<lparr>ws_server = s, ws_channel = [], ws_lost = 0\<rparr>"
    "sample_state s" "hs_writes s = [((1, 0), sample_pw)]" "queued (hs_admission s) = 3"
proof -
  obtain s1 out1 b1 where p: "process_packet sample_lib 0 0 1 (Some [9]) [] 0 [1] (V4 1 2) (V4 3 4) sample_start [] [] = Some (s1, out1, b1)"
    and s1: "sample_state s1" "hs_writes s1 = []" "hs_admission s1 = outbound_admission_new 8 4" by (rule sample_packet)
  let ?cmd = "StreamSend 1 0 sample_chunk False" 
  define adm where "adm = snd (try_admit (outbound_admission_new 8 4) 3)"
  have adm: "try_admit (outbound_admission_new 8 4) 3 = (True, adm)" "queued adm = 3"
    by (simp_all add: adm_def try_admit_def outbound_admission_new_def admit_next_def admission_watermarks_new_def checked_add_def usize_max_def Let_def)
  obtain s2 b2 where d: "dispatch_command sample_lib 0 ?cmd (s1\<lparr>hs_admission := adm\<rparr>) [] = (False, NoReply, s2, b2)"
    and s2: "sample_state s2" "hs_writes s2 = [((1, 0), sample_pw)]" "hs_admission s2 = adm"
    using sample_blocked [of "s1\<lparr>hs_admission := adm\<rparr>" "[]"] s1 by (auto simp: sample_state_def sample_pw_def)
  let ?w = "\<lambda>s cs. \<lparr>ws_server = s, ws_channel = cs, ws_lost = 0\<rparr>"
  have "h3_fresh sample_start" unfolding h3_fresh_def sample_start_def by blast
  then have "server_reach sample_lib (?w sample_start [])" by (rule system_reach.start)
  moreover have "wi_background (h3_iface sample_lib) sample_start s1" using h3_background.packet [OF p] by simp
  ultimately have "server_reach sample_lib (?w s1 [])"
    using system_reach.step system_step.background [of "h3_iface sample_lib" "?w sample_start []" s1] by fastforce
  then have "server_reach sample_lib (?w (s1\<lparr>hs_admission := adm\<rparr>) [?cmd])"
    by (rule system_reach.step)
      (use system_step.submit [of "h3_iface sample_lib" "?w s1 []" ?cmd adm] adm(1) s1(3) in \<open>simp add: cmd_ok_def outbound_payload_units_def\<close>)
  moreover have "wi_dispatch (h3_iface sample_lib) ?cmd (s1\<lparr>hs_admission := adm\<rparr>) s2" using d unfolding h3_iface_simps by blast
  ultimately have "server_reach sample_lib (?w s2 [])"
    using system_reach.step system_step.command [of "?w (s1\<lparr>hs_admission := adm\<rparr>) [?cmd]" ?cmd "[]" "h3_iface sample_lib" s2] s1
    by (fastforce simp: sample_state_def simp del: h3_iface_simps(7) dispatch_command.simps)
  then show ?thesis by (rule that) (use s2 adm(2) in simp_all)
qed

theorem h3_server_admission_exact_witness:
  "\<exists>w. server_reach sample_lib w \<and> hs_writes (ws_server w) = [((1, 0), sample_pw)] \<and> hs_responses (ws_server w) = []
    \<and> ws_channel w = [] \<and> queued (hs_admission (ws_server w)) = 3 + ws_lost w"
proof -
  obtain s :: "(script, loopback) h3_server" where s: "server_reach sample_lib \<lparr>ws_server = s, ws_channel = [], ws_lost = 0\<rparr>"
    "sample_state s" "hs_writes s = [((1, 0), sample_pw)]" by (rule sample_run)
  from h3_server_admission_exact [OF sample_lib_laws s(1)] s show ?thesis
    by (intro exI [of _ "\<lparr>ws_server = s, ws_channel = [], ws_lost = 0\<rparr>"]) (simp add: sample_state_def hm_sum_def)
qed

theorem h3_server_well_typed_witness:
  "\<exists>w c. server_reach sample_lib w \<and> cm_get (hs_map (ws_server w)) 1 = Some c \<and> hc_pending_body c = []
    \<and> hm_wf (hs_writes (ws_server w)) \<and> timer_inv (hs_timers (ws_server w))"
proof -
  obtain s :: "(script, loopback) h3_server" where s: "server_reach sample_lib \<lparr>ws_server = s, ws_channel = [], ws_lost = 0\<rparr>"
    "sample_state s" by (rule sample_run)
  then obtain c where "cm_get (hs_map s) 1 = Some c" by (auto simp: sample_state_def split: option.splits)
  with h3_server_well_typed [OF sample_lib_laws s(1)] s(1) show ?thesis
    by (intro exI [of _ "\<lparr>ws_server = s, ws_channel = [], ws_lost = 0\<rparr>"] exI [of _ c]) simp
qed

theorem fin_unit_lost_witness:
  "\<exists>s s' b'. hs_writes s = [((1, 0), sample_pw)]
    \<and> dispatch_command sample_lib 0 (StreamSend 1 0 chunk_empty True) s [] = (False, NoReply, s', b')
    \<and> queued (hs_admission s) = 3 \<and> queued (hs_admission s') = 3
    \<and> hm_sum queued_units (hs_writes s') = hm_sum queued_units (hs_writes s)"
proof -
  obtain s :: "(script, loopback) h3_server" where s: "sample_state s" "hs_writes s = [((1, 0), sample_pw)]"
    "queued (hs_admission s) = 3" by (rule sample_run)
  obtain stop reply s' b' where d: "dispatch_command sample_lib 0 (StreamSend 1 0 chunk_empty True) s [] = (stop, reply, s', b')"
    by (cases "dispatch_command sample_lib 0 (StreamSend 1 0 chunk_empty True) s []")
  then have "\<not> stop" "reply = NoReply" by (auto split: prod.splits)
  moreover have "chunk_remaining_len chunk_empty = 0" by (simp add: chunk_remaining_len_def chunk_empty_def vec_new_def)
  ultimately show ?thesis using fin_unit_lost [OF _ _ _ _ _ d, of sample_pw] s d
    by (intro exI [of _ s] exI [of _ s'] exI [of _ b']) (simp add: sample_state_def hm_wf_def)
qed

theorem stream_close_wrong_handle_witness:
  "\<exists>s :: (script, loopback) h3_server. \<exists>s1 b1 u s2 b2. hs_offset s = handle_offset 3
    \<and> dispatch_command sample_lib 0 (StreamClose 1 0 7) s [] = (False, NoReply, s1, b1)
    \<and> close_stream loopback_api 1 0 7 s [] = (u, s2, b2)
    \<and> worker_index (ev_conn (last b1)) = 0 \<and> worker_index (ev_conn (last b2)) = 3"
proof -
  obtain s :: "(script, loopback) h3_server" where s: "sample_state s" "hs_writes s = [((1, 0), sample_pw)]" by (rule sample_run)
  then obtain c where c: "cm_get (hs_map s) 1 = Some c" by (auto simp: sample_state_def split: option.splits)
  obtain s1 b1 where d: "dispatch_command sample_lib 0 (StreamClose 1 0 7) s [] = (False, NoReply, s1, b1)" by fastforce
  obtain u s2 b2 where e: "close_stream (sl_quiche sample_lib) 1 0 7 s [] = (u, s2, b2)" by (cases "close_stream (sl_quiche sample_lib) 1 0 7 s []")
  have "cm_get (hs_map s) (unat (1 :: 32 word)) = Some c" "hm_get (hs_writes s) (1, 0) = Some sample_pw" "0 < queued_units sample_pw"
    "hs_offset s = handle_offset 3" "unat (3 :: 32 word) < 4096" "(3 :: 32 word) \<noteq> 0" "unat (1 :: 32 word) < 2 ^ 20"
    using s c by (simp_all add: sample_state_def)
  from stream_close_wrong_handle [OF this d e]
  have "worker_index (ev_conn (last b1)) = 0 \<and> worker_index (ev_conn (last b2)) = unat (3 :: 32 word)" by blast
  then show ?thesis using d e s by (intro exI [of _ s] exI) (auto simp: sample_state_def)
qed

definition closed_api :: "loopback quiche_api" where
  "closed_api = loopback_api\<lparr>q_is_closed := \<lambda>_. True\<rparr>"

theorem reap_resets_abandoned_witness:
  "\<exists>s :: (script, loopback) h3_server. \<exists>s' b'. hs_writes s = [((1, 0), sample_pw)] \<and> reap_closed_connections closed_api s [] = (s', b')
    \<and> ev_reset (handle_offset 3 OR 1) 0 0 \<in> set b' \<and> hs_writes s' = [] \<and> queued (hs_admission s') = 0"
proof -
  obtain s :: "(script, loopback) h3_server" where s: "server_reach sample_lib \<lparr>ws_server = s, ws_channel = [], ws_lost = 0\<rparr>"
    "sample_state s" "hs_writes s = [((1, 0), sample_pw)]" "queued (hs_admission s) = 3" by (rule sample_run)
  obtain c where c: "cm_get (hs_map s) 1 = Some c" using s(2) by (auto simp: sample_state_def split: option.splits)
  obtain s' b' where r: "reap_closed_connections closed_api s [] = (s', b')" by fastforce
  have t: "server_typed s" using h3_worker.reach_typed s(1) unfolding server_reach_worker [OF sample_lib_laws] by fastforce
  have u: "hm_sum queued_units (hs_writes s) + hm_sum pr_queued_units (hs_responses s) = 3"
    using s by (simp add: sample_state_def hm_sum_def)
  have q: "q_is_closed closed_api x" for x by (simp add: closed_api_def)
  from u s(4) have "hm_sum queued_units (hs_writes s) + hm_sum pr_queued_units (hs_responses s) \<le> queued (hs_admission s)" by simp
  note R = reap_resets_abandoned [OF t this r]
  have dead: "\<exists>x. cm_get (hs_map s) (unat (1 :: 32 word)) = Some x \<and> q_is_closed closed_api (hc_quiche x)" using c q by simp
  have "ev_reset (hs_offset s OR 1) 0 0 \<in> set b'" using R dead s(3) by (auto simp: holds_def)
  moreover have "hs_writes s' = []" using R [THEN conjunct2, THEN conjunct1] dead s(3) by simp
  moreover have "hs_responses s' = []" using R [THEN conjunct2, THEN conjunct2, THEN conjunct1] s(2) by (simp add: sample_state_def)
  moreover have "queued (hs_admission s') = 0"
    using R [THEN conjunct2, THEN conjunct2, THEN conjunct2] u s(4) calculation(2,3) by (simp add: hm_sum_def)
  ultimately show ?thesis
    using r s(2,3) by (intro exI [of _ s] exI [of _ s'] exI [of _ b']) (simp add: sample_state_def)
qed

end
