(* ===== verification/Event_Batcher.thy ===== *)
theory Event_Batcher
  imports H3_Event
begin

text \<open>
  How events reach JavaScript: \<^verbatim>\<open>EventBatcher\<close> and the sink of \<^verbatim>\<open>event_loop.rs\<close>, and the gauge of
  events that JavaScript has not acknowledged (\<^verbatim>\<open>reactor_metrics.rs\<close>). The thread-safe function of napi
  is a log of the calls made and a function that answers the next one; the counters are natural numbers.
  The gauge is one per process; here it travels with the batcher, and what other workers and the
  acknowledgements of JavaScript do to it is an input of the event loop.
\<close>

subsection \<open>The gauge of outstanding events\<close>

record event_gauge =
  eg_outstanding :: nat
  eg_last_progress_ms :: nat

definition release_event_batch_outstanding :: "nat \<Rightarrow> event_gauge \<Rightarrow> event_gauge" where
  "release_event_batch_outstanding n g = g\<lparr>eg_outstanding := saturating_sub (eg_outstanding g) n\<rparr>"

definition record_event_batch_flush :: "nat \<Rightarrow> nat \<Rightarrow> event_gauge \<Rightarrow> event_gauge" where
  "record_event_batch_flush now_ms n g =
     g\<lparr>eg_last_progress_ms := now_ms, eg_outstanding := eg_outstanding g + n\<rparr>"

definition record_event_batch_drop :: "nat \<Rightarrow> nat \<Rightarrow> event_gauge \<Rightarrow> event_gauge" where
  "record_event_batch_drop now_ms n g = release_event_batch_outstanding n (g\<lparr>eg_last_progress_ms := now_ms\<rparr>)"

definition record_event_batch_ack :: "nat \<Rightarrow> nat \<Rightarrow> event_gauge \<Rightarrow> event_gauge" where
  "record_event_batch_ack now_ms n g = release_event_batch_outstanding n (g\<lparr>eg_last_progress_ms := now_ms\<rparr>)"

definition self_heal_event_batch_if_stuck_at :: "nat \<Rightarrow> nat \<Rightarrow> nat \<Rightarrow> event_gauge \<Rightarrow> nat \<times> event_gauge" where
  "self_heal_event_batch_if_stuck_at high_water stuck_after_ms now_ms g =
     (if eg_outstanding g \<le> high_water then (eg_outstanding g, g)
      else if eg_last_progress_ms g = 0 \<or> saturating_sub now_ms (eg_last_progress_ms g) \<le> stuck_after_ms then (eg_outstanding g, g)
      else (0, g\<lparr>eg_outstanding := 0, eg_last_progress_ms := now_ms\<rparr>))"

subsection \<open>The batcher\<close>

definition MAX_BATCH_SIZE :: nat where "MAX_BATCH_SIZE = 2048"

definition APP_EVENT_PAUSE_HIGH_WATER :: nat where "APP_EVENT_PAUSE_HIGH_WATER = MAX_BATCH_SIZE * 2"

datatype napi_status = NapiOk | NapiClosing | NapiFailed

record batcher_stats =
  bs_flush_count :: nat
  bs_attempted_events :: nat
  bs_dropped_events :: nat
  bs_sink_errors :: nat
  bs_max_batch_size :: nat

record tsfn =
  tf_answer :: "nat \<Rightarrow> napi_status"
  tf_calls :: "(js_event list \<times> napi_status) list"

record event_batcher =
  eb_batch :: "js_event list"
  eb_sink :: tsfn
  eb_stats :: batcher_stats
  eb_gauge :: event_gauge

definition stats_new :: batcher_stats where
  "stats_new = \<lparr>bs_flush_count = 0, bs_attempted_events = 0, bs_dropped_events = 0, bs_sink_errors = 0, bs_max_batch_size = 0\<rparr>"

definition with_sink :: "tsfn \<Rightarrow> event_gauge \<Rightarrow> event_batcher" where
  "with_sink sink g = \<lparr>eb_batch = [], eb_sink = sink, eb_stats = stats_new, eb_gauge = g\<rparr>"

definition record_flush :: "nat \<Rightarrow> nat \<Rightarrow> event_batcher \<Rightarrow> event_batcher" where
  "record_flush now_ms n b =
     b\<lparr>eb_stats := (eb_stats b)\<lparr>bs_flush_count := bs_flush_count (eb_stats b) + 1,
         bs_attempted_events := bs_attempted_events (eb_stats b) + n,
         bs_max_batch_size := max (bs_max_batch_size (eb_stats b)) n\<rparr>,
       eb_gauge := record_event_batch_flush now_ms n (eb_gauge b)\<rparr>"

definition record_drop :: "nat \<Rightarrow> nat \<Rightarrow> event_batcher \<Rightarrow> event_batcher" where
  "record_drop now_ms n b =
     b\<lparr>eb_stats := (eb_stats b)\<lparr>bs_dropped_events := bs_dropped_events (eb_stats b) + n\<rparr>,
       eb_gauge := record_event_batch_drop now_ms n (eb_gauge b)\<rparr>"

definition record_sink_error :: "event_batcher \<Rightarrow> event_batcher" where
  "record_sink_error b = b\<lparr>eb_stats := (eb_stats b)\<lparr>bs_sink_errors := bs_sink_errors (eb_stats b) + 1\<rparr>\<rparr>"

definition delivered_events :: "batcher_stats \<Rightarrow> nat" where
  "delivered_events st = saturating_sub (bs_attempted_events st) (bs_dropped_events st)"

definition tsfn_call :: "js_event list \<Rightarrow> tsfn \<Rightarrow> napi_status \<times> tsfn" where
  "tsfn_call events t =
     (let status = tf_answer t (length (tf_calls t)) in (status, t\<lparr>tf_calls := tf_calls t @ [(events, status)]\<rparr>))"

definition emit :: "nat \<Rightarrow> js_event list \<Rightarrow> event_batcher \<Rightarrow> bool \<times> event_batcher" where
  "emit now_ms events b =
     (case tsfn_call events (eb_sink b) of (status, t) \<Rightarrow>
        let b = b\<lparr>eb_sink := t\<rparr> in
        (case status of
           NapiOk \<Rightarrow> (True, b)
         | NapiClosing \<Rightarrow> (False, record_drop now_ms (length events) b)
         | NapiFailed \<Rightarrow> (True, record_drop now_ms (length events) (record_sink_error b))))"

definition batcher_flush :: "nat \<Rightarrow> event_batcher \<Rightarrow> bool \<times> event_batcher" where
  "batcher_flush now_ms b =
     (if eb_batch b = [] then (True, b)
      else emit now_ms (eb_batch b) (record_flush now_ms (length (eb_batch b)) (b\<lparr>eb_batch := []\<rparr>)))"

definition append_atomic :: "nat \<Rightarrow> js_event list \<Rightarrow> event_batcher \<Rightarrow> bool \<times> event_batcher" where
  "append_atomic now_ms events b =
     (if events = [] then (True, b)
      else
        (case (if eb_batch b \<noteq> [] \<and> MAX_BATCH_SIZE < length (eb_batch b) + length events
               then batcher_flush now_ms b else (True, b)) of
           (ok, b') \<Rightarrow> if ok then (True, b'\<lparr>eb_batch := eb_batch b' @ events\<rparr>) else (False, b')))"

definition app_event_budget :: "event_batcher \<Rightarrow> nat" where
  "app_event_budget b =
     (if APP_EVENT_PAUSE_HIGH_WATER \<le> eg_outstanding (eb_gauge b) then 0
      else saturating_sub MAX_BATCH_SIZE (length (eb_batch b)))"

definition push_shutdown_complete :: "event_batcher \<Rightarrow> event_batcher" where
  "push_shutdown_complete b = b\<lparr>eb_batch := eb_batch b @ [ev_shutdown_complete]\<rparr>"

subsection \<open>What the batcher promises\<close>

text \<open>The batches handed to the sink, and all that was handed over or still waits.\<close>

definition sent_batches :: "event_batcher \<Rightarrow> js_event list list" where
  "sent_batches b = map fst (tf_calls (eb_sink b))"

definition batcher_events :: "event_batcher \<Rightarrow> js_event list" where
  "batcher_events b = concat (sent_batches b) @ eb_batch b"

lemma emit_simps:
  "eb_batch (snd (emit t ev b)) = eb_batch b" "sent_batches (snd (emit t ev b)) = sent_batches b @ [ev]"
  by (simp_all add: emit_def tsfn_call_def Let_def sent_batches_def record_drop_def record_sink_error_def split: napi_status.splits)

lemma record_flush_simps [simp]:
  "eb_batch (record_flush t n b) = eb_batch b" "sent_batches (record_flush t n b) = sent_batches b"
  by (simp_all add: record_flush_def sent_batches_def)

lemma flush_batch: "eb_batch (snd (batcher_flush t b)) = []"
  by (simp add: batcher_flush_def emit_simps)

lemma flush_sent: "sent_batches (snd (batcher_flush t b)) = sent_batches b @ (if eb_batch b = [] then [] else [eb_batch b])"
  by (simp add: batcher_flush_def emit_simps) (simp add: sent_batches_def)

lemma flush_events: "batcher_events (snd (batcher_flush t b)) = batcher_events b"
  by (simp add: batcher_events_def flush_sent flush_batch)

lemma append_cases:
  assumes "append_atomic t ev b = (ok, b')"
  obtains (idle) "ev = []" "ok" "b' = b"
  | (joined) "ev \<noteq> []" "ok" "b' = b\<lparr>eb_batch := eb_batch b @ ev\<rparr>" "eb_batch b = [] \<or> length (eb_batch b) + length ev \<le> MAX_BATCH_SIZE"
  | (flushed) b1 where "ev \<noteq> []" "ok" "batcher_flush t b = (True, b1)" "b' = b1\<lparr>eb_batch := ev\<rparr>"
  | (closed) "ev \<noteq> []" "\<not> ok" "batcher_flush t b = (False, b')"
proof (cases "ev = []")
  case True
  with assms have "ok" "b' = b" by (simp_all add: append_atomic_def)
  from idle [OF True this] show ?thesis .
next
  case ne: False
  show ?thesis
  proof (cases "eb_batch b \<noteq> [] \<and> MAX_BATCH_SIZE < length (eb_batch b) + length ev")
    case True
    obtain r b1 where f: "batcher_flush t b = (r, b1)" by fastforce
    have "eb_batch b1 = []" using flush_batch [of t b] f by simp
    with assms ne True f have e: "(ok, b') = (if r then (True, b1\<lparr>eb_batch := ev\<rparr>) else (False, b1))"
      by (simp add: append_atomic_def split: if_splits)
    show ?thesis
    proof (cases r)
      case True
      with e f show ?thesis by (intro flushed [OF ne, of b1]) simp_all
    next
      case False
      with e f show ?thesis by (intro closed [OF ne]) simp_all
    qed
  next
    case False
    from assms ne False have "ok" "b' = b\<lparr>eb_batch := eb_batch b @ ev\<rparr>" by (simp_all add: append_atomic_def)
    with False show ?thesis by (intro joined [OF ne]) auto
  qed
qed

lemma append_events:
  assumes "append_atomic t ev b = (ok, b')"
  shows "batcher_events b' = batcher_events b @ (if ok then ev else [])"
  using assms
proof (cases rule: append_cases)
  case (flushed b1)
  then show ?thesis using flush_events [of t b] flush_batch [of t b] by (simp add: batcher_events_def sent_batches_def)
next
  case closed
  then show ?thesis using flush_events [of t b] by simp
qed (simp_all add: batcher_events_def sent_batches_def)

subsubsection \<open>Groups of events\<close>

text \<open>A use of the batcher: groups are appended, the batch is flushed at any time, and others move the
  gauge. The groups that were appended are a history.\<close>

inductive batcher_run :: "js_event list list \<Rightarrow> event_batcher \<Rightarrow> bool" where
  new: "tf_calls sink = [] \<Longrightarrow> batcher_run [] (with_sink sink g)"
| append: "batcher_run gs b \<Longrightarrow> append_atomic t ev b = (True, b') \<Longrightarrow> batcher_run (if ev = [] then gs else gs @ [ev]) b'"
| flush: "batcher_run gs b \<Longrightarrow> batcher_flush t b = (ok, b') \<Longrightarrow> batcher_run gs b'"
| gauge: "batcher_run gs b \<Longrightarrow> batcher_run gs (b\<lparr>eb_gauge := g\<rparr>)"

text \<open>A list of batches that are runs of whole groups, each no larger than the cap unless it is one group.\<close>

definition packed :: "js_event list list list \<Rightarrow> js_event list list \<Rightarrow> bool" where
  "packed parts batches \<longleftrightarrow> map concat parts = batches
     \<and> (\<forall>p \<in> set parts. [] \<notin> set p \<and> p \<noteq> [] \<and> (length p = 1 \<or> length (concat p) \<le> MAX_BATCH_SIZE))"

definition all_batches :: "event_batcher \<Rightarrow> js_event list list" where
  "all_batches b = sent_batches b @ (if eb_batch b = [] then [] else [eb_batch b])"

lemma packed_snoc: "packed parts bs \<Longrightarrow> ev \<noteq> [] \<Longrightarrow> packed (parts @ [[ev]]) (bs @ [ev])"
  by (auto simp: packed_def)

lemma packed_extend:
  assumes "packed parts (bs @ [batch])" "ev \<noteq> []" "length batch + length ev \<le> MAX_BATCH_SIZE"
  shows "\<exists>parts'. packed parts' (bs @ [batch @ ev]) \<and> concat parts' = concat parts @ [ev]"
proof -
  from assms(1) obtain ps p where p: "parts = ps @ [p]" "concat p = batch" "map concat ps = bs"
    by (cases parts rule: rev_cases) (auto simp: packed_def)
  with assms have "packed (ps @ [p @ [ev]]) (bs @ [batch @ ev])" by (auto simp: packed_def)
  with p show ?thesis by (intro exI [of _ "ps @ [p @ [ev]]"]) simp
qed

lemma run_packed: "batcher_run gs b \<Longrightarrow> \<exists>parts. packed parts (all_batches b) \<and> concat parts = gs"
proof (induction rule: batcher_run.induct)
  case (new sink g)
  then show ?case by (auto simp: packed_def all_batches_def sent_batches_def with_sink_def)
next
  case (append gs b t ev b')
  then obtain parts where p: "packed parts (all_batches b)" "concat parts = gs" by blast
  from append.hyps(2) show ?case
  proof (cases rule: append_cases)
    case idle
    with p show ?thesis by auto
  next
    case joined
    show ?thesis
    proof (cases "eb_batch b = []")
      case True
      with p joined packed_snoc [OF p(1), of ev] show ?thesis
        by (intro exI [of _ "parts @ [[ev]]"]) (simp add: all_batches_def sent_batches_def)
    next
      case False
      with p joined packed_extend [of parts "sent_batches b" "eb_batch b" ev] show ?thesis
        by (simp add: all_batches_def sent_batches_def)
    qed
  next
    case (flushed b1)
    then have "all_batches b' = all_batches b @ [ev]"
      using flush_sent [of t b] flush_batch [of t b] by (simp add: all_batches_def sent_batches_def)
    with p flushed packed_snoc [OF p(1), of ev] show ?thesis by (intro exI [of _ "parts @ [[ev]]"]) simp
  qed simp
next
  case (flush gs b t ok b')
  then have "all_batches b' = all_batches b"
    using flush_sent [of t b] flush_batch [of t b] by (simp add: all_batches_def)
  with flush.IH show ?case by simp
next
  case (gauge gs b g)
  have "all_batches (b\<lparr>eb_gauge := g\<rparr>) = all_batches b" by (simp add: all_batches_def sent_batches_def)
  with gauge.IH show ?case by simp
qed


definition sample_sink :: tsfn where
  "sample_sink = \<lparr>tf_answer = (\<lambda>_. NapiOk), tf_calls = []\<rparr>"

definition sample_gauge :: event_gauge where
  "sample_gauge = \<lparr>eg_outstanding = 0, eg_last_progress_ms = 1\<rparr>"


subsubsection \<open>The gauge\<close>

lemma flush_gauge:
  "eg_outstanding (eb_gauge (snd (batcher_flush t b))) =
     eg_outstanding (eb_gauge b) + (if eb_batch b \<noteq> [] \<and> tf_answer (eb_sink b) (length (tf_calls (eb_sink b))) = NapiOk then length (eb_batch b) else 0)"
  by (simp add: batcher_flush_def emit_def tsfn_call_def Let_def record_flush_def record_drop_def record_sink_error_def
      record_event_batch_flush_def record_event_batch_drop_def release_event_batch_outstanding_def saturating_sub_def split: napi_status.splits)

text \<open>
  C40. The gauge can stick. At exactly the high-water mark, which two full batches reach, the worker
  reports no more application events, and the repair that clears a gauge without progress never acts,
  however long the gauge has been unchanged: it asks for more than the mark where the pause asks for the
  mark. One event above the mark the repair acts after five seconds.
\<close>

theorem gauge_sticks_at_high_water:
  assumes "eg_outstanding (eb_gauge b) = APP_EVENT_PAUSE_HIGH_WATER"
  shows "app_event_budget b = 0
    \<and> self_heal_event_batch_if_stuck_at APP_EVENT_PAUSE_HIGH_WATER 5000 now (eb_gauge b) = (APP_EVENT_PAUSE_HIGH_WATER, eb_gauge b)
    \<and> (0 < progress \<and> progress + 5000 < now \<longrightarrow>
        eg_outstanding (snd (self_heal_event_batch_if_stuck_at APP_EVENT_PAUSE_HIGH_WATER 5000 now
          \<lparr>eg_outstanding = APP_EVENT_PAUSE_HIGH_WATER + 1, eg_last_progress_ms = progress\<rparr>)) = 0)"
  using assms by (auto simp: app_event_budget_def self_heal_event_batch_if_stuck_at_def saturating_sub_def)

definition full_batch :: "event_batcher \<Rightarrow> event_batcher" where
  "full_batch b = snd (batcher_flush 1 (snd (append_atomic 1 (replicate MAX_BATCH_SIZE (ev_drain 1 4)) b)))"

lemma full_batch_gauge:
  assumes "eb_batch b = []" "tf_answer (eb_sink b) = (\<lambda>_. NapiOk)"
  shows "eg_outstanding (eb_gauge (full_batch b)) = eg_outstanding (eb_gauge b) + MAX_BATCH_SIZE"
    "eb_batch (full_batch b) = []" "tf_answer (eb_sink (full_batch b)) = (\<lambda>_. NapiOk)"
  using assms by (simp_all add: full_batch_def append_atomic_def flush_gauge flush_batch MAX_BATCH_SIZE_def)
    (simp add: batcher_flush_def emit_def tsfn_call_def record_flush_def Let_def)

theorem gauge_sticks_at_high_water_witness:
  "app_event_budget (full_batch (full_batch (with_sink sample_sink sample_gauge))) = 0"
proof -
  let ?b = "with_sink sample_sink sample_gauge"
  have b: "eb_batch ?b = []" "tf_answer (eb_sink ?b) = (\<lambda>_. NapiOk)" "eg_outstanding (eb_gauge ?b) = 0"
    by (simp_all add: with_sink_def sample_sink_def sample_gauge_def)
  have "eg_outstanding (eb_gauge (full_batch (full_batch ?b))) = APP_EVENT_PAUSE_HIGH_WATER"
    using full_batch_gauge [OF b(1,2)] full_batch_gauge [of "full_batch ?b"] b(3) by (simp add: APP_EVENT_PAUSE_HIGH_WATER_def)
  from gauge_sticks_at_high_water [OF this] show ?thesis by blast
qed

end
