(* ===== verification/Event_Loop.thy ===== *)
theory Event_Loop
  imports Event_Batcher Gso Timer_Heap
begin

text \<open>
  The loop that drives every worker: \<^verbatim>\<open>run_event_loop\<close> of \<^verbatim>\<open>event_loop.rs\<close>. The traits
  \<^verbatim>\<open>ProtocolHandler\<close> and \<^verbatim>\<open>Driver\<close> are records of operations, so the loop is generic as in the source.
  Between two operations of the loop the rest of the process acts: writers admit and queue commands, and
  JavaScript and other workers move the gauge. What they do before the loop's \<open>n\<close>-th operation is an input,
  and so is the clock; an operation of the handler gets \<open>n\<close>, for the clock and the random bytes it reads
  there. Buffers that travel back to pools, telemetry and allocator maintenance are left out.
\<close>

subsection \<open>The traits and the surroundings\<close>

record ('s, 'c) protocol_handler =
  ph_dispatch_command :: "nat \<Rightarrow> 'c \<Rightarrow> 's \<Rightarrow> js_event list \<Rightarrow> bool \<times> 's \<times> js_event list"
  ph_process_packet :: "nat \<Rightarrow> byte list \<Rightarrow> socket_addr \<Rightarrow> socket_addr \<Rightarrow> nat \<Rightarrow> 's \<Rightarrow> tx_datagram list \<Rightarrow> js_event list
    \<Rightarrow> ('s \<times> tx_datagram list \<times> js_event list) option"
  ph_process_timers :: "nat \<Rightarrow> instant \<Rightarrow> nat \<Rightarrow> 's \<Rightarrow> js_event list \<Rightarrow> ('s \<times> js_event list) option"
  ph_poll_app_events :: "nat \<Rightarrow> nat \<Rightarrow> 's \<Rightarrow> js_event list \<Rightarrow> ('s \<times> js_event list) option"
  ph_flush_sends :: "nat \<Rightarrow> 's \<Rightarrow> tx_datagram list \<Rightarrow> ('s \<times> tx_datagram list) option"
  ph_flush_pending_writes :: "nat \<Rightarrow> 's \<Rightarrow> js_event list \<Rightarrow> ('s \<times> js_event list) option"
  ph_poll_drain_events :: "nat \<Rightarrow> nat \<Rightarrow> 's \<Rightarrow> js_event list \<Rightarrow> ('s \<times> js_event list) option"
  ph_cleanup_closed :: "nat \<Rightarrow> 's \<Rightarrow> js_event list \<Rightarrow> ('s \<times> js_event list) option"
  ph_next_deadline :: "'s \<Rightarrow> instant option \<times> 's"
  ph_emit_session_close_for_all_active :: "'s \<Rightarrow> js_event list \<Rightarrow> 's \<times> js_event list"
  ph_is_done :: "'s \<Rightarrow> bool"

record 'd driver =
  dr_poll :: "instant option \<Rightarrow> 'd \<Rightarrow> (io_error + rx_datagram list) \<times> 'd"
  dr_submit_sends :: "tx_datagram list \<Rightarrow> 'd \<Rightarrow> (io_error + unit) \<times> 'd"
  dr_pending_tx_count :: "'d \<Rightarrow> nat"
  dr_drain_recycled_tx :: "'d \<Rightarrow> 'd"
  dr_kind :: runtime_driver_kind

record ('s, 'c) surroundings =
  sr_now :: "nat \<Rightarrow> instant"
  sr_ms :: "nat \<Rightarrow> nat"
  sr_writers :: "nat \<Rightarrow> 's \<Rightarrow> 'c list \<Rightarrow> 's \<times> 'c list"
  sr_gauge :: "nat \<Rightarrow> event_gauge \<Rightarrow> event_gauge"

record ('s, 'c, 'd) loop_state =
  lp_handler :: 's
  lp_channel :: "'c list"
  lp_driver :: 'd
  lp_batcher :: event_batcher
  lp_pending_outbound :: "tx_datagram list"
  lp_poll_now :: bool
  lp_clock :: nat

record ('s, 'c, 'd) loop_params =
  lq_handler :: "('s, 'c) protocol_handler"
  lq_driver :: "'d driver"
  lq_around :: "('s, 'c) surroundings"
  lq_local_addr :: socket_addr

text \<open>Why a loop ended. A panic is the segment size zero of a received datagram.\<close>

datatype loop_exit = ExitCommand | ExitHandlerDone | ExitSinkClose | ExitRuntimeError | ExitPanic

definition MAX_COMMANDS_PER_TICK :: nat where "MAX_COMMANDS_PER_TICK = 1024"

text \<open>A part of the loop: it does not return, or it leaves the loop in a state, with a reason when it ends it.\<close>

type_synonym 'x act = "'x \<Rightarrow> ('x \<times> loop_exit option) option"

definition act_then :: "'x act \<Rightarrow> 'x act \<Rightarrow> 'x act" where
  "act_then f g x = (case f x of None \<Rightarrow> None | Some (y, Some e) \<Rightarrow> Some (y, Some e) | Some (y, None) \<Rightarrow> g y)"

definition act_skip :: "'x act" where
  "act_skip x = Some (x, None)"

definition act_when :: "bool \<Rightarrow> 'x act \<Rightarrow> 'x act" where
  "act_when b f = (if b then f else act_skip)"

text \<open>The rest of the process acts, and the operation counter moves on.\<close>

definition surround :: "('s, 'c) surroundings \<Rightarrow> ('s, 'c, 'd) loop_state \<Rightarrow> ('s, 'c, 'd) loop_state" where
  "surround E x =
     (case sr_writers E (lp_clock x) (lp_handler x) (lp_channel x) of (s, ch) \<Rightarrow>
        x\<lparr>lp_handler := s, lp_channel := ch,
          lp_batcher := (lp_batcher x)\<lparr>eb_gauge := sr_gauge E (lp_clock x) (eb_gauge (lp_batcher x))\<rparr>,
          lp_clock := Suc (lp_clock x)\<rparr>)"

abbreviation lp_ms :: "('s, 'c, 'd) loop_params \<Rightarrow> ('s, 'c, 'd) loop_state \<Rightarrow> nat" where
  "lp_ms P x \<equiv> sr_ms (lq_around P) (lp_clock x)"

subsection \<open>Errors of the driver, sends and events\<close>

definition flush_batcher :: "('s, 'c, 'd) loop_params \<Rightarrow> ('s, 'c, 'd) loop_state \<Rightarrow> bool \<times> ('s, 'c, 'd) loop_state" where
  "flush_batcher P x = (case batcher_flush (lp_ms P x) (lp_batcher x) of (ok, b) \<Rightarrow> (ok, x\<lparr>lp_batcher := b\<rparr>))"

text \<open>Deliver what waits, then the mark that nothing follows.\<close>

definition finish_events :: "('s, 'c, 'd) loop_params \<Rightarrow> ('s, 'c, 'd) loop_state \<Rightarrow> ('s, 'c, 'd) loop_state" where
  "finish_events P x =
     (let x1 = snd (flush_batcher P x);
          x2 = x1\<lparr>lp_batcher := push_shutdown_complete (lp_batcher x1)\<rparr>
      in snd (flush_batcher P x2))"

definition flush_runtime_error :: "('s, 'c, 'd) loop_params \<Rightarrow> string \<Rightarrow> string \<Rightarrow> io_error \<Rightarrow> ('s, 'c, 'd) loop_state \<Rightarrow> ('s, 'c, 'd) loop_state" where
  "flush_runtime_error P call reason err x =
     (case ph_emit_session_close_for_all_active (lq_handler P) (lp_handler x) (eb_batch (lp_batcher x)) of (s, batch) \<Rightarrow>
        finish_events P (x\<lparr>lp_handler := s,
          lp_batcher := (lp_batcher x)\<lparr>eb_batch := batch @ [ev_runtime_error 0 (driver_kind_as_str (dr_kind (lq_driver P))) call reason err]\<rparr>\<rparr>))"

definition submit_datagrams :: "('s, 'c, 'd) loop_params \<Rightarrow> tx_datagram list \<Rightarrow> ('s, 'c, 'd) loop_state act" where
  "submit_datagrams P out x =
     (if out = [] then Some (x, None)
      else (case dr_submit_sends (lq_driver P) out (lp_driver x) of
        (Inr _, d) \<Rightarrow> Some (x\<lparr>lp_driver := d\<rparr>, None)
      | (Inl err, d) \<Rightarrow>
          Some (flush_runtime_error P ''submit_sends'' ''driver-submit-sends-failed'' err (x\<lparr>lp_driver := d\<rparr>), Some ExitRuntimeError)))"

definition send_outbound :: "('s, 'c, 'd) loop_params \<Rightarrow> ('s, 'c, 'd) loop_state act" where
  "send_outbound P x =
     (let y = surround (lq_around P) x in
      case ph_flush_sends (lq_handler P) (lp_clock y) (lp_handler y) [] of
        None \<Rightarrow> None
      | Some (s, out) \<Rightarrow> submit_datagrams P out (y\<lparr>lp_handler := s\<rparr>))"

definition append_group :: "('s, 'c, 'd) loop_params \<Rightarrow> js_event list \<Rightarrow> ('s, 'c, 'd) loop_state act" where
  "append_group P events x =
     (case append_atomic (lp_ms P x) events (lp_batcher x) of (ok, b) \<Rightarrow>
        Some (x\<lparr>lp_batcher := b\<rparr>, if ok then None else Some ExitSinkClose))"

definition collect_atomic ::
  "('s, 'c, 'd) loop_params \<Rightarrow> (nat \<Rightarrow> nat \<Rightarrow> 's \<Rightarrow> js_event list \<Rightarrow> ('s \<times> js_event list) option) \<Rightarrow> ('s, 'c, 'd) loop_state act" where
  "collect_atomic P collect x =
     (let y = surround (lq_around P) x in
      case collect (lp_clock y) (app_event_budget (lp_batcher y)) (lp_handler y) [] of
        None \<Rightarrow> None
      | Some (s, events) \<Rightarrow> append_group P events (y\<lparr>lp_handler := s\<rparr>))"

definition flush_if_full :: "('s, 'c, 'd) loop_params \<Rightarrow> ('s, 'c, 'd) loop_state act" where
  "flush_if_full P x =
     (if MAX_BATCH_SIZE \<le> length (eb_batch (lp_batcher x))
      then (case flush_batcher P x of (ok, y) \<Rightarrow> Some (y, if ok then None else Some ExitSinkClose)) else Some (x, None))"

subsection \<open>Commands\<close>

definition shut_down :: "('s, 'c, 'd) loop_params \<Rightarrow> ('s, 'c, 'd) loop_state act" where
  "shut_down P = act_then (send_outbound P) (\<lambda>x. Some (finish_events P x, Some ExitCommand))"

text \<open>The command taken, the group of its events, and whether it asks to shut down.\<close>

definition run_command :: "('s, 'c, 'd) loop_params \<Rightarrow> 'c \<Rightarrow> 'c list \<Rightarrow> ('s, 'c, 'd) loop_state \<Rightarrow> bool \<times> ('s, 'c, 'd) loop_state \<times> js_event list" where
  "run_command P cmd rest x =
     (case ph_dispatch_command (lq_handler P) (lp_clock x) cmd (lp_handler x) [] of (stop, s, events) \<Rightarrow>
        (stop, x\<lparr>lp_handler := s, lp_channel := rest\<rparr>, events))"

fun drain_commands :: "('s, 'c, 'd) loop_params \<Rightarrow> nat \<Rightarrow> ('s, 'c, 'd) loop_state act" where
  "drain_commands P 0 x =
     (let y = surround (lq_around P) x in Some (if lp_channel y \<noteq> [] then y\<lparr>lp_poll_now := True\<rparr> else y, None))"
| "drain_commands P (Suc n) x =
     (let y = surround (lq_around P) x in
      case lp_channel y of
        [] \<Rightarrow> Some (y, None)
      | cmd # rest \<Rightarrow>
          (case run_command P cmd rest y of (stop, z, events) \<Rightarrow>
             act_then (append_group P events) (if stop then shut_down P else drain_commands P n) z))"

subsection \<open>Received datagrams\<close>

definition packet_local :: "socket_addr \<Rightarrow> rx_datagram \<Rightarrow> socket_addr" where
  "packet_local local_addr pkt =
     (case local_addr of
        V4 ip _ \<Rightarrow> if ip = 0 then local_addr else rx_local pkt
      | V6 ip _ \<Rightarrow> if ip = 0 then local_addr else rx_local pkt)"

definition process_segment :: "('s, 'c, 'd) loop_params \<Rightarrow> rx_datagram \<Rightarrow> byte list \<Rightarrow> ('s, 'c, 'd) loop_state act" where
  "process_segment P pkt seg x =
     (let y = surround (lq_around P) x in
      case ph_process_packet (lq_handler P) (lp_clock y) seg (rx_peer pkt) (packet_local (lq_local_addr P) pkt) 0
             (lp_handler y) (lp_pending_outbound y) [] of
        None \<Rightarrow> None
      | Some (s, out, events) \<Rightarrow> append_group P events (y\<lparr>lp_handler := s, lp_pending_outbound := out\<rparr>))"

fun process_segments :: "('s, 'c, 'd) loop_params \<Rightarrow> rx_datagram \<Rightarrow> byte list list \<Rightarrow> ('s, 'c, 'd) loop_state act" where
  "process_segments P pkt [] = act_skip"
| "process_segments P pkt (seg # segs) = act_then (process_segment P pkt seg) (process_segments P pkt segs)"

definition submit_pending :: "('s, 'c, 'd) loop_params \<Rightarrow> ('s, 'c, 'd) loop_state act" where
  "submit_pending P x = submit_datagrams P (lp_pending_outbound x) (x\<lparr>lp_pending_outbound := []\<rparr>)"

definition process_datagram :: "('s, 'c, 'd) loop_params \<Rightarrow> rx_datagram \<Rightarrow> ('s, 'c, 'd) loop_state act" where
  "process_datagram P pkt x =
     (case gro_split pkt of
        None \<Rightarrow> Some (x, Some ExitPanic)
      | Some segs \<Rightarrow> act_then (process_segments P pkt segs) (submit_pending P) (x\<lparr>lp_pending_outbound := []\<rparr>))"

fun process_rx :: "('s, 'c, 'd) loop_params \<Rightarrow> nat \<Rightarrow> rx_datagram list \<Rightarrow> ('s, 'c, 'd) loop_state act" where
  "process_rx P rx_idx [] = act_skip"
| "process_rx P rx_idx (pkt # pkts) =
     act_then (process_datagram P pkt)
       (act_then (act_when ((rx_idx + 1) mod 64 = 0 \<and> pkts \<noteq> []) (send_outbound P))
         (act_then (flush_if_full P) (process_rx P (rx_idx + 1) pkts)))"

subsection \<open>The loop\<close>

definition poll_driver :: "('s, 'c, 'd) loop_params \<Rightarrow> ('s, 'c, 'd) loop_state \<Rightarrow> (io_error + rx_datagram list) \<times> ('s, 'c, 'd) loop_state" where
  "poll_driver P x =
     (let y = surround (lq_around P) x in
      case (if lp_poll_now y then (Some (sr_now (lq_around P) (lp_clock y)), lp_handler y)
            else ph_next_deadline (lq_handler P) (lp_handler y)) of
        (deadline, s) \<Rightarrow>
          (case self_heal_event_batch_if_stuck_at APP_EVENT_PAUSE_HIGH_WATER 5000 (lp_ms P y) (eb_gauge (lp_batcher y)) of
             (outstanding, g) \<Rightarrow>
               (case dr_poll (lq_driver P) deadline (lp_driver y) of (outcome, d) \<Rightarrow>
                  (outcome, y\<lparr>lp_handler := s, lp_driver := d, lp_batcher := (lp_batcher y)\<lparr>eb_gauge := g\<rparr>, lp_poll_now := False\<rparr>))))"

definition flush_tick :: "('s, 'c, 'd) loop_params \<Rightarrow> ('s, 'c, 'd) loop_state act" where
  "flush_tick P x =
     (case flush_batcher P x of (ok, y) \<Rightarrow>
        if \<not> ok then Some (snd (flush_batcher P (y\<lparr>lp_batcher := push_shutdown_complete (lp_batcher y)\<rparr>)), Some ExitSinkClose)
        else if ph_is_done (lq_handler P) (lp_handler y) \<and> dr_pending_tx_count (lq_driver P) (lp_driver y) = 0
        then Some (snd (flush_batcher P (y\<lparr>lp_batcher := push_shutdown_complete (lp_batcher y)\<rparr>)), Some ExitHandlerDone)
        else Some (y, None))"

definition recycle_tx :: "('s, 'c, 'd) loop_params \<Rightarrow> ('s, 'c, 'd) loop_state act" where
  "recycle_tx P x = Some (x\<lparr>lp_driver := dr_drain_recycled_tx (lq_driver P) (lp_driver x)\<rparr>, None)"

definition serve_rest :: "('s, 'c, 'd) loop_params \<Rightarrow> ('s, 'c, 'd) loop_state act" where
  "serve_rest P =
     (let H = lq_handler P in
      act_then (collect_atomic P (\<lambda>n budget. ph_process_timers H n (sr_now (lq_around P) n) budget))
      (act_then (collect_atomic P (ph_poll_app_events H))
      (act_then (collect_atomic P (ph_poll_drain_events H))
      (act_then (collect_atomic P (\<lambda>n budget. ph_flush_pending_writes H n))
      (act_then (flush_if_full P)
      (act_then (send_outbound P)
      (act_then (recycle_tx P)
      (act_then (collect_atomic P (\<lambda>n budget. ph_cleanup_closed H n))
      (flush_tick P)))))))))"

definition loop_tick :: "('s, 'c, 'd) loop_params \<Rightarrow> ('s, 'c, 'd) loop_state act" where
  "loop_tick P x =
     (case poll_driver P x of
        (Inl err, y) \<Rightarrow> Some (flush_runtime_error P ''poll'' ''driver-poll-failed'' err y, Some ExitRuntimeError)
      | (Inr rx, y) \<Rightarrow>
          act_then (drain_commands P MAX_COMMANDS_PER_TICK)
            (act_then (send_outbound P) (act_then (process_rx P 0 rx) (serve_rest P))) y)"

fun loop_ticks :: "('s, 'c, 'd) loop_params \<Rightarrow> nat \<Rightarrow> ('s, 'c, 'd) loop_state act" where
  "loop_ticks P 0 = act_skip"
| "loop_ticks P (Suc n) = act_then (loop_tick P) (loop_ticks P n)"

text \<open>The first \<open>n\<close> rounds of the loop.\<close>

definition run_event_loop :: "('s, 'c, 'd) loop_params \<Rightarrow> nat \<Rightarrow> ('s, 'c, 'd) loop_state act" where
  "run_event_loop P n = act_then (send_outbound P) (loop_ticks P n)"

end
