(* ===== verification/Event_Loop_Runs.thy ===== *)
theory Event_Loop_Runs
  imports Event_Loop Worker_System
begin

text \<open>
  What every run of the event loop keeps: how it ends, how soon it obeys a shutdown, which batches it
  sends, and that it is a run of the worker system of \<^verbatim>\<open>Worker_System\<close>, for every handler whose operations
  are the operations of that system.
\<close>

subsection \<open>Invariants of the parts of a round\<close>

definition keeps :: "('x \<Rightarrow> bool) \<Rightarrow> 'x act \<Rightarrow> bool" where
  "keeps ok f \<longleftrightarrow> (\<forall>x y e. ok x \<longrightarrow> f x = Some (y, e) \<longrightarrow> ok y)"

lemma keepsI: "(\<And>x y e. ok x \<Longrightarrow> f x = Some (y, e) \<Longrightarrow> ok y) \<Longrightarrow> keeps ok f"
  by (simp add: keeps_def)

lemma keepsD: "keeps ok f \<Longrightarrow> ok x \<Longrightarrow> f x = Some (y, e) \<Longrightarrow> ok y"
  by (simp add: keeps_def)

lemma act_then_cases:
  assumes "act_then f g x = Some (y, e)"
  obtains (ended) e' where "e = Some e'" "f x = Some (y, Some e')"
  | (went) z where "f x = Some (z, None)" "g z = Some (y, e)"
  using assms by (auto simp: act_then_def split: option.splits)

lemma keeps_then: "keeps ok f \<Longrightarrow> keeps ok g \<Longrightarrow> keeps ok (act_then f g)"
  by (intro keepsI) (erule act_then_cases; blast dest: keepsD)

lemma keeps_skip: "keeps ok act_skip"
  by (simp add: keeps_def act_skip_def)

lemma keeps_when: "keeps ok f \<Longrightarrow> keeps ok (act_when b f)"
  by (simp add: act_when_def keeps_skip)

text \<open>
  An invariant of the handler, the channel and all the events reported so far is kept by every round once
  the operations of the handler, the writers and the marks at the end of a run keep it. The events of an
  operation are lost when the sink closes, so an operation keeps the invariant with them and without.
\<close>

definition loop_holds :: "('s \<Rightarrow> 'c list \<Rightarrow> js_event list \<Rightarrow> bool) \<Rightarrow> ('s, 'c, 'd) loop_state \<Rightarrow> bool" where
  "loop_holds ok x \<longleftrightarrow> ok (lp_handler x) (lp_channel x) (batcher_events (lp_batcher x))"

definition op_keeps :: "('s \<Rightarrow> 'c list \<Rightarrow> js_event list \<Rightarrow> bool) \<Rightarrow> 's \<Rightarrow> 's \<Rightarrow> js_event list \<Rightarrow> bool" where
  "op_keeps ok s s' ev \<longleftrightarrow> (\<forall>ch evs. ok s ch evs \<longrightarrow> ok s' ch (evs @ ev) \<and> ok s' ch evs)"

definition collects :: "('s \<Rightarrow> 'c list \<Rightarrow> js_event list \<Rightarrow> bool) \<Rightarrow> (nat \<Rightarrow> nat \<Rightarrow> 's \<Rightarrow> js_event list \<Rightarrow> ('s \<times> js_event list) option) \<Rightarrow> bool" where
  "collects ok f \<longleftrightarrow> (\<forall>n budget s s' ev. f n budget s [] = Some (s', ev) \<longrightarrow> op_keeps ok s s' ev)"

lemma op_keepsD: "op_keeps ok (lp_handler x) s' ev \<Longrightarrow> loop_holds ok x \<Longrightarrow>
    ok s' (lp_channel x) (batcher_events (lp_batcher x) @ ev) \<and> ok s' (lp_channel x) (batcher_events (lp_batcher x))"
  by (simp add: op_keeps_def loop_holds_def)

lemma op_keeps_silent: "op_keeps ok (lp_handler x) s' [] \<Longrightarrow> loop_holds ok x \<Longrightarrow> loop_holds ok (x\<lparr>lp_handler := s'\<rparr>)"
  by (simp add: op_keeps_def loop_holds_def)

lemma loop_holds_frame [simp]:
  "loop_holds ok (x\<lparr>lp_driver := d\<rparr>) = loop_holds ok x" "loop_holds ok (x\<lparr>lp_pending_outbound := out\<rparr>) = loop_holds ok x"
  "loop_holds ok (x\<lparr>lp_poll_now := now\<rparr>) = loop_holds ok x"
  by (simp_all add: loop_holds_def)

lemma batcher_events_gauge [simp]: "batcher_events (b\<lparr>eb_gauge := g\<rparr>) = batcher_events b"
  by (simp add: batcher_events_def sent_batches_def)

lemma batcher_events_push: "batcher_events (b\<lparr>eb_batch := eb_batch b @ ev\<rparr>) = batcher_events b @ ev"
  by (simp add: batcher_events_def sent_batches_def)

lemma flush_holds: "flush_batcher P x = (r, y) \<Longrightarrow> loop_holds ok y = loop_holds ok x"
  using flush_events [of "lp_ms P x" "lp_batcher x"] by (auto simp: flush_batcher_def loop_holds_def split: prod.splits)

lemma append_holds:
  assumes "append_group P ev x = Some (y, e)"
    and "ok (lp_handler x) (lp_channel x) (batcher_events (lp_batcher x) @ ev) \<and> ok (lp_handler x) (lp_channel x) (batcher_events (lp_batcher x))"
  shows "loop_holds ok y"
proof -
  obtain r b where a: "append_atomic (lp_ms P x) ev (lp_batcher x) = (r, b)" by fastforce
  with assms(1) have "y = x\<lparr>lp_batcher := b\<rparr>" by (auto simp: append_group_def)
  then show ?thesis using append_events [OF a] assms(2) by (auto simp: loop_holds_def)
qed

locale loop_quiet =
  fixes P :: "('s, 'c, 'd) loop_params" and ok :: "'s \<Rightarrow> 'c list \<Rightarrow> js_event list \<Rightarrow> bool"
  assumes around: "ok s ch evs \<Longrightarrow> sr_writers (lq_around P) n s ch = (s', ch') \<Longrightarrow> ok s' ch' evs"
    and marks: "ok s ch evs \<Longrightarrow> ok s ch (evs @ [ev_shutdown_complete])"
      "ok s ch evs \<Longrightarrow> ok s ch (evs @ [ev_runtime_error 0 (driver_kind_as_str (dr_kind (lq_driver P))) call reason err])"
    and packets: "ph_process_packet (lq_handler P) n seg peer local budget s out [] = Some (s', out', ev) \<Longrightarrow> op_keeps ok s s' ev"
    and sends: "ph_flush_sends (lq_handler P) n s out = Some (s', out') \<Longrightarrow> op_keeps ok s s' []"
    and timers: "collects ok (\<lambda>n budget. ph_process_timers (lq_handler P) n (sr_now (lq_around P) n) budget)"
    and app_events: "collects ok (ph_poll_app_events (lq_handler P))"
    and drain_events: "collects ok (ph_poll_drain_events (lq_handler P))"
    and pending_writes: "collects ok (\<lambda>n budget. ph_flush_pending_writes (lq_handler P) n)"
    and cleanup: "collects ok (\<lambda>n budget. ph_cleanup_closed (lq_handler P) n)"
    and deadlines: "ph_next_deadline (lq_handler P) s = (d, s') \<Longrightarrow> op_keeps ok s s' []"
    and closing: "ph_emit_session_close_for_all_active (lq_handler P) s b = (s', b') \<Longrightarrow> \<exists>ev. b' = b @ ev \<and> op_keeps ok s s' ev"
begin

lemma surround_ok: "loop_holds ok x \<Longrightarrow> loop_holds ok (surround (lq_around P) x)"
  using around [of "lp_handler x" "lp_channel x" "batcher_events (lp_batcher x)" "lp_clock x"]
  by (simp add: loop_holds_def surround_def split: prod.splits)

lemma push_mark_ok: "loop_holds ok x \<Longrightarrow> loop_holds ok (x\<lparr>lp_batcher := push_shutdown_complete (lp_batcher x)\<rparr>)"
  using marks(1) by (simp add: loop_holds_def push_shutdown_complete_def batcher_events_push)

lemma flush_batcher_ok: "loop_holds ok x \<Longrightarrow> loop_holds ok (snd (flush_batcher P x))"
  using flush_holds [of P x "fst (flush_batcher P x)" "snd (flush_batcher P x)" ok] by simp

lemma finish_events_ok: "loop_holds ok x \<Longrightarrow> loop_holds ok (finish_events P x)"
  by (simp add: finish_events_def Let_def flush_batcher_ok push_mark_ok)

lemma runtime_error_ok:
  assumes "loop_holds ok x"
  shows "loop_holds ok (flush_runtime_error P call reason err x)"
proof -
  obtain s batch where e: "ph_emit_session_close_for_all_active (lq_handler P) (lp_handler x) (eb_batch (lp_batcher x)) = (s, batch)"
    by fastforce
  from closing [OF e] obtain ev where ev: "batch = eb_batch (lp_batcher x) @ ev" "op_keeps ok (lp_handler x) s ev" by blast
  let ?err = "ev_runtime_error 0 (driver_kind_as_str (dr_kind (lq_driver P))) call reason err"
  have "ok s (lp_channel x) (batcher_events (lp_batcher x) @ ev)" using op_keepsD [OF ev(2) assms] by blast
  from marks(2) [OF this] have "loop_holds ok (x\<lparr>lp_handler := s, lp_batcher := (lp_batcher x)\<lparr>eb_batch := eb_batch (lp_batcher x) @ (ev @ [?err])\<rparr>\<rparr>)"
    by (simp add: loop_holds_def batcher_events_def sent_batches_def)
  from finish_events_ok [OF this] show ?thesis unfolding flush_runtime_error_def e prod.case ev(1) by simp
qed

lemma keeps_submit: "keeps (loop_holds ok) (submit_datagrams P out)"
  by (rule keepsI) (auto simp: submit_datagrams_def runtime_error_ok split: if_splits sum.splits prod.splits)

lemma keeps_send: "keeps (loop_holds ok) (send_outbound P)"
proof (rule keepsI)
  fix x y e assume x: "loop_holds ok x" and r: "send_outbound P x = Some (y, e)"
  let ?x = "surround (lq_around P) x"
  from r obtain s out where f: "ph_flush_sends (lq_handler P) (lp_clock ?x) (lp_handler ?x) [] = Some (s, out)"
    and g: "submit_datagrams P out (?x\<lparr>lp_handler := s\<rparr>) = Some (y, e)"
    by (auto simp: send_outbound_def Let_def split: option.splits)
  from keepsD [OF keeps_submit op_keeps_silent [OF sends [OF f] surround_ok [OF x]] g] show "loop_holds ok y" .
qed

lemma keeps_collect:
  assumes "collects ok f"
  shows "keeps (loop_holds ok) (collect_atomic P f)"
proof (rule keepsI)
  fix x y e assume x: "loop_holds ok x" and r: "collect_atomic P f x = Some (y, e)"
  let ?x = "surround (lq_around P) x"
  from r obtain s ev where f: "f (lp_clock ?x) (app_event_budget (lp_batcher ?x)) (lp_handler ?x) [] = Some (s, ev)"
    and g: "append_group P ev (?x\<lparr>lp_handler := s\<rparr>) = Some (y, e)"
    by (auto simp: collect_atomic_def Let_def split: option.splits)
  have "op_keeps ok (lp_handler ?x) s ev" using assms f unfolding collects_def by blast
  from append_holds [OF g] op_keepsD [OF this surround_ok [OF x]] show "loop_holds ok y" by simp
qed

lemma keeps_flush_if_full: "keeps (loop_holds ok) (flush_if_full P)"
  by (rule keepsI) (auto simp: flush_if_full_def flush_holds split: if_splits prod.splits)

lemma keeps_segment: "keeps (loop_holds ok) (process_segment P pkt seg)"
proof (rule keepsI)
  fix x y e assume x: "loop_holds ok x" and r: "process_segment P pkt seg x = Some (y, e)"
  let ?x = "surround (lq_around P) x"
  from r obtain s out ev where f: "ph_process_packet (lq_handler P) (lp_clock ?x) seg (rx_peer pkt) (packet_local (lq_local_addr P) pkt) 0
        (lp_handler ?x) (lp_pending_outbound ?x) [] = Some (s, out, ev)"
    and g: "append_group P ev (?x\<lparr>lp_handler := s, lp_pending_outbound := out\<rparr>) = Some (y, e)"
    by (auto simp: process_segment_def Let_def split: option.splits)
  from append_holds [OF g] op_keepsD [OF packets [OF f] surround_ok [OF x]] show "loop_holds ok y" by simp
qed

lemma keeps_segments: "keeps (loop_holds ok) (process_segments P pkt segs)"
  by (induction segs) (simp_all add: keeps_skip keeps_then keeps_segment)

lemma keeps_submit_pending: "keeps (loop_holds ok) (submit_pending P)"
proof (rule keepsI)
  fix x y e assume "loop_holds ok x" "submit_pending P x = Some (y, e)"
  then show "loop_holds ok y" using keepsD [OF keeps_submit, of "x\<lparr>lp_pending_outbound := []\<rparr>"] by (simp add: submit_pending_def)
qed

lemma keeps_datagram: "keeps (loop_holds ok) (process_datagram P pkt)"
proof (rule keepsI)
  fix x y e assume x: "loop_holds ok x" and r: "process_datagram P pkt x = Some (y, e)"
  show "loop_holds ok y"
  proof (cases "gro_split pkt")
    case None
    with x r show ?thesis by (simp add: process_datagram_def)
  next
    case (Some segs)
    with r have "act_then (process_segments P pkt segs) (submit_pending P) (x\<lparr>lp_pending_outbound := []\<rparr>) = Some (y, e)"
      by (simp add: process_datagram_def)
    from keepsD [OF keeps_then [OF keeps_segments keeps_submit_pending] _ this] x show ?thesis by simp
  qed
qed

lemma keeps_rx: "keeps (loop_holds ok) (process_rx P i pkts)"
  by (induction pkts arbitrary: i)
    (simp_all add: keeps_skip keeps_then keeps_datagram keeps_when keeps_send keeps_flush_if_full)

lemma keeps_flush_tick: "keeps (loop_holds ok) (flush_tick P)"
proof (rule keepsI)
  fix x y e assume x: "loop_holds ok x" and r: "flush_tick P x = Some (y, e)"
  obtain r1 x1 where f: "flush_batcher P x = (r1, x1)" by fastforce
  have "loop_holds ok x1" using flush_holds [OF f] x by simp
  moreover from this have "loop_holds ok (snd (flush_batcher P (x1\<lparr>lp_batcher := push_shutdown_complete (lp_batcher x1)\<rparr>)))"
    by (intro flush_batcher_ok push_mark_ok)
  ultimately show "loop_holds ok y" using r by (auto simp: flush_tick_def f split: if_splits)
qed

lemma keeps_rest: "keeps (loop_holds ok) (serve_rest P)"
proof -
  have "keeps (loop_holds ok) (recycle_tx P)" by (rule keepsI) (auto simp: recycle_tx_def)
  then show ?thesis unfolding serve_rest_def Let_def
    by (intro keeps_then keeps_collect timers app_events drain_events pending_writes cleanup keeps_flush_if_full keeps_send
        keeps_flush_tick)
qed

lemma poll_ok:
  assumes "loop_holds ok x" "poll_driver P x = (r, y)"
  shows "loop_holds ok y"
proof -
  let ?x = "surround (lq_around P) x"
  obtain deadline s where d: "(if lp_poll_now ?x then (Some (sr_now (lq_around P) (lp_clock ?x)), lp_handler ?x)
      else ph_next_deadline (lq_handler P) (lp_handler ?x)) = (deadline, s)" by fastforce
  have x: "loop_holds ok ?x" by (rule surround_ok) (rule assms)
  have "loop_holds ok (?x\<lparr>lp_handler := s\<rparr>)"
  proof (cases "lp_poll_now ?x")
    case True
    with d have "?x\<lparr>lp_handler := s\<rparr> = ?x" by auto
    with x show ?thesis by simp
  next
    case False
    with d have "ph_next_deadline (lq_handler P) (lp_handler ?x) = (deadline, s)" by simp
    from op_keeps_silent [OF deadlines [OF this] x] show ?thesis .
  qed
  with assms(2) show ?thesis unfolding poll_driver_def Let_def d prod.case by (auto simp: loop_holds_def split: prod.splits)
qed

lemma keeps_tick:
  assumes "\<And>n. keeps (loop_holds ok) (drain_commands P n)"
  shows "keeps (loop_holds ok) (loop_tick P)"
proof (rule keepsI)
  fix x y e assume x: "loop_holds ok x" and r: "loop_tick P x = Some (y, e)"
  obtain o1 x1 where p: "poll_driver P x = (o1, x1)" by fastforce
  have x1: "loop_holds ok x1" by (rule poll_ok [OF x p])
  show "loop_holds ok y"
  proof (cases o1)
    case (Inl err)
    with r p x1 runtime_error_ok show ?thesis by (auto simp: loop_tick_def)
  next
    case (Inr rx)
    have "keeps (loop_holds ok) (act_then (drain_commands P MAX_COMMANDS_PER_TICK)
        (act_then (send_outbound P) (act_then (process_rx P 0 rx) (serve_rest P))))"
      by (intro keeps_then assms keeps_send keeps_rx keeps_rest)
    from keepsD [OF this x1] r p Inr show ?thesis by (simp add: loop_tick_def)
  qed
qed

end

locale loop_invariant = loop_quiet +
  assumes commands: "ok s (cmd # rest) evs \<Longrightarrow> ph_dispatch_command (lq_handler P) n cmd s [] = (stop, s', ev) \<Longrightarrow>
    ok s' rest (evs @ ev) \<and> ok s' rest evs"
begin

lemma keeps_shut_down: "keeps (loop_holds ok) (shut_down P)"
  unfolding shut_down_def by (intro keeps_then keeps_send keepsI) (auto simp: finish_events_ok)

lemma keeps_drain: "keeps (loop_holds ok) (drain_commands P n)"
proof (induction n)
  case 0
  show ?case by (rule keepsI) (auto simp: Let_def surround_ok split: if_splits)
next
  case (Suc n)
  show ?case
  proof (rule keepsI)
    fix x y e assume x: "loop_holds ok x" and r: "drain_commands P (Suc n) x = Some (y, e)"
    let ?x = "surround (lq_around P) x"
    show "loop_holds ok y"
    proof (cases "lp_channel ?x")
      case Nil
      with r surround_ok [OF x] show ?thesis by (simp add: Let_def)
    next
      case (Cons cmd rest)
      obtain stop s ev where d: "ph_dispatch_command (lq_handler P) (lp_clock ?x) cmd (lp_handler ?x) [] = (stop, s, ev)"
        by (metis prod_cases3)
      from surround_ok [OF x] Cons have "ok (lp_handler ?x) (cmd # rest) (batcher_events (lp_batcher ?x))" by (simp add: loop_holds_def)
      note after = commands [OF this d]
      from r Cons d have "act_then (append_group P ev) (if stop then shut_down P else drain_commands P n)
          (?x\<lparr>lp_handler := s, lp_channel := rest\<rparr>) = Some (y, e)" by (simp add: Let_def run_command_def)
      then show ?thesis
      proof (cases rule: act_then_cases)
        case (ended e')
        with append_holds [OF ended(2)] after show ?thesis by simp
      next
        case (went z)
        have "keeps (loop_holds ok) (if stop then shut_down P else drain_commands P n)" using Suc keeps_shut_down by simp
        from keepsD [OF this _ went(2)] append_holds [OF went(1)] after show ?thesis by simp
      qed
    qed
  qed
qed

lemma keeps_ticks: "keeps (loop_holds ok) (loop_ticks P n)"
  by (induction n) (simp_all add: keeps_skip keeps_then keeps_tick keeps_drain)

lemma keeps_run: "keeps (loop_holds ok) (run_event_loop P n)"
  unfolding run_event_loop_def by (intro keeps_then keeps_send keeps_ticks)

end

subsection \<open>The loop is a run of the worker system\<close>

inductive writer_step :: "('s, 'c) worker_iface \<Rightarrow> 's \<times> 'c list \<Rightarrow> 's \<times> 'c list \<Rightarrow> bool" for W where
  submits: "try_admit (wi_window W s) (wi_units W cmd) = (True, adm) \<Longrightarrow> wi_ok W cmd \<Longrightarrow>
    writer_step W (s, ch) (wi_set_window W adm s, ch @ [cmd])"
| is_refused: "try_admit (wi_window W s) n = (False, adm) \<Longrightarrow> writer_step W (s, ch) (wi_set_window W adm s, ch)"

text \<open>The writers of a list of commands, one after the other.\<close>

fun submit_all :: "('s, 'c) worker_iface \<Rightarrow> 'c list \<Rightarrow> 's \<Rightarrow> 'c list \<Rightarrow> 's \<times> 'c list" where
  "submit_all W [] s ch = (s, ch)"
| "submit_all W (cmd # cmds) s ch =
     (case try_admit (wi_window W s) (wi_units W cmd) of (admitted, adm) \<Rightarrow>
        submit_all W cmds (wi_set_window W adm s) (if admitted then ch @ [cmd] else ch))"

lemma submit_all_steps: "\<forall>cmd \<in> set cmds. wi_ok W cmd \<Longrightarrow> (writer_step W)\<^sup>*\<^sup>* (s, ch) (submit_all W cmds s ch)"
proof (induction cmds arbitrary: s ch)
  case (Cons cmd cmds)
  obtain r adm where a: "try_admit (wi_window W s) (wi_units W cmd) = (r, adm)" by fastforce
  have "writer_step W (s, ch) (wi_set_window W adm s, if r then ch @ [cmd] else ch)"
    using a Cons.prems by (cases r) (auto intro: writer_step.intros)
  moreover have "(writer_step W)\<^sup>*\<^sup>* (wi_set_window W adm s, if r then ch @ [cmd] else ch)
      (submit_all W cmds (wi_set_window W adm s) (if r then ch @ [cmd] else ch))" using Cons by simp
  ultimately show ?case unfolding submit_all.simps a prod.case by (rule converse_rtranclp_into_rtranclp)
qed simp

definition loop_reach :: "('s, 'c) worker_iface \<Rightarrow> ('s \<Rightarrow> bool) \<Rightarrow> 's \<Rightarrow> 'c list \<Rightarrow> js_event list \<Rightarrow> bool" where
  "loop_reach W init s ch evs \<longleftrightarrow> (\<exists>lost. system_reach W init \<lparr>ws_server = s, ws_channel = ch, ws_lost = lost\<rparr>)"

lemma reach_background:
  assumes "wi_background W s s'"
  shows "op_keeps (loop_reach W init) s s' ev"
  unfolding op_keeps_def loop_reach_def
proof (intro allI impI)
  fix ch assume "\<exists>lost. system_reach W init \<lparr>ws_server = s, ws_channel = ch, ws_lost = lost\<rparr>"
  then obtain lost where r: "system_reach W init \<lparr>ws_server = s, ws_channel = ch, ws_lost = lost\<rparr>" (is "system_reach W init ?w")
    by blast
  from system_reach.step [OF r system_step.background [of W ?w s']] assms
  have "\<exists>lost. system_reach W init \<lparr>ws_server = s', ws_channel = ch, ws_lost = lost\<rparr>" by auto
  then show "(\<exists>lost. system_reach W init \<lparr>ws_server = s', ws_channel = ch, ws_lost = lost\<rparr>) \<and>
      (\<exists>lost. system_reach W init \<lparr>ws_server = s', ws_channel = ch, ws_lost = lost\<rparr>)" by blast
qed

lemma reach_op: "s' = s \<or> wi_background W s s' \<Longrightarrow> op_keeps (loop_reach W init) s s' ev"
  by (elim disjE) (simp_all add: reach_background, simp add: op_keeps_def loop_reach_def)

lemma writers_reach:
  assumes "(writer_step W)\<^sup>*\<^sup>* sc sc'" "system_reach W init \<lparr>ws_server = fst sc, ws_channel = snd sc, ws_lost = lost\<rparr>"
  shows "system_reach W init \<lparr>ws_server = fst sc', ws_channel = snd sc', ws_lost = lost\<rparr>"
  using assms
proof (induction rule: rtranclp_induct)
  case (step sc1 sc2)
  let ?w = "\<lparr>ws_server = fst sc1, ws_channel = snd sc1, ws_lost = lost\<rparr>"
  from step.hyps(2) have "system_step W ?w \<lparr>ws_server = fst sc2, ws_channel = snd sc2, ws_lost = lost\<rparr>"
  proof cases
    case (submits s cmd adm ch)
    then show ?thesis using system_step.submit [of W ?w cmd adm] by simp
  next
    case (is_refused s n adm ch)
    then show ?thesis using system_step.refused [of W ?w n adm] by simp
  qed
  with step show ?case by (blast intro: system_reach.step)
qed simp

lemma writers_append: "(writer_step W)\<^sup>*\<^sup>* sc sc' \<Longrightarrow> \<exists>more. snd sc' = snd sc @ more"
  by (induction rule: rtranclp_induct) (auto elim!: writer_step.cases)

text \<open>What a handler promises of its operations: each is an operation of the worker system.\<close>

locale worker_loop =
  fixes P :: "('s, 'c, 'd) loop_params" and W :: "('s, 'c) worker_iface"
  assumes dispatch_is: "ph_dispatch_command (lq_handler P) n cmd s b = (stop, s', b') \<Longrightarrow> wi_dispatch W cmd s s'"
    and packet_is: "ph_process_packet (lq_handler P) n seg peer local budget s out b = Some (s', out', b') \<Longrightarrow> wi_background W s s'"
    and sends_is: "ph_flush_sends (lq_handler P) n s out = Some (s', out') \<Longrightarrow> wi_background W s s'"
    and timers_is: "ph_process_timers (lq_handler P) n now budget s b = Some (s', b') \<Longrightarrow> wi_background W s s'"
    and app_is: "ph_poll_app_events (lq_handler P) n budget s b = Some (s', b') \<Longrightarrow> wi_background W s s'"
    and drain_is: "ph_poll_drain_events (lq_handler P) n budget s b = Some (s', b') \<Longrightarrow> wi_background W s s'"
    and pending_is: "ph_flush_pending_writes (lq_handler P) n s b = Some (s', b') \<Longrightarrow> wi_background W s s'"
    and cleanup_is: "ph_cleanup_closed (lq_handler P) n s b = Some (s', b') \<Longrightarrow> s' = s \<or> wi_background W s s'"
    and deadline_is: "ph_next_deadline (lq_handler P) s = (d, s') \<Longrightarrow> s' = s \<or> wi_background W s s'"
    and closing_is: "ph_emit_session_close_for_all_active (lq_handler P) s b = (s', b') \<Longrightarrow>
      (s' = s \<or> wi_background W s s') \<and> (\<exists>ev. b' = b @ ev)"
    and writers_are: "(writer_step W)\<^sup>*\<^sup>* (s, ch) (sr_writers (lq_around P) n s ch)"
begin

lemma writers_keep: "loop_reach W init s ch evs \<Longrightarrow> sr_writers (lq_around P) n s ch = (s', ch') \<Longrightarrow> loop_reach W init s' ch' evs"
  using writers_reach [OF writers_are [of s ch n], of init] by (fastforce simp: loop_reach_def)

lemma dispatch_keeps:
  assumes "loop_reach W init s (cmd # rest) evs" "ph_dispatch_command (lq_handler P) n cmd s b = (stop, s', b')"
  shows "loop_reach W init s' rest evs'"
proof -
  from assms(1) obtain lost where r: "system_reach W init \<lparr>ws_server = s, ws_channel = cmd # rest, ws_lost = lost\<rparr>"
    (is "system_reach W init ?w") by (auto simp: loop_reach_def)
  have "ws_channel ?w = cmd # rest" "wi_dispatch W cmd (ws_server ?w) s'" using dispatch_is [OF assms(2)] by simp_all
  from system_reach.step [OF r system_step.command [OF this]] show ?thesis by (auto simp: loop_reach_def)
qed

end

sublocale worker_loop \<subseteq> reaches: loop_invariant P "loop_reach W init" for init
proof (unfold_locales, goal_cases)
  case (1 s ch evs n s' ch')
  then show ?case by (rule writers_keep)
next
  case (2 s ch evs)
  then show ?case by (simp add: loop_reach_def)
next
  case (3 s ch evs call reason err)
  then show ?case by (simp add: loop_reach_def)
next
  case 4
  then show ?case by (rule reach_background [OF packet_is])
next
  case 5
  then show ?case by (rule reach_background [OF sends_is])
next
  case 6
  show ?case unfolding collects_def by (intro allI impI) (rule reach_background [OF timers_is])
next
  case 7
  show ?case unfolding collects_def by (intro allI impI) (rule reach_background [OF app_is])
next
  case 8
  show ?case unfolding collects_def by (intro allI impI) (rule reach_background [OF drain_is])
next
  case 9
  show ?case unfolding collects_def by (intro allI impI) (rule reach_background [OF pending_is])
next
  case 10
  show ?case unfolding collects_def by (intro allI impI) (rule reach_op [OF cleanup_is])
next
  case 11
  then show ?case by (rule reach_op [OF deadline_is])
next
  case (12 s b s' b')
  from closing_is [OF this] obtain ev where ev: "s' = s \<or> wi_background W s s'" "b' = b @ ev" by blast
  from reach_op [OF ev(1)] ev(2) show ?case by (intro exI [of _ ev] conjI)
next
  case (13 s cmd rest evs n stop s' ev)
  from dispatch_keeps [OF this] show ?case by (intro conjI)
qed

subsection \<open>Shutdown\<close>

definition stops :: "('s, 'c, 'd) loop_params \<Rightarrow> 'c \<Rightarrow> bool" where
  "stops P cmd \<longleftrightarrow> (\<forall>n s b. fst (ph_dispatch_command (lq_handler P) n cmd s b))"

definition shutdown_at :: "('s, 'c, 'd) loop_params \<Rightarrow> nat \<Rightarrow> 's \<Rightarrow> 'c list \<Rightarrow> js_event list \<Rightarrow> bool" where
  "shutdown_at P k s ch evs \<longleftrightarrow> k < length ch \<and> stops P (ch ! k)"

abbreviation shutdown_waits :: "('s, 'c, 'd) loop_params \<Rightarrow> nat \<Rightarrow> ('s, 'c, 'd) loop_state \<Rightarrow> bool" where
  "shutdown_waits P k \<equiv> loop_holds (shutdown_at P k)"

lemma shutdown_waits_alt: "shutdown_waits P k x \<longleftrightarrow> k < length (lp_channel x) \<and> stops P (lp_channel x ! k)"
  by (simp add: loop_holds_def shutdown_at_def)

lemma shut_down_ends: "shut_down P x = Some (y, e) \<Longrightarrow> e \<noteq> None"
  unfolding shut_down_def by (erule act_then_cases) auto

lemma append_group_channel: "append_group P ev x = Some (y, e) \<Longrightarrow> lp_channel y = lp_channel x"
  by (auto simp: append_group_def split: prod.splits)

sublocale worker_loop \<subseteq> waits: loop_quiet P "shutdown_at P k" for k
proof (unfold_locales, goal_cases)
  case (1 s ch evs n s' ch')
  then show ?case using writers_append [OF writers_are [of s ch n]] by (auto simp: shutdown_at_def nth_append)
next
  case (12 s b s' b')
  then show ?case using closing_is by (auto simp: op_keeps_def shutdown_at_def)
qed (auto simp: collects_def op_keeps_def shutdown_at_def)

context worker_loop
begin

lemma drain_shutdown:
  "shutdown_waits P k x \<Longrightarrow> drain_commands P n x = Some (y, e) \<Longrightarrow> (k < n \<longrightarrow> e \<noteq> None) \<and> (n \<le> k \<and> e = None \<longrightarrow> shutdown_waits P (k - n) y)"
proof (induction n arbitrary: k x)
  case 0
  have "shutdown_waits P k (surround (lq_around P) x)" by (rule waits.surround_ok) (rule 0)
  with 0(2) show ?case by (auto simp: Let_def shutdown_waits_alt split: if_splits)
next
  case (Suc n)
  let ?x = "surround (lq_around P) x"
  have w: "shutdown_waits P k ?x" by (rule waits.surround_ok) (rule Suc.prems)
  then obtain cmd rest where ch: "lp_channel ?x = cmd # rest" by (cases "lp_channel ?x") (auto simp: shutdown_waits_alt)
  obtain stop s ev where d: "ph_dispatch_command (lq_handler P) (lp_clock ?x) cmd (lp_handler ?x) [] = (stop, s, ev)"
    by (metis prod_cases3)
  from Suc.prems(2) ch d have "act_then (append_group P ev) (if stop then shut_down P else drain_commands P n)
      (?x\<lparr>lp_handler := s, lp_channel := rest\<rparr>) = Some (y, e)" by (simp add: Let_def run_command_def)
  then show ?case
  proof (cases rule: act_then_cases)
    case (went z)
    show ?thesis
    proof (cases "stop")
      case True
      with went shut_down_ends show ?thesis by fastforce
    next
      case False
      have "k \<noteq> 0"
      proof
        assume "k = 0"
        with w ch have "stops P cmd" by (simp add: shutdown_waits_alt)
        then have "fst (ph_dispatch_command (lq_handler P) (lp_clock ?x) cmd (lp_handler ?x) [])" by (simp add: stops_def)
        with d False show False by simp
      qed
      then obtain j where k: "k = Suc j" by (cases k) auto
      have "shutdown_waits P j z"
        using w ch k append_group_channel [OF went(1)] by (simp add: shutdown_waits_alt)
      from Suc.IH [OF this] went(2) False k show ?thesis by simp
    qed
  qed auto
qed

lemma tick_shutdown:
  assumes "shutdown_waits P k x" "loop_tick P x = Some (y, e)"
  shows "(k < MAX_COMMANDS_PER_TICK \<longrightarrow> e \<noteq> None) \<and> (MAX_COMMANDS_PER_TICK \<le> k \<and> e = None \<longrightarrow> shutdown_waits P (k - MAX_COMMANDS_PER_TICK) y)"
proof -
  obtain o1 x1 where p: "poll_driver P x = (o1, x1)" by fastforce
  have x1: "shutdown_waits P k x1" by (rule waits.poll_ok [OF assms(1) p])
  show ?thesis
  proof (cases o1)
    case (Inl err)
    with assms(2) p show ?thesis by (auto simp: loop_tick_def)
  next
    case (Inr rx)
    with assms(2) p have "act_then (drain_commands P MAX_COMMANDS_PER_TICK)
        (act_then (send_outbound P) (act_then (process_rx P 0 rx) (serve_rest P))) x1 = Some (y, e)" by (simp add: loop_tick_def)
    then show ?thesis
    proof (cases rule: act_then_cases)
      case (went z)
      from drain_shutdown [OF x1 went(1)] have z: "\<not> k < MAX_COMMANDS_PER_TICK" "shutdown_waits P (k - MAX_COMMANDS_PER_TICK) z"
        by auto
      have "keeps (shutdown_waits P (k - MAX_COMMANDS_PER_TICK)) (act_then (send_outbound P) (act_then (process_rx P 0 rx) (serve_rest P)))"
        by (intro keeps_then waits.keeps_send waits.keeps_rx waits.keeps_rest)
      from keepsD [OF this z(2) went(2)] z(1) show ?thesis by simp
    qed auto
  qed
qed

lemma ticks_shutdown:
  "shutdown_waits P k x \<Longrightarrow> loop_ticks P (Suc (k div MAX_COMMANDS_PER_TICK)) x = Some (y, e) \<Longrightarrow> e \<noteq> None"
proof (induction k arbitrary: x rule: less_induct)
  case (less k)
  from less.prems(2) have "act_then (loop_tick P) (loop_ticks P (k div MAX_COMMANDS_PER_TICK)) x = Some (y, e)" by simp
  then show ?case
  proof (cases rule: act_then_cases)
    case (went z)
    from tick_shutdown [OF less.prems(1) went(1)] have z: "MAX_COMMANDS_PER_TICK \<le> k" "shutdown_waits P (k - MAX_COMMANDS_PER_TICK) z"
      by auto
    have "k div MAX_COMMANDS_PER_TICK = Suc ((k - MAX_COMMANDS_PER_TICK) div MAX_COMMANDS_PER_TICK)"
      by (rule le_div_geq) (use z(1) in \<open>simp_all add: MAX_COMMANDS_PER_TICK_def\<close>)
    with went(2) have "loop_ticks P (Suc ((k - MAX_COMMANDS_PER_TICK) div MAX_COMMANDS_PER_TICK)) z = Some (y, e)" by simp
    with less.IH [OF _ z(2)] z(1) show ?thesis by (simp add: MAX_COMMANDS_PER_TICK_def)
  qed auto
qed

end

subsection \<open>A handler that always returns\<close>

definition handler_returns :: "('s, 'c) protocol_handler \<Rightarrow> bool" where
  "handler_returns H \<longleftrightarrow> (\<forall>n seg peer local budget s out b. ph_process_packet H n seg peer local budget s out b \<noteq> None)
     \<and> (\<forall>n now budget s b. ph_process_timers H n now budget s b \<noteq> None) \<and> (\<forall>n budget s b. ph_poll_app_events H n budget s b \<noteq> None)
     \<and> (\<forall>n s out. ph_flush_sends H n s out \<noteq> None) \<and> (\<forall>n s b. ph_flush_pending_writes H n s b \<noteq> None)
     \<and> (\<forall>n budget s b. ph_poll_drain_events H n budget s b \<noteq> None) \<and> (\<forall>n s b. ph_cleanup_closed H n s b \<noteq> None)"

definition returns :: "'x act \<Rightarrow> bool" where
  "returns f \<longleftrightarrow> (\<forall>x. f x \<noteq> None)"

lemma returns_then: "returns f \<Longrightarrow> returns g \<Longrightarrow> returns (act_then f g)"
  by (simp add: returns_def act_then_def split: option.splits)

lemma returns_parts:
  "returns act_skip" "returns (submit_datagrams P out)" "returns (append_group P ev)" "returns (flush_if_full P)"
  "returns (recycle_tx P)" "returns (flush_tick P)" "returns (submit_pending P)"
  by (simp_all add: returns_def act_skip_def submit_datagrams_def append_group_def flush_if_full_def recycle_tx_def flush_tick_def
      submit_pending_def split: prod.splits sum.splits)

lemma returns_when: "returns f \<Longrightarrow> returns (act_when b f)"
  by (simp add: act_when_def returns_parts)

lemma returns_collect: "(\<And>n budget s b. f n budget s b \<noteq> None) \<Longrightarrow> returns (collect_atomic P f)"
  using returns_parts(3) [of P] by (auto simp: returns_def collect_atomic_def Let_def split: option.splits)

lemma returns_send: "handler_returns (lq_handler P) \<Longrightarrow> returns (send_outbound P)"
  using returns_parts(2) [of P] by (auto simp: returns_def handler_returns_def send_outbound_def Let_def split: option.splits)

lemma returns_segment: "handler_returns (lq_handler P) \<Longrightarrow> returns (process_segment P pkt seg)"
  using returns_parts(3) [of P]
  by (auto simp: returns_def handler_returns_def process_segment_def Let_def split: option.splits)

lemma returns_rx:
  assumes "handler_returns (lq_handler P)"
  shows "returns (process_rx P i pkts)"
proof (induction pkts arbitrary: i)
  case (Cons pkt pkts)
  have segs: "returns (process_segments P pkt segs)" for segs
    by (induction segs) (simp_all add: returns_parts returns_then returns_segment [OF assms])
  have "returns (act_then (process_segments P pkt segs) (submit_pending P))" for segs
    by (intro returns_then segs returns_parts)
  then have "returns (process_datagram P pkt)" by (auto simp: returns_def process_datagram_def split: option.splits)
  then show ?case unfolding process_rx.simps
    by (intro returns_then returns_when returns_send [OF assms] returns_parts Cons)
qed (simp add: returns_parts)

lemma returns_drain:
  assumes "handler_returns (lq_handler P)"
  shows "returns (drain_commands P n)"
proof (induction n)
  case (Suc n)
  have "returns (shut_down P)" unfolding shut_down_def by (intro returns_then returns_send [OF assms]) (simp add: returns_def)
  with Suc have "returns (if stop then shut_down P else drain_commands P n)" for stop by simp
  from returns_then [OF returns_parts(3) this] show ?case by (auto simp: returns_def Let_def split: list.splits prod.splits)
qed (simp add: returns_def Let_def)

lemma returns_tick:
  assumes "handler_returns (lq_handler P)"
  shows "returns (loop_tick P)"
proof -
  have "returns (serve_rest P)" unfolding serve_rest_def Let_def
    by (intro returns_then returns_collect returns_parts returns_send [OF assms]) (use assms in \<open>auto simp: handler_returns_def\<close>)
  then have "returns (act_then (drain_commands P MAX_COMMANDS_PER_TICK)
      (act_then (send_outbound P) (act_then (process_rx P 0 rx) (serve_rest P))))" for rx
    by (intro returns_then returns_drain [OF assms] returns_send [OF assms] returns_rx [OF assms])
  then show ?thesis by (simp add: returns_def loop_tick_def split: prod.splits sum.splits)
qed

lemma returns_ticks: "handler_returns (lq_handler P) \<Longrightarrow> returns (loop_ticks P n)"
  by (induction n) (simp_all add: returns_parts returns_then returns_tick)

subsection \<open>How a loop ends\<close>

definition exit_reported :: "('s, 'c, 'd) loop_params \<Rightarrow> loop_exit \<Rightarrow> ('s, 'c, 'd) loop_state \<Rightarrow> bool" where
  "exit_reported P e y \<longleftrightarrow> e \<in> {ExitSinkClose, ExitPanic}
     \<or> eb_batch (lp_batcher y) = [] \<and> (\<exists>bs. sent_batches (lp_batcher y) = bs @ [[ev_shutdown_complete]]
         \<and> (e = ExitRuntimeError \<longrightarrow> (\<exists>bs' b call reason err.
              bs = bs' @ [b @ [ev_runtime_error 0 (driver_kind_as_str (dr_kind (lq_driver P))) call reason err]])))"

definition exits :: "('s, 'c, 'd) loop_params \<Rightarrow> ('s, 'c, 'd) loop_state act \<Rightarrow> bool" where
  "exits P f \<longleftrightarrow> (\<forall>x y e. f x = Some (y, Some e) \<longrightarrow> exit_reported P e y)"

lemma exitsI: "(\<And>x y e. f x = Some (y, Some e) \<Longrightarrow> exit_reported P e y) \<Longrightarrow> exits P f"
  by (simp add: exits_def)

lemma exits_then: "exits P f \<Longrightarrow> exits P g \<Longrightarrow> exits P (act_then f g)"
  unfolding exits_def by (auto simp: act_then_def split: option.splits)

lemma flush_batcher_sent:
  "sent_batches (lp_batcher (snd (flush_batcher P x))) =
     sent_batches (lp_batcher x) @ (if eb_batch (lp_batcher x) = [] then [] else [eb_batch (lp_batcher x)])"
  "eb_batch (lp_batcher (snd (flush_batcher P x))) = []"
  using flush_sent [of "lp_ms P x" "lp_batcher x"] flush_batch [of "lp_ms P x" "lp_batcher x"]
  by (simp_all add: flush_batcher_def case_prod_beta)

lemma push_flush_sent:
  assumes "eb_batch (lp_batcher x) = []"
  shows "sent_batches (lp_batcher (snd (flush_batcher P (x\<lparr>lp_batcher := push_shutdown_complete (lp_batcher x)\<rparr>)))) =
      sent_batches (lp_batcher x) @ [[ev_shutdown_complete]]"
    "eb_batch (lp_batcher (snd (flush_batcher P (x\<lparr>lp_batcher := push_shutdown_complete (lp_batcher x)\<rparr>)))) = []"
  using assms by (simp_all add: flush_batcher_sent push_shutdown_complete_def) (simp add: sent_batches_def)

lemma finish_events_sent:
  "sent_batches (lp_batcher (finish_events P x)) =
     sent_batches (lp_batcher x) @ (if eb_batch (lp_batcher x) = [] then [] else [eb_batch (lp_batcher x)]) @ [[ev_shutdown_complete]]"
  "eb_batch (lp_batcher (finish_events P x)) = []"
  unfolding finish_events_def Let_def push_flush_sent [OF flush_batcher_sent(2)]
  by (simp_all add: flush_batcher_sent)

lemma runtime_error_reported: "exit_reported P ExitRuntimeError (flush_runtime_error P call reason err x)"
  by (auto simp: exit_reported_def flush_runtime_error_def finish_events_sent split: prod.splits)

lemma exits_submit: "exits P (submit_datagrams P out)"
  by (rule exitsI) (auto simp: submit_datagrams_def runtime_error_reported split: if_splits prod.splits sum.splits)

lemma exits_send: "exits P (send_outbound P)"
  by (rule exitsI) (auto simp: send_outbound_def Let_def split: option.splits intro: exits_submit [unfolded exits_def, rule_format])

lemma exits_append: "exits P (append_group P ev)"
  by (rule exitsI) (auto simp: append_group_def exit_reported_def split: prod.splits if_splits)

lemma exits_collect: "exits P (collect_atomic P f)"
  by (rule exitsI) (auto simp: collect_atomic_def Let_def split: option.splits intro: exits_append [unfolded exits_def, rule_format])

lemma exits_segments: "exits P (process_segments P pkt segs)"
proof (induction segs)
  case (Cons seg segs)
  have "exits P (process_segment P pkt seg)"
    by (rule exitsI) (auto simp: process_segment_def Let_def split: option.splits intro: exits_append [unfolded exits_def, rule_format])
  with Cons show ?case by (simp add: exits_then)
qed (simp add: exits_def act_skip_def)

lemma exits_flush_if_full: "exits P (flush_if_full P)"
  by (rule exitsI) (auto simp: flush_if_full_def exit_reported_def split: if_splits prod.splits)

lemma exits_datagram: "exits P (process_datagram P pkt)"
proof (rule exitsI)
  fix x y e assume r: "process_datagram P pkt x = Some (y, Some e)"
  have "exits P (act_then (process_segments P pkt segs) (submit_pending P))" for segs
    by (intro exits_then exits_segments exitsI) (auto simp: submit_pending_def intro: exits_submit [unfolded exits_def, rule_format])
  with r show "exit_reported P e y"
    by (auto simp: process_datagram_def exits_def exit_reported_def split: option.splits)
qed

lemma exits_rx: "exits P (process_rx P i pkts)"
proof (induction pkts arbitrary: i)
  case (Cons pkt pkts)
  have "exits P (act_when b (send_outbound P))" for b using exits_send [of P] by (simp add: act_when_def) (simp add: exits_def act_skip_def)
  with Cons show ?case by (simp add: exits_then exits_datagram exits_flush_if_full)
qed (simp add: exits_def act_skip_def)

lemma exits_drain: "exits P (drain_commands P n)"
proof (induction n)
  case 0
  show ?case by (simp add: exits_def Let_def)
next
  case (Suc n)
  have stop: "exits P (shut_down P)" unfolding shut_down_def
    by (intro exits_then exits_send exitsI) (auto simp: exit_reported_def finish_events_sent)
  have "exits P (act_then (append_group P ev) (if stop then shut_down P else drain_commands P n))" for ev stop
    by (intro exits_then exits_append) (simp add: stop Suc)
  then show ?case by (auto simp: exits_def Let_def split: list.splits prod.splits)
qed

lemma exits_flush_tick: "exits P (flush_tick P)"
proof (rule exitsI)
  fix x y e assume r: "flush_tick P x = Some (y, Some e)"
  obtain ok x1 where f: "flush_batcher P x = (ok, x1)" by fastforce
  have x1: "eb_batch (lp_batcher x1) = []" using flush_batcher_sent(2) [of P x] f by simp
  show "exit_reported P e y"
    using r push_flush_sent [OF x1, of P] by (auto simp: flush_tick_def f exit_reported_def split: if_splits)
qed

lemma exits_tick: "exits P (loop_tick P)"
proof -
  have "exits P (serve_rest P)" unfolding serve_rest_def Let_def
    by (intro exits_then exits_collect exits_flush_if_full exits_send exits_flush_tick) (simp add: exits_def recycle_tx_def)
  then have "exits P (act_then (drain_commands P MAX_COMMANDS_PER_TICK)
      (act_then (send_outbound P) (act_then (process_rx P 0 rx) (serve_rest P))))" for rx
    by (intro exits_then exits_drain exits_send exits_rx)
  then show ?thesis using runtime_error_reported by (fastforce simp: exits_def loop_tick_def split: prod.splits sum.splits)
qed

lemma exits_run: "exits P (run_event_loop P n)"
proof -
  have "exits P (loop_ticks P n)" by (induction n) (simp_all add: exits_then exits_tick, simp add: exits_def act_skip_def)
  then show ?thesis unfolding run_event_loop_def by (intro exits_then exits_send)
qed

end
