(* ===== verification/Quic_Server.thy ===== *)
theory Quic_Server
  imports H3_Server
begin

text \<open>
  The raw QUIC server worker: \<^verbatim>\<open>QuicServerHandler\<close> of \<^verbatim>\<open>quic_worker.rs\<close>. It keeps the same tables as
  the HTTP/3 worker but for responses and deferred closes, and its connection map has the operations
  of \<^verbatim>\<open>connection_map.rs\<close> line for line, so it is the same map over raw connections. The clock, the
  random generator, HMAC, the slab's choice of a key and quiche are arguments, and telemetry, qlog
  files, the reuse of packet buffers and the wasm32 cap are left out, as there.
\<close>

unbundle bit_operations_syntax

subsection \<open>State\<close>

record 'q quic_lib =
  ql_quiche :: "'q quiche_api"
  ql_header :: "byte list \<Rightarrow> quiche_header option"
  ql_accept :: "byte list \<Rightarrow> byte list option \<Rightarrow> socket_addr \<Rightarrow> socket_addr \<Rightarrow> quiche_error + 'q"
  ql_retry :: "byte list \<Rightarrow> byte list \<Rightarrow> byte list \<Rightarrow> byte list \<Rightarrow> 32 word \<Rightarrow> byte list option"
  ql_hmac :: hmac_fn
  ql_vacant :: "nat list \<Rightarrow> nat"
  ql_ip_text :: "socket_addr \<Rightarrow> string"
  ql_cert_chain :: "'q \<Rightarrow> byte list list option"
  ql_path_stats :: "'q \<Rightarrow> (nat \<times> nat \<times> nat) option"
  ql_qlog_path :: "'q quic_connection \<Rightarrow> string option"
  ql_h3_error_text :: "h3_error \<Rightarrow> string"

record 'q quic_server =
  qs_map :: "'q quic_connection connection_map"
  qs_timers :: timer_heap
  qs_writes :: "(pending_key, pending_write) hashmap"
  qs_disable_retry :: bool
  qs_require_client_cert :: bool
  qs_last_expired :: "nat list"
  qs_offset :: conn_handle
  qs_admission :: outbound_admission

record quic_server_config =
  qcfg_max_connections :: nat
  qcfg_disable_retry :: bool
  qcfg_require_client_cert :: bool
  qcfg_cid_encoding :: cid_encoding

definition qs_from_parts ::
  "quic_server_config \<Rightarrow> 'q quic_connection connection_map \<Rightarrow> conn_handle \<Rightarrow> outbound_admission \<Rightarrow> 'q quic_server" where
  "qs_from_parts cfg m offset adm =
     \<lparr>qs_map = m, qs_timers = timer_heap_new, qs_writes = [], qs_disable_retry = qcfg_disable_retry cfg,
      qs_require_client_cert = qcfg_require_client_cert cfg, qs_last_expired = [], qs_offset = offset, qs_admission = adm\<rparr>"

definition quic_server_new :: "byte list \<Rightarrow> quic_server_config \<Rightarrow> 32 word \<Rightarrow> outbound_admission \<Rightarrow> 'q quic_server" where
  "quic_server_new rng cfg worker adm =
     qs_from_parts cfg (with_max_connections_and_cid rng (qcfg_max_connections cfg) (qcfg_cid_encoding cfg))
       (handle_offset worker) adm"

definition quic_server_new_direct :: "byte list \<Rightarrow> quic_server_config \<Rightarrow> outbound_admission \<Rightarrow> 'q quic_server" where
  "quic_server_new_direct key cfg adm =
     qs_from_parts cfg (with_key_bytes (qcfg_max_connections cfg) (qcfg_cid_encoding cfg) key) 0 adm"

abbreviation qs_event_handle :: "'q quic_server \<Rightarrow> nat \<Rightarrow> conn_handle" where
  "qs_event_handle s handle \<equiv> qs_offset s OR word_of_nat handle"

abbreviation qs_put :: "nat \<Rightarrow> 'q quic_connection \<Rightarrow> 'q quic_server \<Rightarrow> 'q quic_server" where
  "qs_put handle c s \<equiv> s\<lparr>qs_map := cm_put (qs_map s) handle c\<rparr>"

definition qs_release :: "nat \<Rightarrow> 'q quic_server \<Rightarrow> js_event list \<Rightarrow> 'q quic_server \<times> js_event list" where
  "qs_release units s batch =
     (case Admission.release (qs_admission s) units of (ready, adm) \<Rightarrow>
        (s\<lparr>qs_admission := adm\<rparr>, if ready then batch @ [ev_write_ready 0] else batch))"

definition qs_soonest_deadline :: "'q quic_server \<Rightarrow> instant option \<times> 'q quic_server" where
  "qs_soonest_deadline s = (case next_deadline (qs_timers s) of (td, t) \<Rightarrow> (td, s\<lparr>qs_timers := t\<rparr>))"

definition qs_is_idle :: "'q quic_server \<Rightarrow> bool" where
  "qs_is_idle s \<longleftrightarrow> cm_is_empty (qs_map s)"

definition qs_connection_is_closed :: "'q quiche_api \<Rightarrow> 'q quic_server \<Rightarrow> conn_handle \<Rightarrow> bool" where
  "qs_connection_is_closed Q s h =
     (case cm_get (qs_map s) (unat h) of None \<Rightarrow> True | Some c \<Rightarrow> q_is_closed Q (qc_quiche c))"

definition qs_shutdown_conn :: "'q quiche_api \<Rightarrow> 'q quic_connection connection_map \<Rightarrow> nat \<Rightarrow> 'q quic_connection connection_map" where
  "qs_shutdown_conn Q m handle =
     (case cm_get m handle of
        None \<Rightarrow> m
      | Some c \<Rightarrow>
          if \<not> q_is_closed Q (qc_quiche c) \<and> \<not> q_is_draining Q (qc_quiche c)
          then cm_put m handle (c\<lparr>qc_quiche := q_close Q (qc_quiche c) True 0 ''server shutdown''\<rparr>) else m)"

definition qs_shutdown_all :: "'q quiche_api \<Rightarrow> 'q quic_server \<Rightarrow> 'q quic_server" where
  "qs_shutdown_all Q s = s\<lparr>qs_map := foldl (qs_shutdown_conn Q) (qs_map s) (fill_handles (qs_map s))\<rparr>"

subsection \<open>Polling\<close>

definition qs_poll_connection ::
  "'q quiche_api \<Rightarrow> instant \<Rightarrow> conn_handle \<Rightarrow> nat \<Rightarrow> 'q quic_connection \<Rightarrow> js_event list \<Rightarrow> 'q quic_connection \<times> js_event list" where
  "qs_poll_connection Q now eh budget c batch =
     (case poll_quic_events Q eh budget c batch of (c1, b1) \<Rightarrow>
        (case quic_poll_ping_acks Q now c1 of (ds, c2) \<Rightarrow> (c2, b1 @ map (ev_ping_ack eh) ds)))"

fun qs_collect_loop ::
  "'q quiche_api \<Rightarrow> instant \<Rightarrow> nat \<Rightarrow> nat \<Rightarrow> nat list \<Rightarrow> 'q quic_server \<Rightarrow> js_event list \<Rightarrow> 'q quic_server \<times> js_event list" where
  "qs_collect_loop Q now budget remaining [] s batch = (s, batch)"
| "qs_collect_loop Q now budget remaining (handle # hs) s batch =
     (if remaining = 0 then (s, batch)
      else case cm_get (qs_map s) handle of
        None \<Rightarrow> qs_collect_loop Q now budget remaining hs s batch
      | Some c \<Rightarrow>
          (case qs_poll_connection Q now (qs_event_handle s handle) remaining c batch of (c', b') \<Rightarrow>
             qs_collect_loop Q now budget (saturating_sub budget (length b')) hs (qs_put handle c' s) b'))"

definition qs_collect_app_events ::
  "'q quiche_api \<Rightarrow> instant \<Rightarrow> nat \<Rightarrow> 'q quic_server \<Rightarrow> js_event list \<Rightarrow> 'q quic_server \<times> js_event list" where
  "qs_collect_app_events Q now budget s batch =
     (if budget = 0 then (s, batch) else qs_collect_loop Q now budget budget (fill_handles (qs_map s)) s batch)"

definition qs_sweep_one ::
  "'q quiche_api \<Rightarrow> nat \<Rightarrow> nat \<Rightarrow> 'q quic_server \<Rightarrow> js_event list \<Rightarrow> 'q quic_server \<times> js_event list" where
  "qs_sweep_one Q budget handle s batch =
     (case cm_get (qs_map s) handle of
        None \<Rightarrow> (s, batch)
      | Some c \<Rightarrow>
          if 0 < budget
          then (case sweep_finished_streams Q (qs_event_handle s handle) budget c batch of (c', b') \<Rightarrow> (qs_put handle c' s, b'))
          else (s, batch))"

fun qs_sweep_loop ::
  "'q quiche_api \<Rightarrow> nat \<Rightarrow> nat list \<Rightarrow> 'q quic_server \<Rightarrow> js_event list \<Rightarrow> 'q quic_server \<times> js_event list" where
  "qs_sweep_loop Q budget [] s batch = (s, batch)"
| "qs_sweep_loop Q budget (handle # hs) s batch =
     (case qs_sweep_one Q budget handle s batch of (s', b') \<Rightarrow> qs_sweep_loop Q budget hs s' b')"

fun qs_drain_loop ::
  "'q quiche_api \<Rightarrow> nat \<Rightarrow> nat list \<Rightarrow> 'q quic_server \<Rightarrow> js_event list \<Rightarrow> 'q quic_server \<times> js_event list" where
  "qs_drain_loop Q budget [] s batch = (s, batch)"
| "qs_drain_loop Q budget (handle # hs) s batch =
     (case qs_sweep_one Q budget handle s batch of (s1, b1) \<Rightarrow>
        if handle \<in> set (qs_last_expired s1) then qs_drain_loop Q budget hs s1 b1
        else case cm_get (qs_map s1) handle of
          None \<Rightarrow> qs_drain_loop Q budget hs s1 b1
        | Some c \<Rightarrow>
            if blocked_set (qc_blocked c) = [] then qs_drain_loop Q budget hs s1 b1
            else (case quic_poll_drain_events Q (qs_event_handle s handle) c b1 of (c', b2) \<Rightarrow>
                    qs_drain_loop Q budget hs (qs_put handle c' s1) b2))"

definition qs_collect_drain_events ::
  "'q quiche_api \<Rightarrow> nat \<Rightarrow> 'q quic_server \<Rightarrow> js_event list \<Rightarrow> 'q quic_server \<times> js_event list" where
  "qs_collect_drain_events Q budget s batch = qs_drain_loop Q budget (fill_handles (qs_map s)) s batch"

subsection \<open>Timers\<close>

fun qs_expire_loop ::
  "'q quiche_api \<Rightarrow> instant \<Rightarrow> nat \<Rightarrow> nat list \<Rightarrow> 'q quic_server \<Rightarrow> js_event list \<Rightarrow> 'q quic_server \<times> js_event list" where
  "qs_expire_loop Q now budget [] s batch = (s, batch)"
| "qs_expire_loop Q now budget (handle # hs) s batch =
     (case cm_get (qs_map s) handle of
        None \<Rightarrow> qs_expire_loop Q now budget hs s batch
      | Some c0 \<Rightarrow>
          let c = c0\<lparr>qc_quiche := q_on_timeout Q (qc_quiche c0)\<rparr> in
          if q_is_closed Q (qc_quiche c)
          then qs_expire_loop Q now budget hs (qs_put handle c s)
                 (batch @ [quic_session_close_event Q c (qs_event_handle s handle)])
          else (case qs_poll_connection Q now (qs_event_handle s handle) budget c batch of (c', b') \<Rightarrow>
                  qs_expire_loop Q now budget hs
                    ((qs_put handle c' s)\<lparr>qs_timers := set_deadline (qs_timers s) handle
                       (map_option (\<lambda>t. now + t) (q_timeout Q (qc_quiche c')))\<rparr>) b'))"

definition qs_expire_timers ::
  "'q quiche_api \<Rightarrow> instant \<Rightarrow> nat \<Rightarrow> 'q quic_server \<Rightarrow> js_event list \<Rightarrow> 'q quic_server \<times> js_event list" where
  "qs_expire_timers Q now budget s batch =
     (case pop_expired (qs_timers s) now of (expired, t) \<Rightarrow>
        let ex = remdups (sort expired) in
        (case qs_expire_loop Q now budget ex (s\<lparr>qs_timers := t, qs_last_expired := ex\<rparr>) batch of (s1, b1) \<Rightarrow>
           qs_sweep_loop Q budget (fill_handles (qs_map s1)) s1 b1))"

subsection \<open>Sending datagrams\<close>

fun qs_send_pass ::
  "'q quiche_api \<Rightarrow> (nat \<times> bool) list \<Rightarrow> 'q quic_connection connection_map \<Rightarrow> tx_datagram list
     \<Rightarrow> (nat \<times> bool) list \<times> 'q quic_connection connection_map \<times> tx_datagram list" where
  "qs_send_pass Q [] m out = ([], m, out)"
| "qs_send_pass Q ((handle, don) # hs) m out =
     (if don then (case qs_send_pass Q hs m out of (fs, m', out') \<Rightarrow> ((handle, don) # fs, m', out'))
      else case cm_get m handle of
        None \<Rightarrow> (case qs_send_pass Q hs m out of (fs, m', out') \<Rightarrow> ((handle, True) # fs, m', out'))
      | Some c \<Rightarrow>
          (case quic_send Q (drain_outbound_datagrams Q c) TX_BUFFER_LEN of
             (Inl _, c') \<Rightarrow>
               (case qs_send_pass Q hs (cm_put m handle c') out of (fs, m', out') \<Rightarrow> ((handle, True) # fs, m', out'))
           | (Inr (pkt, to), c') \<Rightarrow>
               (case qs_send_pass Q hs (cm_put m handle c')
                       (out @ [\<lparr>tx_data = pkt, tx_payload_len = length pkt, tx_to = to,
                                tx_max_segment_size = mtu_of (q_max_udp Q (qc_quiche c'))\<rparr>]) of
                  (fs, m', out') \<Rightarrow> ((handle, False) # fs, m', out'))))"

fun qs_send_rounds ::
  "'q quiche_api \<Rightarrow> nat \<Rightarrow> (nat \<times> bool) list \<Rightarrow> 'q quic_connection connection_map \<Rightarrow> tx_datagram list
     \<Rightarrow> ('q quic_connection connection_map \<times> tx_datagram list) option" where
  "qs_send_rounds Q fuel hs m out =
     (if \<forall>(_, don) \<in> set hs. don then Some (m, out)
      else case fuel of
        0 \<Rightarrow> None
      | Suc fuel' \<Rightarrow> (case qs_send_pass Q hs m out of (hs', m', out') \<Rightarrow> qs_send_rounds Q fuel' hs' m' out'))"

declare qs_send_rounds.simps [simp del]

definition qs_rearm :: "'q quiche_api \<Rightarrow> instant \<Rightarrow> 'q quic_connection connection_map \<Rightarrow> timer_heap \<Rightarrow> nat \<Rightarrow> timer_heap" where
  "qs_rearm Q now m t handle =
     set_deadline t handle (case cm_get m handle of
       None \<Rightarrow> None | Some c \<Rightarrow> map_option (\<lambda>d. now + d) (q_timeout Q (qc_quiche c)))"

definition qs_flush_all_sends ::
  "'q quiche_api \<Rightarrow> instant \<Rightarrow> nat \<Rightarrow> 'q quic_server \<Rightarrow> tx_datagram list \<Rightarrow> ('q quic_server \<times> tx_datagram list) option" where
  "qs_flush_all_sends Q now fuel s out =
     (let hs = fill_handles (qs_map s) in
      if hs = [] then Some (s, out)
      else case qs_send_rounds Q fuel (map (\<lambda>h. (h, False)) hs) (qs_map s) out of
        None \<Rightarrow> None
      | Some (m, out') \<Rightarrow> Some (s\<lparr>qs_map := m, qs_timers := foldl (qs_rearm Q now m) (qs_timers s) hs\<rparr>, out'))"

subsection \<open>Pending writes and closed connections\<close>

definition qs_flush_all_pending_writes :: "'q quiche_api \<Rightarrow> 'q quic_server \<Rightarrow> js_event list \<Rightarrow> 'q quic_server \<times> js_event list" where
  "qs_flush_all_pending_writes Q s batch =
     (case flush_quic_pending_writes Q (qs_map s) (qs_writes s) of (fe, kept, m) \<Rightarrow>
        (case qs_release (fe_released_units fe) (s\<lparr>qs_map := m, qs_writes := kept\<rparr>) batch of
           (s2, b2) \<Rightarrow> (s2, b2 @ map (\<lambda>(h, sid). ev_drain (h OR qs_offset s) sid) (fe_drained fe))))"

definition qs_reap_one ::
  "'q quiche_api \<Rightarrow> nat \<times> 'q quic_connection \<Rightarrow> 'q quic_server \<Rightarrow> js_event list \<Rightarrow> 'q quic_server \<times> js_event list" where
  "qs_reap_one Q hc s batch =
     (case hc of (handle, c) \<Rightarrow>
        let eh = qs_event_handle s handle;
            b1 = batch @ map (\<lambda>((_, sid), _). ev_reset eh sid 0) (of_conn handle (qs_writes s));
            removed_units = hm_sum queued_units (of_conn handle (qs_writes s));
            s1 = s\<lparr>qs_timers := remove_connection (qs_timers s) handle, qs_writes := not_of_conn handle (qs_writes s)\<rparr>
        in (case qs_release removed_units s1 b1 of (s2, b2) \<Rightarrow>
              (s2, if handle \<in> set (qs_last_expired s) then b2 else b2 @ [quic_session_close_event Q c eh])))"

fun qs_reap_each ::
  "'q quiche_api \<Rightarrow> (nat \<times> 'q quic_connection) list \<Rightarrow> 'q quic_server \<Rightarrow> js_event list \<Rightarrow> 'q quic_server \<times> js_event list" where
  "qs_reap_each Q [] s batch = (s, batch)"
| "qs_reap_each Q (hc # hcs) s batch = (case qs_reap_one Q hc s batch of (s', b') \<Rightarrow> qs_reap_each Q hcs s' b')"

definition qs_reap_closed :: "'q quiche_api \<Rightarrow> 'q quic_server \<Rightarrow> js_event list \<Rightarrow> 'q quic_server \<times> js_event list" where
  "qs_reap_closed Q s batch =
     (case drain_closed (\<lambda>c. q_is_closed Q (qc_quiche c)) (qs_map s) of (closed, m) \<Rightarrow>
        (case qs_reap_each Q closed (s\<lparr>qs_map := m\<rparr>) batch of (s', b') \<Rightarrow> (s'\<lparr>qs_last_expired := []\<rparr>, b')))"

definition qs_emit_session_close_for_all_active :: "'q quic_server \<Rightarrow> js_event list \<Rightarrow> js_event list" where
  "qs_emit_session_close_for_all_active s batch =
     batch @ map (\<lambda>handle. ev_session_close (qs_event_handle s handle)) (fill_handles (qs_map s))"

subsection \<open>Packets\<close>

definition quic_accept ::
  "'q quic_lib \<Rightarrow> instant \<Rightarrow> byte list \<Rightarrow> byte list option \<Rightarrow> socket_addr \<Rightarrow> socket_addr \<Rightarrow> quiche_error + 'q quic_connection" where
  "quic_accept L now scid odcid local peer =
     (case ql_accept L scid odcid local peer of Inl e \<Rightarrow> Inl e | Inr q \<Rightarrow> Inr (quic_connection_new q scid now))"

definition qs_accept_session ::
  "'q quic_lib \<Rightarrow> instant \<Rightarrow> byte list \<Rightarrow> byte list option \<Rightarrow> byte list \<Rightarrow> socket_addr \<Rightarrow> socket_addr
     \<Rightarrow> 'q quic_server \<Rightarrow> js_event list \<Rightarrow> nat option \<times> 'q quic_server \<times> js_event list" where
  "qs_accept_session L now scid odcid alias peer local s batch =
     (case accept_new (ql_vacant L) (quic_accept L now) (qs_map s) scid odcid peer local of
        (Inl _, m) \<Rightarrow> (None, s\<lparr>qs_map := m\<rparr>, batch)
      | (Inr h, m) \<Rightarrow>
          (Some h, s\<lparr>qs_map := add_dcid m h alias\<rparr>,
           batch @ [ev_new_session (qs_event_handle s h) (ql_ip_text L peer) (port_of peer) []]))"

definition qs_route_or_accept ::
  "'q quic_lib \<Rightarrow> instant \<Rightarrow> 64 word
     \<Rightarrow> ('q quic_connection connection_map \<Rightarrow> (native_error + byte list) \<times> 'q quic_connection connection_map)
     \<Rightarrow> quiche_header \<Rightarrow> socket_addr \<Rightarrow> socket_addr \<Rightarrow> 'q quic_server \<Rightarrow> tx_datagram list \<Rightarrow> js_event list
     \<Rightarrow> nat option \<times> 'q quic_server \<times> tx_datagram list \<times> js_event list" where
  "qs_route_or_accept L now secs gen hdr peer local s outbound batch =
     (case route_packet (qs_map s) (hdr_dcid hdr) of
        Some handle \<Rightarrow> (Some handle, s, outbound, batch)
      | None \<Rightarrow>
          if \<not> hdr_initial hdr then (None, s, outbound, batch)
          else if qs_disable_retry s then
            (case gen (qs_map s) of
               (Inl _, m) \<Rightarrow> (None, s\<lparr>qs_map := m\<rparr>, outbound, batch)
             | (Inr scid, m) \<Rightarrow>
                 (case qs_accept_session L now scid None (hdr_dcid hdr) peer local (s\<lparr>qs_map := m\<rparr>) batch of
                    (h, s', b') \<Rightarrow> (h, s', outbound, b')))
          else case (case hdr_token hdr of None \<Rightarrow> None | Some t \<Rightarrow> if t = [] then None else Some t) of
            Some token \<Rightarrow>
              (case cm_validate_token (ql_hmac L) (qs_map s) secs token peer of
                 None \<Rightarrow> (None, s, outbound, batch)
               | Some odcid \<Rightarrow>
                   (case qs_accept_session L now (hdr_dcid hdr) (Some odcid) odcid peer local s batch of
                      (h, s', b') \<Rightarrow> (h, s', outbound, b')))
          | None \<Rightarrow>
              (case gen (qs_map s) of
                 (Inl _, m) \<Rightarrow> (None, s\<lparr>qs_map := m\<rparr>, outbound, batch)
               | (Inr scid, m) \<Rightarrow>
                   let token = cm_mint_token (ql_hmac L) m secs peer (hdr_dcid hdr) in
                   (None, s\<lparr>qs_map := m\<rparr>,
                    (case ql_retry L (hdr_scid hdr) (hdr_dcid hdr) scid token (hdr_version hdr) of
                       None \<Rightarrow> outbound
                     | Some pkt \<Rightarrow> outbound @ [\<lparr>tx_data = pkt, tx_payload_len = length pkt, tx_to = peer,
                                                tx_max_segment_size = None\<rparr>]),
                    batch)))"

definition qs_handshake ::
  "'q quic_lib \<Rightarrow> instant \<Rightarrow> bool \<Rightarrow> conn_handle \<Rightarrow> 'q quic_connection \<Rightarrow> js_event list \<Rightarrow> 'q quic_connection \<times> js_event list" where
  "qs_handshake L now require_cert eh c batch =
     (let Q = ql_quiche L;
          c1 = (if q_is_established Q (qc_quiche c) \<and> \<not> qc_is_established c then quic_mark_established now c else c);
          cert = q_peer_cert Q (qc_quiche c1)
      in if q_is_established Q (qc_quiche c1) \<and> \<not> qc_handshake_complete_emitted c1 then
           if require_cert \<and> cert = None
           then (c1\<lparr>qc_quiche := q_close Q (qc_quiche c1) False 0x0100 ''client certificate required''\<rparr>, batch)
           else (c1\<lparr>qc_handshake_complete_emitted := True\<rparr>,
                 batch @ [ev_handshake_complete_with_peer_certificate eh (cert \<noteq> None)
                   (case ql_cert_chain L (qc_quiche c1) of
                      Some chain \<Rightarrow> Some chain
                    | None \<Rightarrow> map_option (\<lambda>x. [x]) cert)])
         else (c1, batch))"

definition qs_receive_packet ::
  "'q quic_lib \<Rightarrow> instant \<Rightarrow> nat \<Rightarrow> nat \<Rightarrow> byte list \<Rightarrow> nat \<Rightarrow> 'q quic_server \<Rightarrow> js_event list
     \<Rightarrow> (bool \<times> 'q quic_server \<times> js_event list) option" where
  "qs_receive_packet L now fuel budget buf handle s batch =
     (let Q = ql_quiche L; eh = qs_event_handle s handle in
      case cm_get (qs_map s) handle of
        None \<Rightarrow> Some (False, s, batch)
      | Some c0 \<Rightarrow>
          (case quic_recv Q c0 buf of
             (Inl _, c1) \<Rightarrow> Some (False, qs_put handle c1 s, batch)
           | (Inr _, c1) \<Rightarrow>
               (case qs_handshake L now (qs_require_client_cert s) eh c1 batch of (c2, b2) \<Rightarrow>
                  let scid = q_source_id Q (qc_quiche c2);
                      needs_update = (scid \<noteq> qc_conn_id c2);
                      c3 = (if needs_update then c2\<lparr>qc_conn_id := scid\<rparr> else c2)
                  in (case qs_poll_connection Q now eh budget c3 b2 of (c4, b4) \<Rightarrow>
                        (case retired_loop Q fuel (qc_quiche c4) of
                           None \<Rightarrow> None
                         | Some (retired, q5) \<Rightarrow>
                             let c5 = c4\<lparr>qc_quiche := q5\<rparr>;
                                 m1 = cm_put (qs_map s) handle c5;
                                 m2 = (if needs_update then add_dcid m1 handle scid else m1);
                                 m3 = foldl remove_dcid m2 retired
                             in Some (True, s\<lparr>qs_map := m3\<rparr>, b4))))))"

definition qs_arm_after_packet :: "instant \<Rightarrow> nat \<Rightarrow> nat option \<Rightarrow> 'q quic_server \<Rightarrow> 'q quic_server" where
  "qs_arm_after_packet now handle timeout s =
     s\<lparr>qs_timers := set_deadline (qs_timers s) handle (map_option (\<lambda>t. now + t) timeout)\<rparr>"

definition qs_conn_timeout :: "'q quiche_api \<Rightarrow> 'q quic_server \<Rightarrow> nat \<Rightarrow> nat option" where
  "qs_conn_timeout Q s handle = (case cm_get (qs_map s) handle of None \<Rightarrow> None | Some c \<Rightarrow> q_timeout Q (qc_quiche c))"

definition qs_process_inbound_packet ::
  "'q quic_lib \<Rightarrow> instant \<Rightarrow> 64 word \<Rightarrow> nat \<Rightarrow> nat \<Rightarrow> byte list \<Rightarrow> socket_addr \<Rightarrow> socket_addr
     \<Rightarrow> 'q quic_server \<Rightarrow> tx_datagram list \<Rightarrow> js_event list \<Rightarrow> ('q quic_server \<times> tx_datagram list \<times> js_event list) option" where
  "qs_process_inbound_packet L now secs fuel budget buf peer local s outbound batch =
     (case ql_header L buf of
        None \<Rightarrow> Some (s, outbound, batch)
      | Some hdr \<Rightarrow>
          (case qs_route_or_accept L now secs (generate_scid_direct (ql_hmac L)) hdr peer local s outbound batch of
             (None, s1, out1, b1) \<Rightarrow> Some (s1, out1, b1)
           | (Some handle, s1, out1, b1) \<Rightarrow>
               (case qs_receive_packet L now fuel budget buf handle s1 b1 of
                  None \<Rightarrow> None
                | Some (received, s2, b2) \<Rightarrow>
                    Some (if received then qs_arm_after_packet now handle (qs_conn_timeout (ql_quiche L) s2 handle) s2
                          else s2, out1, b2))))"

fun qs_top_up_scids ::
  "'q quiche_api \<Rightarrow> (byte list option \<times> byte list option) list \<Rightarrow> nat \<Rightarrow> 'q quic_connection connection_map
     \<Rightarrow> 'q quic_connection connection_map option" where
  "qs_top_up_scids Q rng handle m =
     (case cm_get m handle of
        None \<Rightarrow> Some m
      | Some c \<Rightarrow>
          if \<not> (q_is_established Q (qc_quiche c) \<and> 0 < q_scids_left Q (qc_quiche c)) then Some m
          else case rng of
            [] \<Rightarrow> None
          | (r, t) # rng' \<Rightarrow>
              (case cm_generate_scid m r of
                 Inl _ \<Rightarrow> Some m
               | Inr scid \<Rightarrow>
                   (case t of
                      None \<Rightarrow> Some m
                    | Some token \<Rightarrow>
                        (case q_new_scid Q (qc_quiche c) scid token of (added, q') \<Rightarrow>
                           let m1 = cm_put m handle (c\<lparr>qc_quiche := q'\<rparr>) in
                           if added then qs_top_up_scids Q rng' handle (add_dcid m1 handle scid) else Some m1))))"

declare qs_top_up_scids.simps [simp del]

definition qs_process_packet ::
  "'q quic_lib \<Rightarrow> instant \<Rightarrow> 64 word \<Rightarrow> nat \<Rightarrow> byte list option \<Rightarrow> (byte list option \<times> byte list option) list
     \<Rightarrow> nat \<Rightarrow> byte list \<Rightarrow> socket_addr \<Rightarrow> socket_addr \<Rightarrow> 'q quic_server \<Rightarrow> tx_datagram list \<Rightarrow> js_event list
     \<Rightarrow> ('q quic_server \<times> tx_datagram list \<times> js_event list) option" where
  "qs_process_packet L now secs fuel rng rngs budget buf peer local s outbound batch =
     (case ql_header L buf of
        None \<Rightarrow> Some (s, outbound, batch)
      | Some hdr \<Rightarrow>
          (case qs_route_or_accept L now secs (\<lambda>m. (cm_generate_scid m rng, m)) hdr peer local s outbound batch of
             (None, s1, out1, b1) \<Rightarrow> Some (s1, out1, b1)
           | (Some handle, s1, out1, b1) \<Rightarrow>
               (case qs_receive_packet L now fuel budget buf handle s1 b1 of
                  None \<Rightarrow> None
                | Some (received, s2, b2) \<Rightarrow>
                    if \<not> received then Some (s2, out1, b2)
                    else (case qs_top_up_scids (ql_quiche L) rngs handle (qs_map s2) of
                            None \<Rightarrow> None
                          | Some m \<Rightarrow>
                              Some (qs_arm_after_packet now handle (qs_conn_timeout (ql_quiche L) s2 handle)
                                      (s2\<lparr>qs_map := m\<rparr>), out1, b2)))))"

subsection \<open>Commands\<close>

datatype quic_server_command =
    QStreamSend conn_handle stream_id chunk bool
  | QStreamClose conn_handle stream_id "32 word"
  | QCloseSession conn_handle "32 word" string
  | QSendDatagram conn_handle chunk
  | QGetSessionMetrics conn_handle
  | QPingSession conn_handle
  | QGetQlogPath conn_handle
  | QShutdown

fun quic_server_command_outbound_bytes :: "quic_server_command \<Rightarrow> nat" where
  "quic_server_command_outbound_bytes (QStreamSend h sid ch fin) = outbound_payload_units (chunk_remaining_len ch) fin"
| "quic_server_command_outbound_bytes (QSendDatagram h d) = chunk_remaining_len d"
| "quic_server_command_outbound_bytes _ = 0"

definition snapshot_quic_metrics :: "'q quic_lib \<Rightarrow> 'q quic_connection \<Rightarrow> js_session_metrics" where
  "snapshot_quic_metrics L c =
     (let ps = ql_path_stats L (qc_quiche c) in
      \<lparr>m_packets_in = word_of_nat (packets_in (qc_metrics c)), m_packets_out = word_of_nat (packets_out (qc_metrics c)),
       m_bytes_in = as_i64 (bytes_in (qc_metrics c)), m_bytes_out = as_i64 (bytes_out (qc_metrics c)),
       m_handshake_time_ms = (case handshake_complete_at (qc_metrics c) of None \<Rightarrow> 0 | Some t \<Rightarrow> t - qc_created_at c),
       m_rtt_ms = (case ps of None \<Rightarrow> 0 | Some (rtt, _, _) \<Rightarrow> rtt),
       m_cwnd = as_i64 (case ps of None \<Rightarrow> 0 | Some (_, cwnd, _) \<Rightarrow> cwnd),
       m_pmtu = as_i64 (case ps of None \<Rightarrow> 0 | Some (_, _, pmtu) \<Rightarrow> pmtu),
       m_datagram_queue_depth = word_of_nat (length (qc_outbound_datagrams c))\<rparr>)"

definition quic_send_failed :: "'q quic_lib \<Rightarrow> conn_handle \<Rightarrow> stream_id \<Rightarrow> native_error \<Rightarrow> js_event" where
  "quic_send_failed L eh sid e =
     ev_error eh (as_i64 sid) 0
       (''stream send failed: '' @ native_error_text (q_error_text (ql_quiche L)) (ql_h3_error_text L) e)"

text \<open>Blocked and failed sends are reported under the handle of the command, which is the local one.\<close>

definition qs_do_stream_send ::
  "'q quic_lib \<Rightarrow> conn_handle \<Rightarrow> stream_id \<Rightarrow> chunk \<Rightarrow> bool \<Rightarrow> 'q quic_server \<Rightarrow> js_event list \<Rightarrow> 'q quic_server \<times> js_event list" where
  "qs_do_stream_send L h sid ch fin s batch =
     (let outbound_units = outbound_payload_units (chunk_remaining_len ch) fin in
      case hm_get (qs_writes s) (h, sid) of
        Some pw \<Rightarrow> (s\<lparr>qs_writes := hm_insert (h, sid) (push_and_fin pw ch fin) (qs_writes s)\<rparr>, batch)
      | None \<Rightarrow>
          (case cm_get (qs_map s) (unat h) of
             None \<Rightarrow> qs_release outbound_units s batch
           | Some c \<Rightarrow>
               (case stream_send_chunk (ql_quiche L) sid c ch fin of
                  (Inr out, c') \<Rightarrow>
                    (case qs_release
                            (accepted_outbound_payload_units (chunk_remaining_len ch) fin (so_written out) (so_fin_accepted out))
                            (qs_put (unat h) c' s) batch of
                       (s1, b1) \<Rightarrow>
                         (case so_remainder out of
                            None \<Rightarrow> (s1, b1)
                          | Some r \<Rightarrow>
                              (s1\<lparr>qs_writes := insert_pending_write (h, sid) (pending_write_new r fin) (qs_writes s1)\<rparr>,
                               b1 @ [ev_stream_blocked h sid])))
                | (Inl e, c') \<Rightarrow>
                    (case qs_release outbound_units (qs_put (unat h) c' s) batch of
                       (s1, b1) \<Rightarrow> (s1, b1 @ [quic_send_failed L h sid e])))))"

definition qs_do_stream_close ::
  "'q quiche_api \<Rightarrow> conn_handle \<Rightarrow> stream_id \<Rightarrow> 32 word \<Rightarrow> 'q quic_server \<Rightarrow> js_event list \<Rightarrow> 'q quic_server \<times> js_event list" where
  "qs_do_stream_close Q h sid code s batch =
     (case cm_get (qs_map s) (unat h) of
        None \<Rightarrow> (s, batch)
      | Some c \<Rightarrow>
          let s1 = qs_put (unat h) (quic_stream_close Q sid (unat code) c) s in
          (case remove_pending_write (h, sid) (qs_writes s1) of (released, ws) \<Rightarrow>
             (case qs_release released (s1\<lparr>qs_writes := ws\<rparr>) batch of
                (s2, b2) \<Rightarrow> (s2, if 0 < released then b2 @ [ev_reset h sid (unat code)] else b2))))"

definition qs_close_connection :: "'q quiche_api \<Rightarrow> conn_handle \<Rightarrow> 32 word \<Rightarrow> string \<Rightarrow> 'q quic_server \<Rightarrow> 'q quic_server" where
  "qs_close_connection Q h code reason s =
     (case cm_get (qs_map s) (unat h) of
        None \<Rightarrow> s
      | Some c \<Rightarrow> qs_put (unat h) (c\<lparr>qc_quiche := q_close Q (qc_quiche c) True (unat code) reason\<rparr>) s)"

definition qs_send_datagram :: "'q quiche_api \<Rightarrow> conn_handle \<Rightarrow> chunk \<Rightarrow> 'q quic_server \<Rightarrow> bool \<times> 'q quic_server" where
  "qs_send_datagram Q h d s =
     (case cm_get (qs_map s) (unat h) of
        None \<Rightarrow> (False, s)
      | Some c \<Rightarrow> (case queue_datagram Q d c of (r, c') \<Rightarrow> ((case r of Inl _ \<Rightarrow> False | Inr ok \<Rightarrow> ok), qs_put (unat h) c' s)))"

definition qs_ping :: "'q quiche_api \<Rightarrow> instant \<Rightarrow> conn_handle \<Rightarrow> 'q quic_server \<Rightarrow> bool \<times> 'q quic_server" where
  "qs_ping Q now h s =
     (case cm_get (qs_map s) (unat h) of
        None \<Rightarrow> (False, s)
      | Some c \<Rightarrow> (case quic_queue_ping Q now c of (r, c') \<Rightarrow> (r = Inr (), qs_put (unat h) c' s)))"

fun qs_dispatch_command ::
  "'q quic_lib \<Rightarrow> instant \<Rightarrow> quic_server_command \<Rightarrow> 'q quic_server \<Rightarrow> js_event list
     \<Rightarrow> bool \<times> worker_reply \<times> 'q quic_server \<times> js_event list" where
  "qs_dispatch_command L now QShutdown s batch = (True, NoReply, qs_shutdown_all (ql_quiche L) s, batch)"
| "qs_dispatch_command L now (QStreamSend h sid ch fin) s batch = (False, NoReply, qs_do_stream_send L h sid ch fin s batch)"
| "qs_dispatch_command L now (QStreamClose h sid code) s batch =
     (False, NoReply, qs_do_stream_close (ql_quiche L) h sid code s batch)"
| "qs_dispatch_command L now (QCloseSession h code reason) s batch =
     (False, NoReply, qs_close_connection (ql_quiche L) h code reason s, batch)"
| "qs_dispatch_command L now (QSendDatagram h d) s batch =
     (case qs_send_datagram (ql_quiche L) h d s of (ok, s1) \<Rightarrow>
        (False, BoolReply ok, qs_release (chunk_remaining_len d) s1 batch))"
| "qs_dispatch_command L now (QGetSessionMetrics h) s batch =
     (False, MetricsReply (map_option (snapshot_quic_metrics L) (cm_get (qs_map s) (unat h))), s, batch)"
| "qs_dispatch_command L now (QPingSession h) s batch =
     (case qs_ping (ql_quiche L) now h s of (ok, s1) \<Rightarrow> (False, BoolReply ok, s1, batch))"
| "qs_dispatch_command L now (QGetQlogPath h) s batch =
     (False, PathReply (case cm_get (qs_map s) (unat h) of None \<Rightarrow> None | Some c \<Rightarrow> ql_qlog_path L c), s, batch)"

subsection \<open>Direct calls\<close>

definition qs_queue_stream_send ::
  "'q quic_lib \<Rightarrow> conn_handle \<Rightarrow> stream_id \<Rightarrow> chunk \<Rightarrow> bool \<Rightarrow> 'q quic_server \<Rightarrow> js_event list
     \<Rightarrow> nat \<times> 'q quic_server \<times> js_event list" where
  "qs_queue_stream_send L h sid ch fin s batch =
     (let eh = qs_offset s OR h in
      case hm_get (qs_writes s) (h, sid) of
        Some pw \<Rightarrow> (0, s\<lparr>qs_writes := hm_insert (h, sid) (push_and_fin pw ch fin) (qs_writes s)\<rparr>, batch)
      | None \<Rightarrow>
          (case cm_get (qs_map s) (unat h) of
             None \<Rightarrow> (0, s, batch)
           | Some c \<Rightarrow>
               (case stream_send_chunk (ql_quiche L) sid c ch fin of
                  (Inr out, c') \<Rightarrow>
                    let s1 = qs_put (unat h) c' s;
                        released = accepted_outbound_payload_units (chunk_remaining_len ch) fin
                          (so_written out) (so_fin_accepted out)
                    in (case so_remainder out of
                          None \<Rightarrow> (released, s1, batch)
                        | Some r \<Rightarrow>
                            (released, s1\<lparr>qs_writes := insert_pending_write (h, sid) (pending_write_new r fin) (qs_writes s1)\<rparr>,
                             batch @ [ev_stream_blocked eh sid]))
                | (Inl e, c') \<Rightarrow>
                    (outbound_payload_units (chunk_remaining_len ch) fin, qs_put (unat h) c' s,
                     batch @ [quic_send_failed L eh sid e]))))"

definition qs_has_pending_stream_write :: "conn_handle \<Rightarrow> stream_id \<Rightarrow> 'q quic_server \<Rightarrow> bool" where
  "qs_has_pending_stream_write h sid s \<longleftrightarrow> hm_contains (qs_writes s) (h, sid)"

definition qs_close_stream ::
  "'q quiche_api \<Rightarrow> conn_handle \<Rightarrow> stream_id \<Rightarrow> 32 word \<Rightarrow> 'q quic_server \<Rightarrow> js_event list
     \<Rightarrow> nat \<times> 'q quic_server \<times> js_event list" where
  "qs_close_stream Q h sid code s batch =
     (case cm_get (qs_map s) (unat h) of
        None \<Rightarrow> (0, s, batch)
      | Some c \<Rightarrow>
          let s1 = qs_put (unat h) (quic_stream_close Q sid (unat code) c) s in
          (case remove_pending_write (h, sid) (qs_writes s1) of (released, ws) \<Rightarrow>
             (released, s1\<lparr>qs_writes := ws\<rparr>,
              if 0 < released then batch @ [ev_reset (qs_offset s OR h) sid (unat code)] else batch)))"

end
