(* ===== verification/Quic_Server_Runs.thy ===== *)
theory Quic_Server_Runs
  imports Quic_Server Worker_System
begin

text \<open>
  Runs of a raw QUIC server worker: what every operation keeps of the worker's well-formedness and of
  the units of its admission window. The contract of \<^verbatim>\<open>Worker_System\<close> is interpreted on the worker.
\<close>

subsection \<open>Well-formed workers\<close>

definition qs_typed :: "'q quic_server \<Rightarrow> bool" where
  "qs_typed s \<longleftrightarrow> conns_all quic_inv (qs_map s) \<and> timer_inv (qs_timers s) \<and> writes_typed (qs_writes s)"

definition qs_held :: "'q quic_server \<Rightarrow> nat" where
  "qs_held s = hm_sum queued_units (qs_writes s)"

definition quic_lib_laws ::
  "'q quic_lib \<Rightarrow> ('q \<Rightarrow> stream_id \<Rightarrow> byte list) \<Rightarrow> ('q \<Rightarrow> stream_id \<Rightarrow> bool) \<Rightarrow> bool" where
  "quic_lib_laws L sent finned \<longleftrightarrow> quiche_send_laws (ql_quiche L) sent finned \<and> (\<forall>ks. ql_vacant L ks \<notin> set ks)"

text \<open>Operations on connections, ids and timers only.\<close>

definition qs_quiet :: "'q quic_server \<Rightarrow> 'q quic_server \<Rightarrow> bool" where
  "qs_quiet s s' \<longleftrightarrow> (qs_typed s \<longrightarrow> qs_typed s') \<and> qs_writes s' = qs_writes s
     \<and> qs_admission s' = qs_admission s \<and> qs_offset s' = qs_offset s"

lemma qs_quiet_refl [simp]: "qs_quiet s s"
  by (simp add: qs_quiet_def)

lemma qs_quiet_trans [trans]: "qs_quiet s s1 \<Longrightarrow> qs_quiet s1 s2 \<Longrightarrow> qs_quiet s s2"
  by (simp add: qs_quiet_def)

lemma qs_typed_get: "qs_typed s \<Longrightarrow> cm_get (qs_map s) h = Some c \<Longrightarrow> quic_inv c"
  by (auto simp: qs_typed_def dest: conns_all_get)

lemma qs_quiet_map: "(conns_all quic_inv (qs_map s) \<Longrightarrow> conns_all quic_inv m) \<Longrightarrow> qs_quiet s (s\<lparr>qs_map := m\<rparr>)"
  by (auto simp: qs_quiet_def qs_typed_def)

lemma qs_quiet_put: "(qs_typed s \<Longrightarrow> quic_inv c) \<Longrightarrow> qs_quiet s (qs_put h c s)"
  by (auto simp: qs_quiet_def qs_typed_def conns_all_put)

lemma qs_quiet_timers: "(timer_inv (qs_timers s) \<Longrightarrow> timer_inv t) \<Longrightarrow> qs_quiet s (s\<lparr>qs_timers := t\<rparr>)"
  by (auto simp: qs_quiet_def qs_typed_def)

lemma qs_quiet_expired [simp]: "qs_quiet s (s\<lparr>qs_last_expired := ex\<rparr>)"
  by (simp add: qs_quiet_def qs_typed_def)

lemma quic_inv_more [simp]:
  "quic_inv (c\<lparr>qc_handshake_complete_emitted := x\<rparr>) = quic_inv c" "quic_inv (c\<lparr>qc_conn_id := d\<rparr>) = quic_inv c"
  by (simp_all add: quic_inv_def)

lemmas quic_inv_op = quic_inv_step [OF quic_step.recv] quic_inv_step [OF quic_step.send] quic_inv_step [OF quic_step.ping]
  quic_inv_step [OF quic_step.ping_acks] quic_inv_step [OF quic_step.established] quic_inv_step [OF quic_step.close]
  quic_inv_step [OF quic_step.datagram] quic_inv_step [OF quic_step.drain_datagrams]

subsection \<open>Polling and timers\<close>

lemma qs_poll_inv:
  assumes "qs_poll_connection Q now eh budget c b = (c', b')" "quic_inv c"
  shows "quic_inv c'"
proof -
  have "c' = snd (quic_poll_ping_acks Q now (fst (poll_quic_events Q eh budget c b)))"
    using assms(1) by (auto simp: qs_poll_connection_def split: prod.splits)
  then show ?thesis using quic_inv_op(4) [OF quic_inv_poll [OF assms(2), of Q eh budget b], of Q now] by simp
qed

lemma qs_quiet_poll:
  assumes "qs_poll_connection Q now eh budget c b = (c', b')" "qs_typed s \<Longrightarrow> quic_inv c"
  shows "qs_quiet s (qs_put h c' s)"
  by (rule qs_quiet_put) (rule qs_poll_inv [OF assms])

lemma qs_quiet_collect: "qs_collect_loop Q now budget n hs s b = (s', b') \<Longrightarrow> qs_quiet s s'"
proof (induction hs arbitrary: n s b)
  case (Cons h hs)
  show ?case
  proof (cases "n = 0 \<or> cm_get (qs_map s) h = None")
    case True
    with Cons show ?thesis by (auto split: option.splits if_splits)
  next
    case False
    then obtain c where c: "cm_get (qs_map s) h = Some c" by auto
    obtain c1 b1 where p: "qs_poll_connection Q now (qs_event_handle s h) n c b = (c1, b1)" by fastforce
    have "qs_quiet s (qs_put h c1 s)" by (rule qs_quiet_poll [OF p]) (rule qs_typed_get [OF _ c])
    also have "qs_quiet (qs_put h c1 s) s'" using Cons False c p by simp
    finally show ?thesis .
  qed
qed simp

lemma qs_quiet_app: "qs_collect_app_events Q now budget s b = (s', b') \<Longrightarrow> qs_quiet s s'"
  using qs_quiet_collect [of Q now budget budget] by (auto simp: qs_collect_app_events_def split: if_splits)

lemma qs_quiet_sweep_one:
  assumes "qs_sweep_one Q budget h s b = (s', b')"
  shows "qs_quiet s s'"
proof (cases "cm_get (qs_map s) h")
  case (Some c)
  obtain c1 b1 where p: "sweep_finished_streams Q (qs_event_handle s h) budget c b = (c1, b1)" by fastforce
  have "qs_quiet s (qs_put h c1 s)"
    by (rule qs_quiet_put) (use quic_inv_sweep [OF qs_typed_get [OF _ Some], of Q "qs_event_handle s h" budget b] p in simp)
  with assms Some p show ?thesis by (auto simp: qs_sweep_one_def split: if_splits)
qed (use assms in \<open>simp add: qs_sweep_one_def\<close>)

lemma qs_quiet_sweep: "qs_sweep_loop Q budget hs s b = (s', b') \<Longrightarrow> qs_quiet s s'"
proof (induction hs arbitrary: s b)
  case (Cons h hs)
  obtain s1 b1 where p: "qs_sweep_one Q budget h s b = (s1, b1)" by fastforce
  have "qs_quiet s s1" by (rule qs_quiet_sweep_one [OF p])
  also have "qs_quiet s1 s'" using Cons p by simp
  finally show ?case .
qed simp

lemma qs_quiet_drain: "qs_drain_loop Q budget hs s b = (s', b') \<Longrightarrow> qs_quiet s s'"
proof (induction hs arbitrary: s b)
  case (Cons h hs)
  obtain s1 b1 where p: "qs_sweep_one Q budget h s b = (s1, b1)" by fastforce
  have q: "qs_quiet s s1" by (rule qs_quiet_sweep_one [OF p])
  show ?case
  proof (cases "h \<in> set (qs_last_expired s1) \<or> cm_get (qs_map s1) h = None
      \<or> (\<exists>c. cm_get (qs_map s1) h = Some c \<and> blocked_set (qc_blocked c) = [])")
    case True
    with Cons.prems p have "qs_drain_loop Q budget hs s1 b1 = (s', b')" by (auto split: if_splits option.splits)
    from q Cons.IH [OF this] show ?thesis by (rule qs_quiet_trans)
  next
    case False
    then obtain c where c: "cm_get (qs_map s1) h = Some c" "blocked_set (qc_blocked c) \<noteq> []" "h \<notin> set (qs_last_expired s1)" by auto
    obtain c2 b2 where d: "quic_poll_drain_events Q (qs_event_handle s h) c b1 = (c2, b2)" by fastforce
    have "qs_quiet s1 (qs_put h c2 s1)"
      by (rule qs_quiet_put) (use quic_inv_drain [OF qs_typed_get [OF _ c(1)], of Q "qs_event_handle s h" b1] d in simp)
    with q have "qs_quiet s (qs_put h c2 s1)" by (rule qs_quiet_trans)
    moreover have "qs_drain_loop Q budget hs (qs_put h c2 s1) b2 = (s', b')" using Cons.prems p c d by simp
    ultimately show ?thesis using Cons.IH by (blast intro: qs_quiet_trans)
  qed
qed simp

lemma qs_quiet_expire_loop: "qs_expire_loop Q now budget hs s b = (s', b') \<Longrightarrow> qs_quiet s s'"
proof (induction hs arbitrary: s b)
  case (Cons h hs)
  show ?case
  proof (cases "cm_get (qs_map s) h")
    case None
    with Cons show ?thesis by simp
  next
    case (Some c0)
    define c where "c = c0\<lparr>qc_quiche := q_on_timeout Q (qc_quiche c0)\<rparr>"
    have t: "qs_typed s \<Longrightarrow> quic_inv c" using qs_typed_get [OF _ Some] by (simp add: c_def)
    show ?thesis
    proof (cases "q_is_closed Q (qc_quiche c)")
      case True
      have "qs_quiet s (qs_put h c s)" by (rule qs_quiet_put [OF t])
      also have "qs_quiet (qs_put h c s) s'" using Cons Some True by (simp add: Let_def c_def)
      finally show ?thesis .
    next
      case False
      obtain c1 b1 where p: "qs_poll_connection Q now (qs_event_handle s h) budget c b = (c1, b1)" by fastforce
      define s2 where "s2 = (qs_put h c1 s)\<lparr>qs_timers := set_deadline (qs_timers s) h
          (map_option (\<lambda>t. now + t) (q_timeout Q (qc_quiche c1)))\<rparr>"
      have "qs_quiet s (qs_put h c1 s)" by (rule qs_quiet_poll [OF p t])
      also have "qs_quiet (qs_put h c1 s) s2" unfolding s2_def by (rule qs_quiet_timers) (simp add: set_deadline_inv)
      also have "qs_quiet s2 s'" using Cons.prems Some False p by (intro Cons.IH) (simp add: Let_def c_def s2_def)
      finally show ?thesis .
    qed
  qed
qed simp

lemma qs_quiet_timers_step:
  assumes "qs_expire_timers Q now budget s b = (s', b')"
  shows "qs_quiet s s'"
proof -
  obtain expired t where p: "pop_expired (qs_timers s) now = (expired, t)" by fastforce
  let ?ex = "remdups (sort expired)"
  obtain s1 b1 where l: "qs_expire_loop Q now budget ?ex (s\<lparr>qs_timers := t, qs_last_expired := ?ex\<rparr>) b = (s1, b1)" by fastforce
  have w: "qs_sweep_loop Q budget (fill_handles (qs_map s1)) s1 b1 = (s', b')"
    using assms p l by (simp add: qs_expire_timers_def Let_def)
  have "qs_quiet s (s\<lparr>qs_timers := t\<rparr>)" by (rule qs_quiet_timers) (rule pop_expired_spec(3) [OF _ p])
  also have "qs_quiet (s\<lparr>qs_timers := t\<rparr>) (s\<lparr>qs_timers := t, qs_last_expired := ?ex\<rparr>)" by (rule qs_quiet_expired)
  also have "qs_quiet (s\<lparr>qs_timers := t, qs_last_expired := ?ex\<rparr>) s1" by (rule qs_quiet_expire_loop [OF l])
  also have "qs_quiet s1 s'" by (rule qs_quiet_sweep [OF w])
  finally show ?thesis .
qed

subsection \<open>Sending\<close>

lemma conns_send_pass: "qs_send_pass Q hs m out = (hs', m', out') \<Longrightarrow> conns_all quic_inv m \<Longrightarrow> conns_all quic_inv m'"
proof (induction hs arbitrary: m out hs' m' out')
  case (Cons x hs)
  obtain h d where x: "x = (h, d)" by (cases x)
  show ?case
  proof (cases "d \<or> cm_get m h = None")
    case True
    then obtain hs1 o1 where "qs_send_pass Q hs m out = (hs1, m', o1)"
      using Cons.prems(1) x by (cases d) (auto split: prod.splits)
    with Cons show ?thesis by blast
  next
    case False
    then obtain c where c: "cm_get m h = Some c" by auto
    obtain r c1 where s: "quic_send Q (drain_outbound_datagrams Q c) TX_BUFFER_LEN = (r, c1)" by fastforce
    have "quic_inv c1"
      using quic_inv_op(2) [OF quic_inv_op(8) [OF conns_all_get [OF Cons.prems(2) c]], of Q Q TX_BUFFER_LEN] s by simp
    with Cons.prems(2) have "conns_all quic_inv (cm_put m h c1)" by (rule conns_all_put)
    moreover obtain hs1 out1 o2 where "qs_send_pass Q hs (cm_put m h c1) out1 = (hs1, m', o2)"
      using Cons.prems(1) x False c s by (auto split: sum.splits prod.splits)
    ultimately show ?thesis using Cons.IH by blast
  qed
qed auto

lemma conns_send_rounds: "qs_send_rounds Q fuel hs m out = Some (m', out') \<Longrightarrow> conns_all quic_inv m \<Longrightarrow> conns_all quic_inv m'"
proof (induction fuel arbitrary: hs m out)
  case 0
  then show ?case by (auto simp: qs_send_rounds.simps [of Q 0] split: if_splits)
next
  case (Suc fuel)
  obtain hs1 m1 out1 where p: "qs_send_pass Q hs m out = (hs1, m1, out1)" by (cases "qs_send_pass Q hs m out")
  show ?case
  proof (cases "\<forall>(_, don) \<in> set hs. don")
    case False
    with Suc.prems(1) p have "qs_send_rounds Q fuel hs1 m1 out1 = Some (m', out')"
      by (simp add: qs_send_rounds.simps [of Q "Suc fuel"])
    from Suc.IH [OF this conns_send_pass [OF p Suc.prems(2)]] show ?thesis .
  qed (use Suc.prems in \<open>simp add: qs_send_rounds.simps [of Q "Suc fuel"]\<close>)
qed

lemma qs_timer_foldl: "timer_inv t \<Longrightarrow> timer_inv (foldl (qs_rearm Q now m) t hs)"
  by (induction hs arbitrary: t) (simp_all add: qs_rearm_def set_deadline_inv)

lemma qs_quiet_sends:
  assumes "qs_flush_all_sends Q now fuel s out = Some (s', out')"
  shows "qs_quiet s s'"
proof (cases "fill_handles (qs_map s) = []")
  case False
  then obtain m where r: "qs_send_rounds Q fuel (map (\<lambda>h. (h, False)) (fill_handles (qs_map s))) (qs_map s) out = Some (m, out')"
    and s': "s' = s\<lparr>qs_map := m, qs_timers := foldl (qs_rearm Q now m) (qs_timers s) (fill_handles (qs_map s))\<rparr>"
    using assms by (auto simp: qs_flush_all_sends_def Let_def split: option.splits)
  have "qs_quiet s (s\<lparr>qs_map := m\<rparr>)" by (rule qs_quiet_map) (rule conns_send_rounds [OF r])
  also have "qs_quiet (s\<lparr>qs_map := m\<rparr>) s'" unfolding s' by (rule qs_quiet_timers) (simp add: qs_timer_foldl)
  finally show ?thesis .
qed (use assms in \<open>simp add: qs_flush_all_sends_def\<close>)

subsection \<open>Packets\<close>

lemma qs_quiet_accept:
  assumes vac: "\<And>ks. ql_vacant L ks \<notin> set ks" and a: "qs_accept_session L now scid odcid alias peer local s b = (h, s', b')"
  shows "qs_quiet s s'"
proof -
  obtain r m where m: "accept_new (ql_vacant L) (quic_accept L now) (qs_map s) scid odcid peer local = (r, m)" by fastforce
  have new: "quic_inv c" if "quic_accept L now scid odcid local peer = Inr c" for c
    using that by (auto simp: quic_accept_def quic_inv_def quic_connection_new_def split: sum.splits)
  have q: "qs_quiet s (s\<lparr>qs_map := m\<rparr>)" by (rule qs_quiet_map) (rule conns_all_accept [OF _ m vac new])
  show ?thesis
  proof (cases r)
    case (Inr x)
    with a m have s': "s' = s\<lparr>qs_map := add_dcid m x alias\<rparr>" by (simp add: qs_accept_session_def)
    have "qs_quiet (s\<lparr>qs_map := m\<rparr>) ((s\<lparr>qs_map := m\<rparr>)\<lparr>qs_map := add_dcid m x alias\<rparr>)"
      by (rule qs_quiet_map) (simp add: conns_all_add)
    with q show ?thesis unfolding s' by (simp add: qs_quiet_trans)
  qed (use a m q in \<open>simp add: qs_accept_session_def\<close>)
qed

lemma qs_quiet_route:
  assumes vac: "\<And>ks. ql_vacant L ks \<notin> set ks"
    and gen: "\<And>r m. gen (qs_map s) = (r, m) \<Longrightarrow> conns_all quic_inv (qs_map s) \<Longrightarrow> conns_all quic_inv m"
    and a: "qs_route_or_accept L now secs gen hdr peer local s out b = (h, s', out', b')"
  shows "qs_quiet s s'"
proof -
  obtain r m where m: "gen (qs_map s) = (r, m)" by fastforce
  have q: "qs_quiet s (s\<lparr>qs_map := m\<rparr>)" by (rule qs_quiet_map) (rule gen [OF m])
  consider (same) "s' = s" | (made) "s' = s\<lparr>qs_map := m\<rparr>"
    | (fresh) scid dcid b1 h1 where "qs_accept_session L now scid None dcid peer local (s\<lparr>qs_map := m\<rparr>) b = (h1, s', b1)"
    | (token) scid od dcid b1 h1 where "qs_accept_session L now scid od dcid peer local s b = (h1, s', b1)"
    using a m unfolding qs_route_or_accept_def
    by (auto simp: Let_def split: option.splits if_splits sum.splits prod.splits)
  then show ?thesis
  proof cases
    case fresh
    from q qs_quiet_accept [OF vac this] show ?thesis by (rule qs_quiet_trans)
  next
    case token
    from qs_quiet_accept [OF vac this] show ?thesis .
  qed (use q in simp_all)
qed

lemma qs_handshake_inv:
  assumes "qs_handshake L now cert eh c b = (c', b')" "quic_inv c"
  shows "quic_inv c'"
  using assms(1) quic_inv_op(5) [OF assms(2), of now] assms(2) by (auto simp: qs_handshake_def Let_def split: if_splits)

lemma qs_quiet_receive:
  assumes r: "qs_receive_packet L now fuel budget buf h s b = Some (ok, s', b')"
  shows "qs_quiet s s'"
proof (cases "cm_get (qs_map s) h")
  case None
  with r show ?thesis by (simp add: qs_receive_packet_def)
next
  case (Some c0)
  let ?Q = "ql_quiche L"
  obtain x c1 where rc: "quic_recv ?Q c0 buf = (x, c1)" by fastforce
  have t1: "qs_typed s \<Longrightarrow> quic_inv c1" using quic_inv_op(1) [OF qs_typed_get [OF _ Some], of ?Q buf] rc by simp
  show ?thesis
  proof (cases x)
    case (Inl e)
    with r Some rc have "s' = qs_put h c1 s" by (simp add: qs_receive_packet_def Let_def)
    with qs_quiet_put [OF t1] show ?thesis by simp
  next
    case (Inr n)
    obtain c2 b2 where h2: "qs_handshake L now (qs_require_client_cert s) (qs_event_handle s h) c1 b = (c2, b2)" by fastforce
    define scid where "scid = q_source_id ?Q (qc_quiche c2)"
    define c3 where "c3 = (if scid \<noteq> qc_conn_id c2 then c2\<lparr>qc_conn_id := scid\<rparr> else c2)"
    have t3: "qs_typed s \<Longrightarrow> quic_inv c3" using qs_handshake_inv [OF h2 t1] by (simp add: c3_def)
    obtain c4 b4 where p: "qs_poll_connection ?Q now (qs_event_handle s h) budget c3 b2 = (c4, b4)" by fastforce
    obtain retired q5 where rt: "retired_loop ?Q fuel (qc_quiche c4) = Some (retired, q5)"
      and s': "s' = s\<lparr>qs_map := foldl remove_dcid (if scid \<noteq> qc_conn_id c2
          then add_dcid (cm_put (qs_map s) h (c4\<lparr>qc_quiche := q5\<rparr>)) h scid else cm_put (qs_map s) h (c4\<lparr>qc_quiche := q5\<rparr>)) retired\<rparr>"
      using r Some rc Inr h2 p unfolding qs_receive_packet_def
      by (auto simp: Let_def scid_def c3_def split: option.splits if_splits)
    show ?thesis
    proof (cases "qs_typed s")
      case True
      from qs_poll_inv [OF p t3 [OF True]] have "quic_inv c4" .
      with True have "conns_all quic_inv (qs_map s')"
        unfolding s' using conns_all_put [of quic_inv "qs_map s" "c4\<lparr>qc_quiche := q5\<rparr>" h]
        by (simp add: conns_all_foldl conns_all_remove_dcid conns_all_add qs_typed_def)
      with True show ?thesis by (simp add: s' qs_quiet_def qs_typed_def)
    qed (simp add: s' qs_quiet_def)
  qed
qed

lemma qs_quiet_arm: "qs_quiet s (qs_arm_after_packet now h t s)"
  unfolding qs_arm_after_packet_def by (rule qs_quiet_timers) (simp add: set_deadline_inv)

lemma conns_top_up: "qs_top_up_scids Q rng h m = Some m' \<Longrightarrow> conns_all quic_inv m \<Longrightarrow> conns_all quic_inv m'"
proof (induction rng arbitrary: m)
  case Nil
  then show ?case by (auto simp: qs_top_up_scids.simps [of Q "[]"] split: option.splits if_splits)
next
  case (Cons x rng)
  obtain r t where x: "x = (r, t)" by (cases x)
  show ?case
  proof (cases "cm_get m h")
    case None
    with Cons.prems show ?thesis by (simp add: qs_top_up_scids.simps [of Q "x # rng"])
  next
    case (Some c)
    show ?thesis
    proof (cases "(q_is_established Q (qc_quiche c) \<and> 0 < q_scids_left Q (qc_quiche c)) \<and> \<not> isl (cm_generate_scid m r) \<and> t \<noteq> None")
      case False
      with Some x Cons.prems have "m' = m"
        by (auto simp: qs_top_up_scids.simps [of Q "(r, t) # rng"] split: if_splits sum.splits)
      with Cons.prems(2) show ?thesis by simp
    next
      case True
      then obtain scid token where g: "cm_generate_scid m r = Inr scid" "t = Some token" by (cases "cm_generate_scid m r") auto
      obtain added q where n: "q_new_scid Q (qc_quiche c) scid token = (added, q)" by fastforce
      define m1 where "m1 = cm_put m h (c\<lparr>qc_quiche := q\<rparr>)"
      have m1: "conns_all quic_inv m1"
        unfolding m1_def by (rule conns_all_put [OF Cons.prems(2)]) (simp add: conns_all_get [OF Cons.prems(2) Some])
      from Cons.prems(1) Some x True g n have "(if added then qs_top_up_scids Q rng h (add_dcid m1 h scid) else Some m1) = Some m'"
        by (simp add: qs_top_up_scids.simps [of Q "(r, Some token) # rng"] m1_def Let_def split: if_splits)
      with m1 Cons.IH [OF _ conns_all_add [OF m1]] show ?thesis by (auto split: if_splits)
    qed
  qed
qed

lemma qs_quiet_inbound:
  assumes vac: "\<And>ks. ql_vacant L ks \<notin> set ks"
    and r: "qs_process_inbound_packet L now secs fuel budget buf peer local s out b = Some (s', out', b')"
  shows "qs_quiet s s'"
proof (cases "ql_header L buf")
  case None
  with r show ?thesis by (simp add: qs_process_inbound_packet_def)
next
  case (Some hdr)
  obtain ho s1 out1 b1 where a: "qs_route_or_accept L now secs (generate_scid_direct (ql_hmac L)) hdr peer local s out b = (ho, s1, out1, b1)"
    by (cases "qs_route_or_accept L now secs (generate_scid_direct (ql_hmac L)) hdr peer local s out b")
  have q: "qs_quiet s s1" by (rule qs_quiet_route [OF vac _ a]) (rule conns_all_generate)
  show ?thesis
  proof (cases ho)
    case None
    with r Some a q show ?thesis by (simp add: qs_process_inbound_packet_def)
  next
    case h: (Some h)
    obtain ok s2 b2 where rp: "qs_receive_packet L now fuel budget buf h s1 b1 = Some (ok, s2, b2)"
      and s': "s' = (if ok then qs_arm_after_packet now h (qs_conn_timeout (ql_quiche L) s2 h) s2 else s2)"
      using r Some a h by (auto simp: qs_process_inbound_packet_def split: option.splits)
    from q qs_quiet_receive [OF rp] have "qs_quiet s s2" by (rule qs_quiet_trans)
    then show ?thesis unfolding s' by (simp add: qs_quiet_trans [OF _ qs_quiet_arm])
  qed
qed

lemma qs_quiet_packet:
  assumes vac: "\<And>ks. ql_vacant L ks \<notin> set ks"
    and r: "qs_process_packet L now secs fuel rng rngs budget buf peer local s out b = Some (s', out', b')"
  shows "qs_quiet s s'"
proof (cases "ql_header L buf")
  case None
  with r show ?thesis by (simp add: qs_process_packet_def)
next
  case (Some hdr)
  obtain ho s1 out1 b1 where a: "qs_route_or_accept L now secs (\<lambda>m. (cm_generate_scid m rng, m)) hdr peer local s out b = (ho, s1, out1, b1)"
    by (cases "qs_route_or_accept L now secs (\<lambda>m. (cm_generate_scid m rng, m)) hdr peer local s out b")
  have q: "qs_quiet s s1" by (rule qs_quiet_route [OF vac _ a]) auto
  show ?thesis
  proof (cases ho)
    case None
    with r Some a q show ?thesis by (simp add: qs_process_packet_def)
  next
    case h: (Some h)
    obtain ok s2 b2 where rp: "qs_receive_packet L now fuel budget buf h s1 b1 = Some (ok, s2, b2)"
      using r Some a h by (cases "qs_receive_packet L now fuel budget buf h s1 b1") (auto simp: qs_process_packet_def)
    from q qs_quiet_receive [OF rp] have q2: "qs_quiet s s2" by (rule qs_quiet_trans)
    show ?thesis
    proof (cases ok)
      case True
      then obtain m where t: "qs_top_up_scids (ql_quiche L) rngs h (qs_map s2) = Some m"
        and s': "s' = qs_arm_after_packet now h (qs_conn_timeout (ql_quiche L) s2 h) (s2\<lparr>qs_map := m\<rparr>)"
        using r Some a h rp by (cases "qs_top_up_scids (ql_quiche L) rngs h (qs_map s2)") (simp_all add: qs_process_packet_def)
      have "qs_quiet s2 (s2\<lparr>qs_map := m\<rparr>)" by (rule qs_quiet_map) (rule conns_top_up [OF t])
      with q2 have "qs_quiet s (s2\<lparr>qs_map := m\<rparr>)" by (rule qs_quiet_trans)
      then show ?thesis unfolding s' using qs_quiet_arm by (rule qs_quiet_trans)
    next
      case False
      with r Some a h rp have "s' = s2" by (simp add: qs_process_packet_def)
      with q2 show ?thesis by simp
    qed
  qed
qed

end
