(* ===== verification/Quic_Server_Props.thy ===== *)
theory Quic_Server_Props
  imports Quic_Server_Runs H3_Server_Props
begin

text \<open>
  The commands of a raw QUIC server worker, its sweeps, the interpretation of the worker contract, and
  the properties of its runs.
\<close>

subsection \<open>Units\<close>

definition qs_settles :: "nat \<Rightarrow> nat \<Rightarrow> 'q quic_server \<Rightarrow> 'q quic_server \<Rightarrow> bool" where
  "qs_settles u leak s s' \<longleftrightarrow> (qs_typed s \<longrightarrow> qs_typed s'
     \<and> balanced u leak (queued (qs_admission s)) (qs_held s) (queued (qs_admission s')) (qs_held s'))"

lemma qs_settles_quiet: "qs_quiet s s' \<Longrightarrow> qs_settles 0 0 s s'"
  by (simp add: qs_settles_def qs_quiet_def balanced_def qs_held_def)

lemma qs_settles_then: "qs_settles u l s s1 \<Longrightarrow> qs_settles v k s1 s2 \<Longrightarrow> qs_settles (u + v) (l + k) s s2"
  using balanced_then by (fastforce simp: qs_settles_def)

lemma qs_settles_trans: "qs_settles 0 0 s s1 \<Longrightarrow> qs_settles 0 0 s1 s2 \<Longrightarrow> qs_settles 0 0 s s2"
  using qs_settles_then [of 0 0 s s1 0 0 s2] by simp

lemma qs_settles_after: "qs_quiet s s1 \<Longrightarrow> qs_settles u leak s1 s2 \<Longrightarrow> qs_settles u leak s s2"
  using qs_settles_then [OF qs_settles_quiet] by fastforce

lemma qs_release_spec:
  assumes "qs_release n s b = (s1, b1)"
  shows "s1 = s\<lparr>qs_admission := qs_admission s1\<rparr>" "queued (qs_admission s1) = queued (qs_admission s) - n"
    "b1 = b \<or> b1 = b @ [ev_write_ready 0]"
proof -
  obtain r adm where rel: "Admission.release (qs_admission s) n = (r, adm)" by fastforce
  with assms show "s1 = s\<lparr>qs_admission := qs_admission s1\<rparr>" "b1 = b \<or> b1 = b @ [ev_write_ready 0]"
    by (auto simp: qs_release_def split: if_splits)
  show "queued (qs_admission s1) = queued (qs_admission s) - n"
    using assms rel release_leaves [OF rel] by (auto simp: qs_release_def)
qed

lemma qs_release_frame [simp]:
  assumes "qs_release n s b = (s1, b1)"
  shows "qs_map s1 = qs_map s" "qs_writes s1 = qs_writes s" "qs_typed s1 = qs_typed s" "qs_held s1 = qs_held s"
    "qs_offset s1 = qs_offset s" "qs_last_expired s1 = qs_last_expired s"
  using qs_release_spec(1) [OF assms] by (auto simp: qs_typed_def qs_held_def elim!: ssubst)

lemma qs_settles_release: "qs_release u s b = (s1, b1) \<Longrightarrow> qs_settles u 0 s s1"
  using qs_release_spec(2) [of u s b s1 b1] by (simp add: qs_settles_def balanced_def)

lemma qs_settles_write:
  assumes "qs_typed s \<Longrightarrow> pw_inv pw" and "queued_units pw + leak = units_at queued_units (qs_writes s) k + u"
  shows "qs_settles u leak s (s\<lparr>qs_writes := hm_insert k pw (qs_writes s)\<rparr>)"
  using assms units_insert [OF writes_typed_wf, of "qs_writes s" queued_units k pw]
  by (auto simp: qs_settles_def qs_typed_def balanced_def qs_held_def writes_typed_insert)

text \<open>Entries that are taken out of the table and released.\<close>

lemma qs_settles_drop:
  assumes "qs_release u s1 b = (s2, b2)" "qs_admission s1 = qs_admission s"
    and "qs_typed s \<Longrightarrow> qs_typed s1 \<and> qs_held s1 + u = qs_held s"
  shows "qs_settles 0 0 s s2"
  using assms qs_release_spec(2) [OF assms(1)] by (auto simp: qs_settles_def balanced_def)

subsection \<open>Commands\<close>

lemma quic_chunk_units:
  assumes L: "quiche_send_laws Q sent finned" and ch: "chunk_inv ch"
    and s: "stream_send_chunk Q sid c ch fin = (Inr out, c')"
  defines "u \<equiv> outbound_payload_units (chunk_remaining_len ch) fin"
    and "got \<equiv> accepted_outbound_payload_units (chunk_remaining_len ch) fin (so_written out) (so_fin_accepted out)"
  shows "so_remainder out = None \<Longrightarrow> got = u"
    and "so_remainder out = Some r \<Longrightarrow> arc_inv r \<and> got + queued_units (pending_write_new r fin) = u"
proof -
  let ?b = "arc_from_chunk ch"
  have s': "stream_send_arcbuf Q sid c ?b fin = (Inr out, c')" using s by (simp add: stream_send_chunk_def)
  have len: "remaining_len ?b = chunk_remaining_len ch" by (rule arc_from_chunk_len)
  note S = quic_stream_sender [OF L, of sid]
  have total: "got + outbound_payload_units (chunk_remaining_len ch - so_written out) (fin \<and> \<not> so_fin_accepted out) = u"
    using stream_sender.send_units [OF S s' arc_inv_from_chunk [OF ch]] by (simp add: len got_def u_def released_units_for_send_def)
  show "got = u" if n: "so_remainder out = None"
  proof -
    have "fin \<Longrightarrow> so_fin_accepted out"
      using s' n by (auto simp: stream_send_arcbuf_def send_fin_only_def send_zc_def Let_def
          split: option.splits prod.splits sum.splits quiche_error.splits if_splits)
    moreover have "chunk_remaining_len ch \<le> so_written out" using stream_sender.no_remainder [OF S s' n] len by simp
    ultimately show ?thesis using total by (auto simp: outbound_payload_units_def)
  qed
  show "arc_inv r \<and> got + queued_units (pending_write_new r fin) = u" if n: "so_remainder out = Some r"
  proof -
    note R = stream_sender.remainder [OF S s' n arc_inv_from_chunk [OF ch]]
    have "queued_units (pending_write_new r fin) = outbound_payload_units (chunk_remaining_len ch - so_written out) (fin \<and> \<not> so_fin_accepted out)"
      using R len by (simp add: queued_units_alt) (simp add: pending_write_new_def)
    with total R show ?thesis by simp
  qed
qed

text \<open>A chunk appended to a held write was admitted with a unit of its own for a FIN that the entry
  does not count again.\<close>

fun qs_dispatch_leak :: "quic_server_command \<Rightarrow> 'q quic_server \<Rightarrow> nat" where
  "qs_dispatch_leak (QStreamSend h sid ch fin) s =
     (case hm_get (qs_writes s) (h, sid) of
        Some pw \<Rightarrow> queued_units pw + outbound_payload_units (chunk_remaining_len ch) fin - queued_units (push_and_fin pw ch fin)
      | None \<Rightarrow> 0)"
| "qs_dispatch_leak _ s = 0"

lemma qs_settles_stream_send:
  assumes L: "quic_lib_laws L sent finned" and ch: "chunk_inv ch" and r: "qs_do_stream_send L h sid ch fin s b = (s', b')"
  shows "qs_settles (outbound_payload_units (chunk_remaining_len ch) fin) (qs_dispatch_leak (QStreamSend h sid ch fin) s) s s'"
proof (cases "hm_get (qs_writes s) (h, sid)")
  case (Some pw)
  have s': "s' = s\<lparr>qs_writes := hm_insert (h, sid) (push_and_fin pw ch fin) (qs_writes s)\<rparr>"
    using r Some by (simp add: qs_do_stream_send_def Let_def)
  have inv: "pw_inv (push_and_fin pw ch fin)" if "qs_typed s"
    using that writes_typed_get [OF _ Some] push_and_fin_inv [OF _ ch] by (auto simp: qs_typed_def)
  show ?thesis unfolding s'
    by (rule qs_settles_write [OF inv]) (use Some push_and_fin_le [of pw ch fin] in \<open>simp_all add: units_at_def\<close>)
next
  case none: None
  let ?u = "outbound_payload_units (chunk_remaining_len ch) fin"
  show ?thesis
  proof (cases "cm_get (qs_map s) (unat h)")
    case None
    with r none show ?thesis by (simp add: qs_do_stream_send_def qs_settles_release)
  next
    case (Some c)
    obtain x c' where x: "stream_send_chunk (ql_quiche L) sid c ch fin = (x, c')" by fastforce
    have c': "qs_typed s \<Longrightarrow> quic_inv c'"
      using quic_inv_stream_send [OF qs_typed_get [OF _ Some], of "ql_quiche L" sid "arc_from_chunk ch" fin] x
      by (simp add: stream_send_chunk_def)
    have q: "qs_quiet s (qs_put (unat h) c' s)" by (rule qs_quiet_put [OF c'])
    show ?thesis
    proof (cases x)
      case (Inl e)
      obtain s1 b1 where rel: "qs_release ?u (qs_put (unat h) c' s) b = (s1, b1)" by fastforce
      with r none Some x Inl have "s' = s1" by (simp add: qs_do_stream_send_def Let_def)
      with qs_settles_after [OF q qs_settles_release [OF rel]] none show ?thesis by simp
    next
      case (Inr out)
      let ?got = "accepted_outbound_payload_units (chunk_remaining_len ch) fin (so_written out) (so_fin_accepted out)"
      note U = quic_chunk_units [OF _ ch x [unfolded Inr], of sent finned]
      obtain s1 b1 where rel: "qs_release ?got (qs_put (unat h) c' s) b = (s1, b1)" by fastforce
      have S1: "qs_settles ?got 0 s s1" by (rule qs_settles_after [OF q qs_settles_release [OF rel]])
      show ?thesis
      proof (cases "so_remainder out")
        case n: None
        with r none Some x Inr rel have "s' = s1" by (simp add: qs_do_stream_send_def Let_def)
        with S1 U(1) [OF _ n] L none show ?thesis by (simp add: quic_lib_laws_def)
      next
        case rem: (Some rm)
        let ?pw = "pending_write_new rm fin"
        have s': "s' = s1\<lparr>qs_writes := hm_insert (h, sid) ?pw (qs_writes s1)\<rparr>"
          using r none Some x Inr rel rem by (simp add: qs_do_stream_send_def Let_def insert_pending_write_def)
        have u: "arc_inv rm" "?got + queued_units ?pw = ?u" using U(2) [OF _ rem] L by (simp_all add: quic_lib_laws_def)
        have "units_at queued_units (qs_writes s1) (h, sid) = 0"
          using qs_release_frame(2) [OF rel] none by (simp add: units_at_def)
        then have "qs_settles (queued_units ?pw) 0 s1 s'"
          unfolding s' using u(1) by (intro qs_settles_write) (simp_all add: pw_inv_new)
        from qs_settles_then [OF S1 this] u(2) none show ?thesis by simp
      qed
    qed
  qed
qed

lemma qs_settles_stream_close:
  assumes "qs_do_stream_close Q h sid code s b = (s', b')"
  shows "qs_settles 0 0 s s'"
proof (cases "cm_get (qs_map s) (unat h)")
  case (Some c)
  define s1 where "s1 = qs_put (unat h) (quic_stream_close Q sid (unat code) c) s"
  let ?u = "units_at queued_units (qs_writes s) (h, sid)"
  obtain s3 b3 where rel: "qs_release ?u (s1\<lparr>qs_writes := hm_remove (h, sid) (qs_writes s)\<rparr>) b = (s3, b3)" by fastforce
  have s': "s' = s3"
    using assms Some rel by (simp add: qs_do_stream_close_def Let_def remove_write_units s1_def)
  have "qs_quiet s s1" unfolding s1_def by (rule qs_quiet_put) (rule quic_inv_op(6) [OF qs_typed_get [OF _ Some]])
  moreover have "qs_settles 0 0 s1 s3"
  proof (rule qs_settles_drop [OF rel])
    assume t: "qs_typed s1"
    then have "hm_wf (qs_writes s)" by (simp add: qs_typed_def s1_def writes_typed_def)
    from units_remove [OF this, of queued_units "(h, sid)"] t
    show "qs_typed (s1\<lparr>qs_writes := hm_remove (h, sid) (qs_writes s)\<rparr>)
        \<and> qs_held (s1\<lparr>qs_writes := hm_remove (h, sid) (qs_writes s)\<rparr>) + ?u = qs_held s1"
      by (simp add: qs_typed_def qs_held_def s1_def writes_typed_remove)
  qed simp
  ultimately show ?thesis unfolding s' by (rule qs_settles_after)
qed (use assms in \<open>simp add: qs_do_stream_close_def qs_settles_quiet\<close>)

lemma qs_quiet_shutdown: "qs_quiet s (qs_shutdown_all Q s)"
  unfolding qs_shutdown_all_def
proof (rule qs_quiet_map, rule conns_all_foldl)
  fix m :: "'a quic_connection connection_map" and h
  assume m: "conns_all quic_inv m"
  show "conns_all quic_inv (qs_shutdown_conn Q m h)"
    using conns_all_put [OF m] conns_all_get [OF m] m by (auto simp: qs_shutdown_conn_def split: option.splits)
qed

lemma qs_quiet_close: "qs_quiet s (qs_close_connection Q h code reason s)"
  using qs_typed_get [of s "unat h"] by (auto simp: qs_close_connection_def intro!: qs_quiet_put split: option.splits)

lemma qs_quiet_datagram:
  assumes "qs_send_datagram Q h d s = (ok, s')"
  shows "qs_quiet s s'"
proof (cases "cm_get (qs_map s) (unat h)")
  case (Some c)
  obtain r c' where d: "queue_datagram Q d c = (r, c')" by fastforce
  have "qs_quiet s (qs_put (unat h) c' s)"
    by (rule qs_quiet_put) (use quic_inv_op(7) [OF qs_typed_get [OF _ Some], of Q d] d in simp)
  with assms Some d show ?thesis by (simp add: qs_send_datagram_def)
qed (use assms in \<open>simp add: qs_send_datagram_def\<close>)

lemma qs_quiet_ping:
  assumes "qs_ping Q now h s = (ok, s')"
  shows "qs_quiet s s'"
proof (cases "cm_get (qs_map s) (unat h)")
  case (Some c)
  obtain r c' where d: "quic_queue_ping Q now c = (r, c')" by fastforce
  have "qs_quiet s (qs_put (unat h) c' s)"
    by (rule qs_quiet_put) (use quic_inv_op(3) [OF qs_typed_get [OF _ Some], of Q now] d in simp)
  with assms Some d show ?thesis by (simp add: qs_ping_def)
qed (use assms in \<open>simp add: qs_ping_def\<close>)

definition quic_cmd_ok :: "quic_server_command \<Rightarrow> bool" where
  "quic_cmd_ok cmd = (case cmd of QStreamSend _ _ ch _ \<Rightarrow> chunk_inv ch | QSendDatagram _ d \<Rightarrow> chunk_inv d | _ \<Rightarrow> True)"

lemma qs_settles_dispatch:
  assumes L: "quic_lib_laws L sent finned" and ok: "quic_cmd_ok cmd"
    and r: "qs_dispatch_command L now cmd s b = (stop, reply, s', b')"
  shows "qs_settles (quic_server_command_outbound_bytes cmd) (qs_dispatch_leak cmd s) s s'"
proof (cases cmd)
  case (QStreamSend h sid ch fin)
  with r ok have "qs_do_stream_send L h sid ch fin s b = (s', b')" "chunk_inv ch" by (simp_all add: quic_cmd_ok_def)
  from qs_settles_stream_send [OF L this(2,1)] QStreamSend show ?thesis by simp
next
  case (QStreamClose h sid code)
  with r have "qs_do_stream_close (ql_quiche L) h sid code s b = (s', b')" by simp
  from qs_settles_stream_close [OF this] QStreamClose show ?thesis by simp
next
  case (QSendDatagram h d)
  obtain okd s1 where d: "qs_send_datagram (ql_quiche L) h d s = (okd, s1)" by fastforce
  with r QSendDatagram have "qs_release (chunk_remaining_len d) s1 b = (s', b')" by simp
  from qs_settles_after [OF qs_quiet_datagram [OF d] qs_settles_release [OF this]] QSendDatagram show ?thesis by simp
next
  case (QPingSession h)
  obtain okd s1 where d: "qs_ping (ql_quiche L) now h s = (okd, s1)" by fastforce
  with r QPingSession qs_settles_quiet [OF qs_quiet_ping [OF d]] show ?thesis by simp
next
  case QShutdown
  with r qs_settles_quiet [OF qs_quiet_shutdown] show ?thesis by auto
next
  case (QCloseSession h code reason)
  with r qs_settles_quiet [OF qs_quiet_close] show ?thesis by auto
qed (use r qs_settles_quiet [OF qs_quiet_refl] in auto)

subsection \<open>Sweeps\<close>

lemma qs_entry_inv:
  assumes f: "flush_quic_entry Q k pw m = (out, m')" and t: "conns_all quic_inv m"
  shows "conns_all quic_inv m'"
proof (cases "cm_get m (unat (fst k))")
  case (Some c)
  obtain x pw1 c1 where x: "flush_one_quic_pending_write Q (snd k) c pw = (x, pw1, c1)"
    by (cases "flush_one_quic_pending_write Q (snd k) c pw")
  have "quic_inv c1"
    by (rule flush_progress_keeps [where P = quic_inv, OF _ x [unfolded flush_one_quic_pending_write_def] conns_all_get [OF t Some]])
      (metis quic_inv_stream_send snd_conv)
  with conns_all_put [OF t this] f Some x t show ?thesis
    by (auto simp: flush_quic_entry_def entry_of_def split: if_splits sum.splits)
qed (use f t in \<open>simp add: flush_quic_entry_def\<close>)

lemma qs_settles_flush:
  assumes L: "quic_lib_laws L sent finned" and f: "qs_flush_all_pending_writes (ql_quiche L) s b = (s', b')"
  shows "qs_settles 0 0 s s'"
proof -
  let ?Q = "ql_quiche L"
  obtain fe kept m where w: "retain_flush (flush_quic_entry ?Q) (qs_writes s) (qs_map s) = (fe, kept, m)"
    by (cases "retain_flush (flush_quic_entry ?Q) (qs_writes s) (qs_map s)")
  define s2 where "s2 = s\<lparr>qs_map := m, qs_writes := kept\<rparr>"
  obtain s3 b3 where rel: "qs_release (fe_released_units fe) s2 b = (s3, b3)" by fastforce
  have s': "s' = s3" using f w rel by (simp add: qs_flush_all_pending_writes_def flush_quic_pending_writes_def s2_def)
  show ?thesis unfolding s'
  proof (rule qs_settles_drop [OF rel])
    assume t: "qs_typed s"
    then have ws: "hm_wf (qs_writes s)" "\<forall>(k, pw) \<in> set (qs_writes s). pw_inv pw" and m: "conns_all quic_inv (qs_map s)"
      by (simp_all add: qs_typed_def writes_typed_def)
    have Q: "quiche_send_laws ?Q sent finned" using L by (simp add: quic_lib_laws_def)
    note U = retain_flush_units [OF quic_entry_laws [OF Q] w ws(2)]
    have "conns_all quic_inv m"
      by (rule retain_flush_keeps [where P = "conns_all quic_inv", OF _ w m]) (rule qs_entry_inv)
    with U ws t show "qs_typed s2 \<and> qs_held s2 + fe_released_units fe = qs_held s"
      by (simp add: s2_def qs_typed_def qs_held_def writes_typed_def)
  qed (simp add: s2_def)
qed

lemma of_conn_split: "hm_sum f (of_conn h m) + hm_sum f (not_of_conn h m) = hm_sum f m"
  for f :: "'v \<Rightarrow> nat" and m :: "(pending_key, 'v) hashmap"
  using hm_sum_filter_split [of f "\<lambda>k. unat (fst k) = h" m] by (simp add: of_conn_def not_of_conn_def case_prod_unfold)

lemma qs_settles_reap_one:
  assumes "qs_reap_one Q hc s b = (s', b')"
  shows "qs_settles 0 0 s s'"
proof -
  obtain h c where hc: "hc = (h, c)" by (cases hc)
  let ?u = "hm_sum queued_units (of_conn h (qs_writes s))"
  let ?b = "b @ map (\<lambda>((_, sid), _). ev_reset (qs_event_handle s h) sid 0) (of_conn h (qs_writes s))"
  define s1 where "s1 = s\<lparr>qs_timers := remove_connection (qs_timers s) h, qs_writes := not_of_conn h (qs_writes s)\<rparr>"
  obtain s2 b2 where rel: "qs_release ?u s1 ?b = (s2, b2)" by fastforce
  have s': "s' = s2" using assms hc rel by (simp add: qs_reap_one_def Let_def s1_def split: if_splits)
  show ?thesis unfolding s'
    by (rule qs_settles_drop [OF rel])
      (use of_conn_split [of queued_units h "qs_writes s"] in
        \<open>simp_all add: s1_def qs_typed_def qs_held_def remove_connection_inv not_of_conn_def writes_typed_filter\<close>)
qed

lemma qs_settles_reap_each: "qs_reap_each Q hcs s b = (s', b') \<Longrightarrow> qs_settles 0 0 s s'"
proof (induction hcs arbitrary: s b)
  case (Cons hc hcs)
  obtain s1 b1 where f: "qs_reap_one Q hc s b = (s1, b1)" by fastforce
  with Cons.prems have "qs_reap_each Q hcs s1 b1 = (s', b')" by simp
  from qs_settles_trans [OF qs_settles_reap_one [OF f] Cons.IH [OF this]] show ?case .
qed (simp add: qs_settles_quiet)

lemma qs_settles_reap:
  assumes "qs_reap_closed Q s b = (s', b')"
  shows "qs_settles 0 0 s s'"
proof -
  obtain closed m where d: "drain_closed (\<lambda>c. q_is_closed Q (qc_quiche c)) (qs_map s) = (closed, m)" by fastforce
  obtain s1 b1 where e: "qs_reap_each Q closed (s\<lparr>qs_map := m\<rparr>) b = (s1, b1)" by fastforce
  have s': "s' = s1\<lparr>qs_last_expired := []\<rparr>" using assms d e by (simp add: qs_reap_closed_def)
  have "qs_quiet s (s\<lparr>qs_map := m\<rparr>)" by (rule qs_quiet_map) (rule conns_all_drain [OF _ d])
  then have "qs_settles 0 0 s s1" by (rule qs_settles_after) (rule qs_settles_reap_each [OF e])
  from qs_settles_trans [OF this qs_settles_quiet [OF qs_quiet_expired]] s' show ?thesis by simp
qed

subsection \<open>Runs\<close>

inductive qs_background :: "'q quic_lib \<Rightarrow> 'q quic_server \<Rightarrow> 'q quic_server \<Rightarrow> bool" for L where
  packet: "qs_process_packet L now secs fuel rng rngs budget buf peer local s out b = Some (s', out', b') \<Longrightarrow> qs_background L s s'"
| timers: "qs_expire_timers (ql_quiche L) now budget s b = (s', b') \<Longrightarrow> qs_background L s s'"
| events: "qs_collect_app_events (ql_quiche L) now budget s b = (s', b') \<Longrightarrow> qs_background L s s'"
| drains: "qs_collect_drain_events (ql_quiche L) budget s b = (s', b') \<Longrightarrow> qs_background L s s'"
| sends: "qs_flush_all_sends (ql_quiche L) now fuel s out = Some (s', out') \<Longrightarrow> qs_background L s s'"
| flush: "qs_flush_all_pending_writes (ql_quiche L) s b = (s', b') \<Longrightarrow> qs_background L s s'"
| reap: "qs_reap_closed (ql_quiche L) s b = (s', b') \<Longrightarrow> qs_background L s s'"
| deadline: "qs_soonest_deadline s = (d, s') \<Longrightarrow> qs_background L s s'"

lemma qs_quiet_deadline: "qs_soonest_deadline s = (d, s') \<Longrightarrow> qs_quiet s s'"
  using next_deadline_inv [of "qs_timers s"]
  by (auto simp: qs_soonest_deadline_def qs_quiet_def qs_typed_def split: prod.splits)

lemma qs_settles_background:
  assumes L: "quic_lib_laws L sent finned" and s: "qs_background L s s'"
  shows "qs_settles 0 0 s s'"
  using s
proof cases
  case packet
  have "\<And>ks. ql_vacant L ks \<notin> set ks" using L by (simp add: quic_lib_laws_def)
  from qs_settles_quiet [OF qs_quiet_packet [OF this packet]] show ?thesis .
next
  case timers
  from qs_settles_quiet [OF qs_quiet_timers_step [OF timers]] show ?thesis .
next
  case events
  from qs_settles_quiet [OF qs_quiet_app [OF events]] show ?thesis .
next
  case drains
  from qs_settles_quiet [OF qs_quiet_drain [OF drains [unfolded qs_collect_drain_events_def]]] show ?thesis .
next
  case sends
  from qs_settles_quiet [OF qs_quiet_sends [OF sends]] show ?thesis .
next
  case flush
  from qs_settles_flush [OF L flush] show ?thesis .
next
  case reap
  from qs_settles_reap [OF reap] show ?thesis .
next
  case deadline
  from qs_settles_quiet [OF qs_quiet_deadline [OF deadline]] show ?thesis .
qed

definition quic_iface :: "'q quic_lib \<Rightarrow> ('q quic_server, quic_server_command) worker_iface" where
  "quic_iface L =
     \<lparr>wi_dispatch = (\<lambda>cmd s s'. \<exists>now b stop reply b'. qs_dispatch_command L now cmd s b = (stop, reply, s', b')),
      wi_background = qs_background L, wi_units = quic_server_command_outbound_bytes, wi_ok = quic_cmd_ok,
      wi_lost = qs_dispatch_leak, wi_window = qs_admission, wi_set_window = (\<lambda>a s. s\<lparr>qs_admission := a\<rparr>)\<rparr>"

definition quic_fresh :: "'q quic_server \<Rightarrow> bool" where
  "quic_fresh s \<longleftrightarrow> (\<exists>rng cfg worker high low. s = quic_server_new rng cfg worker (outbound_admission_new high low))"

abbreviation quic_server_reach :: "'q quic_lib \<Rightarrow> ('q quic_server, quic_server_command) worker_system \<Rightarrow> bool" where
  "quic_server_reach L \<equiv> system_reach (quic_iface L) quic_fresh"

definition quic_lib_ok :: "'q quic_lib \<Rightarrow> bool" where
  "quic_lib_ok L \<longleftrightarrow> (\<exists>sent finned. quic_lib_laws L sent finned)"

lemma quic_iface_simps [simp]:
  "wi_background (quic_iface L) = qs_background L" "wi_units (quic_iface L) = quic_server_command_outbound_bytes"
  "wi_ok (quic_iface L) = quic_cmd_ok" "wi_lost (quic_iface L) = qs_dispatch_leak" "wi_window (quic_iface L) = qs_admission"
  "wi_set_window (quic_iface L) a s = s\<lparr>qs_admission := a\<rparr>"
  "wi_dispatch (quic_iface L) cmd s s' \<longleftrightarrow> (\<exists>now b stop reply b'. qs_dispatch_command L now cmd s b = (stop, reply, s', b'))"
  by (simp_all add: quic_iface_def)

lemma qs_typed_window [simp]:
  "qs_typed (s\<lparr>qs_admission := a\<rparr>) = qs_typed s" "qs_held (s\<lparr>qs_admission := a\<rparr>) = qs_held s"
  by (simp_all add: qs_typed_def qs_held_def)

lemma quic_fresh_typed: "quic_fresh s \<Longrightarrow> qs_typed s \<and> queued (qs_admission s) = 0 \<and> qs_held s = 0"
  by (auto simp: quic_fresh_def qs_typed_def qs_held_def quic_server_new_def qs_from_parts_def with_max_connections_and_cid_def
      conns_all_new writes_typed_def outbound_admission_new_def Let_def)

lemma quic_dispatch_settles:
  assumes "quic_cmd_ok cmd" "quic_lib_ok L" "wi_dispatch (quic_iface L) cmd s s'"
  shows "qs_settles (quic_server_command_outbound_bytes cmd) (qs_dispatch_leak cmd s) s s'"
proof -
  from assms(2) obtain sent finned where L: "quic_lib_laws L sent finned" unfolding quic_lib_ok_def by blast
  from assms(3) obtain now b stop reply b' where d: "qs_dispatch_command L now cmd s b = (stop, reply, s', b')" by auto
  from qs_settles_dispatch [OF L assms(1) d] show ?thesis .
qed

lemma quic_background_settles:
  assumes "quic_lib_ok L" "qs_background L s s'"
  shows "qs_settles 0 0 s s'"
  using assms qs_settles_background unfolding quic_lib_ok_def by blast

interpretation quic_worker: command_worker "quic_iface L" "\<lambda>s. quic_lib_ok L \<and> quic_fresh s" "\<lambda>s. quic_lib_ok L \<and> qs_typed s" qs_held
proof (unfold_locales, goal_cases)
  case (1 cmd s s')
  from 1(1) have "quic_cmd_ok cmd" by simp
  from quic_dispatch_settles [OF this _ 1(3)] 1(2) show ?case
    unfolding quic_iface_simps(2,4,5) qs_settles_def by blast
next
  case (2 s s')
  from 2(2) have "qs_background L s s'" by simp
  from quic_background_settles [OF _ this] 2(1) show ?case unfolding quic_iface_simps(5) qs_settles_def by blast
next
  case (6 s)
  then show ?case using quic_fresh_typed [of s] by simp
qed simp_all

lemma quic_server_reach_worker:
  assumes "quic_lib_laws L sent finned"
  shows "quic_server_reach L w \<longleftrightarrow> system_reach (quic_iface L) (\<lambda>s. quic_lib_ok L \<and> quic_fresh s) w"
proof -
  have "quic_lib_ok L" using assms unfolding quic_lib_ok_def by blast
  then show ?thesis by simp
qed

subsection \<open>What holds of every run\<close>


subsection \<open>Reaping\<close>

definition qs_holds :: "'q quic_server \<Rightarrow> pending_key \<Rightarrow> bool" where
  "qs_holds s k \<longleftrightarrow> hm_get (qs_writes s) k \<noteq> None"

definition qs_dead_only :: "nat set \<Rightarrow> 'q quic_server \<Rightarrow> 'q quic_server \<Rightarrow> bool" where
  "qs_dead_only hs s s' \<longleftrightarrow> qs_writes s' = filter (\<lambda>e. unat (fst (fst e)) \<notin> hs) (qs_writes s)
     \<and> qs_offset s' = qs_offset s \<and> qs_last_expired s' = qs_last_expired s"

definition qs_reap_events :: "'q quiche_api \<Rightarrow> (nat \<times> 'q quic_connection) set \<Rightarrow> 'q quic_server \<Rightarrow> js_event list \<Rightarrow> bool" where
  "qs_reap_events Q hcs s ev \<longleftrightarrow>
     (\<forall>k. unat (fst k) \<in> fst ` hcs \<and> qs_holds s k \<longrightarrow> ev_reset (qs_offset s OR fst k) (snd k) 0 \<in> set ev)
   \<and> (\<forall>(h, c) \<in> hcs. h \<notin> set (qs_last_expired s) \<longrightarrow> quic_session_close_event Q c (qs_event_handle s h) \<in> set ev)
   \<and> (\<forall>e \<in> set ev. event_type e = EVENT_RESET \<longrightarrow>
        (\<exists>k. unat (fst k) \<in> fst ` hcs \<and> qs_holds s k \<and> e = ev_reset (qs_offset s OR fst k) (snd k) 0))"

lemma quic_close_not_reset: "event_type (quic_session_close_event Q c h) \<noteq> EVENT_RESET"
  by (auto simp: quic_session_close_event_def close_event_def event_defs event_types split: option.splits)

lemma qs_reap_one_events:
  assumes r: "qs_reap_one Q (h, c) s b = (s', b')"
  shows "qs_dead_only {h} s s' \<and> (\<exists>ev. b' = b @ ev \<and> qs_reap_events Q {(h, c)} s ev)"
proof -
  define rs where "rs = map (\<lambda>sid. ev_reset (qs_event_handle s h) sid 0) (map (snd \<circ> fst) (of_conn h (qs_writes s)))"
  define s1 where "s1 = s\<lparr>qs_timers := remove_connection (qs_timers s) h, qs_writes := not_of_conn h (qs_writes s)\<rparr>"
  define cl where "cl = (if h \<in> set (qs_last_expired s) then [] else [quic_session_close_event Q c (qs_event_handle s h)])"
  obtain s2 b2 where rel: "qs_release (hm_sum queued_units (of_conn h (qs_writes s))) s1 (b @ rs) = (s2, b2)" by fastforce
  have "map (\<lambda>((_, sid), _). ev_reset (qs_event_handle s h) sid 0) (of_conn h (qs_writes s)) = rs"
    by (simp add: rs_def case_prod_unfold)
  then have s': "s' = s2" and b': "b' = b2 @ cl" using r rel by (auto simp: qs_reap_one_def Let_def s1_def cl_def)
  obtain wr where b2: "b2 = (b @ rs) @ wr" and wr: "wr = [] \<or> wr = [ev_write_ready 0]" using qs_release_spec(3) [OF rel] by auto
  have key: "h = unat (fst k) \<Longrightarrow> qs_event_handle s h = qs_offset s OR fst k" for k :: pending_key by simp
  note streams = of_conn_streams [of _ h "qs_writes s", folded qs_holds_def]
  have "qs_reap_events Q {(h, c)} s (rs @ wr @ cl)"
    unfolding qs_reap_events_def
  proof (intro conjI allI ballI impI)
    fix k :: pending_key assume k: "unat (fst k) \<in> fst ` {(h, c)} \<and> qs_holds s k"
    then have "snd k \<in> set (map (snd \<circ> fst) (of_conn h (qs_writes s)))" unfolding streams by auto
    then have "ev_reset (qs_event_handle s h) (snd k) 0 \<in> set rs" unfolding rs_def by (subst set_map) (rule imageI)
    then show "ev_reset (qs_offset s OR fst k) (snd k) 0 \<in> set (rs @ wr @ cl)" using k key [of k] by simp
  next
    fix e assume "e \<in> set (rs @ wr @ cl)" "event_type e = EVENT_RESET"
    then have "e \<in> set rs" using wr close_not_reset(2) quic_close_not_reset by (auto simp: cl_def split: if_splits)
    then obtain sid where sid: "sid \<in> set (map (snd \<circ> fst) (of_conn h (qs_writes s)))" and e: "e = ev_reset (qs_event_handle s h) sid 0"
      unfolding rs_def set_map [of _ "map (snd \<circ> fst) (of_conn h (qs_writes s))"] by (rule imageE)
    from sid obtain k where k: "unat (fst k) = h" "snd k = sid" "qs_holds s k" unfolding streams by blast
    have "e = ev_reset (qs_offset s OR fst k) (snd k) 0" unfolding e k(2) key [OF k(1) [symmetric]] ..
    with k show "\<exists>k. unat (fst k) \<in> fst ` {(h, c)} \<and> qs_holds s k \<and> e = ev_reset (qs_offset s OR fst k) (snd k) 0"
      by (intro exI [of _ k]) simp
  qed (auto simp: cl_def)
  moreover have "qs_dead_only {h} s s'"
    using qs_release_frame [OF rel] by (simp add: s' qs_dead_only_def s1_def not_of_conn_def case_prod_unfold)
  ultimately show ?thesis using b' b2 by auto
qed

lemma qs_reap_each_events:
  "qs_reap_each Q hcs s b = (s', b') \<Longrightarrow>
     qs_dead_only (fst ` set hcs) s s' \<and> (\<exists>ev. b' = b @ ev \<and> qs_reap_events Q (set hcs) s ev)"
proof (induction hcs arbitrary: s b)
  case Nil
  then show ?case by (simp add: qs_dead_only_def qs_reap_events_def)
next
  case (Cons hc hcs)
  obtain h c where hc: "hc = (h, c)" by (cases hc)
  obtain s1 b1 where f: "qs_reap_one Q hc s b = (s1, b1)" by fastforce
  with Cons.prems have r: "qs_reap_each Q hcs s1 b1 = (s', b')" by simp
  obtain ev1 where one: "qs_dead_only {h} s s1" "b1 = b @ ev1" "qs_reap_events Q {(h, c)} s ev1"
    using qs_reap_one_events [OF f [unfolded hc]] by auto
  obtain ev2 where rest: "qs_dead_only (fst ` set hcs) s1 s'" "b' = b1 @ ev2" "qs_reap_events Q (set hcs) s1 ev2"
    using Cons.IH [OF r] by auto
  have hold: "qs_holds s1 k \<longleftrightarrow> qs_holds s k \<and> unat (fst k) \<noteq> h" for k
    using one(1) by (auto simp: qs_dead_only_def qs_holds_def filter_map_get [where P = "\<lambda>ch. unat ch \<noteq> h", unfolded case_prod_unfold])
  have eqs: "qs_offset s1 = qs_offset s" "qs_last_expired s1 = qs_last_expired s" using one(1) by (simp_all add: qs_dead_only_def)
  have "qs_dead_only (fst ` set (hc # hcs)) s s'"
    using one(1) rest(1) by (simp add: qs_dead_only_def hc)
  moreover have "qs_reap_events Q (set (hc # hcs)) s (ev1 @ ev2)"
    using one(3) rest(3) unfolding qs_reap_events_def hold eqs hc by (auto 0 3)
  ultimately show ?case using one(2) rest(2) by auto
qed

text \<open>
  C8. Reaping in a QUIC server worker: every stream of a closed connection that still has a held write
  gets a reset event under the connection's announced handle, and no other stream gets one; the
  closing is reported unless a timer already did; exactly the writes of closed connections are dropped
  and exactly their units are released.
\<close>

theorem quic_reap_resets_abandoned:
  assumes t: "qs_typed s" and q: "hm_sum queued_units (qs_writes s) \<le> queued (qs_admission s)"
    and r: "qs_reap_closed Q s b = (s', b')"
  defines "dead \<equiv> \<lambda>h. \<exists>c. cm_get (qs_map s) h = Some c \<and> q_is_closed Q (qc_quiche c)"
  shows "(\<exists>ev. b' = b @ ev
      \<and> (\<forall>h sid. dead (unat h) \<and> qs_holds s (h, sid) \<longrightarrow> ev_reset (qs_offset s OR h) sid 0 \<in> set ev)
      \<and> (\<forall>e \<in> set ev. event_type e = EVENT_RESET \<longrightarrow>
           (\<exists>h sid. dead (unat h) \<and> qs_holds s (h, sid) \<and> e = ev_reset (qs_offset s OR h) sid 0))
      \<and> (\<forall>h c. cm_get (qs_map s) h = Some c \<and> q_is_closed Q (qc_quiche c) \<and> h \<notin> set (qs_last_expired s) \<longrightarrow>
           quic_session_close_event Q c (qs_offset s OR word_of_nat h) \<in> set ev))
    \<and> qs_writes s' = filter (\<lambda>((h, _), _). \<not> dead (unat h)) (qs_writes s)
    \<and> queued (qs_admission s') + hm_sum queued_units (qs_writes s)
      = queued (qs_admission s) + hm_sum queued_units (qs_writes s')"
proof -
  have m: "cm_inv (qs_map s)" using t by (simp add: qs_typed_def conns_all_def)
  obtain closed m' where d: "drain_closed (\<lambda>c. q_is_closed Q (qc_quiche c)) (qs_map s) = (closed, m')" by fastforce
  obtain s1 b1 where e: "qs_reap_each Q closed (s\<lparr>qs_map := m'\<rparr>) b = (s1, b1)" by fastforce
  have s': "s' = s1\<lparr>qs_last_expired := []\<rparr>" and b': "b' = b1" using r d e by (simp_all add: qs_reap_closed_def)
  note out = drain_closed_out [OF m d]
  have fsts: "fst ` set closed = {h. dead h}" unfolding out by (force simp: dead_def)
  obtain ev where D: "qs_dead_only {h. dead h} s s1" and ev: "b1 = b @ ev" "qs_reap_events Q (set closed) s ev"
    using qs_reap_each_events [OF e] fsts by (auto simp: qs_dead_only_def qs_reap_events_def qs_holds_def)
  have bal: "queued (qs_admission s') + qs_held s = queued (qs_admission s) + qs_held s'"
    using qs_settles_reap [OF r] t q by (simp add: qs_settles_def balanced_def qs_held_def)
  have "\<exists>h sid. dead (unat h) \<and> qs_holds s (h, sid) \<and> x = ev_reset (qs_offset s OR h) sid 0"
    if "x \<in> set ev" "event_type x = EVENT_RESET" for x
    using ev(2) that fsts unfolding qs_reap_events_def by (metis mem_Collect_eq prod.collapse)
  then show ?thesis
    using ev fsts D bal unfolding qs_reap_events_def out b'
    by (auto simp: s' qs_dead_only_def qs_held_def case_prod_unfold)
qed

subsection \<open>Handles of the events\<close>

definition stream_report :: "js_event \<Rightarrow> bool" where
  "stream_report e \<longleftrightarrow> e \<noteq> ev_write_ready 0"

lemma ev_conn_simps [simp]: "ev_conn (ev_stream_blocked h sid) = h" "ev_conn (ev_reset h sid n) = h" "ev_conn (quic_send_failed L h sid e) = h"
  by (simp_all add: event_defs quic_send_failed_def)

lemma send_events_local:
  assumes "qs_do_stream_send L h sid ch fin s [] = (s1, b1)" "e \<in> set b1" "stream_report e"
  shows "ev_conn e = h"
  using assms qs_release_spec(3) [where b = "[]"]
  by (fastforce simp: qs_do_stream_send_def stream_report_def Let_def split: option.splits prod.splits sum.splits)

lemma send_events_announced:
  assumes "qs_queue_stream_send L h sid ch fin s [] = (u, s1, b1)" "e \<in> set b1"
  shows "ev_conn e = qs_offset s OR h"
  using assms by (auto simp: qs_queue_stream_send_def Let_def split: option.splits prod.splits sum.splits)

lemma close_events_local:
  assumes "qs_do_stream_close Q h sid code s [] = (s1, b1)" "e \<in> set b1" "stream_report e"
  shows "ev_conn e = h"
  using assms qs_release_spec(3) [where b = "[]"]
  by (fastforce simp: qs_do_stream_close_def stream_report_def Let_def split: option.splits prod.splits if_splits)

lemma close_events_announced:
  assumes "qs_close_stream Q h sid code s [] = (u, s1, b1)" "e \<in> set b1"
  shows "ev_conn e = qs_offset s OR h"
  using assms by (auto simp: qs_close_stream_def Let_def split: option.splits prod.splits if_splits)

lemma reports_rename [simp]:
  "(ev_stream_blocked g sid)\<lparr>ev_conn := h\<rparr> = ev_stream_blocked h sid" "(ev_reset g sid n)\<lparr>ev_conn := h\<rparr> = ev_reset h sid n"
  "(quic_send_failed L g sid e)\<lparr>ev_conn := h\<rparr> = quic_send_failed L h sid e"
  by (simp_all add: event_defs quic_send_failed_def)

lemma reports_stream [simp]:
  "stream_report (ev_stream_blocked h sid)" "stream_report (ev_reset h sid n)" "stream_report (quic_send_failed L h sid e)"
  "\<not> stream_report (ev_write_ready 0)"
  by (auto simp: stream_report_def quic_send_failed_def event_defs event_types)

lemma release_reports:
  assumes "qs_release n s [] = (s1, b1)"
  shows "filter stream_report b1 = []"
  using qs_release_spec(3) [OF assms] by auto

lemma send_same_reports:
  assumes "qs_do_stream_send L h sid ch fin s [] = (s1, b1)" "qs_queue_stream_send L h sid ch fin s [] = (u, s2, b2)"
  shows "filter stream_report b1 = map (\<lambda>e. e\<lparr>ev_conn := h\<rparr>) b2"
  using assms
  by (auto simp: qs_do_stream_send_def qs_queue_stream_send_def Let_def release_reports split: option.splits prod.splits sum.splits)

lemma close_same_reports:
  assumes "qs_do_stream_close Q h sid code s [] = (s1, b1)" "qs_close_stream Q h sid code s [] = (u, s2, b2)"
  shows "filter stream_report b1 = map (\<lambda>e. e\<lparr>ev_conn := h\<rparr>) b2"
  using assms
  by (auto simp: qs_do_stream_close_def qs_close_stream_def Let_def release_reports split: option.splits prod.splits if_splits)

text \<open>
  C39. Stream reports of a QUIC worker's commands carry the wrong handle. A send or a close that goes
  through the command queue reports exactly what the direct call reports, but under the worker's local
  handle: in every worker but the first, a blocked write, a failed write and a reset are all reported
  for a connection of the first worker, while the direct call names the worker.
\<close>

theorem quic_command_wrong_handle:
  assumes "qs_offset s = handle_offset v" "unat v < 4096" "unat h < 2 ^ 20"
    and "cmd = QStreamSend h sid ch fin \<and> qs_queue_stream_send L h sid ch fin s [] = (u, s2, b2)
      \<or> cmd = QStreamClose h sid code \<and> qs_close_stream (ql_quiche L) h sid code s [] = (u, s2, b2)"
    and "qs_dispatch_command L now cmd s [] = (stop, reply, s1, b1)"
  shows "filter stream_report b1 = map (\<lambda>e. e\<lparr>ev_conn := h\<rparr>) b2
    \<and> (\<forall>e \<in> set b1. stream_report e \<longrightarrow> worker_index (ev_conn e) = 0)
    \<and> (\<forall>e \<in> set b2. worker_index (ev_conn e) = unat v)"
proof -
  have w: "worker_index (handle_offset v OR h) = unat v" "worker_index h = 0"
    using compose_handle(1) [OF assms(2,3)] worker_index_local [OF assms(3)] by simp_all
  from assms(4) show ?thesis
  proof
    assume c: "cmd = QStreamSend h sid ch fin \<and> qs_queue_stream_send L h sid ch fin s [] = (u, s2, b2)"
    with assms(5) have "qs_do_stream_send L h sid ch fin s [] = (s1, b1)" by simp
    with c w assms(1) send_same_reports send_events_local send_events_announced show ?thesis by metis
  next
    assume c: "cmd = QStreamClose h sid code \<and> qs_close_stream (ql_quiche L) h sid code s [] = (u, s2, b2)"
    with assms(5) have "qs_do_stream_close (ql_quiche L) h sid code s [] = (s1, b1)" by simp
    with c w assms(1) close_same_reports close_events_local close_events_announced show ?thesis by metis
  qed
qed

subsection \<open>A small server\<close>

definition sample_qlib :: "loopback quic_lib" where
  "sample_qlib =
     \<lparr>ql_quiche = loopback_api,
      ql_header = (\<lambda>_. Some \<lparr>hdr_initial = True, hdr_version = 1, hdr_dcid = [5], hdr_scid = [6], hdr_token = None\<rparr>),
      ql_accept = (\<lambda>_ _ _ _. Inr lb_empty), ql_retry = (\<lambda>_ _ _ _ _. None), ql_hmac = (\<lambda>_ _. []),
      ql_vacant = fresh_key, ql_ip_text = (\<lambda>_. ''127.0.0.1''), ql_cert_chain = (\<lambda>_. None), ql_path_stats = (\<lambda>_. None),
      ql_qlog_path = (\<lambda>_. None), ql_h3_error_text = (\<lambda>_. ''h3'')\<rparr>"

lemma sample_qlib_laws: "quic_lib_laws sample_qlib lb_sent lb_fin"
  using loopback_send_laws fresh_key_vacant by (simp add: quic_lib_laws_def sample_qlib_def)

definition sample_qstart :: "loopback quic_server" where
  "sample_qstart = quic_server_new [1, 2, 3]
     \<lparr>qcfg_max_connections = 2, qcfg_disable_retry = True, qcfg_require_client_cert = False, qcfg_cid_encoding = Random\<rparr>
     3 (outbound_admission_new 8 4)"

definition sample_qstate :: "loopback quic_server \<Rightarrow> bool" where
  "sample_qstate s \<longleftrightarrow> (case cm_get (qs_map s) 1 of None \<Rightarrow> False
       | Some c \<Rightarrow> qc_quiche c = lb_empty \<and> blocked_set (qc_blocked c) = [])
     \<and> qs_writes s = [] \<and> qs_admission s = outbound_admission_new 8 4 \<and> qs_offset s = handle_offset 3"

definition sample_qaccepted :: "loopback quic_server" where
  "sample_qaccepted = sample_qstart\<lparr>qs_map := (qs_map sample_qstart)
     \<lparr>by_dcid := [([9], 1), ([5], 1)], connections := [(1, quic_connection_new lb_empty [9] 0)]\<rparr>\<rparr>"

lemma sample_qaccepts:
  "qs_route_or_accept sample_qlib 0 0 (\<lambda>m. (cm_generate_scid m (Some [9]), m))
     \<lparr>hdr_initial = True, hdr_version = 1, hdr_dcid = [5], hdr_scid = [6], hdr_token = None\<rparr> (V4 1 2) (V4 3 4) sample_qstart [] []
   = (Some 1, sample_qaccepted, [], [ev_new_session (handle_offset 3 OR 1) ''127.0.0.1'' 2 []])"
  by (simp add: sample_qaccepted_def qs_route_or_accept_def sample_qstart_def quic_server_new_def qs_from_parts_def sample_qlib_def
      with_max_connections_and_cid_def with_key_bytes_def route_packet_def cm_generate_scid_def
      generate_scid_def qs_accept_session_def accept_new_def quic_accept_def slab_insert_def fresh_key_def add_dcid_def
      apply_encoding_def port_of_def Let_def)

lemma sample_qpoll:
  assumes "qc_blocked c = blocked_new"
  obtains ps b' where "qs_poll_connection loopback_api 0 eh 0 c b = (c\<lparr>qc_ping_state := ps\<rparr>, b')"
proof -
  obtain ds ps where "ping_complete_acked 0 (q_stats loopback_api (qc_quiche c)) (qc_ping_state c) = (ds, ps)" by fastforce
  with assms have "qs_poll_connection loopback_api 0 eh 0 c b = (c\<lparr>qc_ping_state := ps\<rparr>, b @ map (ev_ping_ack eh) ds)"
    by (simp add: qs_poll_connection_def poll_quic_events_def quic_poll_ping_acks_def quic_poll_drain_events_def blocked_new_def)
  then show ?thesis by (rule that)
qed

lemma sample_qpacket:
  obtains s1 out1 b1 where
    "qs_process_packet sample_qlib 0 0 1 (Some [9]) [] 0 [1] (V4 1 2) (V4 3 4) sample_qstart [] [] = Some (s1, out1, b1)"
    "sample_qstate s1"
proof -
  have rl: "retired_loop loopback_api n q = Some ([], q)" for n q by (simp add: retired_loop.simps loopback_api_def)
  have tu: "qs_top_up_scids loopback_api rng h m = Some m" for rng h m
    by (simp add: qs_top_up_scids.simps loopback_api_def split: option.splits)
  have Q: "ql_quiche sample_qlib = loopback_api" "ql_header sample_qlib [1] =
      Some \<lparr>hdr_initial = True, hdr_version = 1, hdr_dcid = [5], hdr_scid = [6], hdr_token = None\<rparr>" by (simp_all add: sample_qlib_def)
  let ?b = "[ev_new_session (handle_offset 3 OR 1) ''127.0.0.1'' 2 []]"
  let ?c = "quic_connection_new lb_empty [9] 0"
  have at1: "cm_get (qs_map sample_qaccepted) 1 = Some ?c" by (simp add: sample_qaccepted_def cm_get_def)
  obtain c1 where r: "quic_recv loopback_api ?c [1] = (Inr 1, c1)" "qc_quiche c1 = lb_empty" "qc_blocked c1 = blocked_new"
    by (simp add: quic_recv_def loopback_api_def quic_connection_new_def)
  obtain c2 b2 where h: "qs_handshake sample_qlib 0 False (handle_offset 3 OR 1) c1 ?b = (c2, b2)" by fastforce
  then have c2: "qc_quiche c2 = lb_empty" "qc_blocked c2 = blocked_new"
    using r by (auto simp: qs_handshake_def quic_mark_established_def Q Let_def split: if_splits)
  define c3 where "c3 = (if [] \<noteq> qc_conn_id c2 then c2\<lparr>qc_conn_id := []\<rparr> else c2)"
  have c3: "qc_quiche c3 = lb_empty" "qc_blocked c3 = blocked_new" using c2 by (simp_all add: c3_def)
  obtain ps b4 where p: "qs_poll_connection loopback_api 0 (handle_offset 3 OR 1) 0 c3 b2 = (c3\<lparr>qc_ping_state := ps\<rparr>, b4)"
    using sample_qpoll [OF c3(2)] by blast
  have frame: "qs_offset sample_qaccepted = handle_offset 3" "\<not> qs_require_client_cert sample_qaccepted" "qs_writes sample_qaccepted = []"
    "qs_admission sample_qaccepted = outbound_admission_new 8 4"
    by (simp_all add: sample_qaccepted_def sample_qstart_def quic_server_new_def qs_from_parts_def)
  have src: "q_source_id loopback_api q = []" for q by (simp add: loopback_api_def)
  define m where "m = (let m1 = cm_put (qs_map sample_qaccepted) 1 (c3\<lparr>qc_ping_state := ps\<rparr>)
    in if [] \<noteq> qc_conn_id c2 then add_dcid m1 1 [] else m1)"
  have "qs_receive_packet sample_qlib 0 1 0 [1] 1 sample_qaccepted ?b = Some (True, sample_qaccepted\<lparr>qs_map := m\<rparr>, b4)"
    using r h p at1 frame by (simp add: qs_receive_packet_def Q rl Let_def c3_def src m_def del: One_nat_def)
  moreover have "cm_get m 1 = Some (c3\<lparr>qc_ping_state := ps\<rparr>)"
    by (simp add: m_def Let_def sample_qaccepted_def cm_put_def cm_get_def add_dcid_def)
  ultimately show ?thesis using that c3 frame
    by (simp add: qs_process_packet_def sample_qaccepts tu Q qs_arm_after_packet_def sample_qstate_def blocked_new_def del: One_nat_def)
qed

lemma sample_qblocked:
  assumes s: "sample_qstate s"
  obtains s' where "qs_do_stream_send sample_qlib 1 0 sample_chunk False (s\<lparr>qs_admission := a\<rparr>) b = (s', b @ [ev_stream_blocked 1 0])"
    "qs_writes s' = [((1, 0), sample_pw)]" "qs_admission s' = a" "qs_offset s' = handle_offset 3"
    "cm_get (qs_map s') 1 \<noteq> None"
proof -
  obtain c where c: "cm_get (qs_map s) 1 = Some c" "qc_quiche c = lb_empty" "blocked_set (qc_blocked c) = []"
    using s by (auto simp: sample_qstate_def split: option.splits)
  have Q: "ql_quiche sample_qlib = loopback_api" by (simp add: sample_qlib_def)
  have lb: "lb_credit lb_empty = 0" by (simp add: lb_empty_def)
  have snd: "stream_send_chunk loopback_api 0 c sample_chunk False
      = (Inr (send_out 0 False (Some (arc_from_chunk sample_chunk))), block_stream 0 (c\<lparr>qc_quiche := lb_empty\<rparr>))"
    using c by (simp add: stream_send_chunk_def stream_send_arcbuf_def send_zc_def lb_send_zc_def lb)
  have rel: "qs_release 0 t b = (t, b)" for t :: "loopback quic_server" by (simp add: qs_release_def Admission.release_def)
  have acc: "accepted_outbound_payload_units 3 False 0 False = 0" by (simp add: accepted_outbound_payload_units_def)
  have w: "qs_writes s = []" "qs_offset s = handle_offset 3" using s by (simp_all add: sample_qstate_def)
  let ?s = "s\<lparr>qs_admission := a, qs_map := cm_put (qs_map s) 1 (block_stream 0 (c\<lparr>qc_quiche := lb_empty\<rparr>)), qs_writes := [((1, 0), sample_pw)]\<rparr>"
  show ?thesis
    by (rule that [of ?s])
      (use c w in \<open>simp_all add: qs_do_stream_send_def Q snd acc rel Let_def insert_pending_write_def sample_pw_def cm_put_get\<close>)
qed

lemma sample_qrun:
  obtains s :: "loopback quic_server" where
    "quic_server_reach sample_qlib \<lparr>ws_server = s, ws_channel = [], ws_lost = 0\<rparr>" "cm_get (qs_map s) 1 \<noteq> None"
    "qs_writes s = [((1, 0), sample_pw)]" "queued (qs_admission s) = 3" "qs_offset s = handle_offset 3"
proof -
  obtain s1 out1 b1 where p: "qs_process_packet sample_qlib 0 0 1 (Some [9]) [] 0 [1] (V4 1 2) (V4 3 4) sample_qstart [] [] = Some (s1, out1, b1)"
    and s1: "sample_qstate s1" by (rule sample_qpacket)
  let ?cmd = "QStreamSend 1 0 sample_chunk False"
  define adm where "adm = snd (try_admit (outbound_admission_new 8 4) 3)"
  have adm: "try_admit (outbound_admission_new 8 4) 3 = (True, adm)" "queued adm = 3"
    by (simp_all add: adm_def try_admit_def outbound_admission_new_def admit_next_def admission_watermarks_new_def checked_add_def usize_max_def Let_def)
  have a1: "qs_admission s1 = outbound_admission_new 8 4" "qs_writes s1 = []" using s1 by (simp_all add: sample_qstate_def)
  obtain s2 where d: "qs_do_stream_send sample_qlib 1 0 sample_chunk False (s1\<lparr>qs_admission := adm\<rparr>) [] = (s2, [] @ [ev_stream_blocked 1 0])"
    and s2: "qs_writes s2 = [((1, 0), sample_pw)]" "qs_admission s2 = adm" "qs_offset s2 = handle_offset 3" "cm_get (qs_map s2) 1 \<noteq> None"
    by (rule sample_qblocked [OF s1])
  let ?w = "\<lambda>s cs. \<lparr>ws_server = s, ws_channel = cs, ws_lost = 0\<rparr>"
  have "quic_fresh sample_qstart" unfolding quic_fresh_def sample_qstart_def by blast
  then have "quic_server_reach sample_qlib (?w sample_qstart [])" by (rule system_reach.start)
  moreover have "wi_background (quic_iface sample_qlib) sample_qstart s1" using qs_background.packet [OF p] by simp
  ultimately have "quic_server_reach sample_qlib (?w s1 [])"
    using system_reach.step system_step.background [of "quic_iface sample_qlib" "?w sample_qstart []" s1] by fastforce
  then have "quic_server_reach sample_qlib (?w (s1\<lparr>qs_admission := adm\<rparr>) [?cmd])"
    by (rule system_reach.step)
      (use system_step.submit [of "quic_iface sample_qlib" "?w s1 []" ?cmd adm] adm(1) a1 in \<open>simp add: quic_cmd_ok_def outbound_payload_units_def\<close>)
  moreover have "wi_dispatch (quic_iface sample_qlib) ?cmd (s1\<lparr>qs_admission := adm\<rparr>) s2"
    using d unfolding quic_iface_simps qs_dispatch_command.simps by blast
  ultimately have "quic_server_reach sample_qlib (?w s2 [])"
    using system_reach.step system_step.command [of "?w (s1\<lparr>qs_admission := adm\<rparr>) [?cmd]" ?cmd "[]" "quic_iface sample_qlib" s2] a1
    by (fastforce simp del: quic_iface_simps(7) qs_dispatch_command.simps)
  then show ?thesis by (rule that) (use s2 adm(2) in simp_all)
qed


theorem quic_reap_resets_abandoned_witness:
  "\<exists>(s :: loopback quic_server) s' b'. qs_writes s = [((1, 0), sample_pw)] \<and> qs_reap_closed closed_api s [] = (s', b')
    \<and> ev_reset (handle_offset 3 OR 1) 0 0 \<in> set b' \<and> qs_writes s' = [] \<and> queued (qs_admission s') = 0"
proof -
  obtain s :: "loopback quic_server" where s: "quic_server_reach sample_qlib \<lparr>ws_server = s, ws_channel = [], ws_lost = 0\<rparr>"
    "cm_get (qs_map s) 1 \<noteq> None" "qs_writes s = [((1, 0), sample_pw)]" "queued (qs_admission s) = 3" "qs_offset s = handle_offset 3"
    by (rule sample_qrun)
  then obtain c where c: "cm_get (qs_map s) 1 = Some c" by blast
  obtain s' b' where r: "qs_reap_closed closed_api s [] = (s', b')" by fastforce
  have t: "qs_typed s" using quic_worker.reach_typed s(1) unfolding quic_server_reach_worker [OF sample_qlib_laws] by fastforce
  have u: "hm_sum queued_units (qs_writes s) = 3" using s by (simp add: hm_sum_def)
  then have "hm_sum queued_units (qs_writes s) \<le> queued (qs_admission s)" using s(4) by simp
  note R = quic_reap_resets_abandoned [OF t this r]
  have dead: "\<exists>x. cm_get (qs_map s) (unat (1 :: 32 word)) = Some x \<and> q_is_closed closed_api (qc_quiche x)"
    using c by (simp add: closed_api_def)
  have "ev_reset (qs_offset s OR 1) 0 0 \<in> set b'" using R dead s(3) by (auto simp: qs_holds_def)
  moreover have "qs_writes s' = []" using R [THEN conjunct2, THEN conjunct1] dead s(3) by simp
  moreover have "queued (qs_admission s') = 0"
    using R [THEN conjunct2, THEN conjunct2] u s(4) calculation(2) by (simp add: hm_sum_def)
  ultimately show ?thesis using r s(3,5) by (intro exI [of _ s] exI [of _ s'] exI [of _ b']) simp
qed

theorem quic_command_wrong_handle_witness:
  "\<exists>(s :: loopback quic_server) s1 b1 u s2 b2. qs_offset s = handle_offset 3
    \<and> qs_dispatch_command sample_qlib 0 (QStreamClose 1 0 7) s [] = (False, NoReply, s1, b1)
    \<and> qs_close_stream loopback_api 1 0 7 s [] = (u, s2, b2)
    \<and> b2 = [ev_reset (handle_offset 3 OR 1) 0 7] \<and> filter stream_report b1 = [ev_reset 1 0 7]
    \<and> worker_index (handle_offset 3 OR 1) = 3"
proof -
  obtain s :: "loopback quic_server" where s: "cm_get (qs_map s) 1 \<noteq> None" "qs_writes s = [((1, 0), sample_pw)]" "qs_offset s = handle_offset 3"
    by (rule sample_qrun)
  then obtain c where c: "cm_get (qs_map s) 1 = Some c" by blast
  have Q: "ql_quiche sample_qlib = loopback_api" by (simp add: sample_qlib_def)
  obtain s1 b1 where d: "qs_dispatch_command sample_qlib 0 (QStreamClose 1 0 7) s [] = (False, NoReply, s1, b1)" by fastforce
  obtain u s2 b2 where e: "qs_close_stream (ql_quiche sample_qlib) 1 0 7 s [] = (u, s2, b2)"
    by (cases "qs_close_stream (ql_quiche sample_qlib) 1 0 7 s []")
  then have b2: "b2 = [ev_reset (handle_offset 3 OR 1) 0 7]"
    using c s by (auto simp: qs_close_stream_def Let_def remove_pending_write_def)
  have "unat (3 :: 32 word) < 4096" "unat (1 :: 32 word) < 2 ^ 20" by simp_all
  from quic_command_wrong_handle [OF s(3) this disjI2 [OF conjI [OF refl e]] d] b2
  have "filter stream_report b1 = [ev_reset 1 0 7]" "worker_index (handle_offset 3 OR 1) = 3" by simp_all
  then show ?thesis using d e b2 s(3) unfolding Q by (intro exI [of _ s] exI) blast
qed

end
