(* ===== verification/Client_Core.thy ===== *)
theory Client_Core
  imports Quic_Server
begin

text \<open>
  What the two client handlers have in common: \<^verbatim>\<open>H3ClientHandler\<close> of \<^verbatim>\<open>worker.rs\<close> and
  \<^verbatim>\<open>QuicClientHandler\<close> of \<^verbatim>\<open>quic_worker.rs\<close> each hold one connection, the writes its streams
  wait to send, the deadline of its timer, whether its closing was reported, and the admission window.
  The operations that the two spell out alike are defined once, over the connection's own operations.
  Packet buffers, the chunk pool, the keylog sink and telemetry are left out.
\<close>

record 'c client_core =
  cl_conn :: 'c
  cl_writes :: "(stream_id, pending_write) hashmap"
  cl_deadline :: "instant option"
  cl_closed_emitted :: bool
  cl_admission :: outbound_admission

datatype client_reply =
    CNoReply
  | COpened "native_error + stream_id"
  | CRequested "string + stream_id"
  | CBool bool
  | CMetrics "js_session_metrics option"
  | CPath "string option"
  | CSettings "(nat \<times> nat) list"

definition cl_release ::
  "nat \<Rightarrow> ('c, 'z) client_core_scheme \<Rightarrow> js_event list \<Rightarrow> ('c, 'z) client_core_scheme \<times> js_event list" where
  "cl_release units s batch =
     (case Admission.release (cl_admission s) units of (ready, adm) \<Rightarrow>
        (s\<lparr>cl_admission := adm\<rparr>, if ready then batch @ [ev_write_ready 0] else batch))"

text \<open>The closing of the session, with a reset for every stream that still waits to send.\<close>

definition cl_emit_session_close ::
  "('c \<Rightarrow> conn_handle \<Rightarrow> js_event) \<Rightarrow> conn_handle \<Rightarrow> ('c, 'z) client_core_scheme \<Rightarrow> js_event list
     \<Rightarrow> ('c, 'z) client_core_scheme \<times> js_event list" where
  "cl_emit_session_close close_ev h s batch =
     (if cl_closed_emitted s then (s, batch)
      else
        let b1 = batch @ map (\<lambda>(sid, _). ev_reset h sid 0) (cl_writes s);
            removed_units = hm_sum queued_units (cl_writes s)
        in (case cl_release removed_units (s\<lparr>cl_writes := []\<rparr>) b1 of (s1, b2) \<Rightarrow>
              (s1\<lparr>cl_closed_emitted := True\<rparr>, b2 @ [close_ev (cl_conn s1) h])))"

definition cl_queue_stream_send ::
  "('c \<Rightarrow> (native_error + send_outcome) \<times> 'c) \<Rightarrow> (native_error \<Rightarrow> string) \<Rightarrow> conn_handle \<Rightarrow> stream_id \<Rightarrow> chunk \<Rightarrow> bool
     \<Rightarrow> ('c, 'z) client_core_scheme \<Rightarrow> js_event list \<Rightarrow> nat \<times> ('c, 'z) client_core_scheme \<times> js_event list" where
  "cl_queue_stream_send send text h sid ch fin s batch =
     (case hm_get (cl_writes s) sid of
        Some pw \<Rightarrow> (0, s\<lparr>cl_writes := hm_insert sid (push_and_fin pw ch fin) (cl_writes s)\<rparr>, batch)
      | None \<Rightarrow>
          (case send (cl_conn s) of
             (Inr out, c') \<Rightarrow>
               let s1 = s\<lparr>cl_conn := c'\<rparr>;
                   released = accepted_outbound_payload_units (chunk_remaining_len ch) fin
                     (so_written out) (so_fin_accepted out)
               in (case so_remainder out of
                     None \<Rightarrow> (released, s1, batch)
                   | Some r \<Rightarrow>
                       (released, s1\<lparr>cl_writes := insert_pending_write sid (pending_write_new r fin) (cl_writes s1)\<rparr>,
                        batch @ [ev_stream_blocked h sid]))
           | (Inl e, c') \<Rightarrow>
               (outbound_payload_units (chunk_remaining_len ch) fin, s\<lparr>cl_conn := c'\<rparr>,
                batch @ [ev_error h (as_i64 sid) 0 (''stream send failed: '' @ text e)])))"

definition cl_close_stream :: "('c \<Rightarrow> 'c) \<Rightarrow> stream_id \<Rightarrow> ('c, 'z) client_core_scheme \<Rightarrow> nat \<times> ('c, 'z) client_core_scheme" where
  "cl_close_stream close sid s =
     (case remove_pending_write sid (cl_writes s) of (released, ws) \<Rightarrow>
        (released, s\<lparr>cl_conn := close (cl_conn s), cl_writes := ws\<rparr>))"

definition cl_flush_pending_writes ::
  "(stream_id flush_events \<times> (stream_id, pending_write) hashmap \<times> 'c) \<Rightarrow> conn_handle \<Rightarrow> ('c, 'z) client_core_scheme \<Rightarrow> js_event list
     \<Rightarrow> ('c, 'z) client_core_scheme \<times> js_event list" where
  "cl_flush_pending_writes flushed h s batch =
     (case flushed of (fe, kept, c') \<Rightarrow>
        (case cl_release (fe_released_units fe) (s\<lparr>cl_conn := c', cl_writes := kept\<rparr>) batch of
           (s1, b1) \<Rightarrow> (s1, b1 @ map (ev_drain h) (fe_drained fe))))"

definition cl_refresh_deadline :: "('c \<Rightarrow> nat option) \<Rightarrow> instant \<Rightarrow> ('c, 'z) client_core_scheme \<Rightarrow> ('c, 'z) client_core_scheme" where
  "cl_refresh_deadline timeout now s = s\<lparr>cl_deadline := map_option (\<lambda>t. now + t) (timeout (cl_conn s))\<rparr>"

text \<open>One packet, or none and the deadline read again.\<close>

definition cl_try_send_next ::
  "('c \<Rightarrow> tx_datagram option \<times> 'c) \<Rightarrow> ('c \<Rightarrow> nat option) \<Rightarrow> instant \<Rightarrow> ('c, 'z) client_core_scheme
     \<Rightarrow> tx_datagram option \<times> ('c, 'z) client_core_scheme" where
  "cl_try_send_next send timeout now s =
     (case send (cl_conn s) of
        (Some p, c') \<Rightarrow> (Some p, s\<lparr>cl_conn := c'\<rparr>)
      | (None, c') \<Rightarrow> (None, cl_refresh_deadline timeout now (s\<lparr>cl_conn := c'\<rparr>)))"

fun cl_send_loop ::
  "('c \<Rightarrow> tx_datagram option \<times> 'c) \<Rightarrow> ('c \<Rightarrow> nat option) \<Rightarrow> instant \<Rightarrow> nat \<Rightarrow> ('c, 'z) client_core_scheme \<Rightarrow> tx_datagram list
     \<Rightarrow> (('c, 'z) client_core_scheme \<times> tx_datagram list) option" where
  "cl_send_loop send timeout now 0 s out = None"
| "cl_send_loop send timeout now (Suc fuel) s out =
     (case cl_try_send_next send timeout now s of
        (Some p, s') \<Rightarrow> cl_send_loop send timeout now fuel s' (out @ [p])
      | (None, s') \<Rightarrow> Some (s', out))"

definition cl_flush_sends ::
  "('c \<Rightarrow> tx_datagram option \<times> 'c) \<Rightarrow> ('c \<Rightarrow> nat option) \<Rightarrow> instant \<Rightarrow> nat \<Rightarrow> ('c, 'z) client_core_scheme \<Rightarrow> tx_datagram list
     \<Rightarrow> (('c, 'z) client_core_scheme \<times> tx_datagram list) option" where
  "cl_flush_sends send timeout now fuel s out =
     (case cl_send_loop send timeout now fuel s out of
        None \<Rightarrow> None | Some (s', out') \<Rightarrow> Some (cl_refresh_deadline timeout now s', out'))"

definition cl_shutdown :: "('c, 'z) client_core_scheme \<Rightarrow> ('c, 'z) client_core_scheme" where
  "cl_shutdown s = (if \<not> cl_closed_emitted s then s\<lparr>cl_closed_emitted := True\<rparr> else s)"

definition cl_emit_session_close_for_all_active ::
  "('c, 'z) client_core_scheme \<Rightarrow> js_event list \<Rightarrow> ('c, 'z) client_core_scheme \<times> js_event list" where
  "cl_emit_session_close_for_all_active s batch =
     (if \<not> cl_closed_emitted s then (s\<lparr>cl_closed_emitted := True\<rparr>, batch @ [ev_session_close 0]) else (s, batch))"

end
