(* ===== verification/H3_Client.thy ===== *)
theory H3_Client
  imports Client_Core
begin

text \<open>
  The HTTP/3 client: \<^verbatim>\<open>H3ClientHandler\<close> of \<^verbatim>\<open>worker.rs\<close>, one connection driven by commands, packets
  and timers. Polling takes fuel, as on the server, and returns nothing only when the fuel runs out.
\<close>

record ('h, 'q) h3_client_lib =
  jl_lib :: "('h, 'q) server_lib"
  jl_connect :: "string \<Rightarrow> byte list \<Rightarrow> socket_addr \<Rightarrow> socket_addr \<Rightarrow> quiche_error + 'q"
  jl_set_session :: "'q \<Rightarrow> byte list \<Rightarrow> 'q"

abbreviation jl_h3 :: "('h, 'q) h3_client_lib \<Rightarrow> ('h, 'q) h3_api" where
  "jl_h3 L \<equiv> sl_h3 (jl_lib L)"

abbreviation jl_quiche :: "('h, 'q) h3_client_lib \<Rightarrow> 'q quiche_api" where
  "jl_quiche L \<equiv> sl_quiche (jl_lib L)"

type_synonym ('h, 'q) h3_client = "('h, 'q) h3_connection client_core"

subsection \<open>Construction\<close>

definition jc_from_scid ::
  "('h, 'q) h3_client_lib \<Rightarrow> instant \<Rightarrow> byte list \<Rightarrow> socket_addr \<Rightarrow> socket_addr \<Rightarrow> string \<Rightarrow> byte list option \<Rightarrow> outbound_admission
     \<Rightarrow> ('h, 'q) h3_client option" where
  "jc_from_scid L now scid local server name ticket adm =
     (case jl_connect L name scid local server of
        Inl _ \<Rightarrow> None
      | Inr q \<Rightarrow>
          let q1 = (case ticket of None \<Rightarrow> q | Some t \<Rightarrow> jl_set_session L q t);
              conn = h3_connection_new q1 scid now None None
          in Some \<lparr>cl_conn = conn, cl_writes = [], cl_deadline = map_option (\<lambda>t. now + t) (q_timeout (jl_quiche L) q1),
                   cl_closed_emitted = False, cl_admission = adm\<rparr>)"

definition jc_new ::
  "('h, 'q) h3_client_lib \<Rightarrow> instant \<Rightarrow> byte list option \<Rightarrow> socket_addr \<Rightarrow> socket_addr \<Rightarrow> string \<Rightarrow> byte list option \<Rightarrow> outbound_admission
     \<Rightarrow> ('h, 'q) h3_client option" where
  "jc_new L now rng local server name ticket adm =
     (case generate_scid Random rng of
        Inl _ \<Rightarrow> None
      | Inr scid \<Rightarrow> jc_from_scid L now scid local server name ticket adm)"

subsection \<open>Connection ids and the timer\<close>

definition jc_current_dcid :: "'q quiche_api \<Rightarrow> ('h, 'q) h3_client \<Rightarrow> byte list" where
  "jc_current_dcid Q s = q_source_id Q (hc_quiche (cl_conn s))"

definition jc_take_dcid_updates ::
  "'q quiche_api \<Rightarrow> nat \<Rightarrow> ('h, 'q) h3_client \<Rightarrow> ((byte list \<times> bool \<times> byte list list) \<times> ('h, 'q) h3_client) option" where
  "jc_take_dcid_updates Q fuel s =
     (let current = jc_current_dcid Q s;
          needs_update = (current \<noteq> hc_conn_id (cl_conn s));
          c1 = (if needs_update then (cl_conn s)\<lparr>hc_conn_id := current\<rparr> else cl_conn s)
      in (case retired_loop Q fuel (hc_quiche c1) of
            None \<Rightarrow> None
          | Some (retired, q') \<Rightarrow> Some ((current, needs_update, retired), s\<lparr>cl_conn := c1\<lparr>hc_quiche := q'\<rparr>\<rparr>)))"

definition jc_timeout :: "'q quiche_api \<Rightarrow> ('h, 'q) h3_connection \<Rightarrow> nat option" where
  "jc_timeout Q c = q_timeout Q (hc_quiche c)"

definition jc_refresh_timeout_deadline :: "'q quiche_api \<Rightarrow> instant \<Rightarrow> ('h, 'q) h3_client \<Rightarrow> ('h, 'q) h3_client" where
  "jc_refresh_timeout_deadline Q now s = cl_refresh_deadline (jc_timeout Q) now s"

subsection \<open>Direct calls\<close>

definition jc_close_session :: "'q quiche_api \<Rightarrow> 32 word \<Rightarrow> string \<Rightarrow> ('h, 'q) h3_client \<Rightarrow> ('h, 'q) h3_client" where
  "jc_close_session Q code reason s =
     s\<lparr>cl_conn := (cl_conn s)\<lparr>hc_quiche := q_close Q (hc_quiche (cl_conn s)) True (unat code) reason\<rparr>\<rparr>"

definition jc_init :: "('h, 'q) h3_client_lib \<Rightarrow> instant \<Rightarrow> ('h, 'q) h3_connection \<Rightarrow> ('h, 'q) h3_connection" where
  "jc_init L now c =
     (if (q_is_established (jl_quiche L) (hc_quiche c) \<or> q_is_in_early_data (jl_quiche L) (hc_quiche c)) \<and> \<not> hc_is_established c
      then snd (init_h3 (jl_h3 L) now c) else c)"

definition jc_send_request ::
  "('h, 'q) h3_client_lib \<Rightarrow> instant \<Rightarrow> h3_header list \<Rightarrow> bool \<Rightarrow> ('h, 'q) h3_client \<Rightarrow> (string + stream_id) \<times> ('h, 'q) h3_client" where
  "jc_send_request L now hs fin s =
     (case send_request (jl_h3 L) hs fin (jc_init L now (cl_conn s)) of (r, c') \<Rightarrow>
        ((case r of
            Inl e \<Rightarrow> Inl (''send_request failed: '' @ native_error_text (q_error_text (jl_quiche L)) (h3_error_text (jl_h3 L)) e)
          | Inr sid \<Rightarrow> Inr sid), s\<lparr>cl_conn := c'\<rparr>))"

definition jc_queue_stream_send ::
  "('h, 'q) h3_client_lib \<Rightarrow> conn_handle \<Rightarrow> stream_id \<Rightarrow> chunk \<Rightarrow> bool \<Rightarrow> ('h, 'q) h3_client \<Rightarrow> js_event list
     \<Rightarrow> nat \<times> ('h, 'q) h3_client \<times> js_event list" where
  "jc_queue_stream_send L h sid ch fin s batch =
     cl_queue_stream_send (\<lambda>c. send_body_chunk (jl_h3 L) (jl_quiche L) sid c ch fin)
       (native_error_text (q_error_text (jl_quiche L)) (h3_error_text (jl_h3 L))) h sid ch fin s batch"

definition jc_has_pending_stream_write :: "stream_id \<Rightarrow> ('h, 'q) h3_client \<Rightarrow> bool" where
  "jc_has_pending_stream_write sid s \<longleftrightarrow> hm_contains (cl_writes s) sid"

definition jc_enable_read_credit :: "('h, 'q) h3_client \<Rightarrow> ('h, 'q) h3_client" where
  "jc_enable_read_credit s = s\<lparr>cl_conn := (cl_conn s)\<lparr>hc_stream_read_window := Some (64 * 1024)\<rparr>\<rparr>"

definition jc_stream_read_credit :: "stream_id \<Rightarrow> nat \<Rightarrow> ('h, 'q) h3_client \<Rightarrow> ('h, 'q) h3_client" where
  "jc_stream_read_credit sid bytes s = s\<lparr>cl_conn := add_read_credit sid bytes (cl_conn s)\<rparr>"

definition jc_close_stream :: "'q quiche_api \<Rightarrow> stream_id \<Rightarrow> 32 word \<Rightarrow> ('h, 'q) h3_client \<Rightarrow> nat \<times> ('h, 'q) h3_client" where
  "jc_close_stream Q sid code s = cl_close_stream (h3_stream_close Q sid (unat code)) sid s"

definition jc_send_datagram :: "'q quiche_api \<Rightarrow> chunk \<Rightarrow> ('h, 'q) h3_client \<Rightarrow> bool \<times> ('h, 'q) h3_client" where
  "jc_send_datagram Q d s = (case send_datagram_chunk Q d (cl_conn s) of (r, c') \<Rightarrow> (r = Inr (), s\<lparr>cl_conn := c'\<rparr>))"

definition jc_ping :: "'q quiche_api \<Rightarrow> instant \<Rightarrow> ('h, 'q) h3_client \<Rightarrow> bool \<times> ('h, 'q) h3_client" where
  "jc_ping Q now s = (case h3_queue_ping Q now (cl_conn s) of (r, c') \<Rightarrow> (r = Inr (), s\<lparr>cl_conn := c'\<rparr>))"

definition jc_is_reapable :: "('h, 'q) h3_client \<Rightarrow> bool" where
  "jc_is_reapable s \<longleftrightarrow> cl_closed_emitted s"

subsection \<open>Packets, timers and polling\<close>

definition jc_emit_session_close :: "'q quiche_api \<Rightarrow> conn_handle \<Rightarrow> ('h, 'q) h3_client \<Rightarrow> js_event list \<Rightarrow> ('h, 'q) h3_client \<times> js_event list" where
  "jc_emit_session_close Q h s batch = cl_emit_session_close (h3_session_close_event Q) h s batch"

definition jc_ticket :: "'q quiche_api \<Rightarrow> conn_handle \<Rightarrow> ('h, 'q) h3_connection \<Rightarrow> js_event list \<Rightarrow> ('h, 'q) h3_connection \<times> js_event list" where
  "jc_ticket Q h c batch =
     (case h3_update_session_ticket Q c of
        (None, c') \<Rightarrow> (c', batch) | (Some t, c') \<Rightarrow> (c', batch @ [ev_session_ticket h t]))"

text \<open>Events, drains of streams that still wait withheld, ping acknowledgements and the ticket.\<close>

definition jc_poll ::
  "('h, 'q) h3_client_lib \<Rightarrow> instant \<Rightarrow> nat \<Rightarrow> nat \<Rightarrow> conn_handle \<Rightarrow> ('h, 'q) h3_connection \<Rightarrow> ('h, 'q) h3_client \<Rightarrow> js_event list
     \<Rightarrow> (('h, 'q) h3_connection \<times> js_event list) option" where
  "jc_poll L now fuel budget h c s batch =
     (case poll_h3_events (jl_h3 L) (jl_quiche L) h fuel budget c batch of
        None \<Rightarrow> None
      | Some (c1, b1) \<Rightarrow>
          let b2 = suppress_pending_drains h (hm_contains (cl_writes s)) b1 in
          (case h3_poll_ping_acks (jl_quiche L) now c1 of
             (ds, c2) \<Rightarrow> Some (jc_ticket (jl_quiche L) h c2 (b2 @ map (ev_ping_ack h) ds))))"

definition jc_process_packet_for_handle ::
  "('h, 'q) h3_client_lib \<Rightarrow> instant \<Rightarrow> nat \<Rightarrow> nat \<Rightarrow> byte list \<Rightarrow> conn_handle \<Rightarrow> ('h, 'q) h3_client \<Rightarrow> js_event list
     \<Rightarrow> (('h, 'q) h3_client \<times> js_event list) option" where
  "jc_process_packet_for_handle L now fuel budget buf h s batch =
     (let Q = jl_quiche L in
      case h3_recv Q (cl_conn s) buf of
        (Inl _, c1) \<Rightarrow> Some (s\<lparr>cl_conn := c1\<rparr>, batch)
      | (Inr _, c1) \<Rightarrow>
          let c2 = jc_init L now c1;
              complete = (q_is_established Q (hc_quiche c2) \<and> \<not> hc_handshake_complete_emitted c2);
              c3 = (if complete then c2\<lparr>hc_handshake_complete_emitted := True\<rparr> else c2);
              b1 = (if complete then batch @ [ev_handshake_complete h] else batch)
          in (case jc_poll L now fuel budget h c3 s b1 of
                None \<Rightarrow> None
              | Some (c4, b2) \<Rightarrow>
                  let s1 = jc_refresh_timeout_deadline Q now (s\<lparr>cl_conn := c4\<rparr>) in
                  Some (if q_is_closed Q (hc_quiche c4) then jc_emit_session_close Q h s1 b2 else (s1, b2))))"

definition jc_process_timers_for_handle ::
  "('h, 'q) h3_client_lib \<Rightarrow> instant \<Rightarrow> nat \<Rightarrow> nat \<Rightarrow> conn_handle \<Rightarrow> ('h, 'q) h3_client \<Rightarrow> js_event list
     \<Rightarrow> (('h, 'q) h3_client \<times> js_event list) option" where
  "jc_process_timers_for_handle L now fuel budget h s batch =
     (let Q = jl_quiche L in
      if case cl_deadline s of None \<Rightarrow> False | Some d \<Rightarrow> d \<le> now then
        let c1 = (cl_conn s)\<lparr>hc_quiche := q_on_timeout Q (hc_quiche (cl_conn s))\<rparr>;
            s1 = s\<lparr>cl_conn := c1\<rparr>
        in if q_is_closed Q (hc_quiche c1) then Some (jc_emit_session_close Q h s1 batch)
           else (case jc_poll L now fuel budget h c1 s1 batch of
                   None \<Rightarrow> None
                 | Some (c2, b1) \<Rightarrow> Some (jc_refresh_timeout_deadline Q now (s1\<lparr>cl_conn := c2\<rparr>), b1))
      else Some (s, batch))"

definition jc_poll_app_events_for_handle ::
  "('h, 'q) h3_client_lib \<Rightarrow> instant \<Rightarrow> nat \<Rightarrow> nat \<Rightarrow> conn_handle \<Rightarrow> ('h, 'q) h3_client \<Rightarrow> js_event list
     \<Rightarrow> (('h, 'q) h3_client \<times> js_event list) option" where
  "jc_poll_app_events_for_handle L now fuel budget h s batch =
     (if budget = 0 then Some (s, batch)
      else case jc_poll L now fuel budget h (cl_conn s) s batch of
        None \<Rightarrow> None | Some (c1, b1) \<Rightarrow> Some (s\<lparr>cl_conn := c1\<rparr>, b1))"

definition jc_poll_drain_events_for_handle ::
  "'q quiche_api \<Rightarrow> nat \<Rightarrow> conn_handle \<Rightarrow> ('h, 'q) h3_client \<Rightarrow> js_event list \<Rightarrow> (('h, 'q) h3_client \<times> js_event list) option" where
  "jc_poll_drain_events_for_handle Q fuel h s batch =
     (if blocked_set (hc_blocked (cl_conn s)) \<noteq> [] then
        (case h3_poll_drain_events Q h fuel (cl_conn s) batch of
           None \<Rightarrow> None
         | Some (c1, b1) \<Rightarrow> Some (s\<lparr>cl_conn := c1\<rparr>, suppress_pending_drains h (hm_contains (cl_writes s)) b1))
      else Some (s, batch))"

subsection \<open>Sending\<close>

definition jc_next_packet :: "'q quiche_api \<Rightarrow> ('h, 'q) h3_connection \<Rightarrow> tx_datagram option \<times> ('h, 'q) h3_connection" where
  "jc_next_packet Q c =
     (case h3_send Q c TX_BUFFER_LEN of
        (Inl _, c') \<Rightarrow> (None, c')
      | (Inr (pkt, to), c') \<Rightarrow>
          (Some \<lparr>tx_data = pkt, tx_payload_len = length pkt, tx_to = to,
                 tx_max_segment_size = mtu_of (q_max_udp Q (hc_quiche c'))\<rparr>, c'))"

definition jc_try_send_next :: "'q quiche_api \<Rightarrow> instant \<Rightarrow> ('h, 'q) h3_client \<Rightarrow> tx_datagram option \<times> ('h, 'q) h3_client" where
  "jc_try_send_next Q now s = cl_try_send_next (jc_next_packet Q) (jc_timeout Q) now s"

definition jc_flush_sends ::
  "'q quiche_api \<Rightarrow> instant \<Rightarrow> nat \<Rightarrow> ('h, 'q) h3_client \<Rightarrow> tx_datagram list \<Rightarrow> (('h, 'q) h3_client \<times> tx_datagram list) option" where
  "jc_flush_sends Q now fuel s out = cl_flush_sends (jc_next_packet Q) (jc_timeout Q) now fuel s out"

definition jc_flush_pending_writes_for_handle ::
  "('h, 'q) h3_client_lib \<Rightarrow> conn_handle \<Rightarrow> ('h, 'q) h3_client \<Rightarrow> js_event list \<Rightarrow> ('h, 'q) h3_client \<times> js_event list" where
  "jc_flush_pending_writes_for_handle L h s batch =
     cl_flush_pending_writes (flush_client_pending_writes (jl_h3 L) (jl_quiche L) (cl_conn s) (cl_writes s)) h s batch"

subsection \<open>Commands\<close>

datatype client_worker_command =
    JSendRequest "h3_header list" bool
  | JStreamSend stream_id chunk bool
  | JStreamReadCredit stream_id nat
  | JStreamClose stream_id "32 word"
  | JSendDatagram chunk
  | JGetSessionMetrics
  | JGetRemoteSettings
  | JGetQlogPath
  | JPing
  | JClose "32 word" string
  | JShutdown

fun client_worker_command_outbound_bytes :: "client_worker_command \<Rightarrow> nat" where
  "client_worker_command_outbound_bytes (JStreamSend sid ch fin) = outbound_payload_units (chunk_remaining_len ch) fin"
| "client_worker_command_outbound_bytes (JSendDatagram d) = chunk_remaining_len d"
| "client_worker_command_outbound_bytes _ = 0"

fun jc_dispatch_command ::
  "('h, 'q) h3_client_lib \<Rightarrow> instant \<Rightarrow> client_worker_command \<Rightarrow> ('h, 'q) h3_client \<Rightarrow> js_event list
     \<Rightarrow> bool \<times> client_reply \<times> ('h, 'q) h3_client \<times> js_event list" where
  "jc_dispatch_command L now JShutdown s batch = (True, CNoReply, cl_shutdown s, batch)"
| "jc_dispatch_command L now (JClose code reason) s batch =
     (False, CNoReply, jc_close_session (jl_quiche L) code reason s, batch)"
| "jc_dispatch_command L now (JSendRequest hs fin) s batch =
     (case jc_send_request L now hs fin s of (r, s') \<Rightarrow> (False, CRequested r, s', batch))"
| "jc_dispatch_command L now (JStreamSend sid ch fin) s batch =
     (case jc_queue_stream_send L 0 sid ch fin s batch of (released, s', b') \<Rightarrow> (False, CNoReply, cl_release released s' b'))"
| "jc_dispatch_command L now (JStreamReadCredit sid bytes) s batch = (False, CNoReply, jc_stream_read_credit sid bytes s, batch)"
| "jc_dispatch_command L now (JStreamClose sid code) s batch =
     (case jc_close_stream (jl_quiche L) sid code s of (released, s') \<Rightarrow> (False, CNoReply, cl_release released s' batch))"
| "jc_dispatch_command L now (JSendDatagram d) s batch =
     (case jc_send_datagram (jl_quiche L) d s of (ok, s') \<Rightarrow>
        (False, CBool ok, cl_release (chunk_remaining_len d) s' batch))"
| "jc_dispatch_command L now JGetSessionMetrics s batch =
     (False, CMetrics (Some (snapshot_metrics (jl_lib L) (cl_conn s))), s, batch)"
| "jc_dispatch_command L now JGetRemoteSettings s batch = (False, CSettings (remote_settings (jl_h3 L) (cl_conn s)), s, batch)"
| "jc_dispatch_command L now JGetQlogPath s batch = (False, CPath (sl_qlog_path (jl_lib L) (cl_conn s)), s, batch)"
| "jc_dispatch_command L now JPing s batch =
     (case jc_ping (jl_quiche L) now s of (ok, s') \<Rightarrow> (False, CBool ok, s', batch))"

end
