(* ===== verification/Quic_Client.thy ===== *)
theory Quic_Client
  imports Client_Core
begin

text \<open>
  The raw QUIC client: \<^verbatim>\<open>QuicClientHandler\<close> of \<^verbatim>\<open>quic_worker.rs\<close>, one connection driven by
  commands, packets and timers. \<^verbatim>\<open>quiche::connect\<close> and \<^verbatim>\<open>set_session\<close> join the parameters of the
  server's model.
\<close>

record 'q quic_client_lib =
  kl_lib :: "'q quic_lib"
  kl_connect :: "string \<Rightarrow> byte list \<Rightarrow> socket_addr \<Rightarrow> socket_addr \<Rightarrow> quiche_error + 'q"
  kl_set_session :: "'q \<Rightarrow> byte list \<Rightarrow> 'q"

abbreviation kl_quiche :: "'q quic_client_lib \<Rightarrow> 'q quiche_api" where
  "kl_quiche L \<equiv> ql_quiche (kl_lib L)"

record 'q quic_client = "'q quic_connection client_core" +
  kc_next_bidi :: stream_id

subsection \<open>Construction\<close>

definition kc_from_scid ::
  "'q quic_client_lib \<Rightarrow> instant \<Rightarrow> byte list \<Rightarrow> socket_addr \<Rightarrow> socket_addr \<Rightarrow> string \<Rightarrow> byte list option \<Rightarrow> outbound_admission
     \<Rightarrow> 'q quic_client option" where
  "kc_from_scid L now scid local server name ticket adm =
     (case kl_connect L name scid local server of
        Inl _ \<Rightarrow> None
      | Inr q \<Rightarrow>
          let q1 = (case ticket of None \<Rightarrow> q | Some t \<Rightarrow> kl_set_session L q t);
              conn = quic_connection_new q1 scid now
          in Some \<lparr>cl_conn = conn, cl_writes = [], cl_deadline = map_option (\<lambda>t. now + t) (q_timeout (kl_quiche L) q1),
                   cl_closed_emitted = False, cl_admission = adm, kc_next_bidi = 0\<rparr>)"

definition kc_new ::
  "'q quic_client_lib \<Rightarrow> instant \<Rightarrow> byte list option \<Rightarrow> socket_addr \<Rightarrow> socket_addr \<Rightarrow> string \<Rightarrow> byte list option \<Rightarrow> outbound_admission
     \<Rightarrow> 'q quic_client option" where
  "kc_new L now rng local server name ticket adm =
     (case generate_scid Random rng of
        Inl _ \<Rightarrow> None
      | Inr scid \<Rightarrow> kc_from_scid L now scid local server name ticket adm)"

subsection \<open>Connection ids and the timer\<close>

definition kc_current_dcid :: "'q quiche_api \<Rightarrow> 'q quic_client \<Rightarrow> byte list" where
  "kc_current_dcid Q s = q_source_id Q (qc_quiche (cl_conn s))"

definition kc_take_dcid_updates ::
  "'q quiche_api \<Rightarrow> nat \<Rightarrow> 'q quic_client \<Rightarrow> ((byte list \<times> bool \<times> byte list list) \<times> 'q quic_client) option" where
  "kc_take_dcid_updates Q fuel s =
     (let current = kc_current_dcid Q s;
          needs_update = (current \<noteq> qc_conn_id (cl_conn s));
          c1 = (if needs_update then (cl_conn s)\<lparr>qc_conn_id := current\<rparr> else cl_conn s)
      in (case retired_loop Q fuel (qc_quiche c1) of
            None \<Rightarrow> None
          | Some (retired, q') \<Rightarrow> Some ((current, needs_update, retired), s\<lparr>cl_conn := c1\<lparr>qc_quiche := q'\<rparr>\<rparr>)))"

definition kc_timeout :: "'q quiche_api \<Rightarrow> 'q quic_connection \<Rightarrow> nat option" where
  "kc_timeout Q c = q_timeout Q (qc_quiche c)"

definition kc_refresh_timeout_deadline :: "'q quiche_api \<Rightarrow> instant \<Rightarrow> 'q quic_client \<Rightarrow> 'q quic_client" where
  "kc_refresh_timeout_deadline Q now s = cl_refresh_deadline (kc_timeout Q) now s"

subsection \<open>Direct calls\<close>

definition kc_close_session :: "'q quiche_api \<Rightarrow> 32 word \<Rightarrow> string \<Rightarrow> 'q quic_client \<Rightarrow> 'q quic_client" where
  "kc_close_session Q code reason s =
     s\<lparr>cl_conn := (cl_conn s)\<lparr>qc_quiche := q_close Q (qc_quiche (cl_conn s)) True (unat code) reason\<rparr>\<rparr>"

definition kc_open_bidi_stream :: "'q quiche_api \<Rightarrow> 'q quic_client \<Rightarrow> (native_error + stream_id) \<times> 'q quic_client" where
  "kc_open_bidi_stream Q s =
     (let sid = kc_next_bidi s in
      if 2 ^ 64 \<le> sid + 4 then (Inl (InvalidState ''client bidirectional stream id overflow''), s)
      else case reserve_local_bidi_stream Q sid (cl_conn s) of
        (Inl e, c') \<Rightarrow> (Inl e, s\<lparr>cl_conn := c'\<rparr>)
      | (Inr _, c') \<Rightarrow> (Inr sid, s\<lparr>cl_conn := c', kc_next_bidi := sid + 4\<rparr>))"

definition kc_queue_stream_send ::
  "'q quic_client_lib \<Rightarrow> conn_handle \<Rightarrow> stream_id \<Rightarrow> chunk \<Rightarrow> bool \<Rightarrow> 'q quic_client \<Rightarrow> js_event list
     \<Rightarrow> nat \<times> 'q quic_client \<times> js_event list" where
  "kc_queue_stream_send L h sid ch fin s batch =
     cl_queue_stream_send (\<lambda>c. stream_send_chunk (kl_quiche L) sid c ch fin)
       (native_error_text (q_error_text (kl_quiche L)) (ql_h3_error_text (kl_lib L))) h sid ch fin s batch"

definition kc_has_pending_stream_write :: "stream_id \<Rightarrow> 'q quic_client \<Rightarrow> bool" where
  "kc_has_pending_stream_write sid s \<longleftrightarrow> hm_contains (cl_writes s) sid"

definition kc_close_stream :: "'q quiche_api \<Rightarrow> stream_id \<Rightarrow> 32 word \<Rightarrow> 'q quic_client \<Rightarrow> nat \<times> 'q quic_client" where
  "kc_close_stream Q sid code s = cl_close_stream (quic_stream_close Q sid (unat code)) sid s"

definition kc_send_datagram :: "'q quiche_api \<Rightarrow> chunk \<Rightarrow> 'q quic_client \<Rightarrow> bool \<times> 'q quic_client" where
  "kc_send_datagram Q d s =
     (case queue_datagram Q d (cl_conn s) of (r, c') \<Rightarrow> ((case r of Inl _ \<Rightarrow> False | Inr ok \<Rightarrow> ok), s\<lparr>cl_conn := c'\<rparr>))"

definition kc_ping :: "'q quiche_api \<Rightarrow> instant \<Rightarrow> 'q quic_client \<Rightarrow> bool \<times> 'q quic_client" where
  "kc_ping Q now s = (case quic_queue_ping Q now (cl_conn s) of (r, c') \<Rightarrow> (r = Inr (), s\<lparr>cl_conn := c'\<rparr>))"

definition kc_is_reapable :: "'q quic_client \<Rightarrow> bool" where
  "kc_is_reapable s \<longleftrightarrow> cl_closed_emitted s \<and> cl_writes s = []"

subsection \<open>Packets, timers and polling\<close>

definition kc_emit_session_close :: "'q quiche_api \<Rightarrow> conn_handle \<Rightarrow> 'q quic_client \<Rightarrow> js_event list \<Rightarrow> 'q quic_client \<times> js_event list" where
  "kc_emit_session_close Q h s batch = cl_emit_session_close (quic_session_close_event Q) h s batch"

definition kc_ticket :: "'q quiche_api \<Rightarrow> conn_handle \<Rightarrow> 'q quic_connection \<Rightarrow> js_event list \<Rightarrow> 'q quic_connection \<times> js_event list" where
  "kc_ticket Q h c batch =
     (case quic_update_session_ticket Q c of
        (None, c') \<Rightarrow> (c', batch) | (Some t, c') \<Rightarrow> (c', batch @ [ev_session_ticket h t]))"

definition kc_process_packet_for_handle ::
  "'q quiche_api \<Rightarrow> instant \<Rightarrow> nat \<Rightarrow> byte list \<Rightarrow> conn_handle \<Rightarrow> 'q quic_client \<Rightarrow> js_event list \<Rightarrow> 'q quic_client \<times> js_event list" where
  "kc_process_packet_for_handle Q now budget buf h s batch =
     (case quic_recv Q (cl_conn s) buf of
        (Inl _, c1) \<Rightarrow> (s\<lparr>cl_conn := c1\<rparr>, batch)
      | (Inr _, c1) \<Rightarrow>
          let c2 = (if q_is_established Q (qc_quiche c1) \<and> \<not> qc_is_established c1 then quic_mark_established now c1 else c1);
              complete = (q_is_established Q (qc_quiche c2) \<and> \<not> qc_handshake_complete_emitted c2);
              c3 = (if complete then c2\<lparr>qc_handshake_complete_emitted := True\<rparr> else c2);
              b1 = (if complete then batch @ [ev_handshake_complete h] else batch)
          in (case qs_poll_connection Q now h budget c3 b1 of (c4, b2) \<Rightarrow>
                (case kc_ticket Q h c4 b2 of (c5, b3) \<Rightarrow>
                   let s1 = kc_refresh_timeout_deadline Q now (s\<lparr>cl_conn := c5\<rparr>) in
                   if q_is_closed Q (qc_quiche c5) \<and> \<not> cl_closed_emitted s1
                   then kc_emit_session_close Q h s1 b3 else (s1, b3))))"

definition kc_process_timers_for_handle ::
  "'q quiche_api \<Rightarrow> instant \<Rightarrow> nat \<Rightarrow> conn_handle \<Rightarrow> 'q quic_client \<Rightarrow> js_event list \<Rightarrow> 'q quic_client \<times> js_event list" where
  "kc_process_timers_for_handle Q now budget h s batch =
     (if case cl_deadline s of None \<Rightarrow> False | Some d \<Rightarrow> d \<le> now then
        let c1 = (cl_conn s)\<lparr>qc_quiche := q_on_timeout Q (qc_quiche (cl_conn s))\<rparr>;
            s1 = s\<lparr>cl_conn := c1\<rparr>
        in if q_is_closed Q (qc_quiche c1) \<and> \<not> cl_closed_emitted s1 then kc_emit_session_close Q h s1 batch
           else (case qs_poll_connection Q now h budget c1 batch of (c2, b1) \<Rightarrow>
                   (case (if 0 < budget then sweep_finished_streams Q h budget c2 b1 else (c2, b1)) of (c3, b2) \<Rightarrow>
                      (case kc_ticket Q h c3 b2 of (c4, b3) \<Rightarrow>
                         (kc_refresh_timeout_deadline Q now (s1\<lparr>cl_conn := c4\<rparr>), b3))))
      else (s, batch))"

definition kc_poll_app_events_for_handle ::
  "'q quiche_api \<Rightarrow> instant \<Rightarrow> nat \<Rightarrow> conn_handle \<Rightarrow> 'q quic_client \<Rightarrow> js_event list \<Rightarrow> 'q quic_client \<times> js_event list" where
  "kc_poll_app_events_for_handle Q now budget h s batch =
     (if budget = 0 then (s, batch)
      else case qs_poll_connection Q now h budget (cl_conn s) batch of (c1, b1) \<Rightarrow>
        (case kc_ticket Q h c1 b1 of (c2, b2) \<Rightarrow> (s\<lparr>cl_conn := c2\<rparr>, b2)))"

definition kc_poll_drain_events_for_handle ::
  "'q quiche_api \<Rightarrow> nat \<Rightarrow> conn_handle \<Rightarrow> 'q quic_client \<Rightarrow> js_event list \<Rightarrow> 'q quic_client \<times> js_event list" where
  "kc_poll_drain_events_for_handle Q budget h s batch =
     (case (if 0 < budget then sweep_finished_streams Q h budget (cl_conn s) batch else (cl_conn s, batch)) of (c1, b1) \<Rightarrow>
        (case (if blocked_set (qc_blocked c1) \<noteq> [] then quic_poll_drain_events Q h c1 b1 else (c1, b1)) of (c2, b2) \<Rightarrow>
           (s\<lparr>cl_conn := c2\<rparr>, b2)))"

subsection \<open>Sending\<close>

definition kc_next_packet :: "'q quiche_api \<Rightarrow> 'q quic_connection \<Rightarrow> tx_datagram option \<times> 'q quic_connection" where
  "kc_next_packet Q c =
     (case quic_send Q (drain_outbound_datagrams Q c) TX_BUFFER_LEN of
        (Inl _, c') \<Rightarrow> (None, c')
      | (Inr (pkt, to), c') \<Rightarrow>
          (Some \<lparr>tx_data = pkt, tx_payload_len = length pkt, tx_to = to,
                 tx_max_segment_size = mtu_of (q_max_udp Q (qc_quiche c'))\<rparr>, c'))"

definition kc_try_send_next :: "'q quiche_api \<Rightarrow> instant \<Rightarrow> 'q quic_client \<Rightarrow> tx_datagram option \<times> 'q quic_client" where
  "kc_try_send_next Q now s = cl_try_send_next (kc_next_packet Q) (kc_timeout Q) now s"

definition kc_flush_sends ::
  "'q quiche_api \<Rightarrow> instant \<Rightarrow> nat \<Rightarrow> 'q quic_client \<Rightarrow> tx_datagram list \<Rightarrow> ('q quic_client \<times> tx_datagram list) option" where
  "kc_flush_sends Q now fuel s out = cl_flush_sends (kc_next_packet Q) (kc_timeout Q) now fuel s out"

definition kc_flush_pending_writes_for_handle ::
  "'q quiche_api \<Rightarrow> conn_handle \<Rightarrow> 'q quic_client \<Rightarrow> js_event list \<Rightarrow> 'q quic_client \<times> js_event list" where
  "kc_flush_pending_writes_for_handle Q h s batch =
     cl_flush_pending_writes (flush_quic_client_pending_writes Q (cl_conn s) (cl_writes s)) h s batch"

subsection \<open>Commands\<close>

datatype quic_client_command =
    KOpenStream
  | KStreamSend stream_id chunk bool
  | KStreamClose stream_id "32 word"
  | KSendDatagram chunk
  | KGetSessionMetrics
  | KPing
  | KGetQlogPath
  | KClose "32 word" string
  | KShutdown

fun quic_client_command_outbound_bytes :: "quic_client_command \<Rightarrow> nat" where
  "quic_client_command_outbound_bytes (KStreamSend sid ch fin) = outbound_payload_units (chunk_remaining_len ch) fin"
| "quic_client_command_outbound_bytes (KSendDatagram d) = chunk_remaining_len d"
| "quic_client_command_outbound_bytes _ = 0"

fun kc_dispatch_command ::
  "'q quic_client_lib \<Rightarrow> instant \<Rightarrow> quic_client_command \<Rightarrow> 'q quic_client \<Rightarrow> js_event list
     \<Rightarrow> bool \<times> client_reply \<times> 'q quic_client \<times> js_event list" where
  "kc_dispatch_command L now KShutdown s batch = (True, CNoReply, cl_shutdown s, batch)"
| "kc_dispatch_command L now (KClose code reason) s batch =
     (False, CNoReply, kc_close_session (kl_quiche L) code reason s, batch)"
| "kc_dispatch_command L now KOpenStream s batch =
     (case kc_open_bidi_stream (kl_quiche L) s of (r, s') \<Rightarrow> (False, COpened r, s', batch))"
| "kc_dispatch_command L now (KStreamSend sid ch fin) s batch =
     (case kc_queue_stream_send L 0 sid ch fin s batch of (released, s', b') \<Rightarrow> (False, CNoReply, cl_release released s' b'))"
| "kc_dispatch_command L now (KStreamClose sid code) s batch =
     (case kc_close_stream (kl_quiche L) sid code s of (released, s') \<Rightarrow> (False, CNoReply, cl_release released s' batch))"
| "kc_dispatch_command L now (KSendDatagram d) s batch =
     (case kc_send_datagram (kl_quiche L) d s of (ok, s') \<Rightarrow>
        (False, CBool ok, cl_release (chunk_remaining_len d) s' batch))"
| "kc_dispatch_command L now KGetSessionMetrics s batch =
     (False, CMetrics (Some (snapshot_quic_metrics (kl_lib L) (cl_conn s))), s, batch)"
| "kc_dispatch_command L now KPing s batch =
     (case kc_ping (kl_quiche L) now s of (ok, s') \<Rightarrow> (False, CBool ok, s', batch))"
| "kc_dispatch_command L now KGetQlogPath s batch = (False, CPath (ql_qlog_path (kl_lib L) (cl_conn s)), s, batch)"

end
