(* ===== verification/Client_Closes.thy ===== *)
theory Client_Closes
  imports H3_Client Quic_Client H3_Server_Types
begin

text \<open>
  Polling a connection, HTTP/3 or QUIC, never reports the closing of the session: the number of such
  events in the batch stays as it is. The event is left to the handler that owns the connection.
\<close>

definition is_close :: "js_event \<Rightarrow> bool" where
  "is_close e \<longleftrightarrow> event_type e = EVENT_SESSION_CLOSE"

definition closes :: "js_event list \<Rightarrow> nat" where
  "closes ev = length (filter is_close ev)"

lemma closes_basic [simp]: "closes [] = 0" "closes (e # ev) = (if is_close e then Suc (closes ev) else closes ev)"
  "closes (ev @ ev') = closes ev + closes ev'"
  by (simp_all add: closes_def)

lemma close_events [simp]:
  "\<not> is_close (ev_new_stream h sid)" "\<not> is_close (ev_new_stream_with_data h sid d f)" "\<not> is_close (ev_data_event h sid d f)"
  "\<not> is_close (ev_headers_event h sid hs f)" "\<not> is_close (ev_finished h sid)" "\<not> is_close (ev_reset h sid n)" "\<not> is_close (ev_drain h sid)"
  "\<not> is_close (ev_stream_blocked h sid)" "\<not> is_close (ev_write_ready h)" "\<not> is_close (ev_goaway h sid)" "\<not> is_close (ev_error h i k t)"
  "\<not> is_close (ev_handshake_complete h)" "\<not> is_close (ev_session_ticket h tk)" "\<not> is_close (ev_datagram h d)" "\<not> is_close (ev_ping_ack h n)"
  "is_close (ev_session_close h)" "is_close (close_event Q q h)"
  by (auto simp: is_close_def close_event_def event_defs event_types split: option.splits)

lemma closes_map [simp]: "(\<And>x. \<not> is_close (f x)) \<Longrightarrow> closes (map f xs) = 0"
  by (induction xs) simp_all

lemma closes_suppress [simp]: "closes (suppress_pending_drains h p ev) = closes ev"
  by (induction ev) (auto simp: suppress_pending_drains_def is_close_def event_types)

subsection \<open>QUIC\<close>

lemma closes_recv_loop: "recv_loop Q h sid n c ev = (c', n', ev') \<Longrightarrow> closes ev' = closes ev"
proof (induction n arbitrary: c ev)
  case (Suc n)
  obtain r q1 where r: "q_stream_recv Q (qc_quiche c) sid RECV_CHUNK = (r, q1)" by fastforce
  show ?case
  proof (cases r)
    case (Inr x)
    with Suc.prems r show ?thesis by (auto simp: Let_def dest: Suc.IH split: prod.splits if_splits)
  qed (use Suc.prems r in \<open>auto simp: Let_def split: quiche_error.splits if_splits\<close>)
qed simp

lemma closes_poll_stream: "poll_stream Q h sid n c ev = (c', n', ev') \<Longrightarrow> closes ev' = closes ev"
  by (auto simp: poll_stream_def poll_new_stream_def Let_def dest!: closes_recv_loop
      split: prod.splits sum.splits quiche_error.splits if_splits)

lemma closes_poll_readable: "poll_readable Q h sids n c ev = (c', n', ev') \<Longrightarrow> closes ev' = closes ev"
  by (induction sids arbitrary: n c ev) (auto dest!: closes_poll_stream split: prod.splits if_splits)

lemma closes_datagrams: "poll_datagram_events Q h n q ev = (q', ev') \<Longrightarrow> closes ev' = closes ev"
  by (induction n arbitrary: q ev) (fastforce split: prod.splits sum.splits)+

lemma closes_probe: "probe_blocked Q h n q b ev = (q', b', ev') \<Longrightarrow> closes ev' = closes ev"
  by (induction n arbitrary: q b ev) (fastforce split: list.splits prod.splits sum.splits if_splits)+

lemma closes_quic_drain: "quic_poll_drain_events Q h c ev = (c', ev') \<Longrightarrow> closes ev' = closes ev"
  by (auto simp: quic_poll_drain_events_def dest!: closes_probe split: prod.splits)

lemma closes_quic_poll: "poll_quic_events Q h n c ev = (c', ev') \<Longrightarrow> closes ev' = closes ev"
  by (auto simp: poll_quic_events_def dest!: closes_quic_drain closes_poll_readable closes_datagrams split: prod.splits if_splits)

lemma closes_qs_poll: "qs_poll_connection Q now h n c ev = (c', ev') \<Longrightarrow> closes ev' = closes ev"
  by (auto simp: qs_poll_connection_def dest!: closes_quic_poll split: prod.splits)

lemma closes_sweep_streams: "sweep_streams Q h sids c ev = (c', ev') \<Longrightarrow> closes ev' = closes ev"
  by (induction sids arbitrary: c ev) (fastforce simp: Let_def split: if_splits)+

lemma closes_sweep: "sweep_finished_streams Q h n c ev = (c', ev') \<Longrightarrow> closes ev' = closes ev"
  by (auto simp: sweep_finished_streams_def dest!: closes_sweep_streams split: if_splits)

subsection \<open>HTTP/3\<close>

fun st_closes :: "('h, 'q) poll_state \<Rightarrow> nat" where
  "st_closes (h3, c, n, ev) = closes ev"

lemma closes_coalesce: "\<not> is_close e \<Longrightarrow> closes (snd (push_or_coalesce e ev)) = closes ev"
proof (cases "ev = []")
  case False
  assume e: "\<not> is_close e"
  from False obtain ev0 l where ev: "ev = ev0 @ [l]" by (metis append_butlast_last_id)
  show ?thesis
  proof (cases "try_coalesce_following_data l e")
    case (Some l')
    with coalesce_SomeD [OF Some] have "is_close l' = is_close l" by (simp add: is_close_def)
    with Some ev show ?thesis by (simp add: push_or_coalesce_def)
  qed (use ev e in \<open>simp add: push_or_coalesce_def\<close>)
qed (simp add: push_or_coalesce_def)

lemma st_closes_push [simp]:
  "st_closes (push_pending h sid st) = st_closes st" "\<not> is_close e \<Longrightarrow> st_closes (push_event e st) = st_closes st"
  "st_closes (on_headers H h sid hs m st) = st_closes st" "st_closes (on_finished h sid st) = st_closes st"
  "st_closes (on_reset h sid code st) = st_closes st"
proof -
  have push: "st_closes (push_pending h sid st) = st_closes st" for st :: "('a, 'b) poll_state"
  proof -
    obtain h3 c n ev where st: "st = (h3, c, n, ev)" by (metis prod_cases4)
    obtain x c1 where t: "take_pending_body_event h sid c = (x, c1)" by fastforce
    show ?thesis
    proof (cases x)
      case (Some e)
      with t have "\<not> is_close e" by (auto simp: take_pending_body_event_def Let_def split: option.splits if_splits)
      moreover obtain b ev1 where "push_or_coalesce e ev = (b, ev1)" by fastforce
      ultimately show ?thesis
        using closes_coalesce [of e ev] Some t st by (simp add: push_pending_def push_pending_body_event_def)
    qed (use t st in \<open>simp add: push_pending_def push_pending_body_event_def\<close>)
  qed
  have ev: "\<not> is_close e \<Longrightarrow> st_closes (push_event e st) = st_closes st" for e and st :: "('a, 'b) poll_state"
    by (cases st) simp
  have hd: "st_closes (h3, c, n, ev) = closes ev" for h3 :: 'a and c :: "('a, 'b) h3_connection" and n ev by simp
  show "st_closes (push_pending h sid st) = st_closes st" by (rule push)
  show "\<not> is_close e \<Longrightarrow> st_closes (push_event e st) = st_closes st" by (rule ev)
  show "st_closes (on_headers H h sid hs m st) = st_closes st"
  proof -
    obtain h3 c n ev where p: "push_pending h sid st = (h3, c, n, ev)" by (metis prod_cases4)
    with push [of st] show ?thesis by (simp add: on_headers_def Let_def)
  qed
  show "st_closes (on_finished h sid st) = st_closes st"
    by (cases st) (simp add: on_finished_def ev push)
  show "st_closes (on_reset h sid code st) = st_closes st"
    by (simp add: on_reset_def ev push)
qed

lemma closes_data: "h3_data_loop H h sid fuel st = Some st' \<Longrightarrow> st_closes st' = st_closes st"
proof (induction fuel arbitrary: st)
  case (Suc fuel)
  obtain h3 c n ev where st: "st = (h3, c, n, ev)" by (metis prod_cases4)
  show ?case
  proof (cases "n = 0 \<or> credit_of c sid = 0")
    case True
    with Suc.prems st show ?thesis by auto
  next
    case False
    obtain r h1 pb c1 where f: "fill_body H sid h3 (pending_or_new sid (credit_of c sid) c) c = (r, h1, pb, c1)"
      by (metis prod_cases4)
    define st2 where "st2 = (if pb_is_full pb \<or> r = FillDrained then push_pending h sid (h1, store_pending sid pb c1, n, ev)
      else (h1, store_pending sid pb c1, n, ev))"
    have w: "st_closes st2 = closes ev" by (simp add: st2_def)
    obtain h4 c4 n4 ev4 where p: "push_pending h sid st2 = (h4, c4, n4, ev4)" by (metis prod_cases4)
    have w4: "closes ev4 = closes ev" using st_closes_push(1) [of h sid st2] p w by simp
    have eq: "h3_data_loop H h sid (Suc fuel) st = (case r of
        FillError msg \<Rightarrow> Some (if 0 < n4 then push_event (ev_error h (as_i64 sid) 0 msg) (h4, c4, n4, ev4) else (h4, c4, n4, ev4))
      | FillDrained \<Rightarrow> Some st2
      | FillStopped \<Rightarrow> if pb_is_full pb then h3_data_loop H h sid fuel st2 else Some st2)"
      by (simp only: st h3_data_loop.simps f prod.case Let_def st2_def [symmetric] p False if_False)
    show ?thesis
    proof (cases r)
      case FillStopped
      with Suc.prems eq Suc.IH [of st2] w st show ?thesis by (auto split: if_splits)
    qed (use Suc.prems eq w w4 st in \<open>auto split: if_splits\<close>)
  qed
qed simp

lemma closes_poll_loop: "h3_poll_loop H h dfuel fuel st rs cs = Some (st', rs', cs') \<Longrightarrow> st_closes st' = st_closes st"
proof (induction fuel arbitrary: st rs cs)
  case (Suc fuel)
  obtain h3 c n ev where st: "st = (h3, c, n, ev)" by (metis prod_cases4)
  show ?case
  proof (cases "n = 0")
    case False
    obtain x h1 c1 where x: "next_h3_event H h3 c = (x, h1, c1)" by (cases "next_h3_event H h3 c")
    show ?thesis
    proof (cases x)
      case (Inl e)
      with Suc.prems st False x show ?thesis by (auto split: if_splits)
    next
      case (Inr y)
      obtain sid e where y: "y = (sid, e)" by (cases y)
      show ?thesis
      proof (cases e)
        case H3Data
        with Suc.prems st False x Inr y obtain st1 where d: "h3_data_loop H h sid dfuel (h1, c1, n, ev) = Some st1"
          and r: "h3_poll_loop H h dfuel fuel st1 rs cs = Some (st', rs', cs')" by (auto split: option.splits)
        from closes_data [OF d] Suc.IH [OF r] st show ?thesis by simp
      qed (use Suc.prems st False x Inr y in \<open>auto simp del: push_event.simps dest!: Suc.IH\<close>)
    qed
  qed (use Suc.prems st in auto)
qed simp

lemma closes_writable: "writable_loop Q h fuel c ev = Some (c', ev') \<Longrightarrow> closes ev' = closes ev"
proof (induction fuel arbitrary: c ev)
  case (Suc fuel)
  then show ?case
    by (auto simp: Let_def split: option.splits prod.splits sum.splits quiche_error.splits if_splits dest!: Suc.IH)
qed simp

lemma closes_h3_drain: "h3_poll_drain_events Q h fuel c ev = Some (c', ev') \<Longrightarrow> closes ev' = closes ev"
  by (auto simp: h3_poll_drain_events_def split: option.splits prod.splits dest!: closes_writable closes_probe)

lemma closes_h3_poll:
  assumes "poll_h3_events H Q h fuel budget c ev = Some (c', ev')"
  shows "closes ev' = closes ev"
proof -
  obtain c1 n ev1 rs cs where
    p: "(case hc_h3 c of
              None \<Rightarrow> Some (c, budget, ev, [], [])
            | Some h3 \<Rightarrow>
                if budget = 0 then Some (c, budget, ev, [], [])
                else map_option (\<lambda>((h3', c', n, ev'), rs, cs). (c'\<lparr>hc_h3 := Some h3'\<rparr>, n, ev', rs, cs))
                       (h3_poll_loop H h (budget + 2) fuel (h3, c, budget, ev) [] [])) = Some (c1, n, ev1, rs, cs)"
    and rest: "(let c2 = foldl (\<lambda>c sid. clear_stream_tracking sid c) c1 rs;
              c3 = foldl (\<lambda>c sid. clear_stream_tracking_if_closed Q sid c) c2 cs
          in (case poll_datagram_events Q h n (hc_quiche c3) ev1 of
                (q4, ev4) \<Rightarrow> h3_poll_drain_events Q h fuel (c3\<lparr>hc_quiche := q4\<rparr>) ev4)) = Some (c', ev')"
    using assms by (auto simp: poll_h3_events_def split: option.splits)
  have "closes ev1 = closes ev" using p by (auto split: option.splits if_splits dest!: closes_poll_loop)
  moreover have "closes ev' = closes ev1" using rest
    by (auto simp: Let_def split: prod.splits dest!: closes_h3_drain closes_datagrams)
  ultimately show ?thesis by simp
qed

end
