(* ===== verification/Client_Runs.thy ===== *)
theory Client_Runs
  imports Client_Closes Quic_Server_Props
begin

text \<open>
  Runs of the two clients: what every operation keeps of the handler's well-formedness, of the units of
  its admission window, and of the promise to report the closing of the session at most once. The
  operations the two clients share are treated once, under the contract their connections meet.
\<close>

subsection \<open>The shared operations\<close>

definition cl_typed :: "('c \<Rightarrow> bool) \<Rightarrow> ('c, 'z) client_core_scheme \<Rightarrow> bool" where
  "cl_typed ok s \<longleftrightarrow> ok (cl_conn s) \<and> writes_typed (cl_writes s)"

definition cl_held :: "('c, 'z) client_core_scheme \<Rightarrow> nat" where
  "cl_held s = hm_sum queued_units (cl_writes s)"

text \<open>A step with its batches: units settle, and a closing is reported only where the flag is raised.\<close>

definition cl_settles ::
  "('c \<Rightarrow> bool) \<Rightarrow> nat \<Rightarrow> nat \<Rightarrow> ('c, 'z) client_core_scheme \<times> js_event list \<Rightarrow> ('c, 'z) client_core_scheme \<times> js_event list \<Rightarrow> bool" where
  "cl_settles ok u leak sb sb' \<longleftrightarrow> (case (sb, sb') of ((s, b), (s', b')) \<Rightarrow>
     (cl_typed ok s \<longrightarrow> cl_typed ok s'
        \<and> balanced u leak (queued (cl_admission s)) (cl_held s) (queued (cl_admission s')) (cl_held s'))
   \<and> closes b' + of_bool (cl_closed_emitted s) \<le> closes b + of_bool (cl_closed_emitted s'))"

lemma cl_settles_then:
  "cl_settles ok u l sb sb1 \<Longrightarrow> cl_settles ok v k sb1 sb2 \<Longrightarrow> cl_settles ok (u + v) (l + k) sb sb2"
  using balanced_then by (fastforce simp: cl_settles_def split: prod.splits)

lemma cl_settles_trans: "cl_settles ok 0 0 sb sb1 \<Longrightarrow> cl_settles ok u l sb1 sb2 \<Longrightarrow> cl_settles ok u l sb sb2"
  using cl_settles_then [of ok 0 0 sb sb1 u l sb2] by simp

lemma cl_settles_conn:
  assumes "cl_typed ok s \<Longrightarrow> ok c" "closes b' = closes b"
  shows "cl_settles ok 0 0 (s, b) (s\<lparr>cl_conn := c\<rparr>, b')"
  using assms by (auto simp: cl_settles_def cl_typed_def cl_held_def balanced_def)

lemma cl_settles_refl: "closes b' = closes b \<Longrightarrow> cl_settles ok 0 0 (s, b) (s, b')"
  by (simp add: cl_settles_def balanced_def)

lemma cl_settles_deadline: "cl_settles ok 0 0 (s, b) (cl_refresh_deadline f now s, b)"
  by (simp add: cl_settles_def cl_refresh_deadline_def cl_typed_def cl_held_def balanced_def)

lemma cl_release_spec:
  assumes "cl_release n s b = (s1, b1)"
  shows "s1 = s\<lparr>cl_admission := cl_admission s1\<rparr>" "queued (cl_admission s1) = queued (cl_admission s) - n" "closes b1 = closes b"
proof -
  obtain r adm where rel: "Admission.release (cl_admission s) n = (r, adm)" by fastforce
  with assms show "s1 = s\<lparr>cl_admission := cl_admission s1\<rparr>" "closes b1 = closes b"
    by (auto simp: cl_release_def split: if_splits)
  show "queued (cl_admission s1) = queued (cl_admission s) - n"
    using assms rel release_leaves [OF rel] by (auto simp: cl_release_def)
qed

lemma cl_release_frame [simp]:
  assumes "cl_release n s b = (s1, b1)"
  shows "cl_typed ok s1 = cl_typed ok s" "cl_held s1 = cl_held s" "cl_closed_emitted s1 = cl_closed_emitted s" "cl_conn s1 = cl_conn s"
    "cl_writes s1 = cl_writes s"
  using cl_release_spec(1) [OF assms] by (auto simp: cl_typed_def cl_held_def elim!: ssubst)

lemma cl_settles_release:
  assumes "cl_release u s b = (s1, b1)"
  shows "cl_settles ok u 0 (s, b) (s1, b1)"
  using cl_release_spec(2,3) [OF assms] cl_release_frame [OF assms] by (simp add: cl_settles_def balanced_def)

text \<open>A release after entries worth as many units left the table.\<close>

lemma cl_settles_drop:
  assumes rel: "cl_release u s1 b1 = (s2, b2)" and adm: "cl_admission s1 = cl_admission s"
    and "cl_closed_emitted s1 = cl_closed_emitted s" "closes b1 = closes b"
    and "cl_typed ok s \<Longrightarrow> cl_typed ok s1 \<and> cl_held s1 + u = cl_held s"
  shows "cl_settles ok 0 0 (s, b) (s2, b2)"
  using assms(3-5) adm cl_release_spec(2,3) [OF rel] cl_release_frame [OF rel] by (auto simp: cl_settles_def balanced_def)

lemma cl_settles_write:
  assumes "cl_typed ok s \<Longrightarrow> pw_inv pw" and "queued_units pw + leak = units_at queued_units (cl_writes s) k + u"
  shows "cl_settles ok u leak (s, b) (s\<lparr>cl_writes := hm_insert k pw (cl_writes s)\<rparr>, b)"
  using assms units_insert [OF writes_typed_wf, of "cl_writes s" queued_units k pw]
  by (auto simp: cl_settles_def cl_typed_def balanced_def cl_held_def writes_typed_insert)

lemma cl_settles_emit:
  assumes "cl_emit_session_close close_ev h s b = (s', b')"
  shows "cl_settles ok 0 0 (s, b) (s', b')"
proof (cases "cl_closed_emitted s")
  case False
  define b1 where "b1 = b @ map (\<lambda>(sid, _). ev_reset h sid 0) (cl_writes s)"
  obtain s1 b2 where rel: "cl_release (hm_sum queued_units (cl_writes s)) (s\<lparr>cl_writes := []\<rparr>) b1 = (s1, b2)" by fastforce
  have eq: "s' = s1\<lparr>cl_closed_emitted := True\<rparr>" "b' = b2 @ [close_ev (cl_conn s1) h]"
    using assms False rel by (simp_all add: cl_emit_session_close_def b1_def)
  have c: "closes b1 = closes b" by (simp add: b1_def case_prod_unfold)
  have S: "cl_settles ok 0 0 (s, b) (s1, b2)"
    by (rule cl_settles_drop [OF rel _ _ c]) (simp_all add: cl_typed_def cl_held_def writes_typed_def)
  have k: "cl_typed ok s' = cl_typed ok s1" "cl_held s' = cl_held s1" "cl_admission s' = cl_admission s1"
    by (simp_all add: eq cl_typed_def cl_held_def)
  have "\<not> cl_closed_emitted s1" using cl_release_frame(3) [OF rel] False by simp
  with S False show ?thesis unfolding cl_settles_def using k by (auto simp: eq)
qed (use assms in \<open>simp add: cl_emit_session_close_def cl_settles_refl\<close>)

lemma cl_settles_shutdown: "cl_settles ok 0 0 (s, b) (cl_shutdown s, b)"
  by (simp add: cl_settles_def cl_shutdown_def cl_typed_def cl_held_def balanced_def)

lemma cl_settles_all_active:
  "cl_emit_session_close_for_all_active s b = (s', b') \<Longrightarrow> cl_settles ok 0 0 (s, b) (s', b')"
  by (auto simp: cl_settles_def cl_emit_session_close_for_all_active_def cl_typed_def cl_held_def balanced_def split: if_splits)

definition cl_leak :: "stream_id \<Rightarrow> chunk \<Rightarrow> bool \<Rightarrow> ('c, 'z) client_core_scheme \<Rightarrow> nat" where
  "cl_leak sid ch fin s =
     (case hm_get (cl_writes s) sid of
        Some pw \<Rightarrow> queued_units pw + outbound_payload_units (chunk_remaining_len ch) fin - queued_units (push_and_fin pw ch fin)
      | None \<Rightarrow> 0)"

text \<open>What a client relies on: the connection's sends, closes and sweeps account for every unit.\<close>

locale client_connection =
  fixes ok :: "'c \<Rightarrow> bool"
    and send :: "stream_id \<Rightarrow> 'c \<Rightarrow> chunk \<Rightarrow> bool \<Rightarrow> (native_error + send_outcome) \<times> 'c"
    and close :: "stream_id \<Rightarrow> nat \<Rightarrow> 'c \<Rightarrow> 'c"
    and flush :: "'c \<Rightarrow> (stream_id, pending_write) hashmap \<Rightarrow> stream_id flush_events \<times> (stream_id, pending_write) hashmap \<times> 'c"
    and packet :: "'c \<Rightarrow> tx_datagram option \<times> 'c"
  assumes send_inv: "ok c \<Longrightarrow> send sid c ch fin = (r, c') \<Longrightarrow> ok c'"
    and send_done: "ok c \<Longrightarrow> chunk_inv ch \<Longrightarrow> send sid c ch fin = (Inr out, c') \<Longrightarrow> so_remainder out = None \<Longrightarrow>
      accepted_outbound_payload_units (chunk_remaining_len ch) fin (so_written out) (so_fin_accepted out)
        = outbound_payload_units (chunk_remaining_len ch) fin"
    and send_rest: "ok c \<Longrightarrow> chunk_inv ch \<Longrightarrow> send sid c ch fin = (Inr out, c') \<Longrightarrow> so_remainder out = Some buf \<Longrightarrow>
      arc_inv buf \<and> accepted_outbound_payload_units (chunk_remaining_len ch) fin (so_written out) (so_fin_accepted out)
          + queued_units (pending_write_new buf fin) = outbound_payload_units (chunk_remaining_len ch) fin"
    and close_inv: "ok c \<Longrightarrow> ok (close sid code c)"
    and flush_units: "ok c \<Longrightarrow> writes_typed ws \<Longrightarrow> flush c ws = (fe, kept, c') \<Longrightarrow>
      ok c' \<and> writes_typed kept \<and> hm_sum queued_units kept + fe_released_units fe = hm_sum queued_units ws"
    and packet_inv: "ok c \<Longrightarrow> packet c = (p, c') \<Longrightarrow> ok c'"
begin

lemma queue_settles:
  assumes ch: "chunk_inv ch" and q: "cl_queue_stream_send (\<lambda>c. send sid c ch fin) text h sid ch fin s b = (released, s1, b1)"
    and rel: "cl_release released s1 b1 = (s2, b2)" and t: "cl_typed ok s"
  shows "cl_settles ok (outbound_payload_units (chunk_remaining_len ch) fin) (cl_leak sid ch fin s) (s, b) (s2, b2)"
proof (cases "hm_get (cl_writes s) sid")
  case (Some pw)
  let ?s = "s\<lparr>cl_writes := hm_insert sid (push_and_fin pw ch fin) (cl_writes s)\<rparr>"
  have eq: "released = 0" "s1 = ?s" "b1 = b" using q Some by (simp_all add: cl_queue_stream_send_def)
  have ok: "pw_inv (push_and_fin pw ch fin)"
    using t writes_typed_get [OF _ Some] push_and_fin_inv [OF _ ch] by (auto simp: cl_typed_def)
  have "cl_settles ok (outbound_payload_units (chunk_remaining_len ch) fin) (cl_leak sid ch fin s) (s, b) (s1, b1)"
    unfolding eq by (rule cl_settles_write [OF ok]) (use Some push_and_fin_le [of pw ch fin] in \<open>simp add: units_at_def cl_leak_def\<close>)
  from cl_settles_then [OF this cl_settles_release [OF rel]] eq(1) show ?thesis by simp
next
  case none: None
  let ?u = "outbound_payload_units (chunk_remaining_len ch) fin"
  have leak: "cl_leak sid ch fin s = 0" using none by (simp add: cl_leak_def)
  obtain r c' where x: "send sid (cl_conn s) ch fin = (r, c')" by fastforce
  have i: "ok (cl_conn s)" using t by (simp add: cl_typed_def)
  have c: "ok c'" by (rule send_inv [OF i x])
  show ?thesis
  proof (cases r)
    case (Inl e)
    have eq: "released = ?u" "s1 = s\<lparr>cl_conn := c'\<rparr>" "closes b1 = closes b"
      using q none x Inl by (auto simp: cl_queue_stream_send_def)
    have "cl_settles ok 0 0 (s, b) (s1, b1)" unfolding eq(2) by (rule cl_settles_conn) (rule c, rule eq(3))
    from cl_settles_trans [OF this cl_settles_release [OF rel]] eq(1) leak show ?thesis by simp
  next
    case (Inr out)
    show ?thesis
    proof (cases "so_remainder out")
      case n: None
      have eq: "released = ?u" "s1 = s\<lparr>cl_conn := c'\<rparr>" "b1 = b"
        using q none x Inr n send_done [OF i ch x [unfolded Inr] n] by (simp_all add: cl_queue_stream_send_def Let_def)
      have "cl_settles ok 0 0 (s, b) (s1, b1)" unfolding eq(2,3) by (rule cl_settles_conn) (rule c, rule refl)
      from cl_settles_trans [OF this cl_settles_release [OF rel]] eq(1) leak show ?thesis by simp
    next
      case (Some buf)
      note U = send_rest [OF i ch x [unfolded Inr] Some]
      let ?pw = "pending_write_new buf fin" and ?s = "s\<lparr>cl_conn := c'\<rparr>"
      have eq: "released + queued_units ?pw = ?u" "s1 = ?s\<lparr>cl_writes := hm_insert sid ?pw (cl_writes ?s)\<rparr>"
        "b1 = b @ [ev_stream_blocked h sid]"
        using q none x Inr Some U by (auto simp: cl_queue_stream_send_def Let_def insert_pending_write_def)
      have S1: "cl_settles ok 0 0 (s, b) (?s, b1)" by (rule cl_settles_conn) (rule c, simp add: eq(3))
      have "cl_settles ok (queued_units ?pw) 0 (?s, b1) (s1, b1)"
        unfolding eq(2) by (rule cl_settles_write) (use U none in \<open>simp_all add: pw_inv_new units_at_def\<close>)
      from cl_settles_then [OF cl_settles_trans [OF S1 this] cl_settles_release [OF rel]] eq(1) leak
      show ?thesis by (simp add: add.commute)
    qed
  qed
qed

lemma close_settles:
  assumes "cl_close_stream (close sid code) sid s = (released, s1)" "cl_release released s1 b = (s2, b2)"
  shows "cl_settles ok 0 0 (s, b) (s2, b2)"
proof -
  have eq: "released = units_at queued_units (cl_writes s) sid"
    "s1 = s\<lparr>cl_conn := close sid code (cl_conn s), cl_writes := hm_remove sid (cl_writes s)\<rparr>"
    using assms(1) by (auto simp: cl_close_stream_def remove_write_units)
  show ?thesis
  proof (rule cl_settles_drop [OF assms(2)])
    assume t: "cl_typed ok s"
    from units_remove [OF writes_typed_wf, of "cl_writes s" queued_units sid] t
    show "cl_typed ok s1 \<and> cl_held s1 + released = cl_held s"
      by (simp add: eq cl_typed_def cl_held_def close_inv writes_typed_remove)
  qed (simp_all add: eq)
qed

lemma flush_settles:
  assumes "cl_flush_pending_writes (flush (cl_conn s) (cl_writes s)) h s b = (s', b')"
  shows "cl_settles ok 0 0 (s, b) (s', b')"
proof -
  obtain fe kept c' where f: "flush (cl_conn s) (cl_writes s) = (fe, kept, c')" by (cases "flush (cl_conn s) (cl_writes s)")
  obtain s1 b1 where rel: "cl_release (fe_released_units fe) (s\<lparr>cl_conn := c', cl_writes := kept\<rparr>) b = (s1, b1)" by fastforce
  have eq: "s' = s1" "b' = b1 @ map (ev_drain h) (fe_drained fe)" using assms f rel by (simp_all add: cl_flush_pending_writes_def)
  have "cl_settles ok 0 0 (s, b) (s1, b1)"
    by (rule cl_settles_drop [OF rel]) (use flush_units [OF _ _ f] in \<open>auto simp: cl_typed_def cl_held_def\<close>)
  from cl_settles_trans [OF this cl_settles_refl [of b' b1]] eq show ?thesis by simp
qed

lemma try_send_settles:
  assumes "cl_try_send_next packet timeout now s = (p, s')"
  shows "cl_settles ok 0 0 (s, b) (s', b)"
proof -
  obtain p1 c' where c: "packet (cl_conn s) = (p1, c')" by fastforce
  have "cl_settles ok 0 0 (s, b) (s\<lparr>cl_conn := c'\<rparr>, b)"
    by (rule cl_settles_conn) (use packet_inv [OF _ c] in \<open>simp_all add: cl_typed_def\<close>)
  from this cl_settles_trans [OF this cl_settles_deadline [of ok _ b timeout now]] assms c show ?thesis
    by (auto simp: cl_try_send_next_def split: option.splits)
qed

lemma send_loop_settles:
  "cl_send_loop packet timeout now fuel s out = Some (s', out') \<Longrightarrow> cl_settles ok 0 0 (s, b) (s', b)"
proof (induction fuel arbitrary: s out)
  case (Suc fuel)
  obtain p s1 where t: "cl_try_send_next packet timeout now s = (p, s1)" by fastforce
  from Suc.prems t Suc.IH [of s1] cl_settles_trans [OF try_send_settles [OF t, of b], of 0 0 "(s', b)"] try_send_settles [OF t, of b]
  show ?case by (auto split: option.splits)
qed simp

lemma sends_settle:
  assumes "cl_flush_sends packet timeout now fuel s out = Some (s', out')"
  shows "cl_settles ok 0 0 (s, b) (s', b)"
proof -
  obtain s1 where l: "cl_send_loop packet timeout now fuel s out = Some (s1, out')" "s' = cl_refresh_deadline timeout now s1"
    using assms by (auto simp: cl_flush_sends_def split: option.splits)
  from cl_settles_trans [OF send_loop_settles [OF l(1)] cl_settles_deadline] l(2) show ?thesis by simp
qed

end

end
