(* ===== verification/Client_Props.thy ===== *)
theory Client_Props
  imports Client_Runs
begin

text \<open>
  The contract of \<^verbatim>\<open>Client_Runs\<close> on the QUIC and the HTTP/3 connection, the contract of
  \<^verbatim>\<open>Worker_System\<close> on the two clients, and the properties of their runs.
\<close>

subsection \<open>Batches and what was delivered\<close>

text \<open>A run with its events: steps extend the batch, and the loop hands the batch over at any time.\<close>

inductive client_log ::
  "('s \<Rightarrow> js_event list \<Rightarrow> 's \<Rightarrow> js_event list \<Rightarrow> bool) \<Rightarrow> ('s \<Rightarrow> bool) \<Rightarrow> 's \<Rightarrow> js_event list \<Rightarrow> js_event list \<Rightarrow> bool"
  for stp init where
  start: "init s \<Longrightarrow> client_log stp init s [] []"
| step: "client_log stp init s d b \<Longrightarrow> stp s b s' b' \<Longrightarrow> client_log stp init s' d b'"
| deliver: "client_log stp init s d b \<Longrightarrow> client_log stp init s (d @ b) []"

lemma client_log_once:
  assumes l: "client_log stp init s d b"
    and init: "\<And>s. init s \<Longrightarrow> cl_typed ok s \<and> \<not> cl_closed_emitted s"
    and stp: "\<And>s b s' b'. stp s b s' b' \<Longrightarrow> cl_typed ok s \<Longrightarrow> \<exists>u leak. cl_settles ok u leak (s, b) (s', b') \<and> cl_typed ok s'"
  shows "cl_typed ok s \<and> closes (d @ b) \<le> of_bool (cl_closed_emitted s)"
  using l
proof (induction rule: client_log.induct)
  case (step s d b s' b')
  then obtain u leak where "cl_settles ok u leak (s, b) (s', b')" "cl_typed ok s'" using stp by blast
  then have "cl_typed ok s'" "closes b' + of_bool (cl_closed_emitted s) \<le> closes b + of_bool (cl_closed_emitted s')"
    by (simp_all add: cl_settles_def)
  with step.IH show ?case by (simp del: of_bool_eq_0_iff)
qed (use init in auto)

lemma closes_bound: "closes ev \<le> of_bool p \<Longrightarrow> length (filter (\<lambda>e. event_type e = EVENT_SESSION_CLOSE) ev) \<le> (if p then 1 else 0)"
  by (cases p) (simp_all add: closes_def is_close_def [abs_def])

subsection \<open>The QUIC client\<close>

abbreviation kc_ok :: "'q quic_client_lib \<Rightarrow> 'q quic_connection \<Rightarrow> bool" where
  "kc_ok L c \<equiv> quic_lib_ok (kl_lib L) \<and> quic_inv c"

lemma quic_client_entry_laws:
  assumes "quiche_send_laws Q sent finned"
  shows "entry_laws (\<lambda>sid pw c. entry_of (flush_one_quic_pending_write Q sid c pw)) (\<lambda>c. sent (qc_quiche c)) (\<lambda>c. finned (qc_quiche c))"
  unfolding flush_one_quic_pending_write_def
  by (rule sender_entry_laws [OF quic_stream_sender [OF assms]]) (use quic_send_frame [OF assms] in blast)

lemma quic_client_flush:
  assumes L: "quic_lib_ok (kl_lib L)" and c: "quic_inv c" and ws: "writes_typed ws"
    and f: "flush_quic_client_pending_writes (kl_quiche L) c ws = (fe, kept, c')"
  shows "quic_inv c' \<and> writes_typed kept \<and> hm_sum queued_units kept + fe_released_units fe = hm_sum queued_units ws"
proof -
  from L obtain sent finned where Q: "quiche_send_laws (kl_quiche L) sent finned"
    unfolding quic_lib_ok_def quic_lib_laws_def by blast
  have w: "hm_wf ws" "\<forall>(k, pw) \<in> set ws. pw_inv pw" using ws by (simp_all add: writes_typed_def)
  note U = retain_flush_units [OF quic_client_entry_laws [OF Q] f [unfolded flush_quic_client_pending_writes_def] w(2)]
  have "quic_inv c'"
  proof (rule retain_flush_keeps [where P = quic_inv, OF _ f [unfolded flush_quic_client_pending_writes_def] c])
    fix sid pw m out m'
    assume e: "entry_of (flush_one_quic_pending_write (kl_quiche L) sid m pw) = (out, m')" and m: "quic_inv m"
    obtain x pw1 c1 where x: "flush_one_quic_pending_write (kl_quiche L) sid m pw = (x, pw1, c1)"
      by (cases "flush_one_quic_pending_write (kl_quiche L) sid m pw")
    have "quic_inv c1"
      by (rule flush_progress_keeps [where P = quic_inv, OF _ x [unfolded flush_one_quic_pending_write_def] m])
        (metis quic_inv_stream_send snd_conv)
    with e x show "quic_inv m'" by (auto simp: entry_of_def split: sum.splits if_splits)
  qed
  with U w show ?thesis by (simp add: writes_typed_def)
qed

lemma kc_packet_inv: "quic_inv c \<Longrightarrow> kc_next_packet Q c = (p, c') \<Longrightarrow> quic_inv c'"
  using quic_inv_op(2) [of "drain_outbound_datagrams Q c" Q TX_BUFFER_LEN] quic_inv_op(8) [of c Q]
  by (auto simp: kc_next_packet_def split: prod.splits sum.splits)

interpretation quic_client_conn: client_connection "kc_ok L" "\<lambda>sid c ch fin. stream_send_chunk (kl_quiche L) sid c ch fin"
  "quic_stream_close (kl_quiche L)" "flush_quic_client_pending_writes (kl_quiche L)" "kc_next_packet (kl_quiche L)"
proof (unfold_locales, goal_cases)
  case (1 c sid ch fin r c')
  with quic_inv_stream_send [of c "kl_quiche L" sid "arc_from_chunk ch" fin] show ?case by (simp add: stream_send_chunk_def)
next
  case (2 c ch sid fin out c')
  then obtain sent finned where "quiche_send_laws (kl_quiche L) sent finned" unfolding quic_lib_ok_def quic_lib_laws_def by blast
  from quic_chunk_units(1) [OF this 2(2,3,4)] show ?case .
next
  case (3 c ch sid fin out c' buf)
  then obtain sent finned where "quiche_send_laws (kl_quiche L) sent finned" unfolding quic_lib_ok_def quic_lib_laws_def by blast
  from quic_chunk_units(2) [OF this 3(2,3,4)] show ?case .
next
  case (4 c sid code)
  with quic_inv_op(6) show ?case by blast
next
  case (5 c ws fe kept c')
  with quic_client_flush [of L c ws fe kept c'] show ?case by blast
next
  case (6 c p c')
  with kc_packet_inv show ?case by blast
qed

text \<open>Everything a QUIC client does besides its commands.\<close>

inductive kc_background :: "'q quic_client_lib \<Rightarrow> 'q quic_client \<Rightarrow> js_event list \<Rightarrow> 'q quic_client \<Rightarrow> js_event list \<Rightarrow> bool" for L where
  packet: "kc_process_packet_for_handle (kl_quiche L) now budget buf h s b = (s', b') \<Longrightarrow> kc_background L s b s' b'"
| timers: "kc_process_timers_for_handle (kl_quiche L) now budget h s b = (s', b') \<Longrightarrow> kc_background L s b s' b'"
| events: "kc_poll_app_events_for_handle (kl_quiche L) now budget h s b = (s', b') \<Longrightarrow> kc_background L s b s' b'"
| drains: "kc_poll_drain_events_for_handle (kl_quiche L) budget h s b = (s', b') \<Longrightarrow> kc_background L s b s' b'"
| flush: "kc_flush_pending_writes_for_handle (kl_quiche L) h s b = (s', b') \<Longrightarrow> kc_background L s b s' b'"
| sends: "kc_flush_sends (kl_quiche L) now fuel s out = Some (s', out') \<Longrightarrow> kc_background L s b s' b"
| ids: "kc_take_dcid_updates (kl_quiche L) fuel s = Some (x, s') \<Longrightarrow> kc_background L s b s' b"
| failed: "cl_emit_session_close_for_all_active s b = (s', b') \<Longrightarrow> kc_background L s b s' b'"

lemma kc_ticket_keeps: "kc_ticket Q h c b = (c', b') \<Longrightarrow> quic_inv c \<Longrightarrow> quic_inv c' \<and> closes b' = closes b"
  by (auto simp: kc_ticket_def quic_update_session_ticket_def split: prod.splits option.splits)

lemma kc_poll_keeps:
  "qs_poll_connection Q now h n c b = (c', b') \<Longrightarrow> quic_inv c \<Longrightarrow> quic_inv c' \<and> closes b' = closes b"
  using qs_poll_inv closes_qs_poll by blast

lemma kc_sweep_keeps:
  assumes "(if 0 < n then sweep_finished_streams Q h n c b else (c, b)) = (c', b')" "quic_inv c"
  shows "quic_inv c' \<and> closes b' = closes b"
proof (cases "0 < n")
  case True
  with assms quic_inv_sweep [OF assms(2), of Q h n b] closes_sweep [of Q h n c b c' b'] show ?thesis by simp
qed (use assms in auto)

lemma kc_drain_keeps:
  assumes "(if p then quic_poll_drain_events Q h c b else (c, b)) = (c', b')" "quic_inv c"
  shows "quic_inv c' \<and> closes b' = closes b"
proof (cases p)
  case True
  with assms quic_inv_drain [OF assms(2), of Q h b] closes_quic_drain [of Q h c b c' b'] show ?thesis by simp
qed (use assms in auto)

lemma kc_settles_packet:
  assumes "kc_process_packet_for_handle (kl_quiche L) now budget buf h s b = (s', b')" "cl_typed (kc_ok L) s"
  shows "cl_settles (kc_ok L) 0 0 (s, b) (s', b')"
proof -
  let ?Q = "kl_quiche L"
  have t: "kc_ok L (cl_conn s)" using assms(2) by (simp add: cl_typed_def)
  obtain r c1 where r: "quic_recv ?Q (cl_conn s) buf = (r, c1)" by fastforce
  have c1: "quic_inv c1" using quic_inv_op(1) [of "cl_conn s" ?Q buf] t r by simp
  show ?thesis
  proof (cases r)
    case (Inl e)
    then have "s' = s\<lparr>cl_conn := c1\<rparr>" "b' = b" using assms(1) r by (simp_all add: kc_process_packet_for_handle_def)
    then show ?thesis using cl_settles_conn [of "kc_ok L" s c1 b b] c1 t by simp
  next
    case (Inr n)
    define c2 where "c2 = (if q_is_established ?Q (qc_quiche c1) \<and> \<not> qc_is_established c1 then quic_mark_established now c1 else c1)"
    define complete where "complete = (q_is_established ?Q (qc_quiche c2) \<and> \<not> qc_handshake_complete_emitted c2)"
    define c3 where "c3 = (if complete then c2\<lparr>qc_handshake_complete_emitted := True\<rparr> else c2)"
    define b1 where "b1 = (if complete then b @ [ev_handshake_complete h] else b)"
    have k3: "quic_inv c3" "closes b1 = closes b" using c1 quic_inv_op(5) [of c1] by (simp_all add: c3_def c2_def b1_def)
    obtain c4 b2 where p: "qs_poll_connection ?Q now h budget c3 b1 = (c4, b2)" by fastforce
    obtain c5 b3 where tk: "kc_ticket ?Q h c4 b2 = (c5, b3)" by fastforce
    have k5: "quic_inv c5" "closes b3 = closes b" using kc_poll_keeps [OF p k3(1)] kc_ticket_keeps [OF tk] k3(2) by simp_all
    define s1 where "s1 = kc_refresh_timeout_deadline ?Q now (s\<lparr>cl_conn := c5\<rparr>)"
    have S1: "cl_settles (kc_ok L) 0 0 (s, b) (s1, b3)"
      unfolding s1_def kc_refresh_timeout_deadline_def
      by (rule cl_settles_trans [OF cl_settles_conn cl_settles_deadline]) (use t k5 in simp_all)
    have eq: "(s', b') = (if q_is_closed ?Q (qc_quiche c5) \<and> \<not> cl_closed_emitted s1 then kc_emit_session_close ?Q h s1 b3 else (s1, b3))"
      using assms(1) unfolding kc_process_packet_for_handle_def Let_def r Inr prod.case sum.case
        c2_def [symmetric] complete_def [symmetric] c3_def [symmetric] b1_def [symmetric] p tk s1_def [symmetric] by (rule sym)
    show ?thesis
    proof (cases "q_is_closed ?Q (qc_quiche c5) \<and> \<not> cl_closed_emitted s1")
      case True
      with eq have "cl_emit_session_close (quic_session_close_event ?Q) h s1 b3 = (s', b')" by (simp add: kc_emit_session_close_def)
      from cl_settles_trans [OF S1 cl_settles_emit [OF this]] show ?thesis .
    next
      case False
      with eq S1 show ?thesis by simp
    qed
  qed
qed

lemma kc_settles_timers:
  assumes "kc_process_timers_for_handle (kl_quiche L) now budget h s b = (s', b')" "cl_typed (kc_ok L) s"
  shows "cl_settles (kc_ok L) 0 0 (s, b) (s', b')"
proof (cases "case cl_deadline s of None \<Rightarrow> False | Some d \<Rightarrow> d \<le> now")
  case due: True
  let ?Q = "kl_quiche L"
  have t: "kc_ok L (cl_conn s)" using assms(2) by (simp add: cl_typed_def)
  define c1 where "c1 = (cl_conn s)\<lparr>qc_quiche := q_on_timeout ?Q (qc_quiche (cl_conn s))\<rparr>"
  have c1: "quic_inv c1" using t by (simp add: c1_def)
  have S1: "cl_settles (kc_ok L) 0 0 (s, b) (s\<lparr>cl_conn := c1\<rparr>, b)" by (rule cl_settles_conn) (use t c1 in simp_all)
  show ?thesis
  proof (cases "q_is_closed ?Q (qc_quiche c1) \<and> \<not> cl_closed_emitted s")
    case True
    with due assms(1) have "cl_emit_session_close (quic_session_close_event ?Q) h (s\<lparr>cl_conn := c1\<rparr>) b = (s', b')"
      by (simp add: kc_process_timers_for_handle_def Let_def c1_def kc_emit_session_close_def)
    from cl_settles_trans [OF S1 cl_settles_emit [OF this]] show ?thesis .
  next
    case False
    obtain c2 b1 where p: "qs_poll_connection ?Q now h budget c1 b = (c2, b1)" by fastforce
    obtain c3 b2 where w: "(if 0 < budget then sweep_finished_streams ?Q h budget c2 b1 else (c2, b1)) = (c3, b2)" by fastforce
    obtain c4 b3 where tk: "kc_ticket ?Q h c3 b2 = (c4, b3)" by fastforce
    have k: "quic_inv c4" "closes b3 = closes b"
      using kc_poll_keeps [OF p c1] kc_sweep_keeps [OF w] kc_ticket_keeps [OF tk] by simp_all
    have eq: "s' = kc_refresh_timeout_deadline ?Q now (s\<lparr>cl_conn := c4\<rparr>)" "b' = b3"
      using assms(1) due False p w tk by (auto simp: kc_process_timers_for_handle_def Let_def c1_def split: if_splits)
    show ?thesis unfolding eq kc_refresh_timeout_deadline_def
      by (rule cl_settles_trans [OF cl_settles_conn cl_settles_deadline]) (use t k in simp_all)
  qed
qed (use assms in \<open>auto simp: kc_process_timers_for_handle_def Let_def cl_settles_refl\<close>)

lemma kc_settles_events:
  assumes "kc_poll_app_events_for_handle (kl_quiche L) now budget h s b = (s', b')" "cl_typed (kc_ok L) s"
  shows "cl_settles (kc_ok L) 0 0 (s, b) (s', b')"
proof (cases "budget = 0")
  case False
  have t: "kc_ok L (cl_conn s)" using assms(2) by (simp add: cl_typed_def)
  obtain c1 b1 where p: "qs_poll_connection (kl_quiche L) now h budget (cl_conn s) b = (c1, b1)" by fastforce
  obtain c2 b2 where tk: "kc_ticket (kl_quiche L) h c1 b1 = (c2, b2)" by fastforce
  have k: "quic_inv c2" "closes b2 = closes b" using kc_poll_keeps [OF p] kc_ticket_keeps [OF tk] t by simp_all
  have eq: "s' = s\<lparr>cl_conn := c2\<rparr>" "b' = b2" using assms(1) False p tk by (simp_all add: kc_poll_app_events_for_handle_def)
  show ?thesis unfolding eq by (rule cl_settles_conn) (use t k in simp_all)
qed (use assms in \<open>simp add: kc_poll_app_events_for_handle_def cl_settles_refl\<close>)

lemma kc_settles_drains:
  assumes "kc_poll_drain_events_for_handle (kl_quiche L) budget h s b = (s', b')" "cl_typed (kc_ok L) s"
  shows "cl_settles (kc_ok L) 0 0 (s, b) (s', b')"
proof -
  have t: "kc_ok L (cl_conn s)" using assms(2) by (simp add: cl_typed_def)
  obtain c1 b1 where w: "(if 0 < budget then sweep_finished_streams (kl_quiche L) h budget (cl_conn s) b else (cl_conn s, b)) = (c1, b1)" by fastforce
  obtain c2 b2 where p: "(if blocked_set (qc_blocked c1) \<noteq> [] then quic_poll_drain_events (kl_quiche L) h c1 b1 else (c1, b1)) = (c2, b2)" by fastforce
  have k: "quic_inv c2" "closes b2 = closes b" using kc_sweep_keeps [OF w] kc_drain_keeps [OF p] t by simp_all
  have eq: "s' = s\<lparr>cl_conn := c2\<rparr>" "b' = b2" using assms(1) w p by (simp_all add: kc_poll_drain_events_for_handle_def)
  show ?thesis unfolding eq by (rule cl_settles_conn) (use t k in simp_all)
qed

lemma kc_settles_background:
  assumes "kc_background L s b s' b'" "cl_typed (kc_ok L) s"
  shows "cl_settles (kc_ok L) 0 0 (s, b) (s', b')"
  using assms(1)
proof cases
  case packet
  from kc_settles_packet [OF packet assms(2)] show ?thesis .
next
  case timers
  from kc_settles_timers [OF timers assms(2)] show ?thesis .
next
  case events
  from kc_settles_events [OF events assms(2)] show ?thesis .
next
  case drains
  from kc_settles_drains [OF drains assms(2)] show ?thesis .
next
  case flush
  from quic_client_conn.flush_settles [OF flush [unfolded kc_flush_pending_writes_for_handle_def]] show ?thesis .
next
  case (sends now fuel out out')
  from quic_client_conn.sends_settle [OF sends(2) [unfolded kc_flush_sends_def]] sends(1) show ?thesis by simp
next
  case (ids fuel x)
  obtain c where "s' = s\<lparr>cl_conn := c\<rparr>" "quic_inv (cl_conn s) \<Longrightarrow> quic_inv c"
    using ids(2) by (auto simp: kc_take_dcid_updates_def Let_def split: option.splits if_splits)
  then show ?thesis using cl_settles_conn [of "kc_ok L" s c b b] assms(2) ids(1) by (simp add: cl_typed_def)
next
  case failed
  from cl_settles_all_active [OF failed] show ?thesis .
qed

definition kc_cmd_ok :: "quic_client_command \<Rightarrow> bool" where
  "kc_cmd_ok cmd = (case cmd of KStreamSend _ ch _ \<Rightarrow> chunk_inv ch | KSendDatagram d \<Rightarrow> chunk_inv d | _ \<Rightarrow> True)"

fun kc_leak :: "quic_client_command \<Rightarrow> 'q quic_client \<Rightarrow> nat" where
  "kc_leak (KStreamSend sid ch fin) s = cl_leak sid ch fin s"
| "kc_leak _ s = 0"

lemma quic_inv_reserve: "quic_inv c \<Longrightarrow> quic_inv (snd (reserve_local_bidi_stream Q sid c))"
  by (rule quic_inv_step [OF quic_step.reserve])

lemma kc_settles_dispatch:
  assumes ok: "kc_cmd_ok cmd" and r: "kc_dispatch_command L now cmd s b = (stop, reply, s', b')" and ty: "cl_typed (kc_ok L) s"
  shows "cl_settles (kc_ok L) (quic_client_command_outbound_bytes cmd) (kc_leak cmd s) (s, b) (s', b')"
proof -
  let ?Q = "kl_quiche L"
  have t: "kc_ok L (cl_conn s)" using ty by (simp add: cl_typed_def)
  show ?thesis
  proof (cases cmd)
    case (KStreamSend sid ch fin)
    obtain released s1 b1 where q: "kc_queue_stream_send L 0 sid ch fin s b = (released, s1, b1)"
      by (cases "kc_queue_stream_send L 0 sid ch fin s b")
    with r KStreamSend have rel: "cl_release released s1 b1 = (s', b')" by simp
    have "chunk_inv ch" using ok KStreamSend by (simp add: kc_cmd_ok_def)
    from quic_client_conn.queue_settles [OF this q [unfolded kc_queue_stream_send_def] rel ty] KStreamSend show ?thesis by simp
  next
    case (KStreamClose sid code)
    obtain released s1 where q: "kc_close_stream ?Q sid code s = (released, s1)" by fastforce
    with r KStreamClose have rel: "cl_release released s1 b = (s', b')" by simp
    from quic_client_conn.close_settles [OF q [unfolded kc_close_stream_def] rel] KStreamClose show ?thesis by simp
  next
    case (KSendDatagram d)
    obtain okd c1 where q: "queue_datagram ?Q d (cl_conn s) = (okd, c1)" by fastforce
    have "cl_settles (kc_ok L) 0 0 (s, b) (s\<lparr>cl_conn := c1\<rparr>, b)"
      by (rule cl_settles_conn) (use quic_inv_op(7) [of "cl_conn s" ?Q d] t q in simp_all)
    moreover have "cl_release (chunk_remaining_len d) (s\<lparr>cl_conn := c1\<rparr>) b = (s', b')"
      using r KSendDatagram q by (simp add: kc_send_datagram_def)
    ultimately show ?thesis using cl_settles_trans [OF _ cl_settles_release] KSendDatagram by fastforce
  next
    case KOpenStream
    obtain x c1 where q: "reserve_local_bidi_stream ?Q (kc_next_bidi s) (cl_conn s) = (x, c1)" by fastforce
    have "kc_ok L c1" using quic_inv_reserve [of "cl_conn s" ?Q "kc_next_bidi s"] t q by simp
    moreover have "b' = b \<and> (s' = s \<or> s' = s\<lparr>cl_conn := c1\<rparr> \<or> s' = s\<lparr>cl_conn := c1, kc_next_bidi := kc_next_bidi s + 4\<rparr>)"
      using r KOpenStream q by (auto simp: kc_open_bidi_stream_def Let_def split: if_splits sum.splits)
    ultimately show ?thesis using KOpenStream by (auto simp: cl_settles_def cl_typed_def cl_held_def balanced_def)
  next
    case KPing
    obtain x c1 where q: "quic_queue_ping ?Q now (cl_conn s) = (x, c1)" by fastforce
    have "s' = s\<lparr>cl_conn := c1\<rparr>" "b' = b" using r KPing q by (simp_all add: kc_ping_def)
    moreover have "quic_inv c1" using quic_inv_op(3) [of "cl_conn s" ?Q now] t q by simp
    ultimately show ?thesis using cl_settles_conn [of "kc_ok L" s c1 b b] t KPing by simp
  next
    case (KClose code reason)
    then have "s' = kc_close_session ?Q code reason s" "b' = b" using r by simp_all
    then show ?thesis using KClose t by (auto simp: kc_close_session_def intro!: cl_settles_conn)
  next
    case KShutdown
    with r cl_settles_shutdown [of "kc_ok L" s b] show ?thesis by auto
  qed (use r cl_settles_refl [of b b] in auto)
qed

definition kc_iface :: "'q quic_client_lib \<Rightarrow> ('q quic_client, quic_client_command) worker_iface" where
  "kc_iface L =
     \<lparr>wi_dispatch = (\<lambda>cmd s s'. \<exists>now b stop reply b'. kc_dispatch_command L now cmd s b = (stop, reply, s', b')),
      wi_background = (\<lambda>s s'. \<exists>b b'. kc_background L s b s' b'), wi_units = quic_client_command_outbound_bytes, wi_ok = kc_cmd_ok,
      wi_lost = kc_leak, wi_window = cl_admission, wi_set_window = (\<lambda>a s. s\<lparr>cl_admission := a\<rparr>)\<rparr>"

definition kc_fresh :: "'q quic_client_lib \<Rightarrow> 'q quic_client \<Rightarrow> bool" where
  "kc_fresh L s \<longleftrightarrow> (\<exists>now rng local server name ticket high low.
     kc_new L now rng local server name ticket (outbound_admission_new high low) = Some s)"

lemma kc_iface_simps [simp]:
  "wi_background (kc_iface L) s s' \<longleftrightarrow> (\<exists>b b'. kc_background L s b s' b')" "wi_units (kc_iface L) = quic_client_command_outbound_bytes"
  "wi_ok (kc_iface L) = kc_cmd_ok" "wi_lost (kc_iface L) = kc_leak" "wi_window (kc_iface L) = cl_admission"
  "wi_set_window (kc_iface L) a s = s\<lparr>cl_admission := a\<rparr>"
  "wi_dispatch (kc_iface L) cmd s s' \<longleftrightarrow> (\<exists>now b stop reply b'. kc_dispatch_command L now cmd s b = (stop, reply, s', b'))"
  by (simp_all add: kc_iface_def)

lemma kc_new_fields:
  assumes "kc_new L now rng local server name ticket adm = Some s"
  shows "(\<exists>q scid. cl_conn s = quic_connection_new q scid now) \<and> cl_writes s = [] \<and> \<not> cl_closed_emitted s \<and> cl_admission s = adm"
proof (cases "generate_scid Random rng")
  case (Inr scid)
  show ?thesis
  proof (cases "kl_connect L name scid local server")
    case (Inr q)
    with assms \<open>generate_scid Random rng = Inr scid\<close> show ?thesis
      by (auto simp: kc_new_def kc_from_scid_def Let_def intro!: exI)
  qed (use assms Inr in \<open>simp add: kc_new_def kc_from_scid_def\<close>)
qed (use assms in \<open>simp add: kc_new_def\<close>)

lemma kc_fresh_typed:
  assumes "quic_lib_ok (kl_lib L)" "kc_fresh L s"
  shows "cl_typed (kc_ok L) s \<and> \<not> cl_closed_emitted s \<and> queued (cl_admission s) = 0 \<and> cl_held s = 0"
proof -
  from assms(2) obtain now rng local server name ticket high low where
    "kc_new L now rng local server name ticket (outbound_admission_new high low) = Some s" unfolding kc_fresh_def by blast
  from kc_new_fields [OF this] assms(1) show ?thesis
    by (auto simp: cl_typed_def cl_held_def writes_typed_def outbound_admission_new_def Let_def quic_inv_def quic_connection_new_def)
qed

lemma cl_window_frame [simp]:
  "cl_typed ok (s\<lparr>cl_admission := a\<rparr>) = cl_typed ok s" "cl_held (s\<lparr>cl_admission := a\<rparr>) = cl_held s"
  by (simp_all add: cl_typed_def cl_held_def)

lemma cl_settles_typed:
  "cl_settles ok u leak (s, b) (s', b') \<Longrightarrow> cl_typed ok s \<Longrightarrow>
     cl_typed ok s' \<and> balanced u leak (queued (cl_admission s)) (cl_held s) (queued (cl_admission s')) (cl_held s')"
  by (simp add: cl_settles_def)

interpretation quic_client_worker: command_worker "kc_iface L" "\<lambda>s. quic_lib_ok (kl_lib L) \<and> kc_fresh L s" "cl_typed (kc_ok L)" cl_held
proof (unfold_locales, goal_cases)
  case (1 cmd s s')
  from 1(3) obtain now b stop reply b' where d: "kc_dispatch_command L now cmd s b = (stop, reply, s', b')" by auto
  from 1(1) have "kc_cmd_ok cmd" by simp
  from cl_settles_typed [OF kc_settles_dispatch [OF this d 1(2)] 1(2)] show ?case unfolding kc_iface_simps(2,4,5) .
next
  case (2 s s')
  from 2(2) obtain b b' where "kc_background L s b s' b'" by auto
  from cl_settles_typed [OF kc_settles_background [OF this 2(1)] 2(1)] show ?case unfolding kc_iface_simps(5) .
next
  case (6 s)
  then show ?case using kc_fresh_typed [of L s] by simp
qed simp_all


text \<open>One step of a QUIC client, whatever its cause.\<close>

definition kc_step :: "'q quic_client_lib \<Rightarrow> 'q quic_client \<Rightarrow> js_event list \<Rightarrow> 'q quic_client \<Rightarrow> js_event list \<Rightarrow> bool" where
  "kc_step L s b s' b' \<longleftrightarrow> kc_background L s b s' b'
     \<or> (\<exists>cmd now stop reply. kc_cmd_ok cmd \<and> kc_dispatch_command L now cmd s b = (stop, reply, s', b'))"

lemma kc_step_settles:
  assumes "kc_step L s b s' b'" "cl_typed (kc_ok L) s"
  shows "\<exists>u leak. cl_settles (kc_ok L) u leak (s, b) (s', b') \<and> cl_typed (kc_ok L) s'"
  using assms kc_settles_background [OF _ assms(2)] kc_settles_dispatch [OF _ _ assms(2)] cl_settles_typed [OF _ assms(2)]
  unfolding kc_step_def by blast

text \<open>
  A QUIC client reports the closing of its session at most once. However packets, timers, driver
  failures, shutdowns and commands follow each other, and wherever the loop hands its batch over, the
  events delivered and pending contain one session close at most, and none before the handler has
  marked the session closed.
\<close>

theorem quic_client_closes_once:
  assumes "quic_lib_laws (kl_lib L) sent finned" "client_log (kc_step L) (kc_fresh L) s delivered batch"
  shows "length (filter (\<lambda>e. event_type e = EVENT_SESSION_CLOSE) (delivered @ batch)) \<le> (if cl_closed_emitted s then 1 else 0)"
proof -
  have "quic_lib_ok (kl_lib L)" using assms(1) unfolding quic_lib_ok_def by blast
  then have "closes (delivered @ batch) \<le> of_bool (cl_closed_emitted s)"
    using client_log_once [OF assms(2), of "kc_ok L"] kc_fresh_typed kc_step_settles by blast
  then show ?thesis by (rule closes_bound)
qed

subsection \<open>The HTTP/3 client\<close>

abbreviation jc_ok :: "('h, 'q) h3_client_lib \<Rightarrow> ('h, 'q) h3_connection \<Rightarrow> bool" where
  "jc_ok L c \<equiv> lib_ok (jl_lib L) \<and> conn_typed (Some (64 * 1024)) c"

lemma h3_client_flush:
  assumes L: "lib_ok (jl_lib L)" and c: "conn_typed w c" and ws: "writes_typed ws"
    and f: "flush_client_pending_writes (jl_h3 L) (jl_quiche L) c ws = (fe, kept, c')"
  shows "conn_typed w c' \<and> writes_typed kept \<and> hm_sum queued_units kept + fe_released_units fe = hm_sum queued_units ws"
proof -
  from L obtain got sent finned where LL: "lib_laws (jl_lib L) got sent finned" unfolding lib_ok_def by blast
  have wt: "hm_wf ws" "\<forall>(k, pw) \<in> set ws. pw_inv pw" using ws by (simp_all add: writes_typed_def)
  note f' = f [unfolded flush_client_pending_writes_def]
  note U = retain_flush_units [OF client_entry_laws [OF lib_lawsD(2) [OF LL]] f' wt(2)]
  have "conn_typed w c'"
  proof (rule retain_flush_keeps [where P = "conn_typed w", OF _ f' c])
    fix sid pw m out m'
    assume e: "flush_client_h3_entry (jl_h3 L) (jl_quiche L) sid pw m = (out, m')" and m: "conn_typed w m"
    obtain x pw1 c1 where x: "flush_one_h3_pending_write (jl_h3 L) (jl_quiche L) sid m pw = (x, pw1, c1)"
      by (cases "flush_one_h3_pending_write (jl_h3 L) (jl_quiche L) sid m pw")
    have "conn_typed w c1"
      by (rule flush_progress_keeps [where P = "conn_typed w", OF _ x [unfolded flush_one_h3_pending_write_def] m])
        (rule conn_typed_ops(10) [OF lib_lawsD(1) [OF LL]])
    with e x m show "conn_typed w m'" by (auto simp: flush_client_h3_entry_def entry_of_def split: sum.splits if_splits)
  qed
  with U wt show ?thesis by (simp add: writes_typed_def)
qed

lemma jc_packet_inv:
  fixes L :: "('h, 'q) h3_client_lib" and c :: "('h, 'q) h3_connection"
  assumes "lib_ok (jl_lib L)" "conn_typed w c" "jc_next_packet (jl_quiche L) c = (p, c')"
  shows "conn_typed w c'"
proof -
  from assms(1) obtain got sent finned where LL: "lib_laws (jl_lib L) got sent finned" unfolding lib_ok_def by blast
  obtain r c1 where s: "h3_send (jl_quiche L) c TX_BUFFER_LEN = (r, c1)" by fastforce
  from conn_typed_ops(2) [OF lib_lawsD(1) [OF LL] assms(2) s] s assms(3) show ?thesis
    by (auto simp: jc_next_packet_def split: sum.splits)
qed

interpretation h3_client_conn: client_connection "jc_ok L" "\<lambda>sid c ch fin. send_body_chunk (jl_h3 L) (jl_quiche L) sid c ch fin"
  "h3_stream_close (jl_quiche L)" "flush_client_pending_writes (jl_h3 L) (jl_quiche L)" "jc_next_packet (jl_quiche L)"
proof (unfold_locales, goal_cases)
  case (1 c sid ch fin r c')
  then obtain got sent finned where "lib_laws (jl_lib L) got sent finned" unfolding lib_ok_def by blast
  with 1 conn_typed_ops(10) [OF lib_lawsD(1), of "jl_lib L" got sent finned "Some (64 * 1024)" c "jl_quiche L" sid "arc_from_chunk ch" fin r c']
  show ?case by (simp add: send_body_chunk_def)
next
  case (2 c ch sid fin out c')
  then obtain got sent finned where "lib_laws (jl_lib L) got sent finned" unfolding lib_ok_def by blast
  from send_chunk_units(1) [OF lib_lawsD(2) [OF this] 2(2,3,4)] show ?case .
next
  case (3 c ch sid fin out c' buf)
  then obtain got sent finned where "lib_laws (jl_lib L) got sent finned" unfolding lib_ok_def by blast
  from send_chunk_units(2) [OF lib_lawsD(2) [OF this] 3(2,3,4)] show ?case .
next
  case (4 c sid code)
  then obtain got sent finned where "lib_laws (jl_lib L) got sent finned" unfolding lib_ok_def by blast
  with 4 conn_typed_ops(12) [OF lib_lawsD(1)] show ?case by blast
next
  case (5 c ws fe kept c')
  with h3_client_flush [of L "Some (64 * 1024)" c ws fe kept c'] show ?case by blast
next
  case (6 c p c')
  with jc_packet_inv [of L "Some (64 * 1024)" c p c'] show ?case by blast
qed

text \<open>Everything an HTTP/3 client does besides its commands.\<close>

inductive jc_background :: "('h, 'q) h3_client_lib \<Rightarrow> ('h, 'q) h3_client \<Rightarrow> js_event list \<Rightarrow> ('h, 'q) h3_client \<Rightarrow> js_event list \<Rightarrow> bool" for L where
  packet: "jc_process_packet_for_handle L now fuel budget buf h s b = Some (s', b') \<Longrightarrow> jc_background L s b s' b'"
| timers: "jc_process_timers_for_handle L now fuel budget h s b = Some (s', b') \<Longrightarrow> jc_background L s b s' b'"
| events: "jc_poll_app_events_for_handle L now fuel budget h s b = Some (s', b') \<Longrightarrow> jc_background L s b s' b'"
| drains: "jc_poll_drain_events_for_handle (jl_quiche L) fuel h s b = Some (s', b') \<Longrightarrow> jc_background L s b s' b'"
| flush: "jc_flush_pending_writes_for_handle L h s b = (s', b') \<Longrightarrow> jc_background L s b s' b'"
| sends: "jc_flush_sends (jl_quiche L) now fuel s out = Some (s', out') \<Longrightarrow> jc_background L s b s' b"
| ids: "jc_take_dcid_updates (jl_quiche L) fuel s = Some (x, s') \<Longrightarrow> jc_background L s b s' b"
| credit: "jc_background L s b (jc_enable_read_credit s) b"
| failed: "cl_emit_session_close_for_all_active s b = (s', b') \<Longrightarrow> jc_background L s b s' b'"

lemma jc_ticket_keeps: "jc_ticket Q h c b = (c', b') \<Longrightarrow> conn_typed w c \<Longrightarrow> conn_typed w c' \<and> closes b' = closes b"
  by (auto simp: jc_ticket_def h3_update_session_ticket_def conn_typed_def split: prod.splits option.splits)

lemma jc_init_keeps:
  assumes "h3_recv_laws (jl_h3 L) got" "conn_typed w c"
  shows "conn_typed w (jc_init L now c)"
  using conn_typed_ops(3) [OF assms, of now "fst (init_h3 (jl_h3 L) now c)" "snd (init_h3 (jl_h3 L) now c)"] assms(2)
  by (simp add: jc_init_def)

lemma jc_poll_keeps:
  assumes L: "h3_recv_laws (jl_h3 L) got" and p: "jc_poll L now fuel budget h c s b = Some (c', b')" and t: "conn_typed w c"
  shows "conn_typed w c' \<and> closes b' = closes b"
proof -
  obtain c1 b1 where p1: "poll_h3_events (jl_h3 L) (jl_quiche L) h fuel budget c b = Some (c1, b1)"
    using p by (auto simp: jc_poll_def split: option.splits)
  obtain ds c2 where a: "h3_poll_ping_acks (jl_quiche L) now c1 = (ds, c2)" by fastforce
  have t1: "conn_typed w c1" by (rule conn_typed_ops(13) [OF L t p1])
  have t2: "conn_typed w c2" by (rule conn_typed_ops(9) [OF L t1 a])
  let ?b = "suppress_pending_drains h (hm_contains (cl_writes s)) b1 @ map (ev_ping_ack h) ds"
  have "jc_ticket (jl_quiche L) h c2 ?b = (c', b')" using p p1 a by (simp add: jc_poll_def Let_def)
  from jc_ticket_keeps [OF this t2] closes_h3_poll [OF p1] show ?thesis by simp
qed

lemma jc_settles_packet:
  assumes "jc_process_packet_for_handle L now fuel budget buf h s b = Some (s', b')" "cl_typed (jc_ok L) s"
  shows "cl_settles (jc_ok L) 0 0 (s, b) (s', b')"
proof -
  let ?Q = "jl_quiche L" and ?w = "Some (64 * 1024) :: nat option"
  have t: "jc_ok L (cl_conn s)" using assms(2) by (simp add: cl_typed_def)
  then obtain got where H: "h3_recv_laws (jl_h3 L) got" unfolding lib_ok_def lib_laws_def by blast
  obtain r c1 where r: "h3_recv ?Q (cl_conn s) buf = (r, c1)" by fastforce
  have c1: "conn_typed ?w c1" using conn_typed_ops(1) [OF H _ r] t by blast
  show ?thesis
  proof (cases r)
    case (Inl e)
    then have "s' = s\<lparr>cl_conn := c1\<rparr>" "b' = b" using assms(1) r by (simp_all add: jc_process_packet_for_handle_def)
    then show ?thesis using cl_settles_conn [of "jc_ok L" s c1 b b] c1 t by simp
  next
    case (Inr n)
    define c2 where "c2 = jc_init L now c1"
    define complete where "complete = (q_is_established ?Q (hc_quiche c2) \<and> \<not> hc_handshake_complete_emitted c2)"
    define c3 where "c3 = (if complete then c2\<lparr>hc_handshake_complete_emitted := True\<rparr> else c2)"
    define b1 where "b1 = (if complete then b @ [ev_handshake_complete h] else b)"
    have k3: "conn_typed ?w c3" "closes b1 = closes b" using jc_init_keeps [OF H c1] by (simp_all add: c3_def c2_def b1_def)
    obtain c4 b2 where p: "jc_poll L now fuel budget h c3 s b1 = Some (c4, b2)"
      and eq: "(s', b') = (if q_is_closed ?Q (hc_quiche c4) then jc_emit_session_close ?Q h (jc_refresh_timeout_deadline ?Q now (s\<lparr>cl_conn := c4\<rparr>)) b2
        else (jc_refresh_timeout_deadline ?Q now (s\<lparr>cl_conn := c4\<rparr>), b2))"
      using assms(1) unfolding jc_process_packet_for_handle_def Let_def r Inr prod.case sum.case
        c2_def [symmetric] complete_def [symmetric] c3_def [symmetric] b1_def [symmetric] by (auto split: option.splits)
    have k4: "conn_typed ?w c4" "closes b2 = closes b" using jc_poll_keeps [OF H p k3(1)] k3(2) by simp_all
    define s1 where "s1 = jc_refresh_timeout_deadline ?Q now (s\<lparr>cl_conn := c4\<rparr>)"
    have S1: "cl_settles (jc_ok L) 0 0 (s, b) (s1, b2)"
      unfolding s1_def jc_refresh_timeout_deadline_def
      by (rule cl_settles_trans [OF cl_settles_conn cl_settles_deadline]) (use t k4 in simp_all)
    show ?thesis
    proof (cases "q_is_closed ?Q (hc_quiche c4)")
      case True
      with eq have "cl_emit_session_close (h3_session_close_event ?Q) h s1 b2 = (s', b')" by (simp add: jc_emit_session_close_def s1_def)
      from cl_settles_trans [OF S1 cl_settles_emit [OF this]] show ?thesis .
    next
      case False
      with eq S1 show ?thesis by (simp add: s1_def)
    qed
  qed
qed

lemma jc_settles_timers:
  assumes "jc_process_timers_for_handle L now fuel budget h s b = Some (s', b')" "cl_typed (jc_ok L) s"
  shows "cl_settles (jc_ok L) 0 0 (s, b) (s', b')"
proof (cases "case cl_deadline s of None \<Rightarrow> False | Some d \<Rightarrow> d \<le> now")
  case due: True
  let ?Q = "jl_quiche L" and ?w = "Some (64 * 1024) :: nat option"
  have t: "jc_ok L (cl_conn s)" using assms(2) by (simp add: cl_typed_def)
  then obtain got where H: "h3_recv_laws (jl_h3 L) got" unfolding lib_ok_def lib_laws_def by blast
  define c1 where "c1 = (cl_conn s)\<lparr>hc_quiche := q_on_timeout ?Q (hc_quiche (cl_conn s))\<rparr>"
  have c1: "conn_typed ?w c1" using t by (simp add: c1_def)
  have S1: "cl_settles (jc_ok L) 0 0 (s, b) (s\<lparr>cl_conn := c1\<rparr>, b)" by (rule cl_settles_conn) (use t c1 in simp_all)
  show ?thesis
  proof (cases "q_is_closed ?Q (hc_quiche c1)")
    case True
    with due assms(1) have "cl_emit_session_close (h3_session_close_event ?Q) h (s\<lparr>cl_conn := c1\<rparr>) b = (s', b')"
      by (simp add: jc_process_timers_for_handle_def Let_def c1_def jc_emit_session_close_def)
    from cl_settles_trans [OF S1 cl_settles_emit [OF this]] show ?thesis .
  next
    case False
    obtain c2 b1 where p: "jc_poll L now fuel budget h c1 (s\<lparr>cl_conn := c1\<rparr>) b = Some (c2, b1)"
      and eq: "s' = jc_refresh_timeout_deadline ?Q now (s\<lparr>cl_conn := c2\<rparr>)" "b' = b1"
      using assms(1) due False by (auto simp: jc_process_timers_for_handle_def Let_def c1_def split: option.splits)
    have k: "conn_typed ?w c2" "closes b1 = closes b" using jc_poll_keeps [OF H p c1] by simp_all
    show ?thesis unfolding eq jc_refresh_timeout_deadline_def
      by (rule cl_settles_trans [OF cl_settles_conn cl_settles_deadline]) (use t k in simp_all)
  qed
qed (use assms in \<open>auto simp: jc_process_timers_for_handle_def Let_def cl_settles_refl\<close>)

lemma jc_settles_events:
  assumes "jc_poll_app_events_for_handle L now fuel budget h s b = Some (s', b')" "cl_typed (jc_ok L) s"
  shows "cl_settles (jc_ok L) 0 0 (s, b) (s', b')"
proof (cases "budget = 0")
  case False
  have t: "jc_ok L (cl_conn s)" using assms(2) by (simp add: cl_typed_def)
  then obtain got where H: "h3_recv_laws (jl_h3 L) got" unfolding lib_ok_def lib_laws_def by blast
  obtain c1 where p: "jc_poll L now fuel budget h (cl_conn s) s b = Some (c1, b')" and s': "s' = s\<lparr>cl_conn := c1\<rparr>"
    using assms(1) False by (auto simp: jc_poll_app_events_for_handle_def split: option.splits)
  have "conn_typed (Some (64 * 1024)) (cl_conn s)" using t by blast
  from jc_poll_keeps [OF H p this] show ?thesis unfolding s' by (intro cl_settles_conn) (use t in simp_all)
qed (use assms in \<open>simp add: jc_poll_app_events_for_handle_def cl_settles_refl\<close>)

lemma jc_settles_drains:
  assumes "jc_poll_drain_events_for_handle (jl_quiche L) fuel h s b = Some (s', b')" "cl_typed (jc_ok L) s"
  shows "cl_settles (jc_ok L) 0 0 (s, b) (s', b')"
proof (cases "blocked_set (hc_blocked (cl_conn s)) = []")
  case False
  have t: "jc_ok L (cl_conn s)" using assms(2) by (simp add: cl_typed_def)
  then obtain got where H: "h3_recv_laws (jl_h3 L) got" unfolding lib_ok_def lib_laws_def by blast
  obtain c1 b1 where p: "h3_poll_drain_events (jl_quiche L) h fuel (cl_conn s) b = Some (c1, b1)" and s': "s' = s\<lparr>cl_conn := c1\<rparr>"
    and b': "b' = suppress_pending_drains h (hm_contains (cl_writes s)) b1"
    using assms(1) False by (auto simp: jc_poll_drain_events_for_handle_def split: option.splits)
  have "conn_typed (Some (64 * 1024)) c1"
    by (rule conn_typed_step [OF H h3_step.drain [OF p] win_drain [OF p]]) (use t in blast)
  then show ?thesis unfolding s' by (intro cl_settles_conn) (use t closes_h3_drain [OF p] b' in simp_all)
qed (use assms in \<open>simp add: jc_poll_drain_events_for_handle_def cl_settles_refl\<close>)

lemma jc_settles_background:
  assumes "jc_background L s b s' b'" "cl_typed (jc_ok L) s"
  shows "cl_settles (jc_ok L) 0 0 (s, b) (s', b')"
  using assms(1)
proof cases
  case packet
  from jc_settles_packet [OF packet assms(2)] show ?thesis .
next
  case timers
  from jc_settles_timers [OF timers assms(2)] show ?thesis .
next
  case events
  from jc_settles_events [OF events assms(2)] show ?thesis .
next
  case drains
  from jc_settles_drains [OF drains assms(2)] show ?thesis .
next
  case flush
  from h3_client_conn.flush_settles [OF flush [unfolded jc_flush_pending_writes_for_handle_def]] show ?thesis .
next
  case (sends now fuel out out')
  from h3_client_conn.sends_settle [OF sends(2) [unfolded jc_flush_sends_def]] sends(1) show ?thesis by simp
next
  case (ids fuel x)
  obtain c where "s' = s\<lparr>cl_conn := c\<rparr>" "conn_typed (Some (64 * 1024)) (cl_conn s) \<Longrightarrow> conn_typed (Some (64 * 1024)) c"
    using ids(2) by (auto simp: jc_take_dcid_updates_def Let_def split: option.splits if_splits)
  then show ?thesis using cl_settles_conn [of "jc_ok L" s c b b] assms(2) ids(1) by (simp add: cl_typed_def)
next
  case credit
  then show ?thesis using conn_typed_window [of "Some (64 * 1024)" "cl_conn s"] assms(2)
    unfolding jc_enable_read_credit_def by (auto intro!: cl_settles_conn simp: cl_typed_def)
next
  case failed
  from cl_settles_all_active [OF failed] show ?thesis .
qed

definition jc_cmd_ok :: "client_worker_command \<Rightarrow> bool" where
  "jc_cmd_ok cmd = (case cmd of JStreamSend _ ch _ \<Rightarrow> chunk_inv ch | JSendDatagram d \<Rightarrow> chunk_inv d | _ \<Rightarrow> True)"

fun jc_leak :: "client_worker_command \<Rightarrow> ('h, 'q) h3_client \<Rightarrow> nat" where
  "jc_leak (JStreamSend sid ch fin) s = cl_leak sid ch fin s"
| "jc_leak _ s = 0"

lemma jc_request_typed:
  assumes "h3_recv_laws H got" "conn_typed w c" "send_request H hs fin c = (r, c')"
  shows "conn_typed w c'"
proof -
  have "win c' = win c" using assms(3)
    by (auto simp: send_request_def hc_block_def Let_def split: option.splits prod.splits sum.splits h3_error.splits)
  moreover have "h3_step H Q c c'" for Q using h3_step.request [of H Q c hs fin] assms(3) by simp
  ultimately show ?thesis using conn_typed_step [OF assms(1) _ _ assms(2)] by blast
qed

lemma jc_settles_dispatch:
  assumes ok: "jc_cmd_ok cmd" and r: "jc_dispatch_command L now cmd s b = (stop, reply, s', b')" and ty: "cl_typed (jc_ok L) s"
  shows "cl_settles (jc_ok L) (client_worker_command_outbound_bytes cmd) (jc_leak cmd s) (s, b) (s', b')"
proof -
  let ?Q = "jl_quiche L" and ?w = "Some (64 * 1024) :: nat option"
  have t: "lib_ok (jl_lib L)" "conn_typed ?w (cl_conn s)" using ty by (simp_all add: cl_typed_def)
  then obtain got where H: "h3_recv_laws (jl_h3 L) got" unfolding lib_ok_def lib_laws_def by blast
  have conn: "cl_settles (jc_ok L) 0 0 (s, b) (s\<lparr>cl_conn := c\<rparr>, b)" if "conn_typed ?w c" for c
    by (rule cl_settles_conn) (use that t in simp_all)
  show ?thesis
  proof (cases cmd)
    case (JStreamSend sid ch fin)
    obtain released s1 b1 where q: "jc_queue_stream_send L 0 sid ch fin s b = (released, s1, b1)"
      by (cases "jc_queue_stream_send L 0 sid ch fin s b")
    with r JStreamSend have rel: "cl_release released s1 b1 = (s', b')" by simp
    have "chunk_inv ch" using ok JStreamSend by (simp add: jc_cmd_ok_def)
    from h3_client_conn.queue_settles [OF this q [unfolded jc_queue_stream_send_def] rel ty] JStreamSend show ?thesis by simp
  next
    case (JStreamClose sid code)
    obtain released s1 where q: "jc_close_stream ?Q sid code s = (released, s1)" by fastforce
    with r JStreamClose have rel: "cl_release released s1 b = (s', b')" by simp
    from h3_client_conn.close_settles [OF q [unfolded jc_close_stream_def] rel] JStreamClose show ?thesis by simp
  next
    case (JSendDatagram d)
    obtain x c1 where q: "send_datagram_chunk ?Q d (cl_conn s) = (x, c1)" by fastforce
    have rel: "cl_release (chunk_remaining_len d) (s\<lparr>cl_conn := c1\<rparr>) b = (s', b')"
      using r JSendDatagram q by (simp add: jc_send_datagram_def)
    from cl_settles_trans [OF conn [OF conn_typed_ops(7) [OF H t(2) q]] cl_settles_release [OF rel]] JSendDatagram show ?thesis by simp
  next
    case (JSendRequest hs fin)
    obtain x c1 where q: "send_request (jl_h3 L) hs fin (jc_init L now (cl_conn s)) = (x, c1)" by fastforce
    have "s' = s\<lparr>cl_conn := c1\<rparr>" "b' = b" using r JSendRequest q by (auto simp: jc_send_request_def)
    with conn [OF jc_request_typed [OF H jc_init_keeps [OF H t(2)] q]] JSendRequest show ?thesis by simp
  next
    case (JStreamReadCredit sid n)
    then have "s' = s\<lparr>cl_conn := add_read_credit sid n (cl_conn s)\<rparr>" "b' = b" using r by (auto simp: jc_stream_read_credit_def)
    with conn [OF conn_typed_ops(11) [OF H t(2)]] JStreamReadCredit show ?thesis by simp
  next
    case JPing
    obtain x c1 where q: "h3_queue_ping ?Q now (cl_conn s) = (x, c1)" by fastforce
    have "s' = s\<lparr>cl_conn := c1\<rparr>" "b' = b" using r JPing q by (simp_all add: jc_ping_def)
    with conn [OF conn_typed_ops(8) [OF H t(2) q]] JPing show ?thesis by simp
  next
    case (JClose code reason)
    then have "s' = jc_close_session ?Q code reason s" "b' = b" using r by simp_all
    with conn JClose t show ?thesis by (simp add: jc_close_session_def)
  next
    case JShutdown
    with r cl_settles_shutdown [of "jc_ok L" s b] show ?thesis by auto
  qed (use r cl_settles_refl [of b b] in auto)
qed

definition jc_iface :: "('h, 'q) h3_client_lib \<Rightarrow> (('h, 'q) h3_client, client_worker_command) worker_iface" where
  "jc_iface L =
     \<lparr>wi_dispatch = (\<lambda>cmd s s'. \<exists>now b stop reply b'. jc_dispatch_command L now cmd s b = (stop, reply, s', b')),
      wi_background = (\<lambda>s s'. \<exists>b b'. jc_background L s b s' b'), wi_units = client_worker_command_outbound_bytes, wi_ok = jc_cmd_ok,
      wi_lost = jc_leak, wi_window = cl_admission, wi_set_window = (\<lambda>a s. s\<lparr>cl_admission := a\<rparr>)\<rparr>"

definition jc_fresh :: "('h, 'q) h3_client_lib \<Rightarrow> ('h, 'q) h3_client \<Rightarrow> bool" where
  "jc_fresh L s \<longleftrightarrow> (\<exists>now rng local server name ticket high low.
     jc_new L now rng local server name ticket (outbound_admission_new high low) = Some s)"

lemma jc_iface_simps [simp]:
  "wi_background (jc_iface L) s s' \<longleftrightarrow> (\<exists>b b'. jc_background L s b s' b')" "wi_units (jc_iface L) = client_worker_command_outbound_bytes"
  "wi_ok (jc_iface L) = jc_cmd_ok" "wi_lost (jc_iface L) = jc_leak" "wi_window (jc_iface L) = cl_admission"
  "wi_set_window (jc_iface L) a s = s\<lparr>cl_admission := a\<rparr>"
  "wi_dispatch (jc_iface L) cmd s s' \<longleftrightarrow> (\<exists>now b stop reply b'. jc_dispatch_command L now cmd s b = (stop, reply, s', b'))"
  by (simp_all add: jc_iface_def)

lemma jc_new_fields:
  assumes "jc_new L now rng local server name ticket adm = Some s"
  shows "(\<exists>q scid. cl_conn s = h3_connection_new q scid now None None) \<and> cl_writes s = [] \<and> \<not> cl_closed_emitted s \<and> cl_admission s = adm"
proof (cases "generate_scid Random rng")
  case (Inr scid)
  show ?thesis
  proof (cases "jl_connect L name scid local server")
    case (Inr q)
    with assms \<open>generate_scid Random rng = Inr scid\<close> show ?thesis
      by (auto simp: jc_new_def jc_from_scid_def Let_def intro!: exI)
  qed (use assms Inr in \<open>simp add: jc_new_def jc_from_scid_def\<close>)
qed (use assms in \<open>simp add: jc_new_def\<close>)

lemma jc_fresh_typed:
  assumes "lib_ok (jl_lib L)" "jc_fresh L s"
  shows "cl_typed (jc_ok L) s \<and> \<not> cl_closed_emitted s \<and> queued (cl_admission s) = 0 \<and> cl_held s = 0"
proof -
  from assms(2) obtain now rng local server name ticket high low where
    "jc_new L now rng local server name ticket (outbound_admission_new high low) = Some s" unfolding jc_fresh_def by blast
  from jc_new_fields [OF this] assms(1) show ?thesis
    by (auto simp: cl_typed_def cl_held_def writes_typed_def outbound_admission_new_def Let_def conn_typed_new)
qed

interpretation h3_client_worker: command_worker "jc_iface L" "\<lambda>s. lib_ok (jl_lib L) \<and> jc_fresh L s" "cl_typed (jc_ok L)" cl_held
proof (unfold_locales, goal_cases)
  case (1 cmd s s')
  from 1(3) obtain now b stop reply b' where d: "jc_dispatch_command L now cmd s b = (stop, reply, s', b')" by auto
  from 1(1) have "jc_cmd_ok cmd" by simp
  from cl_settles_typed [OF jc_settles_dispatch [OF this d 1(2)] 1(2)] show ?case unfolding jc_iface_simps(2,4,5) .
next
  case (2 s s')
  from 2(2) obtain b b' where "jc_background L s b s' b'" by auto
  from cl_settles_typed [OF jc_settles_background [OF this 2(1)] 2(1)] show ?case unfolding jc_iface_simps(5) .
next
  case (6 s)
  then show ?case using jc_fresh_typed [of L s] by simp
qed simp_all


definition jc_step :: "('h, 'q) h3_client_lib \<Rightarrow> ('h, 'q) h3_client \<Rightarrow> js_event list \<Rightarrow> ('h, 'q) h3_client \<Rightarrow> js_event list \<Rightarrow> bool" where
  "jc_step L s b s' b' \<longleftrightarrow> jc_background L s b s' b'
     \<or> (\<exists>cmd now stop reply. jc_cmd_ok cmd \<and> jc_dispatch_command L now cmd s b = (stop, reply, s', b'))"

lemma jc_step_settles:
  assumes "jc_step L s b s' b'" "cl_typed (jc_ok L) s"
  shows "\<exists>u leak. cl_settles (jc_ok L) u leak (s, b) (s', b') \<and> cl_typed (jc_ok L) s'"
  using assms jc_settles_background [OF _ assms(2)] jc_settles_dispatch [OF _ _ assms(2)] cl_settles_typed [OF _ assms(2)]
  unfolding jc_step_def by blast

text \<open>
  An HTTP/3 client reports the closing of its session at most once, and not before the handler has
  marked the session closed, under the same conditions as a QUIC client.
\<close>

theorem h3_client_closes_once:
  assumes "lib_laws (jl_lib L) got sent finned" "client_log (jc_step L) (jc_fresh L) s delivered batch"
  shows "length (filter (\<lambda>e. event_type e = EVENT_SESSION_CLOSE) (delivered @ batch)) \<le> (if cl_closed_emitted s then 1 else 0)"
proof -
  have "lib_ok (jl_lib L)" using assms(1) unfolding lib_ok_def by blast
  then have "closes (delivered @ batch) \<le> of_bool (cl_closed_emitted s)"
    using client_log_once [OF assms(2), of "jc_ok L"] jc_fresh_typed jc_step_settles by blast
  then show ?thesis by (rule closes_bound)
qed

subsection \<open>Small clients\<close>

text \<open>Clients on the loopback transport, whose writes are held because the transport has no credit.\<close>

definition sample_kl :: "loopback quic_client_lib" where
  "sample_kl = \<lparr>kl_lib = sample_qlib, kl_connect = (\<lambda>_ _ _ _. Inr lb_empty), kl_set_session = (\<lambda>q _. q)\<rparr>"

definition sample_jl :: "(script, loopback) h3_client_lib" where
  "sample_jl = \<lparr>jl_lib = sample_lib, jl_connect = (\<lambda>_ _ _ _. Inr lb_empty), jl_set_session = (\<lambda>q _. q)\<rparr>"

lemma sample_client_libs [simp]: "kl_lib sample_kl = sample_qlib" "jl_lib sample_jl = sample_lib" "ql_quiche sample_qlib = loopback_api"
  by (simp_all add: sample_kl_def sample_jl_def sample_qlib_def)

definition sample_kc :: "loopback quic_client" where
  "sample_kc = \<lparr>cl_conn = quic_connection_new lb_empty [9] 0, cl_writes = [], cl_deadline = None, cl_closed_emitted = False,
     cl_admission = outbound_admission_new 8 4, kc_next_bidi = 0\<rparr>"

definition sample_jc :: "(script, loopback) h3_client" where
  "sample_jc = \<lparr>cl_conn = h3_connection_new lb_empty [9] 0 None None, cl_writes = [], cl_deadline = None, cl_closed_emitted = False,
     cl_admission = outbound_admission_new 8 4\<rparr>"

lemma sample_clients_fresh: "kc_fresh sample_kl sample_kc" "jc_fresh sample_jl sample_jc"
proof -
  have q: "q_timeout loopback_api q = None" for q by (simp add: loopback_api_def)
  have "kc_new sample_kl 0 (Some [9]) (V4 1 2) (V4 3 4) [] None (outbound_admission_new 8 4) = Some sample_kc"
    by (simp add: kc_new_def kc_from_scid_def generate_scid_def apply_encoding_def sample_kc_def q) (simp add: sample_kl_def q)
  then show "kc_fresh sample_kl sample_kc" unfolding kc_fresh_def by blast
  have "jc_new sample_jl 0 (Some [9]) (V4 1 2) (V4 3 4) [] None (outbound_admission_new 8 4) = Some sample_jc"
    by (simp add: jc_new_def jc_from_scid_def generate_scid_def apply_encoding_def sample_jc_def q) (simp add: sample_jl_def q)
  then show "jc_fresh sample_jl sample_jc" unfolding jc_fresh_def by blast
qed

definition sample_adm :: outbound_admission where
  "sample_adm = snd (try_admit (outbound_admission_new 8 4) 3)"

lemma sample_admits: "try_admit (outbound_admission_new 8 4) 3 = (True, sample_adm)" "queued sample_adm = 3"
  by (simp_all add: sample_adm_def try_admit_def outbound_admission_new_def admit_next_def admission_watermarks_new_def
      checked_add_def usize_max_def Let_def)

lemma sample_kc_blocked:
  obtains s' where "kc_dispatch_command sample_kl 0 (KStreamSend 0 sample_chunk False) (sample_kc\<lparr>cl_admission := sample_adm\<rparr>) []
      = (False, CNoReply, s', [ev_stream_blocked 0 0])"
    "cl_writes s' = [(0, sample_pw)]" "cl_admission s' = sample_adm"
proof -
  let ?c = "quic_connection_new lb_empty [9] 0"
  have lb: "lb_credit lb_empty = 0" by (simp add: lb_empty_def)
  have c: "qc_quiche ?c = lb_empty" "blocked_set (qc_blocked ?c) = []" by (simp_all add: quic_connection_new_def blocked_new_def)
  have snd: "stream_send_chunk loopback_api 0 ?c sample_chunk False
      = (Inr (send_out 0 False (Some (arc_from_chunk sample_chunk))), block_stream 0 (?c\<lparr>qc_quiche := lb_empty\<rparr>))"
    using c by (simp add: stream_send_chunk_def stream_send_arcbuf_def send_zc_def lb_send_zc_def lb)
  have rel: "cl_release 0 t b = (t, b)" for t :: "loopback quic_client" and b by (simp add: cl_release_def Admission.release_def)
  have acc: "accepted_outbound_payload_units 3 False 0 False = 0" by (simp add: accepted_outbound_payload_units_def)
  show ?thesis
    by (rule that [of "sample_kc\<lparr>cl_admission := sample_adm, cl_conn := block_stream 0 (?c\<lparr>qc_quiche := lb_empty\<rparr>), cl_writes := [(0, sample_pw)]\<rparr>"])
      (simp_all add: kc_queue_stream_send_def cl_queue_stream_send_def sample_kc_def snd acc rel insert_pending_write_def sample_pw_def Let_def)
qed



text \<open>A driver failure reported twice closes the session once.\<close>

lemma failed_twice:
  assumes "\<And>s b s' b'. cl_emit_session_close_for_all_active s b = (s', b') \<Longrightarrow> stp s b s' b'" "init s" "\<not> cl_closed_emitted s"
  shows "client_log stp init (s\<lparr>cl_closed_emitted := True\<rparr>) [ev_session_close 0] []"
proof -
  let ?s = "s\<lparr>cl_closed_emitted := True\<rparr>"
  have "client_log stp init s [] []" by (rule client_log.start [of init, OF assms(2)])
  moreover have "stp s [] ?s [ev_session_close 0]" "stp ?s [] ?s []"
    by (rule assms(1), use assms(3) in \<open>simp add: cl_emit_session_close_for_all_active_def\<close>)+
  ultimately show ?thesis
    using client_log.step client_log.deliver [of stp init ?s "[]" "[ev_session_close 0]"] by (metis append_Nil)
qed

theorem quic_client_closes_once_witness:
  "\<exists>s d. client_log (kc_step sample_kl) (kc_fresh sample_kl) s d [] \<and> ev_session_close 0 \<in> set d
    \<and> length (filter (\<lambda>e. event_type e = EVENT_SESSION_CLOSE) (d @ [])) \<le> 1"
proof -
  let ?s = "sample_kc\<lparr>cl_closed_emitted := True\<rparr>"
  have l: "client_log (kc_step sample_kl) (kc_fresh sample_kl) ?s [ev_session_close 0] []"
    by (rule failed_twice) (use sample_clients_fresh(1) in \<open>auto simp: kc_step_def sample_kc_def intro: kc_background.failed\<close>)
  have "quic_lib_laws (kl_lib sample_kl) lb_sent lb_fin" using sample_qlib_laws by simp
  from quic_client_closes_once [OF this l] l show ?thesis by (intro exI [of _ ?s] exI [of _ "[ev_session_close 0]"]) simp
qed

theorem h3_client_closes_once_witness:
  "\<exists>s d. client_log (jc_step sample_jl) (jc_fresh sample_jl) s d [] \<and> ev_session_close 0 \<in> set d
    \<and> length (filter (\<lambda>e. event_type e = EVENT_SESSION_CLOSE) (d @ [])) \<le> 1"
proof -
  let ?s = "sample_jc\<lparr>cl_closed_emitted := True\<rparr>"
  have l: "client_log (jc_step sample_jl) (jc_fresh sample_jl) ?s [ev_session_close 0] []"
    by (rule failed_twice) (use sample_clients_fresh(2) in \<open>auto simp: jc_step_def sample_jc_def intro: jc_background.failed\<close>)
  have "lib_laws (jl_lib sample_jl) sc_got (\<lambda>(s, q). lb_sent q) (\<lambda>(s, q). lb_fin q)" using sample_lib_laws by simp
  from h3_client_closes_once [OF this l] l show ?thesis by (intro exI [of _ ?s] exI [of _ "[ev_session_close 0]"]) simp
qed

end
