(* ===== verification/Loop_Props.thy ===== *)
theory Loop_Props
  imports Event_Loop_Runs H3_Server_Props Quic_Server_Props Client_Props
begin

text \<open>
  The four protocol handlers as implementations of \<^verbatim>\<open>ProtocolHandler\<close>, the contract of
  \<^verbatim>\<open>Event_Loop_Runs\<close> on each of them, and the properties of the running loops.
\<close>

subsection \<open>The handlers\<close>

text \<open>What the operations of a handler read beside their arguments: clocks, random bytes, and the fuel of
  loops that end with the library.\<close>

record handler_inputs =
  hi_now :: "nat \<Rightarrow> instant"
  hi_secs :: "nat \<Rightarrow> 64 word"
  hi_rng :: "nat \<Rightarrow> byte list option"
  hi_rngs :: "nat \<Rightarrow> (byte list option \<times> byte list option) list"
  hi_fuel :: nat

definition h3_server_handler :: "('h, 'q) server_lib \<Rightarrow> handler_inputs \<Rightarrow> (('h, 'q) h3_server, worker_command) protocol_handler" where
  "h3_server_handler L I =
     \<lparr>ph_dispatch_command = (\<lambda>n cmd s b. case dispatch_command L (hi_now I n) cmd s b of (stop, reply, s', b') \<Rightarrow> (stop, s', b')),
      ph_process_packet = (\<lambda>n seg peer local budget s out b.
        process_packet L (hi_now I n) (hi_secs I n) (hi_fuel I) (hi_rng I n) (hi_rngs I n) budget seg peer local s out b),
      ph_process_timers = (\<lambda>n now budget s b. expire_timers L now (hi_fuel I) budget s b),
      ph_poll_app_events = (\<lambda>n budget s b. collect_app_events L (hi_now I n) (hi_fuel I) budget s b),
      ph_flush_sends = (\<lambda>n s out. flush_all_sends (sl_quiche L) (hi_now I n) (hi_fuel I) s out),
      ph_flush_pending_writes = (\<lambda>n s b. Some (flush_all_pending_writes L s b)),
      ph_poll_drain_events = (\<lambda>n budget s b. collect_drain_events L (hi_fuel I) s b),
      ph_cleanup_closed = (\<lambda>n s b. Some (reap_closed_connections (sl_quiche L) s b)),
      ph_next_deadline = soonest_deadline,
      ph_emit_session_close_for_all_active = (\<lambda>s b. (s, emit_session_close_for_all_active s b)),
      ph_is_done = (\<lambda>s. False)\<rparr>"

definition quic_server_handler :: "'q quic_lib \<Rightarrow> handler_inputs \<Rightarrow> ('q quic_server, quic_server_command) protocol_handler" where
  "quic_server_handler L I =
     \<lparr>ph_dispatch_command = (\<lambda>n cmd s b. case qs_dispatch_command L (hi_now I n) cmd s b of (stop, reply, s', b') \<Rightarrow> (stop, s', b')),
      ph_process_packet = (\<lambda>n seg peer local budget s out b.
        qs_process_packet L (hi_now I n) (hi_secs I n) (hi_fuel I) (hi_rng I n) (hi_rngs I n) budget seg peer local s out b),
      ph_process_timers = (\<lambda>n now budget s b. Some (qs_expire_timers (ql_quiche L) now budget s b)),
      ph_poll_app_events = (\<lambda>n budget s b. Some (qs_collect_app_events (ql_quiche L) (hi_now I n) budget s b)),
      ph_flush_sends = (\<lambda>n s out. qs_flush_all_sends (ql_quiche L) (hi_now I n) (hi_fuel I) s out),
      ph_flush_pending_writes = (\<lambda>n s b. Some (qs_flush_all_pending_writes (ql_quiche L) s b)),
      ph_poll_drain_events = (\<lambda>n budget s b. Some (qs_collect_drain_events (ql_quiche L) budget s b)),
      ph_cleanup_closed = (\<lambda>n s b. Some (qs_reap_closed (ql_quiche L) s b)),
      ph_next_deadline = qs_soonest_deadline,
      ph_emit_session_close_for_all_active = (\<lambda>s b. (s, qs_emit_session_close_for_all_active s b)),
      ph_is_done = (\<lambda>s. False)\<rparr>"

definition h3_client_handler :: "('h, 'q) h3_client_lib \<Rightarrow> handler_inputs \<Rightarrow> (('h, 'q) h3_client, client_worker_command) protocol_handler" where
  "h3_client_handler L I =
     \<lparr>ph_dispatch_command = (\<lambda>n cmd s b. case jc_dispatch_command L (hi_now I n) cmd s b of (stop, reply, s', b') \<Rightarrow> (stop, s', b')),
      ph_process_packet = (\<lambda>n seg peer local budget s out b.
        map_option (\<lambda>(s', b'). (s', out, b')) (jc_process_packet_for_handle L (hi_now I n) (hi_fuel I) budget seg 0 s b)),
      ph_process_timers = (\<lambda>n now budget s b. jc_process_timers_for_handle L now (hi_fuel I) budget 0 s b),
      ph_poll_app_events = (\<lambda>n budget s b. jc_poll_app_events_for_handle L (hi_now I n) (hi_fuel I) budget 0 s b),
      ph_flush_sends = (\<lambda>n s out. jc_flush_sends (jl_quiche L) (hi_now I n) (hi_fuel I) s out),
      ph_flush_pending_writes = (\<lambda>n s b. Some (jc_flush_pending_writes_for_handle L 0 s b)),
      ph_poll_drain_events = (\<lambda>n budget s b. jc_poll_drain_events_for_handle (jl_quiche L) (hi_fuel I) 0 s b),
      ph_cleanup_closed = (\<lambda>n s b. Some (s, b)),
      ph_next_deadline = (\<lambda>s. (cl_deadline s, s)),
      ph_emit_session_close_for_all_active = cl_emit_session_close_for_all_active,
      ph_is_done = cl_closed_emitted\<rparr>"

definition quic_client_handler :: "'q quic_client_lib \<Rightarrow> handler_inputs \<Rightarrow> ('q quic_client, quic_client_command) protocol_handler" where
  "quic_client_handler L I =
     \<lparr>ph_dispatch_command = (\<lambda>n cmd s b. case kc_dispatch_command L (hi_now I n) cmd s b of (stop, reply, s', b') \<Rightarrow> (stop, s', b')),
      ph_process_packet = (\<lambda>n seg peer local budget s out b.
        case kc_process_packet_for_handle (kl_quiche L) (hi_now I n) budget seg 0 s b of (s', b') \<Rightarrow> Some (s', out, b')),
      ph_process_timers = (\<lambda>n now budget s b. Some (kc_process_timers_for_handle (kl_quiche L) now budget 0 s b)),
      ph_poll_app_events = (\<lambda>n budget s b. Some (kc_poll_app_events_for_handle (kl_quiche L) (hi_now I n) budget 0 s b)),
      ph_flush_sends = (\<lambda>n s out. kc_flush_sends (kl_quiche L) (hi_now I n) (hi_fuel I) s out),
      ph_flush_pending_writes = (\<lambda>n s b. Some (kc_flush_pending_writes_for_handle (kl_quiche L) 0 s b)),
      ph_poll_drain_events = (\<lambda>n budget s b. Some (kc_poll_drain_events_for_handle (kl_quiche L) budget 0 s b)),
      ph_cleanup_closed = (\<lambda>n s b. Some (s, b)),
      ph_next_deadline = (\<lambda>s. (cl_deadline s, s)),
      ph_emit_session_close_for_all_active = cl_emit_session_close_for_all_active,
      ph_is_done = cl_closed_emitted\<rparr>"

text \<open>The surroundings of a worker: lists of commands its writers try to send, and what moves the gauge.\<close>

record 'c outside =
  os_ms :: "nat \<Rightarrow> nat"
  os_commands :: "nat \<Rightarrow> 'c list"
  os_gauge :: "nat \<Rightarrow> event_gauge \<Rightarrow> event_gauge"

definition loop_params ::
  "('s, 'c) protocol_handler \<Rightarrow> ('s, 'c) worker_iface \<Rightarrow> handler_inputs \<Rightarrow> 'c outside \<Rightarrow> 'd driver \<Rightarrow> socket_addr \<Rightarrow> ('s, 'c, 'd) loop_params" where
  "loop_params H W I X D addr =
     \<lparr>lq_handler = H, lq_driver = D,
      lq_around = \<lparr>sr_now = hi_now I, sr_ms = os_ms X, sr_writers = (\<lambda>n. submit_all W (filter (wi_ok W) (os_commands X n))),
        sr_gauge = os_gauge X\<rparr>,
      lq_local_addr = addr\<rparr>"

lemma loop_params_simps [simp]:
  "lq_handler (loop_params H W I X D addr) = H" "lq_driver (loop_params H W I X D addr) = D"
  "sr_writers (lq_around (loop_params H W I X D addr)) n = submit_all W (filter (wi_ok W) (os_commands X n))"
  by (simp_all add: loop_params_def)

lemma loop_params_writers:
  "(writer_step W)\<^sup>*\<^sup>* (s, ch) (sr_writers (lq_around (loop_params H W I X D addr)) n s ch)"
  unfolding loop_params_simps by (rule submit_all_steps) simp

lemma closing_appends:
  "\<exists>ev. emit_session_close_for_all_active s1 b = b @ ev" "\<exists>ev. qs_emit_session_close_for_all_active s2 b = b @ ev"
  "cl_emit_session_close_for_all_active s b = (s', b') \<Longrightarrow> \<exists>ev. b' = b @ ev"
  by (auto simp: emit_session_close_for_all_active_def qs_emit_session_close_for_all_active_def
      cl_emit_session_close_for_all_active_def split: if_splits)

abbreviation h3_server_loop where
  "h3_server_loop L I \<equiv> loop_params (h3_server_handler L I) (h3_iface L) I"

abbreviation quic_server_loop where
  "quic_server_loop L I \<equiv> loop_params (quic_server_handler L I) (quic_iface L) I"

abbreviation h3_client_loop where
  "h3_client_loop L I \<equiv> loop_params (h3_client_handler L I) (jc_iface L) I"

abbreviation quic_client_loop where
  "quic_client_loop L I \<equiv> loop_params (quic_client_handler L I) (kc_iface L) I"

interpretation h3_server_runs: worker_loop "h3_server_loop L I X D addr" "h3_iface L"
proof (unfold_locales, goal_cases)
  case (1 n cmd s b stop s' b')
  then show ?case by (simp add: h3_server_handler_def split: prod.splits) blast
next
  case (11 s ch n)
  show ?case by (rule loop_params_writers)
qed (auto simp: h3_server_handler_def closing_appends intro: h3_background.intros split: prod.splits)

interpretation quic_server_runs: worker_loop "quic_server_loop L I X D addr" "quic_iface L"
proof (unfold_locales, goal_cases)
  case (1 n cmd s b stop s' b')
  then show ?case by (simp add: quic_server_handler_def split: prod.splits) blast
next
  case (11 s ch n)
  show ?case by (rule loop_params_writers)
qed (auto simp: quic_server_handler_def closing_appends intro: qs_background.intros split: prod.splits)

interpretation h3_client_runs: worker_loop "h3_client_loop L I X D addr" "jc_iface L"
proof (unfold_locales, goal_cases)
  case (1 n cmd s b stop s' b')
  then show ?case by (simp add: h3_client_handler_def split: prod.splits) blast
next
  case (11 s ch n)
  show ?case by (rule loop_params_writers)
qed (auto simp: h3_client_handler_def closing_appends intro: jc_background.intros split: prod.splits)

interpretation quic_client_runs: worker_loop "quic_client_loop L I X D addr" "kc_iface L"
proof (unfold_locales, goal_cases)
  case (1 n cmd s b stop s' b')
  then show ?case by (simp add: quic_client_handler_def split: prod.splits) blast
next
  case (11 s ch n)
  show ?case by (rule loop_params_writers)
qed (auto simp: quic_client_handler_def closing_appends intro: kc_background.intros split: prod.splits)

subsection \<open>Client loops report the closing of a session at most once\<close>

definition reported_once ::
  "('k \<Rightarrow> bool) \<Rightarrow> ('c \<Rightarrow> bool) \<Rightarrow> ('k, 'z) client_core_scheme \<Rightarrow> 'c list \<Rightarrow> js_event list \<Rightarrow> bool" where
  "reported_once okc sendable s ch evs \<longleftrightarrow>
     cl_typed okc s \<and> closes evs \<le> of_bool (cl_closed_emitted s) \<and> (\<forall>cmd \<in> set ch. sendable cmd)"

locale closing_loop =
  fixes P :: "(('k, 'z) client_core_scheme, 'c, 'd) loop_params" and okc :: "'k \<Rightarrow> bool" and sendable :: "'c \<Rightarrow> bool"
    and stp :: "('k, 'z) client_core_scheme \<Rightarrow> js_event list \<Rightarrow> ('k, 'z) client_core_scheme \<Rightarrow> js_event list \<Rightarrow> bool"
  assumes settled: "stp s b s' b' \<Longrightarrow> cl_typed okc s \<Longrightarrow> \<exists>u leak. cl_settles okc u leak (s, b) (s', b') \<and> cl_typed okc s'"
    and dispatch_steps: "sendable cmd \<Longrightarrow> ph_dispatch_command (lq_handler P) n cmd s [] = (stop, s', ev) \<Longrightarrow> stp s [] s' ev"
    and packet_steps: "ph_process_packet (lq_handler P) n seg peer local budget s out [] = Some (s', out', ev) \<Longrightarrow> stp s [] s' ev"
    and sends_steps: "ph_flush_sends (lq_handler P) n s out = Some (s', out') \<Longrightarrow> stp s [] s' []"
    and timers_steps: "ph_process_timers (lq_handler P) n now budget s [] = Some (s', ev) \<Longrightarrow> stp s [] s' ev"
    and app_steps: "ph_poll_app_events (lq_handler P) n budget s [] = Some (s', ev) \<Longrightarrow> stp s [] s' ev"
    and drain_steps: "ph_poll_drain_events (lq_handler P) n budget s [] = Some (s', ev) \<Longrightarrow> stp s [] s' ev"
    and pending_steps: "ph_flush_pending_writes (lq_handler P) n s [] = Some (s', ev) \<Longrightarrow> stp s [] s' ev"
    and cleanup_idle: "ph_cleanup_closed (lq_handler P) n s b = Some (s, b)"
    and deadline_idle: "snd (ph_next_deadline (lq_handler P) s) = s"
    and closing_reports: "ph_emit_session_close_for_all_active (lq_handler P) = cl_emit_session_close_for_all_active"
    and writers_window: "sr_writers (lq_around P) n s ch = (s', ch') \<Longrightarrow>
      \<exists>a sent. s' = s\<lparr>cl_admission := a\<rparr> \<and> ch' = ch @ sent \<and> (\<forall>cmd \<in> set sent. sendable cmd)"
begin

lemma step_reports:
  assumes "stp s [] s' ev" "cl_typed okc s" "closes evs \<le> of_bool (cl_closed_emitted s)"
  shows "cl_typed okc s' \<and> closes (evs @ ev) \<le> of_bool (cl_closed_emitted s') \<and> closes evs \<le> of_bool (cl_closed_emitted s')"
  using settled [OF assms(1,2)] assms(3) by (auto simp: cl_settles_def)

lemma step_keeps: "stp s [] s' ev \<Longrightarrow> op_keeps (reported_once okc sendable) s s' ev"
  unfolding op_keeps_def reported_once_def using step_reports by blast

lemma idle_keeps: "op_keeps (reported_once okc sendable) s s []"
  by (simp add: op_keeps_def)

lemma failure_keeps: "\<not> cl_closed_emitted s \<Longrightarrow>
    op_keeps (reported_once okc sendable) s (s\<lparr>cl_closed_emitted := True\<rparr>) [ev_session_close 0]"
  by (simp add: op_keeps_def reported_once_def cl_typed_def)

end

sublocale closing_loop \<subseteq> reports: loop_invariant P "reported_once okc sendable"
proof (unfold_locales, goal_cases)
  case (1 s ch evs n s' ch')
  from writers_window [OF 1(2)] 1(1) show ?case by (auto simp: reported_once_def cl_typed_def)
next
  case (2 s ch evs)
  then show ?case by (simp add: reported_once_def is_close_def event_defs event_types)
next
  case (3 s ch evs call reason err)
  then show ?case by (simp add: reported_once_def is_close_def event_defs event_types)
next
  case 4
  then show ?case by (intro step_keeps packet_steps)
next
  case 5
  then show ?case by (intro step_keeps sends_steps)
next
  case 6
  show ?case unfolding collects_def by (intro allI impI step_keeps) (rule timers_steps)
next
  case 7
  show ?case unfolding collects_def by (intro allI impI step_keeps) (rule app_steps)
next
  case 8
  show ?case unfolding collects_def by (intro allI impI step_keeps) (rule drain_steps)
next
  case 9
  show ?case unfolding collects_def by (intro allI impI step_keeps) (rule pending_steps)
next
  case 10
  show ?case unfolding collects_def cleanup_idle by (simp add: idle_keeps)
next
  case (11 s d s')
  then have "s' = s" using deadline_idle [of s] by simp
  then show ?case by (simp add: idle_keeps)
next
  case (12 s b s' b')
  then show ?case unfolding closing_reports cl_emit_session_close_for_all_active_def
    by (cases "cl_closed_emitted s") (auto simp: idle_keeps failure_keeps)
next
  case (13 s cmd rest evs n stop s' ev)
  then have "sendable cmd" by (simp add: reported_once_def)
  from dispatch_steps [OF this 13(2)] 13(1) show ?case using step_reports [of s s' ev evs] by (simp add: reported_once_def)
qed

lemma submit_all_window:
  assumes "\<And>a s. wi_set_window W a s = s\<lparr>cl_admission := a\<rparr>"
  shows "submit_all W cmds s ch = (s', ch') \<Longrightarrow> \<exists>a sent. s' = s\<lparr>cl_admission := a\<rparr> \<and> ch' = ch @ sent \<and> set sent \<subseteq> set cmds"
proof (induction cmds arbitrary: s ch)
  case Nil
  then show ?case by (intro exI [of _ "cl_admission s"] exI [of _ "[]"]) simp
next
  case (Cons cmd cmds)
  obtain r adm where a: "try_admit (wi_window W s) (wi_units W cmd) = (r, adm)" by fastforce
  from Cons.prems a have "submit_all W cmds (s\<lparr>cl_admission := adm\<rparr>) (if r then ch @ [cmd] else ch) = (s', ch')"
    by (simp add: assms)
  from Cons.IH [OF this] show ?case by (auto split: if_splits)
qed

lemma loop_writers_window:
  assumes "\<And>a s. wi_set_window W a s = s\<lparr>cl_admission := a\<rparr>" "sr_writers (lq_around (loop_params H W I X D addr)) n s ch = (s', ch')"
  shows "\<exists>a sent. s' = s\<lparr>cl_admission := a\<rparr> \<and> ch' = ch @ sent \<and> (\<forall>cmd \<in> set sent. wi_ok W cmd)"
  using submit_all_window [OF assms(1)] assms(2) unfolding loop_params_simps by fastforce

interpretation quic_client_reports: closing_loop "quic_client_loop L I X D addr" "kc_ok L" kc_cmd_ok "kc_step L"
proof (unfold_locales, goal_cases)
  case (1 s b s' b')
  then show ?case by (rule kc_step_settles)
next
  case (2 cmd n s stop s' ev)
  then show ?case by (auto simp: quic_client_handler_def kc_step_def split: prod.splits)
next
  case (12 n s ch s' ch')
  from loop_writers_window [OF _ this] show ?case by simp
qed (auto simp: quic_client_handler_def kc_step_def intro: kc_background.intros split: prod.splits)

interpretation h3_client_reports: closing_loop "h3_client_loop L I X D addr" "jc_ok L" jc_cmd_ok "jc_step L"
proof (unfold_locales, goal_cases)
  case (1 s b s' b')
  then show ?case by (rule jc_step_settles)
next
  case (2 cmd n s stop s' ev)
  then show ?case by (auto simp: h3_client_handler_def jc_step_def split: prod.splits)
next
  case (12 n s ch s' ch')
  from loop_writers_window [OF _ this] show ?case by simp
qed (auto simp: h3_client_handler_def jc_step_def intro: jc_background.intros split: prod.splits)

subsection \<open>Properties of the loops\<close>




text \<open>
  C13. The loop of a QUIC client tells JavaScript at most once that the session closed. In every run, however
  packets, timers, commands, failures of the driver and the end of the loop follow each other, the batches
  handed over and the one that waits contain together at most one session close.
\<close>

theorem quic_client_loop_closes_once:
  assumes L: "quic_lib_laws (kl_lib L) sent finned" and x: "kc_fresh L (lp_handler x)" "lp_channel x = []"
    and b: "lp_batcher x = with_sink sink g" "tf_calls sink = []"
    and r: "run_event_loop (quic_client_loop L I X D addr) n x = Some (y, e)"
  shows "length (filter (\<lambda>ev. event_type ev = EVENT_SESSION_CLOSE)
      (concat (sent_batches (lp_batcher y)) @ eb_batch (lp_batcher y))) \<le> (if cl_closed_emitted (lp_handler y) then 1 else 0)"
proof -
  have "quic_lib_ok (kl_lib L)" using L unfolding quic_lib_ok_def by blast
  from kc_fresh_typed [OF this x(1)] x(2) b have "loop_holds (reported_once (kc_ok L) kc_cmd_ok) x"
    by (simp add: loop_holds_def reported_once_def batcher_events_def sent_batches_def with_sink_def)
  from keepsD [OF quic_client_reports.reports.keeps_run this r]
  have "closes (batcher_events (lp_batcher y)) \<le> of_bool (cl_closed_emitted (lp_handler y))"
    by (simp add: loop_holds_def reported_once_def)
  from closes_bound [OF this] show ?thesis unfolding batcher_events_def .
qed

text \<open>
  C12. The loop of an HTTP/3 client tells JavaScript at most once that the session closed, in the same sense.
\<close>

theorem h3_client_loop_closes_once:
  assumes L: "lib_laws (jl_lib L) got sent finned" and x: "jc_fresh L (lp_handler x)" "lp_channel x = []"
    and b: "lp_batcher x = with_sink sink g" "tf_calls sink = []"
    and r: "run_event_loop (h3_client_loop L I X D addr) n x = Some (y, e)"
  shows "length (filter (\<lambda>ev. event_type ev = EVENT_SESSION_CLOSE)
      (concat (sent_batches (lp_batcher y)) @ eb_batch (lp_batcher y))) \<le> (if cl_closed_emitted (lp_handler y) then 1 else 0)"
proof -
  have "lib_ok (jl_lib L)" using L unfolding lib_ok_def by blast
  from jc_fresh_typed [OF this x(1)] x(2) b have "loop_holds (reported_once (jc_ok L) jc_cmd_ok) x"
    by (simp add: loop_holds_def reported_once_def batcher_events_def sent_batches_def with_sink_def)
  from keepsD [OF h3_client_reports.reports.keeps_run this r]
  have "closes (batcher_events (lp_batcher y)) \<le> of_bool (cl_closed_emitted (lp_handler y))"
    by (simp add: loop_holds_def reported_once_def)
  from closes_bound [OF this] show ?thesis unfolding batcher_events_def .
qed

subsection \<open>Runs on which the hypotheses hold\<close>

text \<open>A driver that never receives, and one whose poll fails.\<close>

definition idle_driver :: "unit driver" where
  "idle_driver = \<lparr>dr_poll = (\<lambda>_ d. (Inr [], d)), dr_submit_sends = (\<lambda>_ d. (Inr (), d)), dr_pending_tx_count = (\<lambda>_. 0),
     dr_drain_recycled_tx = (\<lambda>d. d), dr_kind = Poll\<rparr>"

definition failing_driver :: "unit driver" where
  "failing_driver = idle_driver\<lparr>dr_poll := (\<lambda>_ d. (Inl \<lparr>raw_os_error = Some 9, io_message = ''bad descriptor''\<rparr>, d))\<rparr>"

definition sample_inputs :: handler_inputs where
  "sample_inputs = \<lparr>hi_now = (\<lambda>n. n), hi_secs = (\<lambda>_. 0), hi_rng = (\<lambda>_. None), hi_rngs = (\<lambda>_. []), hi_fuel = 1\<rparr>"

definition sample_outside :: "'c list \<Rightarrow> 'c outside" where
  "sample_outside cmds = \<lparr>os_ms = (\<lambda>n. n), os_commands = (\<lambda>n. if n = 0 then cmds else []), os_gauge = (\<lambda>_ g. g)\<rparr>"

definition sample_loop :: "'s \<Rightarrow> 'c list \<Rightarrow> ('s, 'c, unit) loop_state" where
  "sample_loop s ch = \<lparr>lp_handler = s, lp_channel = ch, lp_driver = (), lp_batcher = with_sink sample_sink sample_gauge,
     lp_pending_outbound = [], lp_poll_now = False, lp_clock = 0\<rparr>"

lemma sample_loop_simps [simp]:
  "lp_handler (sample_loop s ch) = s" "lp_channel (sample_loop s ch) = ch" "lp_batcher (sample_loop s ch) = with_sink sample_sink sample_gauge"
  "tf_calls sample_sink = []" "eb_batch (with_sink sink g) = []" "eb_sink (with_sink sink g) = sink"
  "self_heal_event_batch_if_stuck_at APP_EVENT_PAUSE_HIGH_WATER n t (eb_gauge (with_sink sink sample_gauge)) = (0, sample_gauge)"
  by (simp_all add: sample_loop_def sample_sink_def with_sink_def self_heal_event_batch_if_stuck_at_def sample_gauge_def)

lemma sample_surround:
  "surround (lq_around (loop_params H W I (sample_outside []) D addr)) x = x\<lparr>lp_clock := Suc (lp_clock x)\<rparr>"
  by (simp add: surround_def loop_params_def sample_outside_def)

lemma finish_events_handler: "lp_handler (finish_events P x) = lp_handler x"
  by (simp add: finish_events_def flush_batcher_def Let_def split: prod.splits)

text \<open>A first poll that fails.\<close>

lemma failing_run:
  fixes H :: "('s, 'c) protocol_handler" and W :: "('s, 'c) worker_iface" and I :: handler_inputs and addr :: socket_addr
  defines "P \<equiv> loop_params H W I (sample_outside []) failing_driver addr"
  assumes "ph_flush_sends H 1 s [] = Some (s1, [])" "ph_next_deadline H s1 = (d, s1)"
    "ph_emit_session_close_for_all_active H s1 [] = (s2, [ev_session_close 0])"
  shows "\<exists>y err. run_event_loop P 1 (sample_loop s []) = Some (y, Some ExitRuntimeError) \<and> lp_handler y = s2
    \<and> eb_batch (lp_batcher y) = []
    \<and> sent_batches (lp_batcher y) = [[ev_session_close 0, ev_runtime_error 0 ''poll'' ''poll'' ''driver-poll-failed'' err], [ev_shutdown_complete]]"
proof -
  let ?x = "sample_loop s [] :: ('s, 'c, unit) loop_state" and ?err = "\<lparr>raw_os_error = Some 9, io_message = ''bad descriptor''\<rparr>"
  have clock: "lp_clock ?x = 0" and now: "\<not> lp_poll_now ?x" by (simp_all add: sample_loop_def)
  have send: "send_outbound P ?x = Some (?x\<lparr>lp_clock := 1, lp_handler := s1\<rparr>, None)"
    using assms(2) clock by (simp add: send_outbound_def P_def sample_surround Let_def submit_datagrams_def)
  let ?x1 = "?x\<lparr>lp_clock := 1, lp_handler := s1\<rparr>"
  obtain y0 where poll: "poll_driver P ?x1 = (Inl ?err, y0)" and y0: "lp_handler y0 = s1" "eb_batch (lp_batcher y0) = []" "sent_batches (lp_batcher y0) = []"
    using assms(3) now
    by (simp add: poll_driver_def P_def sample_surround Let_def failing_driver_def sent_batches_def split: prod.splits)
  let ?y = "flush_runtime_error P ''poll'' ''driver-poll-failed'' ?err y0"
  have "run_event_loop P 1 ?x = Some (?y, Some ExitRuntimeError)"
    using send poll by (simp add: run_event_loop_def act_then_def loop_tick_def)
  moreover have "lp_handler ?y = s2" "eb_batch (lp_batcher ?y) = []"
    "sent_batches (lp_batcher ?y) = [[ev_session_close 0, ev_runtime_error 0 ''poll'' ''poll'' ''driver-poll-failed'' ?err], [ev_shutdown_complete]]"
    using assms(4) y0
    by (simp_all add: flush_runtime_error_def finish_events_sent finish_events_handler P_def failing_driver_def idle_driver_def)
      (simp add: sent_batches_def)
  ultimately show ?thesis by blast
qed

lemma sample_kc_sends:
  "\<exists>c d. kc_flush_sends loopback_api now (Suc 0) s out = Some (s\<lparr>cl_conn := c, cl_deadline := d\<rparr>, out)"
proof -
  obtain c' where "kc_next_packet loopback_api (cl_conn s) = (None, c')"
    by (simp add: kc_next_packet_def quic_send_def loopback_api_def split: prod.splits)
  then show ?thesis
    by (intro exI [of _ c'] exI [of _ None]) (simp add: kc_flush_sends_def cl_flush_sends_def cl_try_send_next_def cl_refresh_deadline_def
        kc_timeout_def loopback_api_def)
qed

lemma sample_jc_sends:
  "\<exists>c d. jc_flush_sends loopback_api now (Suc 0) s out = Some (s\<lparr>cl_conn := c, cl_deadline := d\<rparr>, out)"
proof -
  obtain c' where "jc_next_packet loopback_api (cl_conn s) = (None, c')"
    by (simp add: jc_next_packet_def h3_send_def loopback_api_def split: prod.splits)
  then show ?thesis
    by (intro exI [of _ c'] exI [of _ None]) (simp add: jc_flush_sends_def cl_flush_sends_def cl_try_send_next_def cl_refresh_deadline_def
        jc_timeout_def loopback_api_def)
qed

abbreviation sample_kc_loop :: "(loopback quic_client, quic_client_command, unit) loop_params" where
  "sample_kc_loop \<equiv> quic_client_loop sample_kl sample_inputs (sample_outside []) failing_driver (V4 1 2)"

lemma sample_kc_fails:
  "\<exists>y err. run_event_loop sample_kc_loop 1 (sample_loop sample_kc []) = Some (y, Some ExitRuntimeError)
     \<and> eb_batch (lp_batcher y) = []
     \<and> sent_batches (lp_batcher y) = [[ev_session_close 0, ev_runtime_error 0 ''poll'' ''poll'' ''driver-poll-failed'' err], [ev_shutdown_complete]]"
proof -
  from sample_kc_sends [of 1 sample_kc "[]"] obtain c d where
    s: "kc_flush_sends loopback_api 1 (Suc 0) sample_kc [] = Some (sample_kc\<lparr>cl_conn := c, cl_deadline := d\<rparr>, [])" by blast
  let ?s = "sample_kc\<lparr>cl_conn := c, cl_deadline := d\<rparr>"
  have "ph_flush_sends (quic_client_handler sample_kl sample_inputs) 1 sample_kc [] = Some (?s, [])"
    "ph_next_deadline (quic_client_handler sample_kl sample_inputs) ?s = (d, ?s)"
    "ph_emit_session_close_for_all_active (quic_client_handler sample_kl sample_inputs) ?s []
       = (?s\<lparr>cl_closed_emitted := True\<rparr>, [ev_session_close 0])"
    using s by (simp_all add: quic_client_handler_def sample_inputs_def cl_emit_session_close_for_all_active_def sample_kc_def)
  from failing_run [OF this, of "kc_iface sample_kl" sample_inputs "V4 1 2"] show ?thesis by blast
qed

theorem quic_client_loop_closes_once_witness:
  "\<exists>y. run_event_loop sample_kc_loop 1 (sample_loop sample_kc []) = Some (y, Some ExitRuntimeError)
     \<and> ev_session_close 0 \<in> set (concat (sent_batches (lp_batcher y)))
     \<and> length (filter (\<lambda>ev. event_type ev = EVENT_SESSION_CLOSE) (concat (sent_batches (lp_batcher y)) @ eb_batch (lp_batcher y)))
         \<le> (if cl_closed_emitted (lp_handler y) then 1 else 0)"
proof -
  from sample_kc_fails obtain y err where y: "run_event_loop sample_kc_loop 1 (sample_loop sample_kc []) = Some (y, Some ExitRuntimeError)"
    "sent_batches (lp_batcher y) = [[ev_session_close 0, ev_runtime_error 0 ''poll'' ''poll'' ''driver-poll-failed'' err], [ev_shutdown_complete]]"
    by blast
  have "quic_lib_laws (kl_lib sample_kl) lb_sent lb_fin" using sample_qlib_laws by simp
  from quic_client_loop_closes_once [OF this _ _ sample_loop_simps(3,4) y(1)] sample_clients_fresh(1) y show ?thesis
    by (intro exI [of _ y]) simp
qed


theorem h3_client_loop_closes_once_witness:
  "\<exists>y. run_event_loop (h3_client_loop sample_jl sample_inputs (sample_outside []) failing_driver (V4 1 2)) 1 (sample_loop sample_jc [])
       = Some (y, Some ExitRuntimeError)
     \<and> ev_session_close 0 \<in> set (concat (sent_batches (lp_batcher y)))
     \<and> length (filter (\<lambda>ev. event_type ev = EVENT_SESSION_CLOSE) (concat (sent_batches (lp_batcher y)) @ eb_batch (lp_batcher y)))
         \<le> (if cl_closed_emitted (lp_handler y) then 1 else 0)"
proof -
  from sample_jc_sends [of 1 sample_jc "[]"] obtain c d where
    s: "jc_flush_sends loopback_api 1 (Suc 0) sample_jc [] = Some (sample_jc\<lparr>cl_conn := c, cl_deadline := d\<rparr>, [])" by blast
  let ?s = "sample_jc\<lparr>cl_conn := c, cl_deadline := d\<rparr>"
  have "ph_flush_sends (h3_client_handler sample_jl sample_inputs) 1 sample_jc [] = Some (?s, [])"
    "ph_next_deadline (h3_client_handler sample_jl sample_inputs) ?s = (d, ?s)"
    "ph_emit_session_close_for_all_active (h3_client_handler sample_jl sample_inputs) ?s []
       = (?s\<lparr>cl_closed_emitted := True\<rparr>, [ev_session_close 0])"
    using s by (simp_all add: h3_client_handler_def sample_inputs_def cl_emit_session_close_for_all_active_def sample_jc_def)
  from failing_run [OF this, of "jc_iface sample_jl" sample_inputs "V4 1 2"] obtain y err where
    y: "run_event_loop (h3_client_loop sample_jl sample_inputs (sample_outside []) failing_driver (V4 1 2)) 1 (sample_loop sample_jc [])
       = Some (y, Some ExitRuntimeError)"
    "sent_batches (lp_batcher y) = [[ev_session_close 0, ev_runtime_error 0 ''poll'' ''poll'' ''driver-poll-failed'' err], [ev_shutdown_complete]]"
    by blast
  have "lib_laws (jl_lib sample_jl) sc_got (\<lambda>(s, q). lb_sent q) (\<lambda>(s, q). lb_fin q)" using sample_lib_laws by simp
  from h3_client_loop_closes_once [OF this _ _ sample_loop_simps(3,4) y(1)] sample_clients_fresh(2) y show ?thesis
    by (intro exI [of _ y]) simp
qed

lemma sample_kc_returns: "handler_returns (quic_client_handler sample_kl sample_inputs)"
  using sample_kc_sends by (simp add: handler_returns_def quic_client_handler_def sample_inputs_def split: prod.splits) (metis option.simps(3))



end
