(* ===== verification/Spec2Isabelle.thy ===== *)
theory Spec2Isabelle
  imports Admission_Concurrency Pending_Write_Fuzz Buffer_Pool Timer_Heap Connection_Map Server_Sharding
    Stream_Tracking Gso H3_Runs H3_Server_Props Loop_Props
begin

text \<open>
  A verification of the native HTTP/3 and QUIC runtime under \<^verbatim>\<open>src/src\<close>.

  \<^bold>\<open>The program.\<close> The repository is an HTTP/3 and QUIC library for Node. JavaScript calls methods that
  turn into commands; each command goes through a channel to a worker thread, and what the worker has
  to say comes back as a batch of events. A server has one or more workers (\<^verbatim>\<open>H3ServerHandler\<close> of
  \<^verbatim>\<open>worker.rs\<close>, \<^verbatim>\<open>QuicServerHandler\<close> of \<^verbatim>\<open>quic_worker.rs\<close>), a client has one handler for its connection
  (\<^verbatim>\<open>H3ClientHandler\<close>, \<^verbatim>\<open>QuicClientHandler\<close>). A worker takes commands, packets and timers, drives the
  connections it holds, collects events, sends packets, and keeps the bytes that a stream could not take
  for later. How many bytes may be on their way from JavaScript to the streams is bounded by an
  admission window. The transport protocol itself is quiche; sockets are driven by poll, kqueue or
  io_uring.

  \<^bold>\<open>The theories\<close>, in the order of their imports, and the sources each models.

  \<^item> \<open>Rust_Prelude\<close>: machine integers, checked and saturating arithmetic, \<^verbatim>\<open>Vec\<close> with its capacity,
    \<^verbatim>\<open>HashMap\<close> as an association list whose order is the iteration order, and the shared lemmas.
  \<^item> \<open>Admission\<close> (\<^verbatim>\<open>proof_core/admission.rs\<close>, \<^verbatim>\<open>outbound_admission.rs\<close>, \<^verbatim>\<open>write_outcome.rs\<close>) is the window run
    alone; \<open>Admission_Concurrency\<close> has one step per atomic access, with one writer, any number of releasers
    and, as a variant, a store buffer.
  \<^item> \<open>Size_Classes\<close>, \<open>Chunk_Pool\<close>, \<open>Arc_Buf\<close>, \<open>Buffer_Pool\<close>: the pools of reusable memory (\<^verbatim>\<open>chunk_pool.rs\<close>,
    \<^verbatim>\<open>arc_buf.rs\<close>, \<^verbatim>\<open>buffer_pool.rs\<close>, the receive buffer of \<^verbatim>\<open>unsafe_boundary.rs\<close> and their pure cores). Shared
    buffers are handles into a store of reference-counted allocations.
  \<^item> \<open>Pending_Write\<close>, \<open>Pending_Write_Fuzz\<close> (\<^verbatim>\<open>pending_write.rs\<close>): the queue of bytes of one stream against any
    sender that keeps the sender contract, and the fuzzing harness as theorems.
  \<^item> \<open>Timer_Heap\<close> (\<^verbatim>\<open>timer_heap.rs\<close>), \<open>Native_Error\<close> (\<^verbatim>\<open>error.rs\<close>), \<open>Cid\<close> (\<^verbatim>\<open>cid.rs\<close>), \<open>Retry_Token\<close>
    (\<^verbatim>\<open>retry_token.rs\<close>), \<open>Connection_Map\<close> (\<^verbatim>\<open>connection_map.rs\<close>), \<open>Server_Sharding\<close> (\<^verbatim>\<open>server_sharding.rs\<close>),
    \<open>Stream_Tracking\<close> (\<^verbatim>\<open>proof_core/stream_tracking.rs\<close>), \<open>Cmsg\<close> (control messages and buffer rings), \<open>Gso\<close>
    (\<^verbatim>\<open>datagram.rs\<close>, \<^verbatim>\<open>transport/mod.rs\<close>, the send side of \<^verbatim>\<open>transport/poll.rs\<close>).
  \<^item> \<open>H3_Event\<close> (\<^verbatim>\<open>h3_event.rs\<close>), \<open>Quiche_Api\<close> (the library as a parameter, \<^verbatim>\<open>ping_state.rs\<close>),
    \<open>Quic_Connection\<close> (\<^verbatim>\<open>quic_connection.rs\<close>), \<open>H3_Connection\<close> (\<^verbatim>\<open>connection.rs\<close>); \<open>H3_Delivery\<close>,
    \<open>H3_Termination\<close> and \<open>H3_Runs\<close> are about the latter.
  \<^item> \<open>Worker_Pending\<close> (\<^verbatim>\<open>worker/pending.rs\<close>, \<^verbatim>\<open>quic_worker/pending.rs\<close>): the held writes of a worker.
  \<^item> \<open>H3_Server\<close> (\<^verbatim>\<open>H3ServerHandler\<close>), with its proofs in \<open>H3_Server_Types\<close>, \<open>H3_Server_Quiet\<close>,
    \<open>H3_Server_Runs\<close> and \<open>H3_Server_Props\<close>; \<open>Quic_Server\<close> (\<^verbatim>\<open>QuicServerHandler\<close>), with \<open>Quic_Server_Runs\<close> and
    \<open>Quic_Server_Props\<close>.
  \<^item> \<open>Client_Core\<close>, \<open>H3_Client\<close>, \<open>Quic_Client\<close> (\<^verbatim>\<open>H3ClientHandler\<close>, \<^verbatim>\<open>QuicClientHandler\<close>), with \<open>Client_Closes\<close>,
    \<open>Client_Runs\<close> and \<open>Client_Props\<close>.
  \<^item> \<open>Worker_System\<close>: what the four workers have in common, as one contract.
  \<^item> \<open>Event_Batcher\<close> (\<^verbatim>\<open>EventBatcher\<close> and its sink in \<^verbatim>\<open>event_loop.rs\<close>, the gauge of unacknowledged events in
    \<^verbatim>\<open>reactor_metrics.rs\<close>), \<open>Event_Loop\<close> (\<^verbatim>\<open>run_event_loop\<close>, generic in the traits \<^verbatim>\<open>ProtocolHandler\<close> and \<^verbatim>\<open>Driver\<close>),
    with its proofs in \<open>Event_Loop_Runs\<close>; \<open>Loop_Props\<close> runs the four handlers in the loop.

  \<^bold>\<open>How the model corresponds to the code.\<close> A struct is a record with the fields of the source, an enum is
  a datatype with its variants, and a method is a definition of its name that returns the new state
  beside its result. An operation that appends to an event batch takes and returns the batch. \<^verbatim>\<open>Result\<close> is a
  sum with the error on the left. \<^verbatim>\<open>usize\<close> is \<^typ>\<open>nat\<close> with its bound where a bound matters, other
  integers are words. quiche, its HTTP/3 layer, the slab's choice of a key, HMAC, random bytes, the clock
  and the answers of system calls are arguments; what is relied on of them are the laws
  \<open>quiche_send_laws\<close>, \<open>quiche_recv_laws\<close>, \<open>h3_recv_laws\<close>, \<open>h3_supply_laws\<close> and \<open>h3_send_laws\<close>, each
  with an instance on which a witness evaluates.

  \<^bold>\<open>Contracts.\<close> \<open>size_class_table\<close>, \<open>stream_sender\<close>, \<open>min_heap\<close>, \<open>connection_registry\<close> and \<open>command_worker\<close> are locales between a component
  and its clients. \<open>command_worker\<close> says what a worker promises of one command and of its background
  work, and derives over every run that the window is exact; it is interpreted on both servers and both
  clients. \<open>client_connection\<close> says what the client handlers rely on of a connection, and is interpreted
  on the QUIC and the HTTP/3 connection. \<open>loop_quiet\<close> and \<open>loop_invariant\<close> say what the operations of a handler
  have to keep for the whole loop to keep it. \<open>worker_loop\<close>, interpreted on all four handlers, makes the loop a
  run of the worker system; \<open>closing_loop\<close>, interpreted on both clients, bounds the reports of a closing.

  \<^bold>\<open>What is shown.\<close>

  \<^item> Over every run of a worker with its writers: the window counts exactly the units of queued commands,
    of held writes and responses, and the units that the code is known to lose (a FIN joined to a held
    write that already has bytes); the tables, timers and every connection stay well formed.
  \<^item> Polling delivers exactly the bytes taken from the transport, in order and once, within the event
    budget and the read credit, and returns.
  \<^item> A sweep over the held writes conserves units and bytes; reaping resets exactly the streams that are
    abandoned.
  \<^item> The event loop: each of its runs is a run of the worker with its writers, so what is shown of all such
    runs holds in the loop; it obeys a shutdown within the rounds that drain the commands before it, ends
    with the mark that nothing follows, sends events in whole groups and in order, and a client's loop
    reports the closing of its session at most once.
  \<^item> The window under interleaving: exact, without lost wake-ups under sequential consistency, and with a
    lost wake-up when a store may be delayed past a load.
  \<^item> Routing, tokens and identifiers: isolation of accepted connections, tokens bound to peer and time,
    round trips of the codecs.
  \<^item> Segmentation offload and the poll driver lose, repeat and reorder no datagram; memory pools keep their
    size classes; shared buffers behave as values.
  \<^item> Where the code does not do what it means to, the theorem says what it does: reset codes are truncated,
    FIN units are lost, commands report streams under a handle that belongs to another worker, and the
    gauge of unacknowledged events can stick at its mark.

  \<^bold>\<open>Bounds and fuel.\<close> Loops that end only because of the library's behaviour (polling events, sending,
  draining) take fuel and give \<^const>\<open>None\<close> when it runs out. \<open>h3_poll_returns\<close> gives the amount that is
  enough for a poll: a bound on the events the library has queued, whatever the budget. The event loop runs
  for a given number of rounds and needs no fuel of its own. All other recursion is structural or has a
  termination proof.

  \<^bold>\<open>Not modelled.\<close> Telemetry (\<^verbatim>\<open>reactor_metrics.rs\<close> but for the gauge), qlog and key logs, since no other state depends
  on them; the shared client reactor, which runs several client handlers over one socket; the glue of \<^verbatim>\<open>lib.rs\<close>, \<^verbatim>\<open>server.rs\<close>, \<^verbatim>\<open>client.rs\<close> and their QUIC counterparts to napi; the bodies of
  system calls (\<^verbatim>\<open>transport/socket.rs\<close>, \<^verbatim>\<open>kqueue.rs\<close>, \<^verbatim>\<open>macos_msg_x.rs\<close>, \<^verbatim>\<open>io_uring.rs\<close> apart from its retry
  queue), whose effects are in the kernel; the conversion of options into a quiche configuration
  (\<^verbatim>\<open>config.rs\<close>), which only calls setters of the library; the mock transports and load generators under
  \<^verbatim>\<open>profile\<close> and \<^verbatim>\<open>transport/mock.rs\<close>; the TypeScript layer under \<^verbatim>\<open>lib\<close>; the wasm crate; and quiche itself,
  vendored and a parameter here.
\<close>

end
